(* ===== verification/Prelude.thy ===== *)
theory Prelude
  imports
    Main
    "HOL-Library.Word"
    "HOL-Library.AList"
    "HOL-Library.Char_ord"
    "HOL-Library.List_Lexorder"
    "HOL-Library.Multiset"
begin

text \<open>
  The vocabulary every component of the DBX development shares: Go byte strings and slices,
  64-bit integers with their wrap-around, results with errors and panics as values, Go maps as
  association lists, and the fragment of \<^verbatim>\<open>strconv\<close> and \<^verbatim>\<open>strings\<close> that the engine calls
  (\<^verbatim>\<open>ParseInt\<close>, \<^verbatim>\<open>Atoi\<close>, \<^verbatim>\<open>FormatInt\<close>, \<^verbatim>\<open>ToUpper\<close>), with the round trip between printing and
  parsing a 64-bit integer.
\<close>

named_theorems gomap_simps "laws of Go maps modelled as association lists"
named_theorems i64_simps "evaluation of 64-bit wrap-around inside the representable range"

section \<open>Byte strings and slices\<close>

text \<open>
  A Go \<^verbatim>\<open>string\<close> is a sequence of bytes, so \<^typ>\<open>string\<close> (a list of 8-bit characters)
  models it exactly. A \<^verbatim>\<open>[]byte\<close> is either the nil slice or a sequence of bytes; the RESP writer
  tells the two apart, so a slice is an option.
\<close>

type_synonym bytes = string
type_synonym slice = "bytes option"

definition sl :: "slice \<Rightarrow> bytes" where
  "sl s = (case s of None \<Rightarrow> [] | Some b \<Rightarrow> b)"

lemma sl_simps [simp]: "sl None = []" "sl (Some b) = b"
  by (simp_all add: sl_def)

text \<open>
  The idiom \<^verbatim>\<open>append([]byte(nil), v...)\<close> copies the bytes of a slice; on an empty slice it
  yields the nil slice, because appending nothing to nil leaves nil.
\<close>

definition nil_append :: "bytes \<Rightarrow> slice" where
  "nil_append b = (if b = [] then None else Some b)"

lemma sl_nil_append [simp]: "sl (nil_append b) = b"
  by (simp add: nil_append_def)

text \<open>The Go slice expression \<^verbatim>\<open>xs[a:b]\<close> for indices that are in range.\<close>

definition subslice :: "'a list \<Rightarrow> nat \<Rightarrow> nat \<Rightarrow> 'a list" where
  "subslice xs a b = take (b - a) (drop a xs)"

lemma length_subslice [simp]: "a \<le> b \<Longrightarrow> b \<le> length xs \<Longrightarrow> length (subslice xs a b) = b - a"
  by (simp add: subslice_def)

lemma nth_subslice: "i < b - a \<Longrightarrow> b \<le> length xs \<Longrightarrow> subslice xs a b ! i = xs ! (a + i)"
  by (simp add: subslice_def)

section \<open>64-bit integers\<close>

text \<open>Go's \<^verbatim>\<open>int64\<close> (and \<^verbatim>\<open>int\<close> on the 64-bit targets) as an integer kept in range by its
  two's-complement wrap-around.\<close>

definition i64 :: "int \<Rightarrow> int" where
  "i64 x = (x + 9223372036854775808) mod 18446744073709551616 - 9223372036854775808"

definition max_int64 :: int where "max_int64 = 9223372036854775807"
definition min_int64 :: int where "min_int64 = - 9223372036854775808"

definition in_i64 :: "int \<Rightarrow> bool" where
  "in_i64 x \<longleftrightarrow> min_int64 \<le> x \<and> x \<le> max_int64"

lemma i64_range: "in_i64 (i64 x)"
proof -
  have "0 \<le> (x + 9223372036854775808) mod 18446744073709551616"
    and "(x + 9223372036854775808) mod 18446744073709551616 < 18446744073709551616"
    by simp_all
  then show ?thesis by (simp add: in_i64_def i64_def min_int64_def max_int64_def)
qed

lemma i64_id [i64_simps]: "in_i64 x \<Longrightarrow> i64 x = x"
  by (simp add: in_i64_def i64_def min_int64_def max_int64_def)

lemma i64_idem [simp]: "i64 (i64 x) = i64 x"
  by (simp add: i64_id i64_range)

lemma i64_small [i64_simps]:
  "- 9223372036854775808 \<le> x \<Longrightarrow> x < 9223372036854775808 \<Longrightarrow> i64 x = x"
  by (simp add: i64_def)

lemma i64_0 [simp]: "i64 0 = 0"
  by (simp add: i64_def)

text \<open>Go's integer division truncates towards zero.\<close>

definition go_div :: "int \<Rightarrow> int \<Rightarrow> int" where
  "go_div a b = sgn a * sgn b * (\<bar>a\<bar> div \<bar>b\<bar>)"

lemma go_div_nonneg: "0 \<le> a \<Longrightarrow> 0 < b \<Longrightarrow> go_div a b = a div b"
  by (cases "a = 0") (simp_all add: go_div_def)

definition second :: int where "second = 1000000000"

section \<open>Results\<close>

text \<open>
  Errors are values. \<^verbatim>\<open>util.DBXError\<close> values that the engine compares or prints have their own
  constructors; an error built with \<^verbatim>\<open>fmt.Errorf\<close> carries its text. A run-time panic (a failed
  type assertion, an index out of range) is a third outcome, because \<^verbatim>\<open>Executor.Execute\<close> recovers
  it.
\<close>

datatype gerr =
    ErrNotFound
  | ErrWrongType
  | ErrOutOfRange
  | ErrSyntax
  | ErrIndexRange
  | ErrMsg string

datatype 'a res = Ok 'a | Err gerr | Panic

fun bind_res :: "'a res \<Rightarrow> ('a \<Rightarrow> 'b res) \<Rightarrow> 'b res" where
  "bind_res (Ok a) f = f a"
| "bind_res (Err e) f = Err e"
| "bind_res Panic f = Panic"

fun is_ok :: "'a res \<Rightarrow> bool" where
  "is_ok (Ok _) = True"
| "is_ok (Err _) = False"
| "is_ok Panic = False"

section \<open>Go maps\<close>

text \<open>
  A Go map is an association list with distinct keys. Lookup, store and delete are those of
  \<^verbatim>\<open>HOL-Library.AList\<close>; a \<^verbatim>\<open>range\<close> loop visits the list in order, one of the orders Go allows,
  and every theorem about such a loop is stated up to that order.
\<close>

type_synonym ('k, 'v) gomap = "('k \<times> 'v) list"

definition wf_map :: "('k, 'v) gomap \<Rightarrow> bool" where
  "wf_map m \<longleftrightarrow> distinct (map fst m)"

lemma wf_map_Nil [simp]: "wf_map []"
  by (simp add: wf_map_def)

lemma wf_map_update [simp]: "wf_map m \<Longrightarrow> wf_map (AList.update k v m)"
  by (simp add: wf_map_def distinct_update)

lemma wf_map_delete [simp]: "wf_map m \<Longrightarrow> wf_map (AList.delete k m)"
  by (simp add: wf_map_def distinct_delete)

lemma wf_map_filter: "wf_map m \<Longrightarrow> wf_map (filter P m)"
  by (auto simp: wf_map_def distinct_map intro: inj_on_subset)

lemma map_of_update [gomap_simps, simp]:
  "map_of (AList.update k v m) x = (if x = k then Some v else map_of m x)"
  by (simp add: update_conv')

lemma map_of_delete [gomap_simps, simp]:
  "map_of (AList.delete k m) x = (if x = k then None else map_of m x)"
  by (simp add: delete_conv')

lemma map_of_iff_mem: "wf_map m \<Longrightarrow> map_of m k = Some v \<longleftrightarrow> (k, v) \<in> set m"
  by (simp add: wf_map_def)

lemma map_of_filter_wf:
  assumes "wf_map m"
  shows "map_of (filter P m) k =
    (case map_of m k of None \<Rightarrow> None | Some v \<Rightarrow> if P (k, v) then Some v else None)"
proof (cases "map_of m k")
  case None
  then have "k \<notin> fst ` set m" by (simp add: map_of_eq_None_iff)
  then have "k \<notin> fst ` set (filter P m)" by auto
  then have "map_of (filter P m) k = None" by (simp add: map_of_eq_None_iff)
  with None show ?thesis by simp
next
  case (Some v)
  with assms have mem: "(k, v) \<in> set m" by (simp add: map_of_iff_mem)
  have wf: "wf_map (filter P m)" using assms by (rule wf_map_filter)
  show ?thesis
  proof (cases "P (k, v)")
    case True
    with mem have "(k, v) \<in> set (filter P m)" by simp
    with wf Some True show ?thesis by (simp add: map_of_iff_mem)
  next
    case False
    have "v' = v" if "(k, v') \<in> set m" for v'
      using that assms Some by (simp add: map_of_iff_mem flip: map_of_iff_mem)
    with False have "k \<notin> fst ` set (filter P m)" by auto
    then have "map_of (filter P m) k = None" by (simp add: map_of_eq_None_iff)
    with Some False show ?thesis by simp
  qed
qed

lemma length_update_new: "map_of m k = None \<Longrightarrow> length (AList.update k v m) = Suc (length m)"
  by (induction m) (auto split: if_splits)

lemma length_update_old: "map_of m k = Some w \<Longrightarrow> length (AList.update k v m) = length m"
  by (induction m) (auto split: if_splits)

lemma delete_absent: "map_of m k = None \<Longrightarrow> AList.delete k m = m"
  by (induction m) (auto split: if_splits)

lemma length_delete_present:
  "wf_map m \<Longrightarrow> map_of m k = Some v \<Longrightarrow> Suc (length (AList.delete k m)) = length m"
proof (induction m)
  case Nil
  then show ?case by simp
next
  case (Cons p m)
  obtain a b where p: "p = (a, b)" by (cases p)
  show ?case
  proof (cases "a = k")
    case True
    with Cons.prems p have "map_of m k = None"
      by (auto simp: wf_map_def map_of_eq_None_iff)
    then show ?thesis using p True by (simp add: delete_absent)
  next
    case False
    with Cons p show ?thesis by (simp add: wf_map_def)
  qed
qed

section \<open>strconv and strings\<close>

definition is_digit :: "char \<Rightarrow> bool" where
  "is_digit c \<longleftrightarrow> 48 \<le> (of_char c :: nat) \<and> (of_char c :: nat) \<le> 57"

definition digit_val :: "char \<Rightarrow> nat" where
  "digit_val c = (of_char c :: nat) - 48"

definition digit_char :: "nat \<Rightarrow> char" where
  "digit_char d = char_of (48 + d)"

datatype numerr = NumSyntax | NumRange

text \<open>The digit loop of \<^verbatim>\<open>strconv.ParseUint\<close> for base 10 and 64 bits: a bad character is a syntax
  error, passing \<open>2^64 - 1\<close> a range error, whichever comes first.\<close>

fun parse_digits :: "nat \<Rightarrow> string \<Rightarrow> numerr + nat" where
  "parse_digits n [] = Inr n"
| "parse_digits n (c # cs) =
     (if \<not> is_digit c then Inl NumSyntax
      else if n * 10 + digit_val c \<ge> 18446744073709551616 then Inl NumRange
      else parse_digits (n * 10 + digit_val c) cs)"

definition ParseUint :: "string \<Rightarrow> numerr + nat" where
  "ParseUint s = (if s = [] then Inl NumSyntax else parse_digits 0 s)"

text \<open>\<^verbatim>\<open>strconv.ParseInt(s, 10, 64)\<close> returns a value together with its error: 0 on a syntax error,
  the nearest bound on a range error.\<close>

definition ParseInt :: "string \<Rightarrow> int \<times> numerr option" where
  "ParseInt s =
     (let (neg, body) = (case s of
          [] \<Rightarrow> (False, [])
        | c # cs \<Rightarrow> if c = CHR ''+'' then (False, cs)
                   else if c = CHR ''-'' then (True, cs) else (False, s))
      in case ParseUint body of
           Inl NumSyntax \<Rightarrow> (0, Some NumSyntax)
         | Inl NumRange \<Rightarrow> (if neg then min_int64 else max_int64, Some NumRange)
         | Inr un \<Rightarrow>
             if \<not> neg \<and> int un > max_int64 then (max_int64, Some NumRange)
             else if neg \<and> - int un < min_int64 then (min_int64, Some NumRange)
             else (if neg then - int un else int un, None))"

text \<open>\<^verbatim>\<open>strconv.Atoi\<close> is \<^verbatim>\<open>ParseInt(s, 10, 0)\<close>, with 64-bit \<^verbatim>\<open>int\<close>.\<close>

definition Atoi :: "string \<Rightarrow> int \<times> numerr option" where
  "Atoi s = ParseInt s"

fun fmt_nat :: "nat \<Rightarrow> string" where
  "fmt_nat n = (if n < 10 then [digit_char n] else fmt_nat (n div 10) @ [digit_char (n mod 10)])"

declare fmt_nat.simps [simp del]

definition FormatInt :: "int \<Rightarrow> string" where
  "FormatInt n = (if n < 0 then CHR ''-'' # fmt_nat (nat (- n)) else fmt_nat (nat n))"

text \<open>ASCII case mapping, as \<^verbatim>\<open>strings.ToUpper\<close> and \<^verbatim>\<open>strings.ToLower\<close> do it on ASCII text.\<close>

definition upper_char :: "char \<Rightarrow> char" where
  "upper_char c =
     (let n = of_char c :: nat in if 97 \<le> n \<and> n \<le> 122 then char_of (n - 32) else c)"

definition lower_char :: "char \<Rightarrow> char" where
  "lower_char c =
     (let n = of_char c :: nat in if 65 \<le> n \<and> n \<le> 90 then char_of (n + 32) else c)"

definition ToUpper :: "string \<Rightarrow> string" where
  "ToUpper = map upper_char"

definition ToLower :: "string \<Rightarrow> string" where
  "ToLower = map lower_char"

definition HasPrefix :: "string \<Rightarrow> string \<Rightarrow> bool" where
  "HasPrefix s p \<longleftrightarrow> take (length p) s = p"

lemma HasPrefix_iff: "HasPrefix s p \<longleftrightarrow> (\<exists>r. s = p @ r)"
proof
  assume "HasPrefix s p"
  then have "s = p @ drop (length p) s"
    unfolding HasPrefix_def by (metis append_take_drop_id)
  then show "\<exists>r. s = p @ r" by blast
qed (auto simp: HasPrefix_def)

lemma upper_char_idem [simp]: "upper_char (upper_char c) = upper_char c"
proof -
  have lt: "(of_char c :: nat) < 256" using of_char_mod_256 [of c, where ?'a = nat] by linarith
  show ?thesis
  proof (cases "97 \<le> (of_char c :: nat) \<and> (of_char c :: nat) \<le> 122")
    case True
    then have u: "upper_char c = char_of ((of_char c :: nat) - 32)"
      by (simp add: upper_char_def Let_def)
    from lt have "((of_char c :: nat) - 32) mod 256 = of_char c - 32"
      by (intro mod_less) linarith
    then have "(of_char (char_of ((of_char c :: nat) - 32)) :: nat) = of_char c - 32"
      by simp
    with u True show ?thesis by (auto simp: upper_char_def Let_def)
  next
    case False
    then show ?thesis by (auto simp: upper_char_def Let_def)
  qed
qed

lemma ToUpper_idem [simp]: "ToUpper (ToUpper s) = ToUpper s"
  by (simp add: ToUpper_def)

subsection \<open>Printing and parsing agree\<close>

lemma of_char_digit_char: "d < 10 \<Longrightarrow> (of_char (digit_char d) :: nat) = 48 + d"
  by (simp add: digit_char_def)

lemma is_digit_digit_char [simp]: "d < 10 \<Longrightarrow> is_digit (digit_char d)"
  by (simp add: is_digit_def of_char_digit_char)

lemma digit_val_digit_char [simp]: "d < 10 \<Longrightarrow> digit_val (digit_char d) = d"
  by (simp add: digit_val_def of_char_digit_char)

lemma fmt_nat_digits: "\<forall>c \<in> set (fmt_nat n). is_digit c"
proof (induction n rule: fmt_nat.induct)
  case (1 n)
  then show ?case by (cases "n < 10") (auto simp: fmt_nat.simps [of n])
qed

lemma fmt_nat_nonempty [simp]: "fmt_nat n \<noteq> []"
  by (subst fmt_nat.simps) simp

definition dec_val :: "nat \<Rightarrow> string \<Rightarrow> nat" where
  "dec_val n cs = foldl (\<lambda>a c. a * 10 + digit_val c) n cs"

lemma dec_val_fmt_nat: "dec_val 0 (fmt_nat n) = n"
proof (induction n rule: fmt_nat.induct)
  case (1 n)
  show ?case
  proof (cases "n < 10")
    case True
    then show ?thesis by (simp add: dec_val_def fmt_nat.simps [of n])
  next
    case False
    with 1 have "dec_val 0 (fmt_nat (n div 10)) = n div 10" by simp
    with False show ?thesis by (simp add: dec_val_def fmt_nat.simps [of n])
  qed
qed

lemma dec_val_ge: "n \<le> dec_val n cs"
proof (induction cs arbitrary: n)
  case Nil
  then show ?case by (simp add: dec_val_def)
next
  case (Cons c cs)
  have "n \<le> n * 10 + digit_val c" by simp
  also have "\<dots> \<le> dec_val (n * 10 + digit_val c) cs" by (rule Cons.IH)
  finally show ?case by (simp add: dec_val_def)
qed

lemma parse_digits_dec_val:
  assumes "\<forall>c \<in> set cs. is_digit c" and "dec_val n cs < 18446744073709551616"
  shows "parse_digits n cs = Inr (dec_val n cs)"
  using assms
proof (induction cs arbitrary: n)
  case Nil
  then show ?case by (simp add: dec_val_def)
next
  case (Cons c cs)
  let ?m = "n * 10 + digit_val c"
  have eq: "dec_val n (c # cs) = dec_val ?m cs" by (simp add: dec_val_def)
  with Cons.prems have lt: "dec_val ?m cs < 18446744073709551616" by simp
  then have "?m < 18446744073709551616" using dec_val_ge [of ?m cs] by linarith
  with Cons.prems lt Cons.IH [of ?m] show ?case by (simp add: eq)
qed

lemma ParseUint_fmt_nat:
  "n < 18446744073709551616 \<Longrightarrow> ParseUint (fmt_nat n) = Inr n"
  using parse_digits_dec_val [OF fmt_nat_digits, of 0 n]
  by (simp add: ParseUint_def dec_val_fmt_nat)

lemma length_fmt_nat: "n < 10 ^ Suc k \<Longrightarrow> length (fmt_nat n) \<le> Suc k"
proof (induction k arbitrary: n)
  case 0
  then show ?case by (simp add: fmt_nat.simps [of n])
next
  case (Suc k)
  then have "n div 10 < 10 ^ Suc k" by (simp add: less_mult_imp_div_less)
  with Suc.IH show ?case by (simp add: fmt_nat.simps [of n])
qed

lemma fmt_nat_hd_digit: "fmt_nat n = c # cs \<Longrightarrow> is_digit c"
  using fmt_nat_digits [of n] by simp

lemma sign_not_digit: "is_digit c \<Longrightarrow> c \<noteq> CHR ''-'' \<and> c \<noteq> CHR ''+''"
  by (auto simp: is_digit_def)

theorem ParseInt_FormatInt:
  assumes "in_i64 n"
  shows "ParseInt (FormatInt n) = (n, None)"
proof (cases "n < 0")
  case True
  let ?m = "nat (- n)"
  from assms True have "?m < 18446744073709551616"
    unfolding in_i64_def min_int64_def by linarith
  then have "ParseUint (fmt_nat ?m) = Inr ?m" by (rule ParseUint_fmt_nat)
  with True assms show ?thesis
    by (simp add: ParseInt_def FormatInt_def in_i64_def)
next
  case False
  let ?m = "nat n"
  from assms False have "?m < 18446744073709551616"
    unfolding in_i64_def max_int64_def by linarith
  then have p: "ParseUint (fmt_nat ?m) = Inr ?m" by (rule ParseUint_fmt_nat)
  obtain c cs where f: "fmt_nat ?m = c # cs" by (cases "fmt_nat ?m") auto
  then have "is_digit c" by (rule fmt_nat_hd_digit)
  then have "c \<noteq> CHR ''-'' \<and> c \<noteq> CHR ''+''" by (rule sign_not_digit)
  with False assms p f show ?thesis
    by (simp add: ParseInt_def FormatInt_def in_i64_def)
qed

lemma ParseInt_range: "in_i64 (fst (ParseInt s))"
proof -
  have b: "in_i64 0" "in_i64 min_int64" "in_i64 max_int64"
    by (simp_all add: in_i64_def min_int64_def max_int64_def)
  then show ?thesis
    by (auto simp: ParseInt_def in_i64_def Let_def min_int64_def max_int64_def
        split: prod.splits list.splits sum.splits numerr.splits)
qed

end
