(* ===== verification/ByteCodec.thy ===== *)
theory ByteCodec
  imports Prelude
begin

text \<open>
  Fixed-width integers as bytes (\<^verbatim>\<open>encoding/binary\<close>), the helpers of
  \<^verbatim>\<open>src/internal/util/codec.go\<close>, the CRC-32 of \<^verbatim>\<open>hash/crc32\<close>, and the interface every encoder
  of the development promises: decoding what was encoded, followed by anything, gives the value
  back and leaves the rest. The interface is a locale; its clients get injectivity, sequences and
  prefix-freeness from it.
\<close>

section \<open>The codec interface\<close>

text \<open>Decoding a fixed number of items in a row.\<close>

fun dec_seq :: "(bytes \<Rightarrow> ('a \<times> bytes) option) \<Rightarrow> nat \<Rightarrow> bytes \<Rightarrow> ('a list \<times> bytes) option" where
  "dec_seq d 0 bs = Some ([], bs)"
| "dec_seq d (Suc n) bs =
     (case d bs of
        None \<Rightarrow> None
      | Some (x, r) \<Rightarrow> (case dec_seq d n r of None \<Rightarrow> None | Some (xs, r') \<Rightarrow> Some (x # xs, r')))"

locale codec =
  fixes enc :: "'a \<Rightarrow> bytes"
    and dec :: "bytes \<Rightarrow> ('a \<times> bytes) option"
    and ok :: "'a \<Rightarrow> bool"
  assumes dec_enc: "ok x \<Longrightarrow> dec (enc x @ rest) = Some (x, rest)"
begin

lemma dec_enc_exact: "ok x \<Longrightarrow> dec (enc x) = Some (x, [])"
  using dec_enc [of x "[]"] by simp

lemma enc_prefix_free:
  assumes "ok x" and "ok y" and "enc x @ r = enc y @ r'"
  shows "x = y \<and> r = r'"
proof -
  have "Some (x, r) = dec (enc y @ r')"
    using dec_enc [OF assms(1), of r] assms(3) by (simp only:)
  also have "\<dots> = Some (y, r')" using assms(2) by (rule dec_enc)
  finally show ?thesis by simp
qed

lemma enc_inj: "ok x \<Longrightarrow> ok y \<Longrightarrow> enc x = enc y \<Longrightarrow> x = y"
  using enc_prefix_free [of x y "[]" "[]"] by simp

lemma dec_seq_enc:
  "\<forall>x \<in> set xs. ok x \<Longrightarrow> dec_seq dec (length xs) (concat (map enc xs) @ rest) = Some (xs, rest)"
proof (induction xs)
  case Nil
  then show ?case by simp
next
  case (Cons x xs)
  then show ?case by (simp add: dec_enc)
qed

end

section \<open>Fixed-width integers\<close>

fun be_bytes :: "nat \<Rightarrow> nat \<Rightarrow> bytes" where
  "be_bytes 0 n = []"
| "be_bytes (Suc k) n = char_of ((n div 256 ^ k) mod 256) # be_bytes k n"

definition be_val :: "bytes \<Rightarrow> nat" where
  "be_val bs = foldl (\<lambda>a c. a * 256 + of_char c) 0 bs"

definition le_bytes :: "nat \<Rightarrow> nat \<Rightarrow> bytes" where
  "le_bytes k n = rev (be_bytes k n)"

definition le_val :: "bytes \<Rightarrow> nat" where
  "le_val bs = be_val (rev bs)"

lemma length_be_bytes [simp]: "length (be_bytes k n) = k"
  by (induction k) auto

lemma length_le_bytes [simp]: "length (le_bytes k n) = k"
  by (simp add: le_bytes_def)

lemma foldl_be: "foldl (\<lambda>a c. a * 256 + of_char c) s (bs :: bytes) = s * 256 ^ length bs + be_val bs"
proof (induction bs arbitrary: s)
  case Nil
  then show ?case by (simp add: be_val_def)
next
  case (Cons c bs)
  have "be_val (c # bs) = of_char c * 256 ^ length bs + be_val bs"
    using Cons.IH [of "of_char c"] by (simp add: be_val_def)
  with Cons.IH [of "s * 256 + of_char c"] show ?case
    by (simp add: algebra_simps)
qed

lemma be_val_Nil [simp]: "be_val [] = 0"
  by (simp add: be_val_def)

lemma be_val_Cons: "be_val (c # bs) = of_char c * 256 ^ length bs + be_val bs"
  using foldl_be [of "of_char c" bs] by (simp add: be_val_def)

lemma be_val_be_bytes_mod: "be_val (be_bytes k n) = n mod 256 ^ k"
proof (induction k)
  case 0
  then show ?case by simp
next
  case (Suc k)
  have "n mod 256 ^ Suc k = n div 256 ^ k mod 256 * 256 ^ k + n mod 256 ^ k"
    by (simp add: mod_mult2_eq power_Suc2 del: power_Suc)
  with Suc show ?case by (simp add: be_val_Cons)
qed

lemma be_val_be_bytes: "n < 256 ^ k \<Longrightarrow> be_val (be_bytes k n) = n"
  by (simp add: be_val_be_bytes_mod)

lemma le_val_le_bytes: "n < 256 ^ k \<Longrightarrow> le_val (le_bytes k n) = n"
  by (simp add: le_val_def le_bytes_def be_val_be_bytes)

lemma be_val_bound: "be_val bs < 256 ^ length bs"
proof (induction bs)
  case Nil
  then show ?case by simp
next
  case (Cons c bs)
  have "(of_char c :: nat) \<le> 255"
    using of_char_mod_256 [of c, where ?'a = nat] by linarith
  then have "of_char c * 256 ^ length bs \<le> 255 * (256 :: nat) ^ length bs"
    by (rule mult_right_mono) simp
  with Cons have "be_val (c # bs) < 255 * 256 ^ length bs + 256 ^ length bs"
    unfolding be_val_Cons by (rule add_le_less_mono [rotated])
  then show ?case by simp
qed

lemma be_bytes_mod: "be_bytes k (n mod 256 ^ k) = be_bytes k n"
proof -
  have "be_bytes j (n mod 256 ^ k) = be_bytes j n" if "j \<le> k" for j
    using that
  proof (induction j)
    case 0
    then show ?case by simp
  next
    case (Suc j)
    then obtain d where k: "k = Suc j + d" using le_Suc_ex by blast
    have "n mod 256 ^ k div 256 ^ j mod 256 = n div 256 ^ j mod 256"
    proof -
      have "n mod 256 ^ k = n mod (256 ^ j * (256 * 256 ^ d))"
        by (simp add: k power_add mult.commute mult.left_commute)
      also have "\<dots> div 256 ^ j mod 256 = n div 256 ^ j mod (256 * 256 ^ d) mod 256"
        by (simp add: mod_mult2_eq)
      also have "\<dots> = n div 256 ^ j mod 256"
        by (simp add: mod_mod_cancel)
      finally show ?thesis .
    qed
    with Suc show ?case by simp
  qed
  then show ?thesis by simp
qed

lemma be_bytes_be_val: "be_bytes (length bs) (be_val bs) = bs"
proof (induction bs)
  case Nil
  then show ?case by simp
next
  case (Cons c bs)
  have lt: "be_val bs < 256 ^ length bs" by (rule be_val_bound)
  have c: "(of_char c :: nat) mod 256 = of_char c" by (rule of_char_mod_256)
  have "be_val (c # bs) div 256 ^ length bs = of_char c"
    using lt by (simp add: be_val_Cons)
  moreover have "be_bytes (length bs) (be_val (c # bs)) = bs"
  proof -
    have "be_val (c # bs) mod 256 ^ length bs = be_val bs"
      using lt by (simp add: be_val_Cons)
    with Cons be_bytes_mod [of "length bs" "be_val (c # bs)"] show ?thesis by simp
  qed
  ultimately show ?case using c by simp
qed

text \<open>Reading an integer off the front, failing when the input is short.\<close>

definition get_be :: "nat \<Rightarrow> bytes \<Rightarrow> (nat \<times> bytes) option" where
  "get_be k bs = (if length bs < k then None else Some (be_val (take k bs), drop k bs))"

definition get_le :: "nat \<Rightarrow> bytes \<Rightarrow> (nat \<times> bytes) option" where
  "get_le k bs = (if length bs < k then None else Some (le_val (take k bs), drop k bs))"

interpretation be_uint: codec "be_bytes k" "get_be k" "\<lambda>n. n < 256 ^ k" for k
  by unfold_locales (simp add: get_be_def be_val_be_bytes)

interpretation le_uint: codec "le_bytes k" "get_le k" "\<lambda>n. n < 256 ^ k" for k
  by unfold_locales (simp add: get_le_def le_val_le_bytes)

text \<open>The unsigned image of a signed 64-bit value, \<^verbatim>\<open>uint64(v)\<close>, and its inverse \<^verbatim>\<open>int64(u)\<close>.\<close>

definition u64_of :: "int \<Rightarrow> nat" where
  "u64_of v = nat (v mod 18446744073709551616)"

definition i64_of :: "nat \<Rightarrow> int" where
  "i64_of u = i64 (int u)"

lemma u64_of_bound: "u64_of v < 256 ^ 8"
proof -
  have "v mod 18446744073709551616 < 18446744073709551616" by simp
  then have "u64_of v < 18446744073709551616" unfolding u64_of_def by linarith
  then show ?thesis by simp
qed

lemma i64_of_u64_of: "in_i64 v \<Longrightarrow> i64_of (u64_of v) = v"
proof -
  assume v: "in_i64 v"
  have "int (u64_of v) = v mod 18446744073709551616"
    by (simp add: u64_of_def)
  then have "i64_of (u64_of v) = i64 v"
    by (simp add: i64_of_def i64_def mod_simps)
  with v show ?thesis by (simp add: i64_id)
qed

section \<open>\<^verbatim>\<open>util/codec.go\<close>\<close>

text \<open>
  \<^verbatim>\<open>EncodeString\<close> writes into a caller-supplied buffer at an offset; writing past its end panics.
  \<^verbatim>\<open>copy\<close> stops at the end of the buffer without panicking.
\<close>

definition overwrite :: "bytes \<Rightarrow> nat \<Rightarrow> bytes \<Rightarrow> bytes" where
  "overwrite buf off s =
     take off buf @ take (length buf - off) s @ drop (off + length s) buf"

definition EncodeString :: "bytes \<Rightarrow> nat \<Rightarrow> string \<Rightarrow> (bytes \<times> nat) res" where
  "EncodeString buf offset s =
     (if length buf < offset + 4 then Panic
      else Ok (overwrite (overwrite buf offset (be_bytes 4 (length s mod 4294967296)))
                 (offset + 4) s,
               offset + 4 + length s))"

definition DecodeString :: "bytes \<Rightarrow> nat \<Rightarrow> (string \<times> nat) res" where
  "DecodeString buf offset =
     (if length buf < offset + 4 then Panic
      else let l = be_val (subslice buf offset (offset + 4)); off = offset + 4
           in if length buf < off + l then Panic
              else Ok (subslice buf off (off + l), off + l))"

definition EncodeInt64 :: "int \<Rightarrow> bytes" where
  "EncodeInt64 v = be_bytes 8 (u64_of v)"

definition DecodeInt64 :: "bytes \<Rightarrow> int res" where
  "DecodeInt64 b = (if length b < 8 then Panic else Ok (i64_of (be_val (take 8 b))))"

definition EncodeUint16 :: "nat \<Rightarrow> bytes" where
  "EncodeUint16 v = be_bytes 2 v"

definition DecodeUint16 :: "bytes \<Rightarrow> nat res" where
  "DecodeUint16 b = (if length b < 2 then Panic else Ok (be_val (take 2 b)))"

lemma length_overwrite: "off + length s \<le> length buf \<Longrightarrow> length (overwrite buf off s) = length buf"
  by (simp add: overwrite_def)

lemma overwrite_fits:
  "off + length s \<le> length buf \<Longrightarrow> overwrite buf off s = take off buf @ s @ drop (off + length s) buf"
  by (simp add: overwrite_def)

lemma DecodeInt64_EncodeInt64: "in_i64 v \<Longrightarrow> DecodeInt64 (EncodeInt64 v) = Ok v"
  using u64_of_bound [of v]
  by (simp add: DecodeInt64_def EncodeInt64_def be_val_be_bytes i64_of_u64_of)

lemma DecodeString_EncodeString:
  assumes fits: "offset + 4 + length s \<le> length buf" and small: "length s < 4294967296"
  shows "bind_res (EncodeString buf offset s) (\<lambda>(b, _). DecodeString b offset)
           = Ok (s, offset + 4 + length s)"
proof -
  let ?l = "be_bytes 4 (length s)"
  let ?b1 = "overwrite buf offset ?l"
  let ?b2 = "overwrite ?b1 (offset + 4) s"
  have b1: "?b1 = take offset buf @ ?l @ drop (offset + 4) buf"
    using fits by (simp add: overwrite_fits)
  have len1: "length ?b1 = length buf" using fits by (simp add: length_overwrite)
  have t: "take (offset + 4) ?b1 = take offset buf @ ?l"
    unfolding b1 using fits by simp
  have "?b2 = take (offset + 4) ?b1 @ s @ drop (offset + 4 + length s) ?b1"
    using fits len1 by (simp add: overwrite_fits)
  then have b2: "?b2 = take offset buf @ ?l @ s @ drop (offset + 4 + length s) ?b1"
    by (simp add: t)
  have len2: "length ?b2 = length buf"
    using fits len1 by (simp add: length_overwrite)
  have "subslice ?b2 offset (offset + 4) = ?l"
    unfolding b2 subslice_def using fits by simp
  then have l: "be_val (subslice ?b2 offset (offset + 4)) = length s"
    using small by (simp add: be_val_be_bytes)
  have body: "subslice ?b2 (offset + 4) (offset + 4 + length s) = s"
    unfolding b2 subslice_def using fits by simp
  show ?thesis
    using fits small by (simp add: EncodeString_def DecodeString_def len2 l body Let_def)
qed

section \<open>CRC-32 (IEEE)\<close>

unbundle bit_operations_syntax

text \<open>\<^verbatim>\<open>hash/crc32\<close> with the IEEE polynomial, in its reflected bitwise form.\<close>

definition crc32_step :: "32 word \<Rightarrow> 32 word" where
  "crc32_step c = (if odd c then drop_bit 1 c XOR 0xEDB88320 else drop_bit 1 c)"

definition byte_word :: "char \<Rightarrow> 'a::len word" where
  "byte_word c = of_nat (of_char c)"

definition crc32_update :: "32 word \<Rightarrow> char \<Rightarrow> 32 word" where
  "crc32_update c b = (crc32_step ^^ 8) (c XOR byte_word b)"

definition ChecksumIEEE :: "bytes \<Rightarrow> 32 word" where
  "ChecksumIEEE bs = NOT (foldl crc32_update (NOT 0) bs)"

lemma xor_right_cancel: "(a :: 'a::len word) XOR c = b XOR c \<Longrightarrow> a = b"
  by (auto simp: bit_eq_iff bit_xor_iff)

lemma xor_left_cancel: "(c :: 'a::len word) XOR a = c XOR b \<Longrightarrow> a = b"
  by (auto simp: bit_eq_iff bit_xor_iff)

lemma crc32_step_bit31: "bit (crc32_step c) 31 \<longleftrightarrow> odd c"
proof -
  have "\<not> bit (drop_bit 1 c) 31"
    using bit_imp_le_length [of c 32] by (auto simp: bit_drop_bit_eq)
  moreover have "bit (0xEDB88320 :: 32 word) 31" by simp
  ultimately show ?thesis by (auto simp: crc32_step_def bit_xor_iff)
qed

lemma crc32_step_inj: "inj crc32_step"
proof (rule injI)
  fix x y :: "32 word"
  assume eq: "crc32_step x = crc32_step y"
  then have par: "odd x \<longleftrightarrow> odd y" using crc32_step_bit31 [of x] crc32_step_bit31 [of y] by simp
  have d: "drop_bit 1 x = drop_bit 1 y"
  proof (cases "odd x")
    case True
    with par eq have "drop_bit 1 x XOR 0xEDB88320 = drop_bit 1 y XOR (0xEDB88320 :: 32 word)"
      by (simp add: crc32_step_def del: xor_self_eq)
    then show ?thesis by (rule xor_right_cancel)
  next
    case False
    with par eq show ?thesis by (simp add: crc32_step_def)
  qed
  show "x = y"
  proof (rule bit_word_eqI)
    fix n :: nat
    assume "n < LENGTH(32)"
    show "bit x n \<longleftrightarrow> bit y n"
    proof (cases n)
      case 0
      with par show ?thesis by (simp add: bit_0)
    next
      case (Suc m)
      from d have "bit (drop_bit 1 x) m \<longleftrightarrow> bit (drop_bit 1 y) m" by simp
      with Suc show ?thesis by (simp add: bit_drop_bit_eq)
    qed
  qed
qed

lemma crc32_update_inj_state: "crc32_update c b = crc32_update c' b \<Longrightarrow> c = c'"
proof -
  assume "crc32_update c b = crc32_update c' b"
  then have "c XOR byte_word b = c' XOR byte_word b"
    unfolding crc32_update_def using inj_fn [OF crc32_step_inj, of 8] by (auto dest: injD)
  then show ?thesis by (rule xor_right_cancel)
qed

lemma byte_word_inj32: "byte_word a = (byte_word b :: 32 word) \<Longrightarrow> a = b"
proof -
  assume eq: "byte_word a = (byte_word b :: 32 word)"
  have lt: "(of_char c :: nat) < 2 ^ 32" for c :: char
  proof -
    have "(of_char c :: nat) < 256"
      using of_char_mod_256 [of c, where ?'a = nat] by linarith
    also have "(256 :: nat) < 2 ^ 32" by simp
    finally show ?thesis .
  qed
  have u: "unat (byte_word c :: 32 word) = of_char c" for c
    unfolding byte_word_def unat_of_nat by (rule mod_less) (use lt in simp)
  from eq have "(of_char a :: nat) = of_char b" using u by metis
  then show ?thesis by (simp add: of_char_eq_iff)
qed

lemma crc32_update_inj_byte: "crc32_update c a = crc32_update c b \<Longrightarrow> a = b"
proof -
  assume "crc32_update c a = crc32_update c b"
  then have "c XOR byte_word a = c XOR byte_word b"
    unfolding crc32_update_def using inj_fn [OF crc32_step_inj, of 8] by (auto dest: injD)
  then have "byte_word a = (byte_word b :: 32 word)" by (rule xor_left_cancel)
  then show ?thesis by (rule byte_word_inj32)
qed

lemma foldl_crc_inj: "foldl crc32_update c bs = foldl crc32_update c' bs \<Longrightarrow> c = c'"
  by (induction bs arbitrary: c c') (auto dest: crc32_update_inj_state)

text \<open>Two byte strings that differ in exactly one byte have different checksums.\<close>

lemma ChecksumIEEE_one_byte:
  assumes "a \<noteq> b"
  shows "ChecksumIEEE (pre @ a # post) \<noteq> ChecksumIEEE (pre @ b # post)"
proof
  let ?s = "foldl crc32_update (NOT 0) pre"
  assume "ChecksumIEEE (pre @ a # post) = ChecksumIEEE (pre @ b # post)"
  then have "foldl crc32_update (crc32_update ?s a) post = foldl crc32_update (crc32_update ?s b) post"
    by (simp add: ChecksumIEEE_def)
  then have "crc32_update ?s a = crc32_update ?s b" by (rule foldl_crc_inj)
  then have "a = b" by (rule crc32_update_inj_byte)
  with assms show False ..
qed

lemma ChecksumIEEE_list_update:
  assumes "i < length bs" and "bs ! i \<noteq> b"
  shows "ChecksumIEEE (bs[i := b]) \<noteq> ChecksumIEEE bs"
proof -
  have u: "bs[i := b] = take i bs @ b # drop (Suc i) bs"
    using assms(1) by (rule upd_conv_take_nth_drop)
  have o: "bs = take i bs @ bs ! i # drop (Suc i) bs"
    using assms(1) by (rule id_take_nth_drop)
  from assms(2) have "b \<noteq> bs ! i" by simp
  from ChecksumIEEE_one_byte [OF this, of "take i bs" "drop (Suc i) bs"]
  show ?thesis using u o by simp
qed

section \<open>Properties\<close>

text \<open>
  A string written into a buffer that has room for it is read back from the same offset, with the offset
  behind it; a 64-bit integer survives its eight bytes.
\<close>

lemma codec_roundtrip:
  assumes "offset + 4 + length s \<le> length buf" and "length s < 4294967296" and "in_i64 v"
  shows "bind_res (EncodeString buf offset s) (\<lambda>(b, _). DecodeString b offset) = Ok (s, offset + 4 + length s)
       \<and> DecodeInt64 (EncodeInt64 v) = Ok v"
  using DecodeString_EncodeString [OF assms(1,2)] DecodeInt64_EncodeInt64 [OF assms(3)] by simp

end
