(* ===== verification/HashUtil.thy ===== *)
theory HashUtil
  imports ByteCodec
begin

text \<open>
  \<^verbatim>\<open>src/internal/util/hash.go\<close>: the Murmur3 hash that picks a key's shard, the CRC-16 that picks
  its cluster slot, and the hash-tag rule. The table-driven CRC is compared row by row with
  the bitwise definition of the CCITT polynomial, shard and slot numbers are shown in range, and the hash-tag
  scan is compared with the rule the Redis cluster specification states.
\<close>

section \<open>Murmur3\<close>

definition murmur_mix :: "32 word \<Rightarrow> 32 word" where
  "murmur_mix k = word_rotl 15 (k * 0xCC9E2D51) * 0x1B873593"

fun murmur_blocks :: "32 word \<Rightarrow> bytes \<Rightarrow> 32 word \<times> bytes" where
  "murmur_blocks h (a # b # c # d # rest) =
     murmur_blocks
       (word_rotl 13 (h XOR murmur_mix (of_nat (le_val [a, b, c, d]))) * 5 + 0xE6546B64) rest"
| "murmur_blocks h tail = (h, tail)"

definition murmur_tail :: "32 word \<Rightarrow> bytes \<Rightarrow> 32 word" where
  "murmur_tail h tail =
     (case tail of
        [a] \<Rightarrow> h XOR murmur_mix (byte_word a)
      | [a, b] \<Rightarrow> h XOR murmur_mix (push_bit 8 (byte_word b) XOR byte_word a)
      | [a, b, c] \<Rightarrow>
          h XOR murmur_mix (push_bit 16 (byte_word c) XOR push_bit 8 (byte_word b) XOR byte_word a)
      | _ \<Rightarrow> h)"

definition murmur_final :: "32 word \<Rightarrow> 32 word" where
  "murmur_final h =
     (let h1 = (h XOR drop_bit 16 h) * 0x85EBCA6B;
          h2 = (h1 XOR drop_bit 13 h1) * 0xC2B2AE35
      in h2 XOR drop_bit 16 h2)"

definition murmur32 :: "bytes \<Rightarrow> 32 word \<Rightarrow> 32 word" where
  "murmur32 data seed =
     (let (h, tail) = murmur_blocks seed data
      in murmur_final (murmur_tail h tail XOR of_nat (length data)))"

definition MurmurHash32 :: "string \<Rightarrow> 32 word" where
  "MurmurHash32 key = murmur32 key 0"

text \<open>\<^verbatim>\<open>ShardIndex\<close>: a \<^verbatim>\<open>uint32\<close> converted to a 64-bit \<^verbatim>\<open>int\<close> is non-negative, so Go's remainder is
  the mathematical one.\<close>

definition ShardIndex :: "string \<Rightarrow> int \<Rightarrow> nat" where
  "ShardIndex key numShards =
     (if numShards \<le> 0 then 0 else unat (MurmurHash32 key) mod nat numShards)"

lemma ShardIndex_bound: "0 < n \<Longrightarrow> ShardIndex key n < nat n"
  by (simp add: ShardIndex_def)

lemma ShardIndex_one [simp]: "ShardIndex key 1 = 0"
  by (simp add: ShardIndex_def)

section \<open>CRC-16 and the hash slot\<close>

definition crc16Table :: "16 word list" where
  "crc16Table = [
    0x0000, 0x1021, 0x2042, 0x3063, 0x4084, 0x50A5, 0x60C6, 0x70E7,
    0x8108, 0x9129, 0xA14A, 0xB16B, 0xC18C, 0xD1AD, 0xE1CE, 0xF1EF,
    0x1231, 0x0210, 0x3273, 0x2252, 0x52B5, 0x4294, 0x72F7, 0x62D6,
    0x9339, 0x8318, 0xB37B, 0xA35A, 0xD3BD, 0xC39C, 0xF3FF, 0xE3DE,
    0x2462, 0x3443, 0x0420, 0x1401, 0x64E6, 0x74C7, 0x44A4, 0x5485,
    0xA56A, 0xB54B, 0x8528, 0x9509, 0xE5EE, 0xF5CF, 0xC5AC, 0xD58D,
    0x3653, 0x2672, 0x1611, 0x0630, 0x76D7, 0x66F6, 0x5695, 0x46B4,
    0xB75B, 0xA77A, 0x9719, 0x8738, 0xF7DF, 0xE7FE, 0xD79D, 0xC7BC,
    0x4864, 0x5845, 0x6826, 0x7807, 0x08E0, 0x18C1, 0x28A2, 0x38C3,
    0xC92C, 0xD90D, 0xE96E, 0xF94F, 0x89A8, 0x9989, 0xA9EA, 0xB9CB,
    0x5A15, 0x4A34, 0x7A57, 0x6A76, 0x1A91, 0x0AB0, 0x3AD3, 0x2AF2,
    0xDB1D, 0xCB3C, 0xFB5F, 0xEB7E, 0x9B99, 0x8BB8, 0xBBDB, 0xABBA,
    0x6CA6, 0x7C87, 0x4CE4, 0x5CC5, 0x2C22, 0x3C03, 0x0C60, 0x1C41,
    0xEDAE, 0xFD8F, 0xCDEC, 0xDDCD, 0xAD2A, 0xBD0B, 0x8D68, 0x9D49,
    0x7E97, 0x6EB6, 0x5ED5, 0x4EF4, 0x3E13, 0x2E32, 0x1E51, 0x0E70,
    0xFF9F, 0xEFBE, 0xDFDD, 0xCFFC, 0xBF1B, 0xAF3A, 0x9F59, 0x8F78,
    0x9188, 0x81A9, 0xB1CA, 0xA1EB, 0xD10C, 0xC12D, 0xF14E, 0xE16F,
    0x1080, 0x00A1, 0x30C2, 0x20E3, 0x5004, 0x4025, 0x7046, 0x6067,
    0x83B9, 0x9398, 0xA3FB, 0xB3DA, 0xC33D, 0xD31C, 0xE37F, 0xF35E,
    0x02B1, 0x1290, 0x22F3, 0x32D2, 0x4235, 0x5214, 0x6277, 0x7256,
    0xB5EA, 0xA5CB, 0x95A8, 0x8589, 0xF56E, 0xE54F, 0xD52C, 0xC50D,
    0x34E2, 0x24C3, 0x14A0, 0x0481, 0x7466, 0x6447, 0x5424, 0x4405,
    0xA7DB, 0xB7FA, 0x8799, 0x97B8, 0xE75F, 0xF77E, 0xC71D, 0xD73C,
    0x26D3, 0x36F2, 0x0691, 0x16B0, 0x6657, 0x7676, 0x4615, 0x5634,
    0xD94C, 0xC96D, 0xF90E, 0xE92F, 0x99C8, 0x89E9, 0xB98A, 0xA9AB,
    0x5844, 0x4865, 0x7806, 0x6827, 0x18C0, 0x08E1, 0x3882, 0x28A3,
    0xCB7D, 0xDB5C, 0xEB3F, 0xFB1E, 0x8BF9, 0x9BD8, 0xABBB, 0xBB9A,
    0x4A75, 0x5A54, 0x6A37, 0x7A16, 0x0AF1, 0x1AD0, 0x2AB3, 0x3A92,
    0xFD2E, 0xED0F, 0xDD6C, 0xCD4D, 0xBDAA, 0xAD8B, 0x9DE8, 0x8DC9,
    0x7C26, 0x6C07, 0x5C64, 0x4C45, 0x3CA2, 0x2C83, 0x1CE0, 0x0CC1,
    0xEF1F, 0xFF3E, 0xCF5D, 0xDF7C, 0xAF9B, 0xBFBA, 0x8FD9, 0x9FF8,
    0x6E17, 0x7E36, 0x4E55, 0x5E74, 0x2E93, 0x3EB2, 0x0ED1, 0x1EF0]"

definition crc16_update :: "16 word \<Rightarrow> char \<Rightarrow> 16 word" where
  "crc16_update crc b =
     push_bit 8 crc XOR crc16Table ! unat (ucast (drop_bit 8 crc) XOR byte_word b :: 8 word)"

definition crc16 :: "bytes \<Rightarrow> 16 word" where
  "crc16 buf = foldl crc16_update 0 buf"

text \<open>
  The hash-tag scan of \<^verbatim>\<open>HashSlot\<close>: \<open>start\<close> is the position after the last opening brace seen,
  and the first closing brace after one ends the scan.
\<close>

fun tag_scan :: "string \<Rightarrow> nat \<Rightarrow> nat option \<Rightarrow> string \<Rightarrow> string" where
  "tag_scan key i start [] = key"
| "tag_scan key i start (c # cs) =
     (if c = CHR ''{'' then tag_scan key (Suc i) (Some i) cs
      else case start of
             None \<Rightarrow> tag_scan key (Suc i) start cs
           | Some s \<Rightarrow>
               if c = CHR ''}'' then (if i > s + 1 then subslice key (s + 1) i else key)
               else tag_scan key (Suc i) start cs)"

definition hash_tag :: "string \<Rightarrow> string" where
  "hash_tag key = tag_scan key 0 None key"

definition HashSlot :: "string \<Rightarrow> nat" where
  "HashSlot key = unat (crc16 (hash_tag key)) mod 16384"

lemma HashSlot_bound: "HashSlot key < 16384"
  by (simp add: HashSlot_def)

subsection \<open>The table computes the polynomial\<close>

definition crc16_step :: "16 word \<Rightarrow> 16 word" where
  "crc16_step c = (if bit c 15 then push_bit 1 c XOR 0x1021 else push_bit 1 c)"

definition crc16_bitwise :: "bytes \<Rightarrow> 16 word" where
  "crc16_bitwise buf = foldl (\<lambda>crc b. (crc16_step ^^ 8) (crc XOR push_bit 8 (byte_word b))) 0 buf"

lemma crc16_step_xor: "crc16_step (a XOR b) = crc16_step a XOR crc16_step b"
  by (auto simp: crc16_step_def bit_eq_iff bit_xor_iff bit_push_bit_iff)

lemma crc16_steps_xor: "(crc16_step ^^ n) (a XOR b) = (crc16_step ^^ n) a XOR (crc16_step ^^ n) b"
  by (induction n) (simp_all add: crc16_step_xor)

lemma crc16_steps_low:
  assumes "n \<le> 8" and "\<And>i. 8 \<le> i \<Longrightarrow> \<not> bit w i"
  shows "(crc16_step ^^ n) w = push_bit n w"
  using assms(1)
proof (induction n)
  case 0
  then show ?case by simp
next
  case (Suc n)
  then have IH: "(crc16_step ^^ n) w = push_bit n w" by simp
  have "\<not> bit (push_bit n w) 15"
    using Suc.prems assms(2) [of "15 - n"] by (simp add: bit_push_bit_iff)
  then have "crc16_step (push_bit n w) = push_bit 1 (push_bit n w)"
    by (simp only: crc16_step_def if_False)
  also have "\<dots> = push_bit (Suc n) w" by (simp only: push_bit_push_bit) simp
  finally show ?case by (simp only: funpow.simps comp_apply IH)
qed

lemma funpow_8: "(f ^^ 8) x = f (f (f (f (f (f (f (f x)))))))"
  by (simp add: numeral_eq_Suc)

lemma upt_256:
  "[0..<256::nat] =
    [0, 1, 2, 3, 4, 5, 6, 7, 8, 9, 10, 11, 12, 13, 14, 15,
     16, 17, 18, 19, 20, 21, 22, 23, 24, 25, 26, 27, 28, 29, 30, 31,
     32, 33, 34, 35, 36, 37, 38, 39, 40, 41, 42, 43, 44, 45, 46, 47,
     48, 49, 50, 51, 52, 53, 54, 55, 56, 57, 58, 59, 60, 61, 62, 63,
     64, 65, 66, 67, 68, 69, 70, 71, 72, 73, 74, 75, 76, 77, 78, 79,
     80, 81, 82, 83, 84, 85, 86, 87, 88, 89, 90, 91, 92, 93, 94, 95,
     96, 97, 98, 99, 100, 101, 102, 103, 104, 105, 106, 107, 108, 109, 110, 111,
     112, 113, 114, 115, 116, 117, 118, 119, 120, 121, 122, 123, 124, 125, 126, 127,
     128, 129, 130, 131, 132, 133, 134, 135, 136, 137, 138, 139, 140, 141, 142, 143,
     144, 145, 146, 147, 148, 149, 150, 151, 152, 153, 154, 155, 156, 157, 158, 159,
     160, 161, 162, 163, 164, 165, 166, 167, 168, 169, 170, 171, 172, 173, 174, 175,
     176, 177, 178, 179, 180, 181, 182, 183, 184, 185, 186, 187, 188, 189, 190, 191,
     192, 193, 194, 195, 196, 197, 198, 199, 200, 201, 202, 203, 204, 205, 206, 207,
     208, 209, 210, 211, 212, 213, 214, 215, 216, 217, 218, 219, 220, 221, 222, 223,
     224, 225, 226, 227, 228, 229, 230, 231, 232, 233, 234, 235, 236, 237, 238, 239,
     240, 241, 242, 243, 244, 245, 246, 247, 248, 249, 250, 251, 252, 253, 254, 255]"
  by (simp add: upt_rec)

lemma crc16Table_against_poly:
  "map2 (=) crc16Table (map (\<lambda>i. (crc16_step ^^ 8) (push_bit 8 (of_nat i))) [0..<256])
     = map (\<lambda>i. i < 64 \<or> 95 < i) [0..<256]"
  unfolding upt_256 list.map crc16Table_def
  by (simp add: crc16_step_def funpow_8)

lemma length_crc16Table [simp]: "length crc16Table = 256"
  by (simp add: crc16Table_def)

lemma crc16Table_nth:
  "crc16Table ! unat (x :: 8 word) = (crc16_step ^^ 8) (push_bit 8 (ucast x))
     \<longleftrightarrow> unat x < 64 \<or> 95 < unat x"
proof -
  let ?p = "\<lambda>i. (crc16_step ^^ 8) (push_bit 8 (of_nat i :: 16 word))"
  have "unat x < 2 ^ LENGTH(8)" by (rule unsigned_less)
  then have lt: "unat x < 256" by simp
  have u: "ucast x = (of_nat (unat x) :: 16 word)" by (rule of_nat_unat [symmetric])
  have "(map2 (=) crc16Table (map ?p [0..<256])) ! unat x = (map (\<lambda>i. i < 64 \<or> 95 < i) [0..<256]) ! unat x"
    by (simp only: crc16Table_against_poly)
  with lt have "crc16Table ! unat x = ?p (unat x) \<longleftrightarrow> unat x < 64 \<or> 95 < unat x"
    by (simp del: of_nat_unat)
  then show ?thesis by (simp only: u)
qed

lemma crc16_split:
  fixes crc :: "16 word" and v :: "8 word"
  shows "crc XOR push_bit 8 (ucast v) =
     push_bit 8 (ucast (ucast (drop_bit 8 crc) XOR v)) XOR take_bit 8 crc"
proof (rule bit_word_eqI)
  fix n :: nat
  assume "n < LENGTH(16)"
  then show "bit (crc XOR push_bit 8 (ucast v)) n \<longleftrightarrow>
     bit (push_bit 8 (ucast (ucast (drop_bit 8 crc) XOR v)) XOR take_bit 8 crc) n"
    by (auto simp: bit_xor_iff bit_push_bit_iff bit_ucast_iff bit_drop_bit_eq bit_take_bit_iff)
qed

lemma byte_word_ucast: "(byte_word c :: 16 word) = ucast (byte_word c :: 8 word)"
proof -
  have "(of_char c :: nat) < 256"
    using of_char_mod_256 [of c, where ?'a = nat] by linarith
  then have "unat (byte_word c :: 8 word) = of_char c"
    unfolding byte_word_def unat_of_nat by simp
  then show ?thesis by (metis byte_word_def of_nat_unat)
qed

text \<open>
  One step of the table-driven loop is eight steps of the polynomial division exactly when the
  table row it reads is sound.
\<close>

definition crc16_row :: "16 word \<Rightarrow> char \<Rightarrow> 8 word" where
  "crc16_row crc b = ucast (drop_bit 8 crc) XOR byte_word b"

lemma crc16_update_poly:
  "crc16_update crc b = (crc16_step ^^ 8) (crc XOR push_bit 8 (byte_word b))
     \<longleftrightarrow> unat (crc16_row crc b) < 64 \<or> 95 < unat (crc16_row crc b)"
proof -
  let ?x = "crc16_row crc b"
  have low: "(crc16_step ^^ 8) (take_bit 8 crc) = push_bit 8 (take_bit 8 crc)"
    by (rule crc16_steps_low) (simp_all add: bit_take_bit_iff)
  have pl: "push_bit 8 (take_bit 8 crc) = push_bit 8 crc"
    by (rule bit_word_eqI) (auto simp: bit_push_bit_iff bit_take_bit_iff)
  have "(crc16_step ^^ 8) (crc XOR push_bit 8 (byte_word b))
      = (crc16_step ^^ 8) (push_bit 8 (ucast ?x) XOR take_bit 8 crc)"
    by (simp only: byte_word_ucast crc16_split crc16_row_def)
  also have "\<dots> = push_bit 8 crc XOR (crc16_step ^^ 8) (push_bit 8 (ucast ?x))"
    by (simp only: crc16_steps_xor low pl xor.commute)
  finally have poly: "(crc16_step ^^ 8) (crc XOR push_bit 8 (byte_word b))
      = push_bit 8 crc XOR (crc16_step ^^ 8) (push_bit 8 (ucast ?x))" .
  have upd: "crc16_update crc b = push_bit 8 crc XOR crc16Table ! unat ?x"
    by (simp only: crc16_update_def crc16_row_def)
  have "crc16_update crc b = (crc16_step ^^ 8) (crc XOR push_bit 8 (byte_word b))
      \<longleftrightarrow> crc16Table ! unat ?x = (crc16_step ^^ 8) (push_bit 8 (ucast ?x))"
    unfolding poly upd by (metis xor_left_cancel)
  then show ?thesis by (simp only: crc16Table_nth)
qed

text \<open>The rows a buffer reads, and the equivalence on buffers that read only sound rows.\<close>

fun crc16_rows :: "16 word \<Rightarrow> bytes \<Rightarrow> 8 word list" where
  "crc16_rows crc [] = []"
| "crc16_rows crc (b # bs) = crc16_row crc b # crc16_rows (crc16_update crc b) bs"

lemma crc16_eq_bitwise:
  assumes "\<forall>x \<in> set (crc16_rows 0 buf). unat x < 64 \<or> 95 < unat x"
  shows "crc16 buf = crc16_bitwise buf"
proof -
  let ?step = "\<lambda>crc b. (crc16_step ^^ 8) (crc XOR push_bit 8 (byte_word b))"
  have "foldl crc16_update s buf = foldl ?step s buf"
    if "\<forall>x \<in> set (crc16_rows s buf). unat x < 64 \<or> 95 < unat x" for s
    using that
  proof (induction buf arbitrary: s)
    case Nil
    then show ?case by simp
  next
    case (Cons b bs)
    then have "crc16_update s b = ?step s b" by (simp add: crc16_update_poly)
    moreover have "foldl crc16_update (crc16_update s b) bs = foldl ?step (crc16_update s b) bs"
      using Cons.prems by (intro Cons.IH) simp
    ultimately show ?case by simp
  qed
  with assms show ?thesis by (simp add: crc16_def crc16_bitwise_def)
qed

subsection \<open>The hash tag\<close>

text \<open>
  The rule of the Redis cluster specification: the tag lies between the \<^emph>\<open>first\<close> opening brace and
  the first closing brace after it; an empty tag, or none, hashes the whole key.
\<close>

definition redis_tag :: "string \<Rightarrow> string" where
  "redis_tag key =
     (case dropWhile (\<lambda>c. c \<noteq> CHR ''{'') key of
        [] \<Rightarrow> key
      | _ # r \<Rightarrow>
          if CHR ''}'' \<in> set r \<and> takeWhile (\<lambda>c. c \<noteq> CHR ''}'') r \<noteq> []
          then takeWhile (\<lambda>c. c \<noteq> CHR ''}'') r else key)"

lemma tag_scan_none:
  "CHR ''{'' \<notin> set cs \<Longrightarrow> tag_scan key i None cs = key"
  by (induction cs arbitrary: i) auto

lemma tag_scan_skip:
  "CHR ''{'' \<notin> set pre \<Longrightarrow>
     tag_scan key i None (pre @ CHR ''{'' # r) = tag_scan key (Suc (i + length pre)) (Some (i + length pre)) r"
  by (induction pre arbitrary: i) auto

lemma tag_scan_inside:
  "CHR ''{'' \<notin> set t \<Longrightarrow> CHR ''}'' \<notin> set t \<Longrightarrow>
     tag_scan key i (Some s) (t @ CHR ''}'' # r)
       = (if i + length t > s + 1 then subslice key (s + 1) (i + length t) else key)"
  by (induction t arbitrary: i) auto

lemma tag_scan_open:
  "CHR ''{'' \<notin> set t \<Longrightarrow> CHR ''}'' \<notin> set t \<Longrightarrow> tag_scan key i (Some s) t = key"
  by (induction t arbitrary: i) auto

lemma split_at_close:
  assumes "CHR ''}'' \<in> set r"
  obtains t u where "r = t @ CHR ''}'' # u" and "CHR ''}'' \<notin> set t"
    and "takeWhile (\<lambda>c. c \<noteq> CHR ''}'') r = t"
proof -
  from split_list_first [OF assms] obtain t u where
    r: "r = t @ CHR ''}'' # u" and t: "CHR ''}'' \<notin> set t" by blast
  from t have "takeWhile (\<lambda>c. c \<noteq> CHR ''}'') r = t"
    unfolding r by (subst takeWhile_append2) auto
  with r t that show thesis by blast
qed

text \<open>On a key with a single opening brace the two rules agree.\<close>

lemma hash_tag_redis:
  assumes "count_list key (CHR ''{'') \<le> 1"
  shows "hash_tag key = redis_tag key"
proof (cases "CHR ''{'' \<in> set key")
  case False
  have "dropWhile (\<lambda>c. c \<noteq> CHR ''{'') key = []"
    unfolding dropWhile_eq_Nil_conv using False by metis
  then have "redis_tag key = key" by (simp only: redis_tag_def list.case)
  with False show ?thesis by (simp add: hash_tag_def tag_scan_none)
next
  case True
  from split_list_first [OF this] obtain pre r where
    key: "key = pre @ CHR ''{'' # r" and pre: "CHR ''{'' \<notin> set pre" by blast
  from assms have "count_list r (CHR ''{'') = 0"
    unfolding key by simp
  then have r: "CHR ''{'' \<notin> set r" by (simp add: count_list_0_iff)
  have dw: "dropWhile (\<lambda>c. c \<noteq> CHR ''{'') key = CHR ''{'' # r"
    unfolding key using pre by (subst dropWhile_append2) auto
  have scan: "hash_tag key = tag_scan key (Suc (length pre)) (Some (length pre)) r"
  proof -
    have "hash_tag key = tag_scan key 0 None (pre @ CHR ''{'' # r)"
      by (simp only: hash_tag_def key)
    also have "\<dots> = tag_scan key (Suc (length pre)) (Some (length pre)) r"
      using tag_scan_skip [OF pre, of key 0 r] by simp
    finally show ?thesis .
  qed
  show ?thesis
  proof (cases "CHR ''}'' \<in> set r")
    case True
    then obtain t u where rt: "r = t @ CHR ''}'' # u" and t: "CHR ''}'' \<notin> set t"
      and tw: "takeWhile (\<lambda>c. c \<noteq> CHR ''}'') r = t" by (rule split_at_close)
    from r rt have "CHR ''{'' \<notin> set t" by simp
    from tag_scan_inside [OF this t, of key "Suc (length pre)" "length pre" u]
    have h: "hash_tag key = (if t \<noteq> [] then subslice key (Suc (length pre)) (Suc (length pre) + length t) else key)"
      by (simp add: scan rt)
    have "subslice key (Suc (length pre)) (Suc (length pre) + length t) = t"
      unfolding key rt by (simp add: subslice_def)
    with h True tw show ?thesis by (simp add: redis_tag_def dw)
  next
    case False
    from tag_scan_open [OF r False] scan False show ?thesis
      by (simp add: redis_tag_def dw)
  qed
qed

section \<open>\<^verbatim>\<open>UInt64ToBytes\<close> and \<^verbatim>\<open>BytesToUInt64\<close>\<close>

definition UInt64ToBytes :: "64 word \<Rightarrow> bytes" where
  "UInt64ToBytes v = be_bytes 8 (unat v)"

definition BytesToUInt64 :: "bytes \<Rightarrow> 64 word res" where
  "BytesToUInt64 b = (if length b < 8 then Panic else Ok (of_nat (be_val (take 8 b))))"

lemma BytesToUInt64_UInt64ToBytes: "BytesToUInt64 (UInt64ToBytes v) = Ok v"
proof -
  have "unat v < 2 ^ LENGTH(64)" by (rule unsigned_less)
  then have "unat v < 256 ^ 8" by simp
  then show ?thesis by (simp add: BytesToUInt64_def UInt64ToBytes_def be_val_be_bytes)
qed

section \<open>Properties\<close>

text \<open>
  C40. A row of the CRC-16 table is what eight steps of the CCITT polynomial give for its index, except for
  exactly the rows 64 to 95.
\<close>

theorem crc16_table_rows:
  "crc16Table ! unat (x :: 8 word) = (crc16_step ^^ 8) (push_bit 8 (ucast x))
     \<longleftrightarrow> unat x \<notin> {64..95}"
  using crc16Table_nth [of x] by auto

text \<open>
  C39. The hash slot is the one of the Redis cluster specification, CRC-16 of the hash tag modulo 16384, for every key with at
  most one opening brace whose tag reads no unsound row of the table.
\<close>

theorem hash_slot_redis:
  assumes "count_list key (CHR ''{'') \<le> 1"
    and "\<forall>x \<in> set (crc16_rows 0 (redis_tag key)). unat x < 64 \<or> 95 < unat x"
  shows "HashSlot key = unat (crc16_bitwise (redis_tag key)) mod 16384"
  using crc16_eq_bitwise [OF assms(2)] hash_tag_redis [OF assms(1)] by (simp add: HashSlot_def)

theorem hash_slot_redis_witness:
  "HashSlot ''{a}x'' = unat (crc16_bitwise ''a'') mod 16384"
proof -
  have t: "redis_tag ''{a}x'' = ''a''" by (simp add: redis_tag_def)
  have r: "\<forall>x \<in> set (crc16_rows 0 ''a''). unat x < 64 \<or> 95 < unat x" by code_simp
  show ?thesis using hash_slot_redis [of "''{a}x''"] r unfolding t by simp
qed

end
