(* ===== verification/ExpiryHeap.thy ===== *)
theory ExpiryHeap
  imports Prelude
begin

text \<open>
  The binary heap of Go's \<^verbatim>\<open>container/heap\<close> as \<^verbatim>\<open>src/internal/engine/kv.go\<close> uses it: a slice of
  expiry items ordered by their deadline, with \<^verbatim>\<open>heap.Push\<close> and \<^verbatim>\<open>heap.Pop\<close> sifting in place. The
  interface the key-value store relies on is the locale \<open>deadline_queue\<close>: the root of a non-empty
  queue is a minimum, and push and pop change the multiset of items by exactly one item.
\<close>

section \<open>The queue interface\<close>

locale deadline_queue =
  fixes key :: "'a \<Rightarrow> int"
    and push :: "'a list \<Rightarrow> 'a \<Rightarrow> 'a list"
    and pop :: "'a list \<Rightarrow> 'a list"
    and inv :: "'a list \<Rightarrow> bool"
  assumes inv_Nil: "inv []"
    and inv_push: "inv q \<Longrightarrow> inv (push q x)"
    and inv_pop: "inv q \<Longrightarrow> q \<noteq> [] \<Longrightarrow> inv (pop q)"
    and mset_push: "mset (push q x) = add_mset x (mset q)"
    and mset_pop: "q \<noteq> [] \<Longrightarrow> mset q = add_mset (hd q) (mset (pop q))"
    and root_min: "inv q \<Longrightarrow> x \<in> set q \<Longrightarrow> key (hd q) \<le> key x"
begin

lemma set_push: "set (push q x) = insert x (set q)"
proof -
  have "set_mset (mset (push q x)) = set_mset (add_mset x (mset q))"
    by (simp only: mset_push)
  then show ?thesis by simp
qed

lemma set_pop: "q \<noteq> [] \<Longrightarrow> set q = insert (hd q) (set (pop q))"
proof -
  assume "q \<noteq> []"
  then have "set_mset (mset q) = set_mset (add_mset (hd q) (mset (pop q)))"
    by (intro arg_cong [where f = set_mset] mset_pop)
  then show ?thesis by simp
qed

lemma length_pop: "q \<noteq> [] \<Longrightarrow> Suc (length (pop q)) = length q"
proof -
  assume "q \<noteq> []"
  then have "size (mset q) = size (add_mset (hd q) (mset (pop q)))"
    by (intro arg_cong [where f = size] mset_pop)
  then show ?thesis by simp
qed

text \<open>When the root is not due, no item is.\<close>

lemma none_due: "inv q \<Longrightarrow> now < key (hd q) \<Longrightarrow> x \<in> set q \<Longrightarrow> now < key x"
  using root_min [of q x] by linarith

end

section \<open>Sifting\<close>

definition swap :: "'a list \<Rightarrow> nat \<Rightarrow> nat \<Rightarrow> 'a list" where
  "swap xs i j = xs[i := xs ! j, j := xs ! i]"

definition par :: "nat \<Rightarrow> nat" where
  "par j = (j - 1) div 2"

function heap_up :: "('a \<Rightarrow> int) \<Rightarrow> 'a list \<Rightarrow> nat \<Rightarrow> 'a list" where
  "heap_up f xs j =
     (let i = par j
      in if i = j \<or> \<not> f (xs ! j) < f (xs ! i) then xs else heap_up f (swap xs i j) i)"
  by pat_completeness auto
termination
  by (relation "measure (\<lambda>(f, xs, j). j)") (auto simp: par_def)

function heap_down :: "('a \<Rightarrow> int) \<Rightarrow> 'a list \<Rightarrow> nat \<Rightarrow> nat \<Rightarrow> 'a list" where
  "heap_down f xs i n =
     (if 2 * i + 1 \<ge> n then xs
      else let j = (if 2 * i + 2 < n \<and> f (xs ! (2 * i + 2)) < f (xs ! (2 * i + 1))
                    then 2 * i + 2 else 2 * i + 1)
           in if \<not> f (xs ! j) < f (xs ! i) then xs else heap_down f (swap xs i j) j n)"
  by pat_completeness auto
termination
  by (relation "measure (\<lambda>(f, xs, i, n). n - i)") (auto split: if_splits)

declare heap_up.simps [simp del] heap_down.simps [simp del]

definition heap_push :: "('a \<Rightarrow> int) \<Rightarrow> 'a list \<Rightarrow> 'a \<Rightarrow> 'a list" where
  "heap_push f xs x = heap_up f (xs @ [x]) (length xs)"

definition heap_pop :: "('a \<Rightarrow> int) \<Rightarrow> 'a list \<Rightarrow> 'a list" where
  "heap_pop f xs =
     (let n = length xs - 1 in take n (heap_down f (swap xs 0 n) 0 n))"

lemma length_swap [simp]: "length (swap xs i j) = length xs"
  by (simp add: swap_def)

lemma mset_swap: "i < length xs \<Longrightarrow> j < length xs \<Longrightarrow> mset (swap xs i j) = mset xs"
  unfolding swap_def by (rule Multiset.mset_swap)

lemma nth_swap:
  "i < length xs \<Longrightarrow> j < length xs \<Longrightarrow>
     swap xs i j ! k = (if k = j then xs ! i else if k = i then xs ! j else xs ! k)"
  by (simp add: swap_def nth_list_update)

lemma par_less [simp]: "0 < j \<Longrightarrow> par j < j"
  by (simp add: par_def)

lemma par_0 [simp]: "par 0 = 0"
  by (simp add: par_def)

lemma par_le: "par j \<le> j"
  by (simp add: par_def)

lemma par_neq: "0 < j \<Longrightarrow> par j \<noteq> j"
  by (simp add: par_def)

lemma par_eq_iff: "0 < k \<Longrightarrow> par k = i \<longleftrightarrow> k = 2 * i + 1 \<or> k = 2 * i + 2"
  unfolding par_def by presburger

lemma heap_up_perm:
  "j < length xs \<Longrightarrow> mset (heap_up f xs j) = mset xs \<and> length (heap_up f xs j) = length xs"
proof (induction f xs j rule: heap_up.induct)
  case (1 f xs j)
  show ?case
  proof (cases "par j = j \<or> \<not> f (xs ! j) < f (xs ! par j)")
    case True
    then show ?thesis by (simp add: heap_up.simps [of f xs j])
  next
    case False
    then have "par j < length xs"
      using 1(2) par_le [of j] by linarith
    with False 1 show ?thesis
      by (simp add: heap_up.simps [of f xs j] mset_swap Let_def)
  qed
qed

lemma heap_down_perm:
  "n \<le> length xs \<Longrightarrow> i < length xs \<Longrightarrow>
     mset (heap_down f xs i n) = mset xs \<and> length (heap_down f xs i n) = length xs"
proof (induction f xs i n rule: heap_down.induct)
  case (1 f xs i n)
  let ?j = "if 2 * i + 2 < n \<and> f (xs ! (2 * i + 2)) < f (xs ! (2 * i + 1))
            then 2 * i + 2 else 2 * i + 1"
  show ?case
  proof (cases "2 * i + 1 \<ge> n \<or> \<not> f (xs ! ?j) < f (xs ! i)")
    case True
    then show ?thesis by (auto simp: heap_down.simps [of f xs i n] Let_def)
  next
    case False
    then have c1: "\<not> n \<le> 2 * i + 1" and c2: "\<not> \<not> f (xs ! ?j) < f (xs ! i)" by simp_all
    then have j: "?j < length xs" using 1(2) by auto
    from 1(1) [OF c1 refl c2] 1(2) j
    have "mset (heap_down f (swap xs i ?j) ?j n) = mset (swap xs i ?j)
        \<and> length (heap_down f (swap xs i ?j) ?j n) = length (swap xs i ?j)" by simp
    moreover have "mset (swap xs i ?j) = mset xs" using 1(3) j by (rule mset_swap)
    moreover have "heap_down f xs i n = heap_down f (swap xs i ?j) ?j n"
      using c1 c2 by (simp only: heap_down.simps [of f xs i n] Let_def if_False simp_thms)
    ultimately show ?thesis by simp
  qed
qed

section \<open>The heap invariant\<close>

definition heap_n :: "('a \<Rightarrow> int) \<Rightarrow> 'a list \<Rightarrow> nat \<Rightarrow> bool" where
  "heap_n f xs n \<longleftrightarrow> (\<forall>k. 0 < k \<and> k < n \<longrightarrow> f (xs ! par k) \<le> f (xs ! k))"

definition is_heap :: "('a \<Rightarrow> int) \<Rightarrow> 'a list \<Rightarrow> bool" where
  "is_heap f xs \<longleftrightarrow> heap_n f xs (length xs)"

text \<open>While an item sifts up from \<open>j\<close>, only the edge above \<open>j\<close> may be out of order, and the parent of
  \<open>j\<close> is below the children of \<open>j\<close>; dually while one sifts down.\<close>

definition up_inv :: "('a \<Rightarrow> int) \<Rightarrow> 'a list \<Rightarrow> nat \<Rightarrow> bool" where
  "up_inv f xs j \<longleftrightarrow>
     (\<forall>k. 0 < k \<and> k < length xs \<and> k \<noteq> j \<longrightarrow> f (xs ! par k) \<le> f (xs ! k)) \<and>
     (\<forall>k. 0 < k \<and> k < length xs \<and> par k = j \<and> 0 < j \<longrightarrow> f (xs ! par j) \<le> f (xs ! k))"

definition down_inv :: "('a \<Rightarrow> int) \<Rightarrow> 'a list \<Rightarrow> nat \<Rightarrow> nat \<Rightarrow> bool" where
  "down_inv f xs i n \<longleftrightarrow>
     (\<forall>k. 0 < k \<and> k < n \<and> par k \<noteq> i \<longrightarrow> f (xs ! par k) \<le> f (xs ! k)) \<and>
     (\<forall>k. 0 < k \<and> k < n \<and> par k = i \<and> 0 < i \<longrightarrow> f (xs ! par i) \<le> f (xs ! k))"

lemma up_inv_step:
  assumes inv: "up_inv f xs j" and j: "0 < j" "j < length xs"
    and lt: "f (xs ! j) < f (xs ! par j)"
  shows "up_inv f (swap xs (par j) j) (par j)"
proof -
  let ?i = "par j" and ?ys = "swap xs (par j) j"
  from j have i: "?i < j" "?i < length xs" by (auto dest: par_less intro: less_trans)
  have nth: "?ys ! k = (if k = j then xs ! ?i else if k = ?i then xs ! j else xs ! k)" for k
    using i j by (simp add: nth_swap)
  have edge: "f (xs ! par k) \<le> f (xs ! k)" if "0 < k" "k < length xs" "k \<noteq> j" for k
    using inv that by (simp add: up_inv_def)
  have child: "f (xs ! ?i) \<le> f (xs ! k)" if "0 < k" "k < length xs" "par k = j" for k
    using inv that j by (simp add: up_inv_def)
  have one: "f (?ys ! par k) \<le> f (?ys ! k)" if k: "0 < k" "k < length xs" "k \<noteq> ?i" for k
  proof (cases "k = j")
    case True
    with lt i show ?thesis by (simp add: nth)
  next
    case False
    consider "par k = ?i" | "par k = j" | "par k \<noteq> ?i" "par k \<noteq> j" by blast
    then show ?thesis
    proof cases
      case 1
      with edge [OF k(1,2) False] lt False k i show ?thesis by (simp add: nth)
    next
      case 2
      with child [OF k(1,2)] False k i show ?thesis by (simp add: nth)
    next
      case 3
      with edge [OF k(1,2) False] False k show ?thesis by (simp add: nth)
    qed
  qed
  have two: "f (?ys ! par ?i) \<le> f (?ys ! k)"
    if k: "0 < k" "k < length xs" "par k = ?i" and i0: "0 < ?i" for k
  proof -
    have pi: "par ?i < ?i" using i0 by simp
    then have "par ?i \<noteq> ?i" "par ?i \<noteq> j" using i by auto
    then have p: "?ys ! par ?i = xs ! par ?i" by (simp add: nth)
    have base: "f (xs ! par ?i) \<le> f (xs ! ?i)" using edge [OF i0 i(2)] i by simp
    show ?thesis
    proof (cases "k = j")
      case True
      with base p show ?thesis by (simp add: nth)
    next
      case False
      have "k \<noteq> ?i" using k pi i0 by (metis less_irrefl par_less)
      moreover have "f (xs ! ?i) \<le> f (xs ! k)" using edge [OF k(1,2) False] k by simp
      ultimately show ?thesis using base p False by (simp add: nth)
    qed
  qed
  from one two show ?thesis by (simp add: up_inv_def)
qed

lemma heap_up_heap: "up_inv f xs j \<Longrightarrow> j < length xs \<Longrightarrow> is_heap f (heap_up f xs j)"
proof (induction f xs j rule: heap_up.induct)
  case (1 f xs j)
  show ?case
  proof (cases "par j = j \<or> \<not> f (xs ! j) < f (xs ! par j)")
    case True
    have "f (xs ! par k) \<le> f (xs ! k)" if k: "0 < k" "k < length xs" for k
    proof (cases "k = j")
      case True': True
      have "par j < j" using True' k(1) by simp
      with True True' show ?thesis by simp
    next
      case False
      with 1(2) k show ?thesis by (simp add: up_inv_def)
    qed
    with True show ?thesis
      by (simp add: heap_up.simps [of f xs j] is_heap_def heap_n_def)
  next
    case False
    then have j0: "0 < j" by (cases j) (auto simp: par_def)
    then have "par j < length xs" using 1(3) par_less [of j] by linarith
    moreover have "up_inv f (swap xs (par j) j) (par j)"
      using 1(2) j0 1(3) False by (intro up_inv_step) auto
    ultimately have "is_heap f (heap_up f (swap xs (par j) j) (par j))"
      using 1(1) [OF refl False] by simp
    with False show ?thesis by (simp add: heap_up.simps [of f xs j] Let_def)
  qed
qed

lemma down_inv_step:
  assumes inv: "down_inv f xs i n" and n: "n \<le> length xs"
    and j: "0 < j" "j < n" "par j = i"
    and least: "\<And>k. 0 < k \<Longrightarrow> k < n \<Longrightarrow> par k = i \<Longrightarrow> f (xs ! j) \<le> f (xs ! k)"
    and lt: "f (xs ! j) < f (xs ! i)"
  shows "down_inv f (swap xs i j) j n"
proof -
  let ?ys = "swap xs i j"
  have ij: "i < j" using j(1,3) par_less [of j] by simp
  have nth: "?ys ! k = (if k = j then xs ! i else if k = i then xs ! j else xs ! k)" for k
    using ij j n by (simp add: nth_swap)
  have edge: "f (xs ! par k) \<le> f (xs ! k)" if "0 < k" "k < n" "par k \<noteq> i" for k
    using inv that by (simp add: down_inv_def)
  have up: "f (xs ! par i) \<le> f (xs ! k)" if "0 < k" "k < n" "par k = i" "0 < i" for k
    using inv that by (simp add: down_inv_def)
  have one: "f (?ys ! par k) \<le> f (?ys ! k)" if k: "0 < k" "k < n" "par k \<noteq> j" for k
  proof (cases "par k = i")
    case True
    show ?thesis
    proof (cases "k = j")
      case True': True
      with True lt ij show ?thesis by (simp add: nth)
    next
      case False
      have "k \<noteq> i" using True k(1) par_less [of k] by auto
      with True False least [OF k(1,2)] ij show ?thesis by (simp add: nth)
    qed
  next
    case False
    have e: "f (xs ! par k) \<le> f (xs ! k)" using edge k False by simp
    show ?thesis
    proof (cases "k = i")
      case True
      have "f (xs ! par i) \<le> f (xs ! j)" using up [OF j] True k(1) by simp
      moreover have "par i \<noteq> i" "par i \<noteq> j" using True k(1) ij par_neq [of i] par_le [of i] by auto
      ultimately show ?thesis using True ij by (simp add: nth)
    next
      case False': False
      have "k \<noteq> j" using False j(3) by auto
      with False False' k(3) e show ?thesis by (simp add: nth)
    qed
  qed
  have two: "f (?ys ! par j) \<le> f (?ys ! k)" if k: "0 < k" "k < n" "par k = j" for k
  proof -
    have "par k \<noteq> i" using k(3) ij by simp
    then have "f (xs ! j) \<le> f (xs ! k)" using edge [OF k(1,2)] k(3) by simp
    moreover have "j < k" using k par_less [of k] by simp
    ultimately show ?thesis using j(3) ij by (simp add: nth)
  qed
  from one two show ?thesis by (simp add: down_inv_def)
qed

lemma heap_down_heap:
  "down_inv f xs i n \<Longrightarrow> n \<le> length xs \<Longrightarrow> heap_n f (heap_down f xs i n) n"
proof (induction f xs i n rule: heap_down.induct)
  case (1 f xs i n)
  let ?j = "if 2 * i + 2 < n \<and> f (xs ! (2 * i + 2)) < f (xs ! (2 * i + 1))
            then 2 * i + 2 else 2 * i + 1"
  have settled: "heap_n f xs n" if c: "\<And>k. 0 < k \<Longrightarrow> k < n \<Longrightarrow> par k = i \<Longrightarrow> f (xs ! i) \<le> f (xs ! k)"
    unfolding heap_n_def
  proof (intro allI impI)
    fix k assume "0 < k \<and> k < n"
    with 1(2) c show "f (xs ! par k) \<le> f (xs ! k)"
      by (cases "par k = i") (simp_all add: down_inv_def)
  qed
  show ?case
  proof (cases "2 * i + 1 \<ge> n")
    case True
    then have "heap_n f xs n"
      by (intro settled) (auto simp: par_eq_iff)
    with True show ?thesis by (simp add: heap_down.simps [of f xs i n])
  next
    case c1: False
    have least: "f (xs ! ?j) \<le> f (xs ! k)" if "0 < k" "k < n" "par k = i" for k
    proof -
      have "k = 2 * i + 1 \<or> k = 2 * i + 2" using that par_eq_iff by simp
      then show ?thesis using that(2) by auto
    qed
    show ?thesis
    proof (cases "f (xs ! ?j) < f (xs ! i)")
      case False
      have "heap_n f xs n"
      proof (rule settled)
        fix k assume "0 < k" "k < n" "par k = i"
        then have "f (xs ! ?j) \<le> f (xs ! k)" by (rule least)
        with False show "f (xs ! i) \<le> f (xs ! k)" by linarith
      qed
      with c1 False show ?thesis by (simp add: heap_down.simps [of f xs i n] Let_def)
    next
      case c2: True
      have j: "0 < ?j" "?j < n" "par ?j = i" using c1 by (auto simp: par_def)
      from 1(2,3) j least c2 have "down_inv f (swap xs i ?j) ?j n" by (rule down_inv_step)
      then have "heap_n f (heap_down f (swap xs i ?j) ?j n) n"
        using c2 1(3) by (intro 1(1) [OF c1 refl]) simp_all
      moreover have "heap_down f xs i n = heap_down f (swap xs i ?j) ?j n"
        using c1 c2 by (simp only: heap_down.simps [of f xs i n] Let_def if_False simp_thms)
      ultimately show ?thesis by simp
    qed
  qed
qed

lemma heap_down_outside:
  "n \<le> length xs \<Longrightarrow> i < n \<or> n \<le> 2 * i + 1 \<Longrightarrow> n \<le> k \<Longrightarrow> heap_down f xs i n ! k = xs ! k"
proof (induction f xs i n rule: heap_down.induct)
  case (1 f xs i n)
  let ?j = "if 2 * i + 2 < n \<and> f (xs ! (2 * i + 2)) < f (xs ! (2 * i + 1))
            then 2 * i + 2 else 2 * i + 1"
  show ?case
  proof (cases "2 * i + 1 \<ge> n \<or> \<not> f (xs ! ?j) < f (xs ! i)")
    case True
    then show ?thesis by (auto simp: heap_down.simps [of f xs i n] Let_def)
  next
    case False
    then have c1: "\<not> n \<le> 2 * i + 1" and c2: "\<not> \<not> f (xs ! ?j) < f (xs ! i)" by simp_all
    have j: "?j < n" using c1 by auto
    from 1(1) [OF c1 refl c2] 1(2) 1(4) j
    have "heap_down f (swap xs i ?j) ?j n ! k = swap xs i ?j ! k" by simp
    moreover have "swap xs i ?j ! k = xs ! k"
      using j 1(2,4) c1 by (subst nth_swap) auto
    moreover have "heap_down f xs i n = heap_down f (swap xs i ?j) ?j n"
      using c1 c2 by (simp only: heap_down.simps [of f xs i n] Let_def if_False simp_thms)
    ultimately show ?thesis by simp
  qed
qed

lemma heap_root_min:
  assumes "is_heap f xs" and "x \<in> set xs"
  shows "f (hd xs) \<le> f x"
proof -
  have "f (xs ! 0) \<le> f (xs ! k)" if "k < length xs" for k
    using that
  proof (induction k rule: less_induct)
    case (less k)
    show ?case
    proof (cases "k = 0")
      case True
      then show ?thesis by simp
    next
      case False
      then have "par k < k" by simp
      then have "f (xs ! 0) \<le> f (xs ! par k)" using less by simp
      also have "\<dots> \<le> f (xs ! k)"
        using assms(1) less.prems False by (simp add: is_heap_def heap_n_def)
      finally show ?thesis .
    qed
  qed
  moreover obtain k where "k < length xs" "x = xs ! k"
    using assms(2) by (auto simp: in_set_conv_nth)
  moreover have "hd xs = xs ! 0" using assms(2) by (cases xs) auto
  ultimately show ?thesis by simp
qed

lemma is_heap_push: "is_heap f xs \<Longrightarrow> is_heap f (heap_push f xs x)"
proof -
  assume h: "is_heap f xs"
  have "up_inv f (xs @ [x]) (length xs)"
  proof -
    have "f ((xs @ [x]) ! par k) \<le> f ((xs @ [x]) ! k)" if "0 < k" "k < length xs" for k
      using h that par_le [of k] by (simp add: is_heap_def heap_n_def nth_append)
    moreover have "\<not> (k < Suc (length xs) \<and> par k = length xs)" if "0 < k" for k
      using par_less [OF that] by linarith
    ultimately show ?thesis by (auto simp: up_inv_def)
  qed
  then show ?thesis unfolding heap_push_def by (rule heap_up_heap) simp
qed

lemma is_heap_pop:
  assumes h: "is_heap f xs" and ne: "xs \<noteq> []"
  shows "is_heap f (heap_pop f xs)"
proof -
  let ?n = "length xs - 1"
  let ?s = "swap xs 0 ?n"
  let ?d = "heap_down f ?s 0 ?n"
  have len: "0 < length xs" using ne by simp
  then have n: "?n < length xs" by simp
  have "down_inv f ?s 0 ?n"
  proof -
    have "f (?s ! par k) \<le> f (?s ! k)" if k: "0 < k" "k < ?n" "par k \<noteq> 0" for k
    proof -
      have "?s ! k = xs ! k" "?s ! par k = xs ! par k"
        using k n len par_le [of k] by (auto simp only: nth_swap if_False split: if_splits)
      then show ?thesis using h k by (simp add: is_heap_def heap_n_def)
    qed
    then show ?thesis by (simp add: down_inv_def)
  qed
  then have heap: "heap_n f ?d ?n" by (rule heap_down_heap) simp
  have perm: "mset ?d = mset ?s" "length ?d = length xs"
    using heap_down_perm [of ?n ?s 0 f] len by simp_all
  show ?thesis
    unfolding heap_pop_def is_heap_def heap_n_def Let_def
  proof (intro allI impI)
    fix k assume "0 < k \<and> k < length (take ?n ?d)"
    then have k: "0 < k" "k < ?n" by auto
    then have "par k < ?n" using par_le [of k] by linarith
    with k heap show "f (take ?n ?d ! par k) \<le> f (take ?n ?d ! k)"
      by (simp add: heap_n_def)
  qed
qed

lemma mset_heap_push: "mset (heap_push f xs x) = add_mset x (mset xs)"
  using heap_up_perm [of "length xs" "xs @ [x]" f] by (simp add: heap_push_def)

lemma mset_heap_pop: "xs \<noteq> [] \<Longrightarrow> mset xs = add_mset (hd xs) (mset (heap_pop f xs))"
proof -
  let ?n = "length xs - 1"
  let ?s = "swap xs 0 ?n"
  let ?d = "heap_down f ?s 0 ?n"
  assume ne: "xs \<noteq> []"
  then have len: "0 < length xs" by simp
  then have n: "?n < length xs" by simp
  have perm: "mset ?d = mset ?s" "length ?d = length xs"
    using heap_down_perm [of ?n ?s 0 f] len by simp_all
  have "?d ! ?n = ?s ! ?n"
    by (rule heap_down_outside) auto
  also have "\<dots> = hd xs" using ne n by (simp add: nth_swap hd_conv_nth)
  finally have last: "?d ! ?n = hd xs" .
  have "take (Suc ?n) ?d = take ?n ?d @ [?d ! ?n]"
    using perm(2) n by (intro take_Suc_conv_app_nth) simp
  then have "?d = take ?n ?d @ [hd xs]"
    using perm(2) len last by simp
  then have "mset ?d = mset (take ?n ?d @ [hd xs])"
    by (rule arg_cong)
  then have "mset ?d = add_mset (hd xs) (mset (take ?n ?d))"
    by (simp only: mset_append mset.simps union_mset_add_mset_right add_0_right)
  moreover have "mset ?s = mset xs" using len n by (intro mset_swap) auto
  ultimately show ?thesis using perm(1) by (simp add: heap_pop_def Let_def)
qed

section \<open>Expiry items\<close>

record expiryItem =
  xi_key :: string
  xi_deadline :: int
  xi_version :: "64 word"

type_synonym expiryHeap = "expiryItem list"

definition eh_push :: "expiryHeap \<Rightarrow> expiryItem \<Rightarrow> expiryHeap" where
  "eh_push = heap_push xi_deadline"

definition eh_pop :: "expiryHeap \<Rightarrow> expiryHeap" where
  "eh_pop = heap_pop xi_deadline"

definition wf_heap :: "expiryHeap \<Rightarrow> bool" where
  "wf_heap = is_heap xi_deadline"

lemma eh_push_Nil [simp]: "eh_push [] x = [x]"
  by (simp add: eh_push_def heap_push_def heap_up.simps par_def)

lemma eh_pop_single [simp]: "eh_pop [x] = []"
  by (simp add: eh_pop_def heap_pop_def)

interpretation eh: deadline_queue xi_deadline eh_push eh_pop wf_heap
proof unfold_locales
  show "wf_heap []" by (simp add: wf_heap_def is_heap_def heap_n_def)
next
  fix q x assume "wf_heap q"
  then show "wf_heap (eh_push q x)" unfolding wf_heap_def eh_push_def by (rule is_heap_push)
next
  fix q assume "wf_heap q" "q \<noteq> []"
  then show "wf_heap (eh_pop q)" unfolding wf_heap_def eh_pop_def by (rule is_heap_pop)
next
  fix q x
  show "mset (eh_push q x) = add_mset x (mset q)" unfolding eh_push_def by (rule mset_heap_push)
next
  fix q :: expiryHeap assume "q \<noteq> []"
  then show "mset q = add_mset (hd q) (mset (eh_pop q))" unfolding eh_pop_def by (rule mset_heap_pop)
next
  fix q x assume "wf_heap q" "x \<in> set q"
  then show "xi_deadline (hd q) \<le> xi_deadline x" unfolding wf_heap_def by (rule heap_root_min)
qed

end
