(* ===== verification/Float64.thy ===== *)
theory Float64
  imports Prelude "HOL-Library.Log_Nat"
begin

text \<open>
  Go's \<^verbatim>\<open>float64\<close> as the sorted-set and geo stores use it: an IEEE double is NaN, an infinity or a
  rational that fits the format. Comparisons are those of IEEE 754 (every one with NaN is false);
  arithmetic computes the exact rational and rounds it to the nearest double, ties to even. A zero
  carries no sign, because no operation of the stores tells the two zeros apart.
\<close>

datatype f64 = NaN | NInf | Fin rat | PInf

fun f_lt :: "f64 \<Rightarrow> f64 \<Rightarrow> bool" where
  "f_lt NaN _ = False"
| "f_lt _ NaN = False"
| "f_lt NInf y = (y \<noteq> NInf)"
| "f_lt PInf _ = False"
| "f_lt (Fin x) NInf = False"
| "f_lt (Fin x) (Fin y) = (x < y)"
| "f_lt (Fin x) PInf = True"

fun f_eq :: "f64 \<Rightarrow> f64 \<Rightarrow> bool" where
  "f_eq NaN _ = False"
| "f_eq x y = (x = y)"

definition f_le :: "f64 \<Rightarrow> f64 \<Rightarrow> bool" where
  "f_le x y \<longleftrightarrow> f_lt x y \<or> f_eq x y"

text \<open>Away from NaN the comparisons form a strict linear order with its equality.\<close>

lemma f_eq_iff: "x \<noteq> NaN \<Longrightarrow> f_eq x y \<longleftrightarrow> x = y"
  by (cases x) auto

lemma f_lt_irrefl [simp]: "\<not> f_lt x x"
  by (cases x) auto

lemma f_lt_trans: "f_lt x y \<Longrightarrow> f_lt y z \<Longrightarrow> f_lt x z"
  by (cases x; cases y; cases z) auto

lemma f_lt_asym: "f_lt x y \<Longrightarrow> \<not> f_lt y x"
  by (cases x; cases y) auto

lemma f_lt_linear: "x \<noteq> NaN \<Longrightarrow> y \<noteq> NaN \<Longrightarrow> f_lt x y \<or> x = y \<or> f_lt y x"
  by (cases x; cases y) auto

lemma f_lt_NaN [simp]: "\<not> f_lt x NaN" "\<not> f_lt NaN x" "\<not> f_eq x NaN" "\<not> f_eq NaN x"
  by (cases x; simp)+

section \<open>Rounding\<close>

text \<open>Round half to even on a non-negative rational.\<close>

definition round_even :: "rat \<Rightarrow> int" where
  "round_even r =
     (let n = \<lfloor>r\<rfloor>; d = r - of_int n
      in if d < 1 / 2 then n else if d > 1 / 2 then n + 1
         else if even n then n else n + 1)"

definition pow2 :: "int \<Rightarrow> rat" where
  "pow2 e = (if 0 \<le> e then 2 ^ nat e else 1 / 2 ^ nat (- e))"

text \<open>The exponent \<open>e\<close> with \<open>2^e \<le> r < 2^(e+1)\<close> for a positive rational, from the bit lengths of
  numerator and denominator.\<close>

definition rat_exp :: "rat \<Rightarrow> int" where
  "rat_exp r =
     (let (p, q) = quotient_of r; e = int (floorlog 2 (nat p)) - int (floorlog 2 (nat q))
      in if pow2 e \<le> r then e else e - 1)"

definition round_abs :: "rat \<Rightarrow> f64" where
  "round_abs r =
     (if r = 0 then Fin 0
      else let e = max (rat_exp r - 52) (- 1074); v = of_int (round_even (r / pow2 e)) * pow2 e
           in if v \<ge> pow2 1024 then PInf else Fin v)"

fun f_neg :: "f64 \<Rightarrow> f64" where
  "f_neg NaN = NaN"
| "f_neg NInf = PInf"
| "f_neg PInf = NInf"
| "f_neg (Fin x) = Fin (- x)"

definition round_f64 :: "rat \<Rightarrow> f64" where
  "round_f64 r = (if r < 0 then f_neg (round_abs (- r)) else round_abs r)"

fun f_add :: "f64 \<Rightarrow> f64 \<Rightarrow> f64" where
  "f_add NaN _ = NaN"
| "f_add _ NaN = NaN"
| "f_add NInf PInf = NaN"
| "f_add PInf NInf = NaN"
| "f_add NInf _ = NInf"
| "f_add _ NInf = NInf"
| "f_add PInf _ = PInf"
| "f_add _ PInf = PInf"
| "f_add (Fin x) (Fin y) = round_f64 (x + y)"

definition f_sub :: "f64 \<Rightarrow> f64 \<Rightarrow> f64" where
  "f_sub x y = f_add x (f_neg y)"

definition f_sgn :: "f64 \<Rightarrow> int" where
  "f_sgn x = (if f_lt x (Fin 0) then -1 else if f_lt (Fin 0) x then 1 else 0)"

definition f_inf :: "int \<Rightarrow> f64" where
  "f_inf s = (if s = 0 then NaN else if s < 0 then NInf else PInf)"

text \<open>Multiplication and division by a finite non-zero constant, the forms the geo store uses.\<close>

fun f_mul :: "f64 \<Rightarrow> f64 \<Rightarrow> f64" where
  "f_mul NaN _ = NaN"
| "f_mul _ NaN = NaN"
| "f_mul (Fin x) (Fin y) = round_f64 (x * y)"
| "f_mul x y = f_inf (f_sgn x * f_sgn y)"

fun f_divc :: "f64 \<Rightarrow> rat \<Rightarrow> f64" where
  "f_divc NaN _ = NaN"
| "f_divc (Fin x) c = round_f64 (x / c)"
| "f_divc PInf c = (if c > 0 then PInf else NInf)"
| "f_divc NInf c = (if c > 0 then NInf else PInf)"

lemma round_abs_not_NaN [simp]: "round_abs r \<noteq> NaN"
  by (simp add: round_abs_def Let_def)

lemma round_f64_not_NaN [simp]: "round_f64 r \<noteq> NaN"
proof -
  have "f_neg y \<noteq> NaN" if "y \<noteq> NaN" for y using that by (cases y) auto
  then show ?thesis by (simp add: round_f64_def)
qed

text \<open>A sum is NaN only when an operand is, or the operands are opposite infinities.\<close>

lemma f_add_NaN_iff:
  "f_add x y = NaN \<longleftrightarrow> x = NaN \<or> y = NaN \<or> x = NInf \<and> y = PInf \<or> x = PInf \<and> y = NInf"
  by (cases x; cases y) auto

lemma round_even_of_int: "round_even (of_int n) = n"
  by (simp add: round_even_def Let_def)

end
