(* ===== verification/Values.thy ===== *)
theory Values
  imports ExpiryHeap Float64
begin

text \<open>
  The data an entry of the key-value store can hold: the type tags of
  \<^verbatim>\<open>src/internal/protocol/command.go\<close> and the Go structures behind the \<^verbatim>\<open>interface{}\<close> value of an
  \<^verbatim>\<open>Entry\<close> (\<^verbatim>\<open>src/internal/engine/*.go\<close>), each with its own record. A vector index is kept as the
  address of its object; its contents are not part of the key-value state.
\<close>

datatype dataType =
    TypeString | TypeHash | TypeList | TypeSet | TypeZSet | TypeStream
  | TypeDocument | TypeBitmap | TypeGeo | TypeVector | TypeNone

fun type_name :: "dataType \<Rightarrow> string" where
  "type_name TypeString = ''string''"
| "type_name TypeHash = ''hash''"
| "type_name TypeList = ''list''"
| "type_name TypeSet = ''set''"
| "type_name TypeZSet = ''zset''"
| "type_name TypeStream = ''stream''"
| "type_name TypeDocument = ''document''"
| "type_name TypeBitmap = ''bitmap''"
| "type_name TypeGeo = ''geo''"
| "type_name TypeVector = ''vector''"
| "type_name TypeNone = ''none''"

type_synonym hashMap = "(string, slice) gomap"
type_synonym dbxSet = "(string, unit) gomap"

record dbxList =
  l_items :: "slice list"

record zsetMember =
  zm_Member :: string
  zm_Score :: f64

record dbxZSet =
  z_scores :: "(string, f64) gomap"
  z_sorted :: "zsetMember list"

record streamEntry =
  se_ID :: string
  se_Fields :: "(string, string) gomap"

record consumer =
  c_Name :: string
  c_Pending :: "streamEntry list"

record consumerGroup =
  g_Name :: string
  g_LastID :: string
  g_Consumers :: "(string, consumer) gomap"
  g_Pending :: "streamEntry list"

record dbxStream =
  s_entries :: "streamEntry list"
  s_lastID :: string
  s_groups :: "(string, consumerGroup) gomap"

record geoPoint =
  gp_Name :: string
  gp_Longitude :: f64
  gp_Latitude :: f64
  gp_Score :: f64

record dbxGeo =
  geo_points :: "(string, geoPoint) gomap"
  geo_sorted :: "geoPoint list"

datatype gvalue =
    VNil
  | VBytes slice
  | VHash hashMap
  | VList dbxList
  | VSet dbxSet
  | VZSet dbxZSet
  | VStream dbxStream
  | VGeo dbxGeo
  | VVector nat

text \<open>The type assertions \<^verbatim>\<open>e.Value.(T)\<close>: \<open>None\<close> is a failed assertion.\<close>

fun as_bytes :: "gvalue \<Rightarrow> slice option" where
  "as_bytes (VBytes b) = Some b" | "as_bytes _ = None"

fun as_hash :: "gvalue \<Rightarrow> hashMap option" where
  "as_hash (VHash m) = Some m" | "as_hash _ = None"

fun as_list :: "gvalue \<Rightarrow> dbxList option" where
  "as_list (VList l) = Some l" | "as_list _ = None"

fun as_set :: "gvalue \<Rightarrow> dbxSet option" where
  "as_set (VSet s) = Some s" | "as_set _ = None"

fun as_zset :: "gvalue \<Rightarrow> dbxZSet option" where
  "as_zset (VZSet z) = Some z" | "as_zset _ = None"

fun as_stream :: "gvalue \<Rightarrow> dbxStream option" where
  "as_stream (VStream s) = Some s" | "as_stream _ = None"

fun as_geo :: "gvalue \<Rightarrow> dbxGeo option" where
  "as_geo (VGeo g) = Some g" | "as_geo _ = None"

fun is_vector :: "gvalue \<Rightarrow> bool" where
  "is_vector VNil = True" | "is_vector (VVector _) = True" | "is_vector _ = False"

text \<open>\<^verbatim>\<open>Entry\<close>; times are Unix nanoseconds.\<close>

record entry =
  e_value :: gvalue
  e_type :: dataType
  e_expires :: int
  e_version :: "64 word"
  e_created :: int
  e_updated :: int

definition isExpired :: "int \<Rightarrow> entry \<Rightarrow> bool" where
  "isExpired now e \<longleftrightarrow> (if e_expires e = 0 then False else now > e_expires e)"

text \<open>An entry literal \<^verbatim>\<open>&Entry{Value: v, Type: t}\<close> leaves the other fields zero.\<close>

definition mkEntry :: "gvalue \<Rightarrow> dataType \<Rightarrow> entry" where
  "mkEntry v t = \<lparr>e_value = v, e_type = t, e_expires = 0, e_version = 0, e_created = 0,
     e_updated = 0\<rparr>"

text \<open>A value has the shape its tag announces, and its maps have distinct keys. A vector entry is
  emptied when it is closed.\<close>

definition wf_zset :: "dbxZSet \<Rightarrow> bool" where
  "wf_zset z \<longleftrightarrow> wf_map (z_scores z)"

definition wf_stream :: "dbxStream \<Rightarrow> bool" where
  "wf_stream s \<longleftrightarrow> wf_map (s_groups s) \<and> (\<forall>(n, g) \<in> set (s_groups s). wf_map (g_Consumers g))"

definition wf_geo :: "dbxGeo \<Rightarrow> bool" where
  "wf_geo g \<longleftrightarrow> wf_map (geo_points g)"

definition shape :: "(gvalue \<Rightarrow> 'a option) \<Rightarrow> ('a \<Rightarrow> bool) \<Rightarrow> gvalue \<Rightarrow> bool" where
  "shape proj ok v \<longleftrightarrow> (case proj v of None \<Rightarrow> False | Some x \<Rightarrow> ok x)"

fun well_typed_value :: "dataType \<Rightarrow> gvalue \<Rightarrow> bool" where
  "well_typed_value TypeString v \<longleftrightarrow> shape as_bytes (\<lambda>_. True) v"
| "well_typed_value TypeBitmap v \<longleftrightarrow> shape as_bytes (\<lambda>_. True) v"
| "well_typed_value TypeDocument v \<longleftrightarrow> shape as_bytes (\<lambda>_. True) v"
| "well_typed_value TypeHash v \<longleftrightarrow> shape as_hash wf_map v"
| "well_typed_value TypeList v \<longleftrightarrow> shape as_list (\<lambda>_. True) v"
| "well_typed_value TypeSet v \<longleftrightarrow> shape as_set wf_map v"
| "well_typed_value TypeZSet v \<longleftrightarrow> shape as_zset wf_zset v"
| "well_typed_value TypeStream v \<longleftrightarrow> shape as_stream wf_stream v"
| "well_typed_value TypeGeo v \<longleftrightarrow> shape as_geo wf_geo v"
| "well_typed_value TypeVector v \<longleftrightarrow> is_vector v"
| "well_typed_value TypeNone v \<longleftrightarrow> False"

definition well_typed :: "entry \<Rightarrow> bool" where
  "well_typed e \<longleftrightarrow> well_typed_value (e_type e) (e_value e)"

lemma isExpired_mkEntry [simp]: "\<not> isExpired now (mkEntry v t)"
  by (simp add: isExpired_def mkEntry_def)

lemma mkEntry_sel [simp]:
  "e_value (mkEntry v t) = v" "e_type (mkEntry v t) = t" "e_expires (mkEntry v t) = 0"
  "e_version (mkEntry v t) = 0"
  by (simp_all add: mkEntry_def)

lemma isExpired_value [simp]: "isExpired now (e\<lparr>e_value := v\<rparr>) = isExpired now e"
  by (simp add: isExpired_def)

lemma isExpired_mono: "isExpired t e \<Longrightarrow> t \<le> t' \<Longrightarrow> isExpired t' e"
  by (auto simp: isExpired_def split: if_splits)

lemma type_name_inj: "type_name a = type_name b \<longleftrightarrow> a = b"
  by (cases a; cases b) simp_all

end
