(* ===== verification/KV.thy ===== *)
theory KV
  imports Values HashUtil
begin

text \<open>
  The sharded key-value store of \<^verbatim>\<open>src/internal/engine/kv.go\<close>. Every operation takes the clock
  readings it makes as arguments (\<open>now\<close>, or \<open>t1 t2\<close> when the code reads the clock twice) and returns
  the new store. A locked section of one shard is one step, so a sequence of operations is a
  sequence of such steps.

  The interface the typed stores build on is the locale \<open>keyspace\<close> (find, put and delete on single
  keys behave like a flat map); the shards, the hash that picks one and the expiry heaps stay behind
  it.
\<close>

section \<open>State and operations\<close>

record shard =
  sh_data :: "(string, entry) gomap"
  sh_expiries :: expiryHeap

record kvstore =
  kv_shards :: "shard list"
  kv_numShards :: int
  kv_version :: "64 word"

definition defaultNumShards :: int where "defaultNumShards = 256"

definition New :: "int \<Rightarrow> kvstore" where
  "New numShards =
     (let n = (if numShards \<le> 0 then defaultNumShards else numShards)
      in \<lparr>kv_shards = replicate (nat n) \<lparr>sh_data = [], sh_expiries = []\<rparr>, kv_numShards = n,
          kv_version = 0\<rparr>)"

definition kv_idx :: "kvstore \<Rightarrow> string \<Rightarrow> nat" where
  "kv_idx kv key = ShardIndex key (kv_numShards kv)"

definition kv_shard :: "kvstore \<Rightarrow> string \<Rightarrow> shard" where
  "kv_shard kv key = kv_shards kv ! kv_idx kv key"

definition nextVersion :: "kvstore \<Rightarrow> 64 word \<times> kvstore" where
  "nextVersion kv = (kv_version kv + 1, kv\<lparr>kv_version := kv_version kv + 1\<rparr>)"

text \<open>\<^verbatim>\<open>s.data[key]\<close>, \<^verbatim>\<open>s.data[key] = e\<close> and \<^verbatim>\<open>delete(s.data, key)\<close> on the shard of \<open>key\<close>.\<close>

definition kv_find :: "kvstore \<Rightarrow> string \<Rightarrow> entry option" where
  "kv_find kv key = map_of (sh_data (kv_shard kv key)) key"

definition kv_upd :: "kvstore \<Rightarrow> string \<Rightarrow> (shard \<Rightarrow> shard) \<Rightarrow> kvstore" where
  "kv_upd kv key f = kv\<lparr>kv_shards := (kv_shards kv)[kv_idx kv key := f (kv_shard kv key)]\<rparr>"

definition kv_put :: "kvstore \<Rightarrow> string \<Rightarrow> entry \<Rightarrow> kvstore" where
  "kv_put kv key e = kv_upd kv key (\<lambda>s. s\<lparr>sh_data := AList.update key e (sh_data s)\<rparr>)"

definition kv_del :: "kvstore \<Rightarrow> string \<Rightarrow> kvstore" where
  "kv_del kv key = kv_upd kv key (\<lambda>s. s\<lparr>sh_data := AList.delete key (sh_data s)\<rparr>)"

definition kv_push :: "kvstore \<Rightarrow> string \<Rightarrow> expiryItem \<Rightarrow> kvstore" where
  "kv_push kv key x = kv_upd kv key (\<lambda>s. s\<lparr>sh_expiries := eh_push (sh_expiries s) x\<rparr>)"

text \<open>The entry \<^verbatim>\<open>Set\<close> leaves: an existing one keeps its creation time.\<close>

definition kv_set_entry ::
  "int \<Rightarrow> entry option \<Rightarrow> gvalue \<Rightarrow> dataType \<Rightarrow> int \<Rightarrow> 64 word \<Rightarrow> entry" where
  "kv_set_entry now old value typ expiry ver =
     (case old of
        Some e \<Rightarrow> e\<lparr>e_value := value, e_type := typ, e_expires := expiry, e_version := ver,
                    e_updated := now\<rparr>
      | None \<Rightarrow> \<lparr>e_value = value, e_type = typ, e_expires = expiry, e_version = ver,
                 e_created = now, e_updated = now\<rparr>)"

definition set_deadline :: "int \<Rightarrow> int \<Rightarrow> int" where
  "set_deadline now ttlNano = (if ttlNano > 0 then i64 (now + ttlNano) else 0)"

definition kv_Set :: "int \<Rightarrow> kvstore \<Rightarrow> string \<Rightarrow> gvalue \<Rightarrow> dataType \<Rightarrow> int \<Rightarrow> kvstore" where
  "kv_Set now kv key value typ ttlNano =
     (let expiry = set_deadline now ttlNano;
          (ver, kv1) = nextVersion kv;
          kv2 = kv_put kv1 key (kv_set_entry now (kv_find kv key) value typ expiry ver)
      in if expiry > 0
         then kv_push kv2 key \<lparr>xi_key = key, xi_deadline = expiry, xi_version = ver\<rparr>
         else kv2)"

definition kv_Get :: "int \<Rightarrow> kvstore \<Rightarrow> string \<Rightarrow> entry option" where
  "kv_Get now kv key =
     (case kv_find kv key of None \<Rightarrow> None | Some e \<Rightarrow> if isExpired now e then None else Some e)"

definition kv_GetForRead :: "int \<Rightarrow> kvstore \<Rightarrow> string \<Rightarrow> entry option" where
  "kv_GetForRead now kv key =
     (case kv_find kv key of None \<Rightarrow> None | Some e \<Rightarrow> if isExpired now e then None else Some e)"

definition kv_GetForWrite :: "int \<Rightarrow> kvstore \<Rightarrow> string \<Rightarrow> kvstore \<times> entry option" where
  "kv_GetForWrite now kv key =
     (case kv_find kv key of
        None \<Rightarrow> (kv, None)
      | Some e \<Rightarrow> if isExpired now e then (kv_del kv key, None) else (kv, Some e))"

text \<open>Closing a vector entry empties its value.\<close>

definition closeVectorEntry :: "entry \<Rightarrow> entry" where
  "closeVectorEntry e =
     (if e_type e \<noteq> TypeVector then e
      else case e_value e of VVector _ \<Rightarrow> e\<lparr>e_value := VNil\<rparr> | _ \<Rightarrow> e)"

fun kv_Delete :: "kvstore \<Rightarrow> string list \<Rightarrow> kvstore \<times> int" where
  "kv_Delete kv [] = (kv, 0)"
| "kv_Delete kv (key # keys) =
     (case kv_find kv key of
        None \<Rightarrow> kv_Delete kv keys
      | Some e \<Rightarrow> let (kv', n) = kv_Delete (kv_del kv key) keys in (kv', n + 1))"

definition kv_Exists :: "int \<Rightarrow> kvstore \<Rightarrow> string \<Rightarrow> bool" where
  "kv_Exists now kv key \<longleftrightarrow> kv_Get now kv key \<noteq> None"

definition kv_Type :: "int \<Rightarrow> kvstore \<Rightarrow> string \<Rightarrow> dataType" where
  "kv_Type now kv key = (case kv_Get now kv key of None \<Rightarrow> TypeNone | Some e \<Rightarrow> e_type e)"

definition kv_Expire :: "int \<Rightarrow> int \<Rightarrow> kvstore \<Rightarrow> string \<Rightarrow> int \<Rightarrow> kvstore \<times> bool" where
  "kv_Expire t1 t2 kv key seconds =
     (case kv_find kv key of
        None \<Rightarrow> (kv, False)
      | Some e \<Rightarrow>
          if isExpired t1 e then (kv, False)
          else if seconds \<le> 0 then (kv_del kv key, True)
          else let deadline = i64 (t2 + i64 (seconds * second));
                   (ver, kv1) = nextVersion kv;
                   kv2 = kv_put kv1 key (e\<lparr>e_expires := deadline, e_version := ver\<rparr>)
               in (kv_push kv2 key \<lparr>xi_key = key, xi_deadline = deadline, xi_version = ver\<rparr>,
                   True))"

definition kv_TTL :: "int \<Rightarrow> int \<Rightarrow> kvstore \<Rightarrow> string \<Rightarrow> int" where
  "kv_TTL t1 t2 kv key =
     (case kv_Get t1 kv key of
        None \<Rightarrow> -2
      | Some e \<Rightarrow>
          if e_expires e = 0 then -1
          else let remaining = i64 (e_expires e - t2)
               in if remaining \<le> 0 then -2 else go_div remaining second)"

definition kv_Persist :: "int \<Rightarrow> kvstore \<Rightarrow> string \<Rightarrow> kvstore \<times> bool" where
  "kv_Persist now kv key =
     (case kv_find kv key of
        None \<Rightarrow> (kv, False)
      | Some e \<Rightarrow>
          if isExpired now e then (kv, False)
          else if e_expires e = 0 then (kv, False)
          else (kv_put kv key (e\<lparr>e_expires := 0\<rparr>), True))"

text \<open>A loop over every shard and every entry of it.\<close>

definition kv_entries :: "kvstore \<Rightarrow> (string \<times> entry) list" where
  "kv_entries kv = concat (map sh_data (kv_shards kv))"

definition live_entries :: "int \<Rightarrow> kvstore \<Rightarrow> (string \<times> entry) list" where
  "live_entries now kv = filter (\<lambda>(k, e). \<not> isExpired now e) (kv_entries kv)"

definition kv_DBSize :: "int \<Rightarrow> kvstore \<Rightarrow> int" where
  "kv_DBSize now kv = int (length (live_entries now kv))"

definition count_type :: "(string, int) gomap \<Rightarrow> string \<times> entry \<Rightarrow> (string, int) gomap" where
  "count_type stats = (\<lambda>(k, e).
     let t = type_name (e_type e)
     in AList.update t ((case map_of stats t of None \<Rightarrow> 0 | Some n \<Rightarrow> n) + 1) stats)"

definition kv_KeyspaceStats :: "int \<Rightarrow> kvstore \<Rightarrow> (string, int) gomap" where
  "kv_KeyspaceStats now kv = foldl count_type [] (live_entries now kv)"

definition kv_KeyCount :: "int \<Rightarrow> kvstore \<Rightarrow> int" where
  "kv_KeyCount now kv = sum_list (map snd (kv_KeyspaceStats now kv))"

definition kv_FlushAll :: "kvstore \<Rightarrow> kvstore" where
  "kv_FlushAll kv = kv\<lparr>kv_shards := map (\<lambda>s. s\<lparr>sh_data := []\<rparr>) (kv_shards kv)\<rparr>"

definition kv_Rename :: "int \<Rightarrow> int \<Rightarrow> int \<Rightarrow> kvstore \<Rightarrow> string \<Rightarrow> string \<Rightarrow> kvstore \<times> unit res" where
  "kv_Rename t1 t2 t3 kv key newKey =
     (case kv_Get t1 kv key of
        None \<Rightarrow> (kv, Err ErrNotFound)
      | Some e0 \<Rightarrow>
          let kv1 = fst (kv_Delete kv [key]);
              e = closeVectorEntry e0
          in if e_expires e > 0
             then let ttl = i64 (e_expires e - t2)
                  in if ttl \<le> 0 then (kv1, Err ErrNotFound)
                     else (kv_Set t3 kv1 newKey (e_value e) (e_type e) ttl, Ok ())
             else (kv_Set t3 kv1 newKey (e_value e) (e_type e) 0, Ok ()))"

definition kv_ExpiredKeys :: "int \<Rightarrow> kvstore \<Rightarrow> string list" where
  "kv_ExpiredKeys now kv = map fst (filter (\<lambda>(k, e). isExpired now e) (kv_entries kv))"

text \<open>The inner loop of \<^verbatim>\<open>DeleteExpiredLimit\<close> on one shard: pop due items, delete the key of an item
  that still describes its entry.\<close>

function reap_shard :: "int \<Rightarrow> int \<Rightarrow> int \<Rightarrow> shard \<Rightarrow> int \<times> shard" where
  "reap_shard limit now cnt s =
     (if sh_expiries s = [] \<or> \<not> (limit \<le> 0 \<or> cnt < limit) then (cnt, s)
      else if xi_deadline (hd (sh_expiries s)) > now then (cnt, s)
      else let item = hd (sh_expiries s);
               s1 = s\<lparr>sh_expiries := eh_pop (sh_expiries s)\<rparr>
           in case map_of (sh_data s1) (xi_key item) of
                None \<Rightarrow> reap_shard limit now cnt s1
              | Some e \<Rightarrow>
                  if e_version e \<noteq> xi_version item \<or> e_expires e \<noteq> xi_deadline item
                  then reap_shard limit now cnt s1
                  else reap_shard limit now (cnt + 1)
                         (s1\<lparr>sh_data := AList.delete (xi_key item) (sh_data s1)\<rparr>))"
  by pat_completeness auto
termination
proof (relation "measure (\<lambda>(l, n, c, s). length (sh_expiries s))", goal_cases)
  case 1
  show ?case by simp
qed (use eh.length_pop in \<open>fastforce simp: Suc_le_eq [symmetric]\<close>)+

declare reap_shard.simps [simp del]

fun reap_shards :: "int \<Rightarrow> int \<Rightarrow> int \<Rightarrow> shard list \<Rightarrow> int \<times> shard list" where
  "reap_shards limit now cnt [] = (cnt, [])"
| "reap_shards limit now cnt (s # ss) =
     (let (c, s') = reap_shard limit now cnt s
      in if limit > 0 \<and> c \<ge> limit then (c, s' # ss)
         else let (c', ss') = reap_shards limit now c ss in (c', s' # ss'))"

definition kv_DeleteExpiredLimit :: "int \<Rightarrow> kvstore \<Rightarrow> int \<Rightarrow> kvstore \<times> int" where
  "kv_DeleteExpiredLimit now kv limit =
     (let (c, ss) = reap_shards limit now 0 (kv_shards kv) in (kv\<lparr>kv_shards := ss\<rparr>, c))"

definition kv_DeleteExpired :: "int \<Rightarrow> kvstore \<Rightarrow> kvstore \<times> int" where
  "kv_DeleteExpired now kv = kv_DeleteExpiredLimit now kv 0"

definition kv_Snapshot :: "int \<Rightarrow> kvstore \<Rightarrow> (string, entry) gomap" where
  "kv_Snapshot now kv = foldl (\<lambda>snap (k, e). AList.update k e snap) [] (live_entries now kv)"

definition entry_bytes :: "string \<times> entry \<Rightarrow> int" where
  "entry_bytes = (\<lambda>(key, e). int (length key) + 96 +
     (if e_type e = TypeString then
        case as_bytes (e_value e) of Some b \<Rightarrow> int (length (sl b)) | None \<Rightarrow> 0
      else 0))"

definition shard_bytes :: "int \<Rightarrow> shard \<Rightarrow> int" where
  "shard_bytes now s =
     sum_list (map entry_bytes (filter (\<lambda>(k, e). \<not> isExpired now e) (sh_data s)))
       + int (length (sh_expiries s)) * 48"

definition kv_MemoryUsage :: "int \<Rightarrow> kvstore \<Rightarrow> int" where
  "kv_MemoryUsage now kv = sum_list (map (shard_bytes now) (kv_shards kv))"

section \<open>The invariant and the keyspace interface\<close>

text \<open>Every key sits in the shard its hash picks, once, and every expiry list is a heap.\<close>

definition wf_shard :: "int \<Rightarrow> nat \<Rightarrow> shard \<Rightarrow> bool" where
  "wf_shard n i s \<longleftrightarrow> wf_map (sh_data s) \<and> wf_heap (sh_expiries s)
     \<and> (\<forall>p \<in> set (sh_data s). ShardIndex (fst p) n = i)"

definition kv_inv :: "kvstore \<Rightarrow> bool" where
  "kv_inv kv \<longleftrightarrow> kv_numShards kv > 0 \<and> length (kv_shards kv) = nat (kv_numShards kv)
     \<and> (\<forall>i < length (kv_shards kv). wf_shard (kv_numShards kv) i (kv_shards kv ! i))"

locale keyspace =
  fixes find :: "'s \<Rightarrow> string \<Rightarrow> entry option"
    and put :: "'s \<Rightarrow> string \<Rightarrow> entry \<Rightarrow> 's"
    and del :: "'s \<Rightarrow> string \<Rightarrow> 's"
    and inv :: "'s \<Rightarrow> bool"
  assumes find_put: "inv s \<Longrightarrow> find (put s k e) = (find s)(k \<mapsto> e)"
    and find_del: "inv s \<Longrightarrow> find (del s k) = (find s)(k := None)"
    and inv_put: "inv s \<Longrightarrow> inv (put s k e)"
    and inv_del: "inv s \<Longrightarrow> inv (del s k)"
begin

lemma inv_puts: "inv s \<Longrightarrow> inv (foldl (\<lambda>s (k, e). put s k e) s ps)"
  by (induction ps arbitrary: s) (auto simp: inv_put)

text \<open>A batch of puts is the map update with the batch; later puts win.\<close>

lemma find_puts: "inv s \<Longrightarrow> find (foldl (\<lambda>s (k, e). put s k e) s ps) = find s ++ map_of (rev ps)"
proof (induction ps arbitrary: s)
  case Nil
  then show ?case by simp
next
  case (Cons p ps)
  obtain k e where p: "p = (k, e)" by (cases p)
  from Cons.prems have "inv (put s k e)" by (rule inv_put)
  then have "find (foldl (\<lambda>s (k, e). put s k e) s (p # ps)) = find (put s k e) ++ map_of (rev ps)"
    using Cons.IH by (simp add: p)
  also have "\<dots> = find s ++ map_of (rev (p # ps))"
    using Cons.prems by (auto simp: find_put p map_add_def fun_eq_iff split: option.splits)
  finally show ?case .
qed

lemma inv_dels: "inv s \<Longrightarrow> inv (foldl del s ks)"
  by (induction ks arbitrary: s) (auto simp: inv_del)

lemma find_dels: "inv s \<Longrightarrow> find (foldl del s ks) = (find s) |` (- set ks)"
proof (induction ks arbitrary: s)
  case Nil
  then show ?case by simp
next
  case (Cons k ks)
  then have "find (foldl del s (k # ks)) = find (del s k) |` (- set ks)"
    by (simp add: inv_del)
  also have "\<dots> = find s |` (- set (k # ks))"
    using Cons.prems by (auto simp: find_del restrict_map_def fun_eq_iff)
  finally show ?case .
qed

end

lemma kv_idx_less: "kv_inv kv \<Longrightarrow> kv_idx kv key < length (kv_shards kv)"
  using ShardIndex_bound [of "kv_numShards kv" key] by (simp add: kv_inv_def kv_idx_def)

lemma kv_upd_sel [simp]:
  "kv_numShards (kv_upd kv key f) = kv_numShards kv"
  "kv_version (kv_upd kv key f) = kv_version kv"
  "length (kv_shards (kv_upd kv key f)) = length (kv_shards kv)"
  "kv_idx (kv_upd kv key f) k = kv_idx kv k"
  by (simp_all add: kv_upd_def kv_idx_def)

lemma kv_shard_upd:
  "kv_inv kv \<Longrightarrow> kv_shard (kv_upd kv key f) k =
     (if kv_idx kv k = kv_idx kv key then f (kv_shard kv k) else kv_shard kv k)"
  using kv_idx_less [of kv] by (auto simp: kv_shard_def kv_upd_def kv_idx_def)

lemma wf_kv_shard: "kv_inv kv \<Longrightarrow> wf_shard (kv_numShards kv) (kv_idx kv key) (kv_shard kv key)"
  using kv_idx_less [of kv key] by (simp add: kv_inv_def kv_shard_def)

lemma kv_inv_upd:
  assumes "kv_inv kv"
    and "wf_shard (kv_numShards kv) (kv_idx kv key) (kv_shard kv key) \<Longrightarrow>
         wf_shard (kv_numShards kv) (kv_idx kv key) (f (kv_shard kv key))"
  shows "kv_inv (kv_upd kv key f)"
  using assms wf_kv_shard [OF assms(1), of key] kv_idx_less [OF assms(1), of key]
  by (auto simp: kv_inv_def kv_upd_def kv_idx_def nth_list_update)

lemma set_update_subset: "set (AList.update k v m) \<subseteq> insert (k, v) (set m)"
  by (induction m) auto

lemma set_delete_subset: "set (AList.delete k m) \<subseteq> set m"
  by (induction m) auto

lemma kv_inv_put: "kv_inv kv \<Longrightarrow> kv_inv (kv_put kv key e)"
  unfolding kv_put_def
proof (rule kv_inv_upd)
  assume w: "wf_shard (kv_numShards kv) (kv_idx kv key) (kv_shard kv key)"
  have "ShardIndex (fst p) (kv_numShards kv) = kv_idx kv key"
    if "p \<in> set (AList.update key e (sh_data (kv_shard kv key)))" for p
    using that w set_update_subset [of key e "sh_data (kv_shard kv key)"]
    by (auto simp: wf_shard_def kv_idx_def)
  with w show "wf_shard (kv_numShards kv) (kv_idx kv key)
     (kv_shard kv key\<lparr>sh_data := AList.update key e (sh_data (kv_shard kv key))\<rparr>)"
    by (simp add: wf_shard_def)
qed

lemma kv_inv_del: "kv_inv kv \<Longrightarrow> kv_inv (kv_del kv key)"
  unfolding kv_del_def
  by (erule kv_inv_upd)
    (use set_delete_subset in \<open>fastforce simp: wf_shard_def\<close>)

lemma kv_inv_push: "kv_inv kv \<Longrightarrow> kv_inv (kv_push kv key x)"
  unfolding kv_push_def by (erule kv_inv_upd) (simp add: wf_shard_def eh.inv_push)

lemma kv_find_put: "kv_inv kv \<Longrightarrow> kv_find (kv_put kv key e) = (kv_find kv)(key \<mapsto> e)"
  by (auto simp: kv_find_def kv_put_def kv_shard_upd fun_eq_iff)

lemma kv_find_del: "kv_inv kv \<Longrightarrow> kv_find (kv_del kv key) = (kv_find kv)(key := None)"
  by (auto simp: kv_find_def kv_del_def kv_shard_upd fun_eq_iff)

interpretation kvs: keyspace kv_find kv_put kv_del kv_inv
  by unfold_locales (simp_all add: kv_find_put kv_find_del kv_inv_put kv_inv_del)

lemma kv_find_push [simp]: "kv_inv kv \<Longrightarrow> kv_find (kv_push kv key x) = kv_find kv"
  by (auto simp: kv_find_def kv_push_def kv_shard_upd fun_eq_iff)

lemma kv_version_sel [simp]:
  "kv_find (kv\<lparr>kv_version := v\<rparr>) = kv_find kv"
  "kv_inv (kv\<lparr>kv_version := v\<rparr>) = kv_inv kv"
  "kv_idx (kv\<lparr>kv_version := v\<rparr>) = kv_idx kv"
  by (simp_all add: kv_find_def kv_shard_def kv_idx_def kv_inv_def fun_eq_iff)

lemma kv_version_upd [simp]:
  "kv_version (kv_put kv k e) = kv_version kv" "kv_version (kv_del kv k) = kv_version kv"
  "kv_version (kv_push kv k x) = kv_version kv"
  by (simp_all add: kv_put_def kv_del_def kv_push_def)

lemma kv_inv_New: "kv_inv (New n)"
  by (auto simp: kv_inv_def New_def Let_def wf_shard_def defaultNumShards_def eh.inv_Nil)

lemma kv_version_New [simp]: "kv_version (New n) = 0"
  by (simp add: New_def Let_def)

lemma kv_find_New: "kv_find (New n) = Map.empty"
proof
  fix key
  have "kv_idx (New n) key < length (kv_shards (New n))" using kv_inv_New by (rule kv_idx_less)
  then show "kv_find (New n) key = None"
    by (simp add: kv_find_def kv_shard_def New_def Let_def)
qed

section \<open>What each operation does to the flat map\<close>

lemma kv_Set_find:
  assumes "kv_inv kv"
  shows "kv_find (kv_Set now kv key v ty ttl) = (kv_find kv)(key \<mapsto>
    kv_set_entry now (kv_find kv key) v ty (set_deadline now ttl) (kv_version kv + 1))"
  using assms by (simp add: kv_Set_def nextVersion_def Let_def kv_find_put kv_inv_put)

lemma kv_Set_inv: "kv_inv kv \<Longrightarrow> kv_inv (kv_Set now kv key v ty ttl)"
  by (simp add: kv_Set_def nextVersion_def Let_def kv_inv_put kv_inv_push)

lemma kv_Set_version [simp]: "kv_version (kv_Set now kv key v ty ttl) = kv_version kv + 1"
  by (simp add: kv_Set_def nextVersion_def Let_def)

lemma kv_set_entry_sel [simp]:
  "e_value (kv_set_entry now old v ty d ver) = v" "e_type (kv_set_entry now old v ty d ver) = ty"
  "e_expires (kv_set_entry now old v ty d ver) = d"
  "e_version (kv_set_entry now old v ty d ver) = ver"
  by (simp_all add: kv_set_entry_def split: option.splits)

lemma isExpired_set_entry [simp]:
  "isExpired t (kv_set_entry now old v ty d ver) \<longleftrightarrow> d \<noteq> 0 \<and> t > d"
  by (simp add: isExpired_def)

lemma kv_GetForRead_eq: "kv_GetForRead = kv_Get"
  by (simp add: kv_GetForRead_def kv_Get_def fun_eq_iff)

lemma kv_Get_Some_iff: "kv_Get now kv k = Some e \<longleftrightarrow> kv_find kv k = Some e \<and> \<not> isExpired now e"
  by (auto simp: kv_Get_def split: option.splits)

lemma kv_Get_None_iff:
  "kv_Get now kv k = None \<longleftrightarrow> (\<forall>e. kv_find kv k = Some e \<longrightarrow> isExpired now e)"
  by (auto simp: kv_Get_def split: option.splits)

lemma kv_Get_cong: "kv_find kv k = kv_find kv' k' \<Longrightarrow> kv_Get now kv k = kv_Get now kv' k'"
  by (simp add: kv_Get_def)

lemma kv_Get_put:
  "kv_inv kv \<Longrightarrow> kv_Get now (kv_put kv k e) x =
     (if x = k then if isExpired now e then None else Some e else kv_Get now kv x)"
  by (simp add: kv_Get_def kv_find_put)

lemma kv_GetForWrite_spec:
  assumes "kv_inv kv"
  shows "kv_inv (fst (kv_GetForWrite now kv k))"
    and "snd (kv_GetForWrite now kv k) = kv_Get now kv k"
    and "kv_Get now (fst (kv_GetForWrite now kv k)) = kv_Get now kv"
    and "kv_find (fst (kv_GetForWrite now kv k)) k = kv_Get now kv k"
    and "x \<noteq> k \<Longrightarrow> kv_find (fst (kv_GetForWrite now kv k)) x = kv_find kv x"
    and "kv_version (fst (kv_GetForWrite now kv k)) = kv_version kv"
  using assms
  by (auto simp: kv_GetForWrite_def kv_Get_def kv_inv_del kv_find_del fun_eq_iff
      split: option.splits)

lemma kv_Delete_inv: "kv_inv kv \<Longrightarrow> kv_inv (fst (kv_Delete kv ks))"
  by (induction kv ks rule: kv_Delete.induct)
    (auto simp: kv_inv_del split: option.splits prod.splits)

lemma kv_Delete_version [simp]: "kv_version (fst (kv_Delete kv ks)) = kv_version kv"
  by (induction kv ks rule: kv_Delete.induct) (auto split: option.splits prod.splits)

lemma kv_Delete_find: "kv_inv kv \<Longrightarrow> kv_find (fst (kv_Delete kv ks)) = kv_find kv |` (- set ks)"
proof (induction kv ks rule: kv_Delete.induct)
  case (1 kv)
  then show ?case by simp
next
  case (2 kv key keys)
  show ?case
  proof (cases "kv_find kv key")
    case None
    with 2 show ?thesis by (auto simp: restrict_map_def fun_eq_iff)
  next
    case (Some e)
    with 2 have "kv_find (fst (kv_Delete (kv_del kv key) keys)) = kv_find (kv_del kv key) |` (- set keys)"
      by (simp add: kv_inv_del)
    with Some 2(3) show ?thesis
      by (auto simp: kv_find_del restrict_map_def fun_eq_iff split: prod.splits)
  qed
qed

lemma kv_Delete_count:
  "kv_inv kv \<Longrightarrow> snd (kv_Delete kv ks) = int (card (set ks \<inter> dom (kv_find kv)))"
proof (induction kv ks rule: kv_Delete.induct)
  case (1 kv)
  then show ?case by simp
next
  case (2 kv key keys)
  show ?case
  proof (cases "kv_find kv key")
    case None
    then have "set (key # keys) \<inter> dom (kv_find kv) = set keys \<inter> dom (kv_find kv)" by auto
    with None 2 show ?thesis by simp
  next
    case (Some e)
    let ?A = "set keys \<inter> dom (kv_find (kv_del kv key))"
    have "set (key # keys) \<inter> dom (kv_find kv) = insert key ?A"
      using Some 2(3) by (auto simp: kv_find_del)
    moreover have "key \<notin> ?A" using 2(3) by (auto simp: kv_find_del)
    moreover have "snd (kv_Delete (kv_del kv key) keys) = int (card ?A)"
      using 2(2) [OF Some] 2(3) kv_inv_del by blast
    ultimately show ?thesis using Some by (simp add: case_prod_unfold)
  qed
qed

lemma kv_Expire_inv: "kv_inv kv \<Longrightarrow> kv_inv (fst (kv_Expire t1 t2 kv k n))"
  by (simp add: kv_Expire_def Let_def nextVersion_def kv_inv_del kv_inv_put kv_inv_push
      split: option.splits)

lemma kv_Expire_result: "snd (kv_Expire t1 t2 kv k n) \<longleftrightarrow> kv_Exists t1 kv k"
  by (simp add: kv_Expire_def kv_Exists_def kv_Get_def Let_def nextVersion_def
      split: option.splits)

lemma kv_Expire_find:
  assumes "kv_inv kv" and "kv_Get t1 kv k = Some e"
  shows "kv_find (fst (kv_Expire t1 t2 kv k n)) = (kv_find kv)(k :=
    (if n \<le> 0 then None
     else Some (e\<lparr>e_expires := i64 (t2 + i64 (n * second)), e_version := kv_version kv + 1\<rparr>)))"
  using assms
  by (auto simp: kv_Expire_def Let_def nextVersion_def kv_Get_Some_iff kv_find_put kv_find_del
      kv_inv_put)

lemma kv_Expire_absent: "kv_Get t1 kv k = None \<Longrightarrow> kv_Expire t1 t2 kv k n = (kv, False)"
  by (auto simp: kv_Expire_def kv_Get_def split: option.splits if_splits)

lemma kv_Persist_inv: "kv_inv kv \<Longrightarrow> kv_inv (fst (kv_Persist now kv k))"
  by (simp add: kv_Persist_def kv_inv_put split: option.splits)

lemma kv_Persist_find:
  assumes "kv_inv kv" and "kv_Get now kv k = Some e"
  shows "kv_find (fst (kv_Persist now kv k)) = (kv_find kv)(k \<mapsto> e\<lparr>e_expires := 0\<rparr>)"
    and "snd (kv_Persist now kv k) \<longleftrightarrow> e_expires e \<noteq> 0"
  using assms
  by (auto simp: kv_Persist_def kv_Get_Some_iff kv_find_put fun_eq_iff)

lemma kv_Persist_absent: "kv_Get now kv k = None \<Longrightarrow> kv_Persist now kv k = (kv, False)"
  by (auto simp: kv_Persist_def kv_Get_def split: option.splits if_splits)

lemma kv_FlushAll_inv: "kv_inv kv \<Longrightarrow> kv_inv (kv_FlushAll kv)"
  by (auto simp: kv_inv_def kv_FlushAll_def wf_shard_def)

lemma kv_FlushAll_find: "kv_inv kv \<Longrightarrow> kv_find (kv_FlushAll kv) = Map.empty"
  using kv_idx_less [of kv]
  by (auto simp: kv_find_def kv_shard_def kv_FlushAll_def kv_idx_def fun_eq_iff)

lemma closeVectorEntry_sel [simp]:
  "e_type (closeVectorEntry e) = e_type e" "e_expires (closeVectorEntry e) = e_expires e"
  by (simp_all add: closeVectorEntry_def split: gvalue.splits)

lemma closeVectorEntry_id: "e_type e \<noteq> TypeVector \<Longrightarrow> closeVectorEntry e = e"
  by (simp add: closeVectorEntry_def)

lemma kv_Rename_inv: "kv_inv kv \<Longrightarrow> kv_inv (fst (kv_Rename t1 t2 t3 kv a b))"
  by (simp add: kv_Rename_def Let_def kv_Set_inv kv_Delete_inv del: kv_Delete.simps
      split: option.splits)

end
