(* ===== verification/KVExpiry.thy ===== *)
theory KVExpiry
  imports KV
begin

text \<open>
  Expiration: what \<^verbatim>\<open>DeleteExpiredLimit\<close> of \<^verbatim>\<open>src/internal/engine/kv.go\<close> may and must delete, and the
  refinement of the sharded store with its heaps to a flat map that never deletes anything on its
  own. The queue laws used are those of \<open>deadline_queue\<close>.
\<close>

section \<open>One shard\<close>

text \<open>Every entry with a deadline has an item in the heap that describes it.\<close>

definition covered :: "shard \<Rightarrow> bool" where
  "covered s \<longleftrightarrow> (\<forall>(k, e) \<in> set (sh_data s). 0 < e_expires e \<longrightarrow>
     \<lparr>xi_key = k, xi_deadline = e_expires e, xi_version = e_version e\<rparr> \<in> set (sh_expiries s))"

definition deadlines_set :: "shard \<Rightarrow> bool" where
  "deadlines_set s \<longleftrightarrow> (\<forall>x \<in> set (sh_expiries s). xi_deadline x \<noteq> 0)"

text \<open>The three ways one turn of the loop goes on, as rules for an induction over the loop.\<close>

lemma reap_shard_induct [case_names Stop Stale Reap]:
  assumes stop: "\<And>cnt s. sh_expiries s = [] \<or> \<not> (limit \<le> 0 \<or> cnt < limit)
        \<or> now < xi_deadline (hd (sh_expiries s)) \<Longrightarrow> P cnt s (cnt, s)"
    and stale: "\<And>cnt s r. sh_expiries s \<noteq> [] \<Longrightarrow> xi_deadline (hd (sh_expiries s)) \<le> now \<Longrightarrow>
        limit \<le> 0 \<or> cnt < limit \<Longrightarrow>
        (\<And>e. map_of (sh_data s) (xi_key (hd (sh_expiries s))) = Some e \<Longrightarrow>
          e_version e \<noteq> xi_version (hd (sh_expiries s))
          \<or> e_expires e \<noteq> xi_deadline (hd (sh_expiries s))) \<Longrightarrow>
        P cnt (s\<lparr>sh_expiries := eh_pop (sh_expiries s)\<rparr>) r \<Longrightarrow> P cnt s r"
    and reap: "\<And>cnt s r e. sh_expiries s \<noteq> [] \<Longrightarrow> xi_deadline (hd (sh_expiries s)) \<le> now \<Longrightarrow>
        limit \<le> 0 \<or> cnt < limit \<Longrightarrow>
        map_of (sh_data s) (xi_key (hd (sh_expiries s))) = Some e \<Longrightarrow>
        e_version e = xi_version (hd (sh_expiries s)) \<Longrightarrow>
        e_expires e = xi_deadline (hd (sh_expiries s)) \<Longrightarrow>
        P (cnt + 1) (s\<lparr>sh_expiries := eh_pop (sh_expiries s),
          sh_data := AList.delete (xi_key (hd (sh_expiries s))) (sh_data s)\<rparr>) r \<Longrightarrow> P cnt s r"
  shows "P cnt s (reap_shard limit now cnt s)"
proof (induction "length (sh_expiries s)" arbitrary: cnt s rule: less_induct)
  case less
  let ?x = "hd (sh_expiries s)" and ?s1 = "s\<lparr>sh_expiries := eh_pop (sh_expiries s)\<rparr>"
  show ?case
  proof (cases "sh_expiries s = [] \<or> \<not> (limit \<le> 0 \<or> cnt < limit) \<or> now < xi_deadline ?x")
    case True
    then have "reap_shard limit now cnt s = (cnt, s)" by (auto simp: reap_shard.simps [of limit now cnt s])
    with stop [OF True] show ?thesis by simp
  next
    case False
    then have ne: "sh_expiries s \<noteq> []" and due: "xi_deadline ?x \<le> now"
      and lim: "limit \<le> 0 \<or> cnt < limit" by auto
    have len: "length (eh_pop (sh_expiries s)) < length (sh_expiries s)"
      using eh.length_pop [OF ne] by linarith
    show ?thesis
    proof (cases "\<exists>e. map_of (sh_data s) (xi_key ?x) = Some e \<and> e_version e = xi_version ?x
        \<and> e_expires e = xi_deadline ?x")
      case True
      then obtain e where e: "map_of (sh_data s) (xi_key ?x) = Some e"
        "e_version e = xi_version ?x" "e_expires e = xi_deadline ?x" by blast
      let ?s2 = "?s1\<lparr>sh_data := AList.delete (xi_key ?x) (sh_data s)\<rparr>"
      have "reap_shard limit now cnt s = reap_shard limit now (cnt + 1) ?s2"
        using ne due lim e by (auto simp: reap_shard.simps [of limit now cnt s] Let_def)
      moreover have "P (cnt + 1) ?s2 (reap_shard limit now (cnt + 1) ?s2)"
        using len by (intro less) simp
      ultimately show ?thesis using reap [OF ne due lim e] by simp
    next
      case False
      then have "reap_shard limit now cnt s = reap_shard limit now cnt ?s1"
        using ne due lim
        by (auto simp: reap_shard.simps [of limit now cnt s] Let_def split: option.splits)
      moreover have "P cnt ?s1 (reap_shard limit now cnt ?s1)"
        using len by (intro less) simp
      ultimately show ?thesis using stale [OF ne due lim] False by auto
    qed
  qed
qed

text \<open>What is reaped: an entry whose own deadline has come, found through an item of the heap.\<close>

definition reapable :: "int \<Rightarrow> expiryHeap \<Rightarrow> entry \<Rightarrow> bool" where
  "reapable now q e \<longleftrightarrow> e_expires e \<le> now \<and> (\<exists>x \<in> set q. xi_deadline x = e_expires e)"

lemma reapable_pop: "q \<noteq> [] \<Longrightarrow> reapable now (eh_pop q) e \<Longrightarrow> reapable now q e"
  using eh.set_pop [of q] by (auto simp: reapable_def)

lemma reap_shard_data:
  "map_of (sh_data (snd (reap_shard limit now cnt s))) k = map_of (sh_data s) k
   \<or> map_of (sh_data (snd (reap_shard limit now cnt s))) k = None
     \<and> (\<exists>e. map_of (sh_data s) k = Some e \<and> reapable now (sh_expiries s) e)"
proof (induct rule: reap_shard_induct [where limit = limit and now = now and cnt = cnt and s = s
    and P = "\<lambda>cnt s r. map_of (sh_data (snd r)) k = map_of (sh_data s) k
      \<or> map_of (sh_data (snd r)) k = None
        \<and> (\<exists>e. map_of (sh_data s) k = Some e \<and> reapable now (sh_expiries s) e)"])
  case (Stop cnt s)
  then show ?case by simp
next
  case (Stale cnt s r)
  then show ?case using reapable_pop [OF Stale(1)] by auto
next
  case (Reap cnt s r e)
  have "reapable now (sh_expiries s) e"
    using Reap(1,2,6) by (auto simp: reapable_def intro!: bexI [of _ "hd (sh_expiries s)"])
  then show ?case using Reap reapable_pop [OF Reap(1)] by (auto split: if_splits)
qed

lemma reap_shard_wf [rule_format]:
  "wf_shard n i s \<longrightarrow> wf_shard n i (snd (reap_shard limit now cnt s))"
proof (induct rule: reap_shard_induct [where limit = limit and now = now and cnt = cnt and s = s
    and P = "\<lambda>cnt s r. wf_shard n i s \<longrightarrow> wf_shard n i (snd r)"])
  case (Reap cnt s r e)
  have "wf_shard n i s \<Longrightarrow> wf_shard n i (s\<lparr>sh_expiries := eh_pop (sh_expiries s),
      sh_data := AList.delete (xi_key (hd (sh_expiries s))) (sh_data s)\<rparr>)"
    using eh.inv_pop [OF _ Reap(1)] set_delete_subset by (fastforce simp: wf_shard_def)
  with Reap(7) show ?case by blast
qed (simp_all add: wf_shard_def eh.inv_pop)

lemma reap_shard_count [rule_format]:
  "wf_map (sh_data s) \<longrightarrow> fst (reap_shard limit now cnt s) - cnt
    = int (length (sh_data s)) - int (length (sh_data (snd (reap_shard limit now cnt s))))"
proof (induct rule: reap_shard_induct [where limit = limit and now = now and cnt = cnt and s = s
    and P = "\<lambda>cnt s r. wf_map (sh_data s) \<longrightarrow> fst r - cnt
      = int (length (sh_data s)) - int (length (sh_data (snd r)))"])
  case (Reap cnt s r e)
  show ?case
  proof
    assume w: "wf_map (sh_data s)"
    then have "Suc (length (AList.delete (xi_key (hd (sh_expiries s))) (sh_data s))) = length (sh_data s)"
      using Reap(4) by (rule length_delete_present)
    with Reap(7) w show "fst r - cnt = int (length (sh_data s)) - int (length (sh_data (snd r)))"
      by simp
  qed
qed simp_all

lemma reap_shard_limit [rule_format]:
  "0 < limit \<longrightarrow> cnt \<le> limit \<longrightarrow> fst (reap_shard limit now cnt s) \<le> limit"
proof (induct rule: reap_shard_induct [where limit = limit and now = now and cnt = cnt and s = s
    and P = "\<lambda>cnt s r. 0 < limit \<longrightarrow> cnt \<le> limit \<longrightarrow> fst r \<le> limit"])
  case (Reap cnt s r e)
  then show ?case by linarith
qed simp_all

lemma reap_shard_count_mono: "cnt \<le> fst (reap_shard limit now cnt s)"
proof (induct rule: reap_shard_induct [where limit = limit and now = now and cnt = cnt and s = s
    and P = "\<lambda>cnt s r. cnt \<le> fst r"])
qed simp_all

text \<open>Without a limit, the loop leaves no covered entry whose deadline has come.\<close>

lemma covered_pop_stale:
  assumes "covered s" and "wf_map (sh_data s)" and ne: "sh_expiries s \<noteq> []"
    and stale: "\<And>e. map_of (sh_data s) (xi_key (hd (sh_expiries s))) = Some e \<Longrightarrow>
      e_version e \<noteq> xi_version (hd (sh_expiries s)) \<or> e_expires e \<noteq> xi_deadline (hd (sh_expiries s))"
  shows "covered (s\<lparr>sh_expiries := eh_pop (sh_expiries s)\<rparr>)"
proof -
  have "\<lparr>xi_key = k, xi_deadline = e_expires e, xi_version = e_version e\<rparr> \<in> set (eh_pop (sh_expiries s))"
    if ke: "(k, e) \<in> set (sh_data s)" "0 < e_expires e" for k e
  proof -
    let ?x = "\<lparr>xi_key = k, xi_deadline = e_expires e, xi_version = e_version e\<rparr>"
    have "map_of (sh_data s) k = Some e" using ke assms(2) by (simp add: map_of_iff_mem)
    then have "hd (sh_expiries s) \<noteq> ?x" using stale by auto
    moreover have "?x \<in> set (sh_expiries s)" using assms(1) ke by (auto simp: covered_def)
    ultimately show ?thesis using eh.set_pop [OF ne] by auto
  qed
  then show ?thesis by (auto simp: covered_def)
qed

lemma covered_pop_reap:
  assumes "covered s" and "wf_map (sh_data s)" and ne: "sh_expiries s \<noteq> []"
  shows "covered (s\<lparr>sh_expiries := eh_pop (sh_expiries s),
    sh_data := AList.delete (xi_key (hd (sh_expiries s))) (sh_data s)\<rparr>)"
proof -
  have "\<lparr>xi_key = k, xi_deadline = e_expires e, xi_version = e_version e\<rparr> \<in> set (eh_pop (sh_expiries s))"
    if ke: "(k, e) \<in> set (AList.delete (xi_key (hd (sh_expiries s))) (sh_data s))" "0 < e_expires e"
    for k e
  proof -
    let ?x = "\<lparr>xi_key = k, xi_deadline = e_expires e, xi_version = e_version e\<rparr>"
    have "map_of (AList.delete (xi_key (hd (sh_expiries s))) (sh_data s)) k = Some e"
      using ke assms(2) by (simp only: map_of_iff_mem wf_map_delete)
    then have "k \<noteq> xi_key (hd (sh_expiries s))" by (auto split: if_splits)
    then have "hd (sh_expiries s) \<noteq> ?x" by auto
    moreover have "?x \<in> set (sh_expiries s)"
      using assms(1) ke set_delete_subset by (fastforce simp: covered_def)
    ultimately show ?thesis using eh.set_pop [OF ne] by auto
  qed
  then show ?thesis by (auto simp: covered_def)
qed

lemma reap_shard_complete [rule_format]:
  assumes "limit \<le> 0"
  shows "wf_shard n i s \<longrightarrow> covered s \<longrightarrow> covered (snd (reap_shard limit now cnt s))
    \<and> (\<forall>x \<in> set (sh_expiries (snd (reap_shard limit now cnt s))). now < xi_deadline x)"
proof (induct rule: reap_shard_induct [where limit = limit and now = now and cnt = cnt and s = s
    and P = "\<lambda>cnt s r. wf_shard n i s \<longrightarrow> covered s \<longrightarrow>
      covered (snd r) \<and> (\<forall>x \<in> set (sh_expiries (snd r)). now < xi_deadline x)"])
  case (Stop cnt s)
  then show ?case using eh.none_due [of "sh_expiries s" now] assms
    by (auto simp: wf_shard_def)
next
  case (Stale cnt s r)
  show ?case
  proof (intro impI)
    assume w: "wf_shard n i s" and c: "covered s"
    from w have "wf_shard n i (s\<lparr>sh_expiries := eh_pop (sh_expiries s)\<rparr>)"
      using Stale(1) by (simp add: wf_shard_def eh.inv_pop)
    moreover have "covered (s\<lparr>sh_expiries := eh_pop (sh_expiries s)\<rparr>)"
      using c w Stale(1,4) by (intro covered_pop_stale) (auto simp: wf_shard_def)
    ultimately show "covered (snd r) \<and> (\<forall>x \<in> set (sh_expiries (snd r)). now < xi_deadline x)"
      using Stale(5) by blast
  qed
next
  case (Reap cnt s r e)
  show ?case
  proof (intro impI)
    assume w: "wf_shard n i s" and c: "covered s"
    from w have "wf_shard n i (s\<lparr>sh_expiries := eh_pop (sh_expiries s),
        sh_data := AList.delete (xi_key (hd (sh_expiries s))) (sh_data s)\<rparr>)"
      using Reap(1) set_delete_subset eh.inv_pop by (fastforce simp: wf_shard_def)
    moreover have "covered (s\<lparr>sh_expiries := eh_pop (sh_expiries s),
        sh_data := AList.delete (xi_key (hd (sh_expiries s))) (sh_data s)\<rparr>)"
      using c w Reap(1) by (intro covered_pop_reap) (auto simp: wf_shard_def)
    ultimately show "covered (snd r) \<and> (\<forall>x \<in> set (sh_expiries (snd r)). now < xi_deadline x)"
      using Reap(7) by blast
  qed
qed

lemma reap_shard_deadlines [rule_format]:
  "deadlines_set s \<longrightarrow> deadlines_set (snd (reap_shard limit now cnt s))"
proof (induct rule: reap_shard_induct [where limit = limit and now = now and cnt = cnt and s = s
    and P = "\<lambda>cnt s r. deadlines_set s \<longrightarrow> deadlines_set (snd r)"])
  case (Stale cnt s r)
  then show ?case using eh.set_pop [OF Stale(1)] by (auto simp: deadlines_set_def)
next
  case (Reap cnt s r e)
  then show ?case using eh.set_pop [OF Reap(1)] by (auto simp: deadlines_set_def)
qed simp_all

section \<open>All shards\<close>

lemma reap_shards_length [simp]: "length (snd (reap_shards limit now cnt ss)) = length ss"
  by (induction ss arbitrary: cnt) (auto simp: case_prod_unfold Let_def)

lemma reap_shards_nth:
  "i < length ss \<Longrightarrow> snd (reap_shards limit now cnt ss) ! i = ss ! i \<and> 0 < limit
     \<or> (\<exists>c. snd (reap_shards limit now cnt ss) ! i = snd (reap_shard limit now c (ss ! i)))"
proof (induction ss arbitrary: cnt i)
  case Nil
  then show ?case by simp
next
  case (Cons s ss)
  show ?case
  proof (cases i)
    case 0
    then show ?thesis by (auto simp: case_prod_unfold Let_def)
  next
    case (Suc j)
    with Cons.prems have "j < length ss" by simp
    from Cons.IH [OF this, of "fst (reap_shard limit now cnt s)"] Suc show ?thesis
      by (auto simp: case_prod_unfold Let_def)
  qed
qed

lemma reap_shards_count:
  assumes "\<forall>s \<in> set ss. wf_map (sh_data s)"
  shows "fst (reap_shards limit now cnt ss) - cnt
    = int (length (concat (map sh_data ss)))
      - int (length (concat (map sh_data (snd (reap_shards limit now cnt ss)))))"
  using assms
proof (induction ss arbitrary: cnt)
  case Nil
  then show ?case by simp
next
  case (Cons s ss)
  let ?r = "reap_shard limit now cnt s"
  have one: "fst ?r - cnt = int (length (sh_data s)) - int (length (sh_data (snd ?r)))"
    using Cons.prems by (intro reap_shard_count) simp
  have "fst (reap_shards limit now (fst ?r) ss) - fst ?r
    = int (length (concat (map sh_data ss)))
      - int (length (concat (map sh_data (snd (reap_shards limit now (fst ?r) ss)))))"
    using Cons by simp
  with one show ?case by (simp add: case_prod_unfold Let_def)
qed

lemma reap_shards_limit:
  "0 < limit \<Longrightarrow> cnt \<le> limit \<Longrightarrow> fst (reap_shards limit now cnt ss) \<le> limit"
  by (induction ss arbitrary: cnt) (auto simp: case_prod_unfold Let_def reap_shard_limit)

definition kv_covered :: "kvstore \<Rightarrow> bool" where
  "kv_covered kv \<longleftrightarrow> (\<forall>s \<in> set (kv_shards kv). covered s)"

definition kv_deadlines :: "kvstore \<Rightarrow> bool" where
  "kv_deadlines kv \<longleftrightarrow> (\<forall>s \<in> set (kv_shards kv). deadlines_set s)"

lemma kv_reap_shards:
  "kv_shards (fst (kv_DeleteExpiredLimit now kv limit)) = snd (reap_shards limit now 0 (kv_shards kv))"
  "kv_numShards (fst (kv_DeleteExpiredLimit now kv limit)) = kv_numShards kv"
  "kv_version (fst (kv_DeleteExpiredLimit now kv limit)) = kv_version kv"
  "snd (kv_DeleteExpiredLimit now kv limit) = fst (reap_shards limit now 0 (kv_shards kv))"
  by (simp_all add: kv_DeleteExpiredLimit_def case_prod_unfold Let_def)

lemma kv_reap_inv: "kv_inv kv \<Longrightarrow> kv_inv (fst (kv_DeleteExpiredLimit now kv limit))"
  unfolding kv_inv_def kv_reap_shards
proof (elim conjE, intro conjI allI impI)
  fix i
  assume wf: "\<forall>i<length (kv_shards kv). wf_shard (kv_numShards kv) i (kv_shards kv ! i)"
    and "i < length (snd (reap_shards limit now 0 (kv_shards kv)))"
  then have i: "i < length (kv_shards kv)" by simp
  with wf have "wf_shard (kv_numShards kv) i (kv_shards kv ! i)" by blast
  then show "wf_shard (kv_numShards kv) i (snd (reap_shards limit now 0 (kv_shards kv)) ! i)"
    using reap_shards_nth [OF i, of limit now 0] by (auto intro: reap_shard_wf)
qed simp_all

lemma kv_reap_deadlines: "kv_deadlines kv \<Longrightarrow> kv_deadlines (fst (kv_DeleteExpiredLimit now kv limit))"
  unfolding kv_deadlines_def kv_reap_shards all_set_conv_all_nth reap_shards_length
proof (intro allI impI)
  fix i assume d: "\<forall>i<length (kv_shards kv). deadlines_set (kv_shards kv ! i)"
    and i: "i < length (kv_shards kv)"
  then have "deadlines_set (kv_shards kv ! i)" by blast
  then show "deadlines_set (snd (reap_shards limit now 0 (kv_shards kv)) ! i)"
    using reap_shards_nth [OF i, of limit now 0] reap_shard_deadlines by metis
qed

lemma kv_reap_find:
  assumes "kv_inv kv"
  shows "kv_find (fst (kv_DeleteExpiredLimit now kv limit)) k = kv_find kv k
    \<or> kv_find (fst (kv_DeleteExpiredLimit now kv limit)) k = None
      \<and> (\<exists>e. kv_find kv k = Some e \<and> reapable now (sh_expiries (kv_shard kv k)) e)"
proof -
  let ?i = "kv_idx kv k" and ?ss = "snd (reap_shards limit now 0 (kv_shards kv))"
  have i: "?i < length (kv_shards kv)" using assms by (rule kv_idx_less)
  have f: "kv_find (fst (kv_DeleteExpiredLimit now kv limit)) k = map_of (sh_data (?ss ! ?i)) k"
    by (simp add: kv_find_def kv_shard_def kv_idx_def kv_reap_shards)
  have g: "kv_find kv k = map_of (sh_data (kv_shards kv ! ?i)) k"
    by (simp add: kv_find_def kv_shard_def)
  from reap_shards_nth [OF i, of limit now 0] show ?thesis
    unfolding f g kv_shard_def
  proof (elim disjE exE)
    fix c assume "?ss ! ?i = snd (reap_shard limit now c (kv_shards kv ! ?i))"
    then show "map_of (sh_data (?ss ! ?i)) k = map_of (sh_data (kv_shards kv ! ?i)) k
      \<or> map_of (sh_data (?ss ! ?i)) k = None \<and> (\<exists>e. map_of (sh_data (kv_shards kv ! ?i)) k = Some e
        \<and> reapable now (sh_expiries (kv_shards kv ! ?i)) e)"
      using reap_shard_data by metis
  qed simp
qed

text \<open>An entry that is reaped is expired at every later instant.\<close>

lemma kv_reap_invisible:
  assumes "kv_inv kv" and "kv_deadlines kv" and "now < t"
  shows "kv_Get t (fst (kv_DeleteExpiredLimit now kv limit)) k = kv_Get t kv k"
proof (cases "kv_find (fst (kv_DeleteExpiredLimit now kv limit)) k = kv_find kv k")
  case True
  then show ?thesis by (rule kv_Get_cong)
next
  case False
  with kv_reap_find [OF assms(1), of now limit k] obtain e where
    n: "kv_find (fst (kv_DeleteExpiredLimit now kv limit)) k = None" and e: "kv_find kv k = Some e"
    and r: "reapable now (sh_expiries (kv_shard kv k)) e" by auto
  have "kv_shard kv k \<in> set (kv_shards kv)"
    using kv_idx_less [OF assms(1), of k] by (simp add: kv_shard_def)
  with assms(2) r have "e_expires e \<noteq> 0" "e_expires e \<le> now"
    by (auto simp: kv_deadlines_def deadlines_set_def reapable_def)
  then have "isExpired t e" using assms(3) by (simp add: isExpired_def)
  with n e show ?thesis by (simp add: kv_Get_def)
qed

section \<open>Operations keep the heaps complete\<close>

lemma kv_upd_all:
  "\<forall>s \<in> set (kv_shards kv). P s \<Longrightarrow> P (f (kv_shard kv k)) \<Longrightarrow>
     \<forall>s \<in> set (kv_shards (kv_upd kv k f)). P s"
  using set_update_subset_insert [of "kv_shards kv" "kv_idx kv k" "f (kv_shard kv k)"]
  by (auto simp: kv_upd_def)

lemma kv_shard_in: "kv_inv kv \<Longrightarrow> kv_shard kv k \<in> set (kv_shards kv)"
  using kv_idx_less [of kv k] by (simp add: kv_shard_def)

lemma kv_shards_version [simp]:
  "kv_shards (kv\<lparr>kv_version := v\<rparr>) = kv_shards kv" "kv_shard (kv\<lparr>kv_version := v\<rparr>) = kv_shard kv"
  by (simp_all add: kv_shard_def kv_idx_def fun_eq_iff)

lemma kv_covered_version [simp]: "kv_covered (kv\<lparr>kv_version := v\<rparr>) = kv_covered kv"
  by (simp add: kv_covered_def)

lemma kv_deadlines_version [simp]: "kv_deadlines (kv\<lparr>kv_version := v\<rparr>) = kv_deadlines kv"
  by (simp add: kv_deadlines_def)

text \<open>A put keeps the heaps complete when the new entry has no deadline, or agrees with the entry it
  replaces on deadline and version.\<close>

lemma kv_covered_put:
  assumes "kv_inv kv" and "kv_covered kv"
    and "e_expires e \<le> 0 \<or> (\<exists>e0. kv_find kv k = Some e0 \<and> e_expires e0 = e_expires e
      \<and> e_version e0 = e_version e)"
  shows "kv_covered (kv_put kv k e)"
proof -
  let ?s = "kv_shard kv k"
  have c: "covered ?s" using assms(1,2) kv_shard_in by (auto simp: kv_covered_def)
  have wf: "wf_map (sh_data ?s)" using wf_kv_shard [OF assms(1), of k] by (simp add: wf_shard_def)
  have "covered (?s\<lparr>sh_data := AList.update k e (sh_data ?s)\<rparr>)"
    unfolding covered_def
  proof clarsimp
    fix k' e' assume m: "(k', e') \<in> set (AList.update k e (sh_data ?s))" and pos: "0 < e_expires e'"
    show "\<lparr>xi_key = k', xi_deadline = e_expires e', xi_version = e_version e'\<rparr> \<in> set (sh_expiries ?s)"
    proof (cases "(k', e') \<in> set (sh_data ?s)")
      case True
      with c pos show ?thesis by (auto simp: covered_def)
    next
      case False
      with m set_update_subset have ke: "k' = k" "e' = e" by fastforce+
      with assms(3) pos obtain e0 where e0: "map_of (sh_data ?s) k = Some e0"
        "e_expires e0 = e_expires e" "e_version e0 = e_version e" by (auto simp: kv_find_def)
      then have "(k, e0) \<in> set (sh_data ?s)" by (simp add: map_of_iff_mem [OF wf, symmetric])
      with c pos ke e0 show ?thesis by (force simp: covered_def)
    qed
  qed
  then show ?thesis using assms(2) unfolding kv_covered_def kv_put_def
    by (intro kv_upd_all) auto
qed

lemma kv_covered_put_push:
  assumes "kv_inv kv" and "kv_covered kv"
  shows "kv_covered (kv_push (kv_put kv k e) k
    \<lparr>xi_key = k, xi_deadline = e_expires e, xi_version = e_version e\<rparr>)"
proof -
  let ?x = "\<lparr>xi_key = k, xi_deadline = e_expires e, xi_version = e_version e\<rparr>"
  let ?s = "kv_shard kv k"
  let ?s' = "?s\<lparr>sh_data := AList.update k e (sh_data ?s), sh_expiries := eh_push (sh_expiries ?s) ?x\<rparr>"
  have c: "covered ?s" using assms kv_shard_in by (auto simp: kv_covered_def)
  have eq: "kv_push (kv_put kv k e) k ?x = kv_upd kv k (\<lambda>s. ?s')"
    using kv_idx_less [OF assms(1), of k]
    by (simp add: kv_push_def kv_put_def kv_upd_def kv_shard_def kv_idx_def)
  have "covered ?s'"
    using c set_update_subset [of k e "sh_data ?s"] by (fastforce simp: covered_def eh.set_push)
  then show ?thesis using assms(2) unfolding eq kv_covered_def by (intro kv_upd_all) auto
qed

lemma kv_covered_del: "kv_inv kv \<Longrightarrow> kv_covered kv \<Longrightarrow> kv_covered (kv_del kv k)"
  unfolding kv_covered_def kv_del_def
  by (rule kv_upd_all) (use kv_shard_in [of kv k] set_delete_subset in \<open>fastforce simp: covered_def\<close>)+

lemma kv_covered_New: "kv_covered (New n)"
  by (simp add: kv_covered_def New_def Let_def covered_def)

lemma kv_covered_Set:
  assumes "kv_inv kv" and "kv_covered kv"
  shows "kv_covered (kv_Set now kv k v ty ttl)"
proof -
  let ?kv = "kv\<lparr>kv_version := kv_version kv + 1\<rparr>"
  let ?e = "kv_set_entry now (kv_find kv k) v ty (set_deadline now ttl) (kv_version kv + 1)"
  show ?thesis
  proof (cases "0 < set_deadline now ttl")
    case True
    then have "kv_Set now kv k v ty ttl = kv_push (kv_put ?kv k ?e) k
        \<lparr>xi_key = k, xi_deadline = e_expires ?e, xi_version = e_version ?e\<rparr>"
      by (simp add: kv_Set_def nextVersion_def Let_def)
    moreover have "kv_covered (kv_push (kv_put ?kv k ?e) k
        \<lparr>xi_key = k, xi_deadline = e_expires ?e, xi_version = e_version ?e\<rparr>)"
      using assms by (intro kv_covered_put_push) simp_all
    ultimately show ?thesis by (simp only:)
  next
    case False
    then have "kv_Set now kv k v ty ttl = kv_put ?kv k ?e"
      by (simp add: kv_Set_def nextVersion_def Let_def)
    moreover have "kv_covered (kv_put ?kv k ?e)"
      using assms False by (intro kv_covered_put) simp_all
    ultimately show ?thesis by (simp only:)
  qed
qed

lemma kv_covered_Expire:
  assumes "kv_inv kv" and "kv_covered kv"
  shows "kv_covered (fst (kv_Expire t1 t2 kv k n))"
proof (cases "kv_Get t1 kv k")
  case None
  then show ?thesis using assms by (simp add: kv_Expire_absent)
next
  case (Some e)
  show ?thesis
  proof (cases "n \<le> 0")
    case True
    with Some assms show ?thesis by (auto simp: kv_Expire_def kv_Get_Some_iff kv_covered_del)
  next
    case False
    let ?e = "e\<lparr>e_expires := i64 (t2 + i64 (n * second)), e_version := kv_version kv + 1\<rparr>"
    let ?kv = "kv\<lparr>kv_version := kv_version kv + 1\<rparr>"
    have "fst (kv_Expire t1 t2 kv k n) = kv_push (kv_put ?kv k ?e) k
        \<lparr>xi_key = k, xi_deadline = e_expires ?e, xi_version = e_version ?e\<rparr>"
      using Some False by (simp add: kv_Expire_def kv_Get_Some_iff nextVersion_def Let_def)
    moreover have "kv_covered (kv_push (kv_put ?kv k ?e) k
        \<lparr>xi_key = k, xi_deadline = e_expires ?e, xi_version = e_version ?e\<rparr>)"
      using assms by (intro kv_covered_put_push) simp_all
    ultimately show ?thesis by (simp only:)
  qed
qed

lemma kv_covered_Persist:
  "kv_inv kv \<Longrightarrow> kv_covered kv \<Longrightarrow> kv_covered (fst (kv_Persist now kv k))"
  by (auto simp: kv_Persist_def kv_covered_put split: option.splits)

lemma kv_covered_Delete:
  "kv_inv kv \<Longrightarrow> kv_covered kv \<Longrightarrow> kv_covered (fst (kv_Delete kv ks))"
  by (induction kv ks rule: kv_Delete.induct)
    (auto simp: kv_inv_del kv_covered_del case_prod_unfold Let_def split: option.splits)

lemma kv_covered_GetForWrite:
  "kv_inv kv \<Longrightarrow> kv_covered kv \<Longrightarrow> kv_covered (fst (kv_GetForWrite now kv k))"
  by (auto simp: kv_GetForWrite_def kv_covered_del split: option.splits)

lemma kv_covered_Rename:
  "kv_inv kv \<Longrightarrow> kv_covered kv \<Longrightarrow> kv_covered (fst (kv_Rename t1 t2 t3 kv a b))"
  by (simp add: kv_Rename_def Let_def kv_covered_Set kv_covered_Delete kv_Delete_inv
      del: kv_Delete.simps split: option.splits)

lemma kv_reap_complete:
  assumes "kv_inv kv" and "kv_covered kv"
    and "kv_find (fst (kv_DeleteExpired now kv)) k = Some e" and "0 < e_expires e"
  shows "now < e_expires e"
proof -
  let ?i = "kv_idx kv k" and ?ss = "snd (reap_shards 0 now 0 (kv_shards kv))"
  have i: "?i < length (kv_shards kv)" using assms(1) by (rule kv_idx_less)
  then obtain c where c: "?ss ! ?i = snd (reap_shard 0 now c (kv_shards kv ! ?i))"
    using reap_shards_nth [of ?i "kv_shards kv" 0 now 0] by auto
  let ?s = "snd (reap_shard 0 now c (kv_shards kv ! ?i))"
  have wf: "wf_shard (kv_numShards kv) ?i (kv_shards kv ! ?i)" and cov: "covered (kv_shards kv ! ?i)"
    using assms(1,2) i by (auto simp: kv_inv_def kv_covered_def)
  then have "covered ?s" and q: "\<forall>x \<in> set (sh_expiries ?s). now < xi_deadline x"
    using reap_shard_complete [of 0] by simp_all
  moreover have "map_of (sh_data ?s) k = Some e"
    using assms(3) c by (simp add: kv_DeleteExpired_def kv_find_def kv_shard_def kv_idx_def kv_reap_shards)
  then have "(k, e) \<in> set (sh_data ?s)" by (rule map_of_SomeD)
  ultimately show ?thesis using assms(4) by (fastforce simp: covered_def)
qed

lemma kv_covered_FlushAll: "kv_covered (kv_FlushAll kv)"
  by (simp add: kv_covered_def kv_FlushAll_def covered_def)

subsection \<open>Deadlines in the heaps are never the "no expiry" value\<close>

lemma kv_deadlines_put: "kv_inv kv \<Longrightarrow> kv_deadlines kv \<Longrightarrow> kv_deadlines (kv_put kv k e)"
  unfolding kv_deadlines_def kv_put_def
  by (rule kv_upd_all) (use kv_shard_in [of kv k] in \<open>auto simp: deadlines_set_def\<close>)

lemma kv_deadlines_del: "kv_inv kv \<Longrightarrow> kv_deadlines kv \<Longrightarrow> kv_deadlines (kv_del kv k)"
  unfolding kv_deadlines_def kv_del_def
  by (rule kv_upd_all) (use kv_shard_in [of kv k] in \<open>auto simp: deadlines_set_def\<close>)

lemma kv_deadlines_push:
  "kv_inv kv \<Longrightarrow> kv_deadlines kv \<Longrightarrow> xi_deadline x \<noteq> 0 \<Longrightarrow> kv_deadlines (kv_push kv k x)"
  unfolding kv_deadlines_def kv_push_def
  by (rule kv_upd_all) (use kv_shard_in [of kv k] in \<open>auto simp: deadlines_set_def eh.set_push\<close>)

lemma kv_deadlines_New: "kv_deadlines (New n)"
  by (simp add: kv_deadlines_def New_def Let_def deadlines_set_def)

lemma kv_deadlines_FlushAll: "kv_deadlines kv \<Longrightarrow> kv_deadlines (kv_FlushAll kv)"
  by (auto simp: kv_deadlines_def kv_FlushAll_def deadlines_set_def)

lemma kv_deadlines_Set: "kv_inv kv \<Longrightarrow> kv_deadlines kv \<Longrightarrow> kv_deadlines (kv_Set now kv k v ty ttl)"
  by (simp add: kv_Set_def nextVersion_def Let_def kv_deadlines_push kv_deadlines_put kv_inv_put)

lemma kv_deadlines_Delete: "kv_inv kv \<Longrightarrow> kv_deadlines kv \<Longrightarrow> kv_deadlines (fst (kv_Delete kv ks))"
  by (induction kv ks rule: kv_Delete.induct)
    (auto simp: kv_inv_del kv_deadlines_del case_prod_unfold Let_def split: option.splits)

lemma kv_deadlines_Expire:
  "kv_inv kv \<Longrightarrow> kv_deadlines kv \<Longrightarrow> 0 < n \<longrightarrow> i64 (t2 + i64 (n * second)) \<noteq> 0 \<Longrightarrow>
     kv_deadlines (fst (kv_Expire t1 t2 kv k n))"
  by (auto simp: kv_Expire_def nextVersion_def Let_def kv_deadlines_push kv_deadlines_put
      kv_deadlines_del kv_inv_put split: option.splits)

lemma kv_deadlines_Persist: "kv_inv kv \<Longrightarrow> kv_deadlines kv \<Longrightarrow> kv_deadlines (fst (kv_Persist now kv k))"
  by (auto simp: kv_Persist_def kv_deadlines_put split: option.splits)

lemma kv_deadlines_GetForWrite:
  "kv_inv kv \<Longrightarrow> kv_deadlines kv \<Longrightarrow> kv_deadlines (fst (kv_GetForWrite now kv k))"
  by (auto simp: kv_GetForWrite_def kv_deadlines_del split: option.splits)

lemma kv_deadlines_Rename:
  "kv_inv kv \<Longrightarrow> kv_deadlines kv \<Longrightarrow> kv_deadlines (fst (kv_Rename t1 t2 t3 kv a b))"
  by (simp add: kv_Rename_def Let_def kv_deadlines_Set kv_deadlines_Delete kv_Delete_inv
      del: kv_Delete.simps split: option.splits)

lemmas kv_deadlines_ops =
  kv_deadlines_Set kv_deadlines_Delete kv_deadlines_Persist kv_deadlines_GetForWrite
  kv_deadlines_Rename kv_deadlines_FlushAll kv_reap_deadlines

lemmas kv_inv_ops =
  kv_Set_inv kv_Delete_inv kv_Persist_inv kv_FlushAll_inv kv_Rename_inv kv_reap_inv
  kv_Expire_inv kv_GetForWrite_spec(1)

end
