(* ===== verification/KVTrace.thy ===== *)
theory KVTrace
  imports KVExpiry
begin

text \<open>
  The contract of the whole key-value store, over sequences of operations. The specification is a
  flat map from keys to value, type and deadline in which nothing is deleted in the background: no
  shards, no heaps, no versions, and reaping is a no-op. The implementation of
  \<^verbatim>\<open>src/internal/engine/kv.go\<close> refines it for every sequence of operations at increasing clock readings.
\<close>

datatype kvop =
    KSet string gvalue dataType int
  | KDelete "string list"
  | KExpire string int
  | KPersist string
  | KRename string string
  | KFlushAll
  | KReap int
  | KTouch string

fun kv_run :: "int \<Rightarrow> kvop \<Rightarrow> kvstore \<Rightarrow> kvstore" where
  "kv_run t (KSet k v ty ttl) kv = kv_Set t kv k v ty ttl"
| "kv_run t (KDelete ks) kv = fst (kv_Delete kv ks)"
| "kv_run t (KExpire k n) kv = fst (kv_Expire t t kv k n)"
| "kv_run t (KPersist k) kv = fst (kv_Persist t kv k)"
| "kv_run t (KRename a b) kv = fst (kv_Rename t t t kv a b)"
| "kv_run t KFlushAll kv = kv_FlushAll kv"
| "kv_run t (KReap limit) kv = fst (kv_DeleteExpiredLimit t kv limit)"
| "kv_run t (KTouch k) kv = fst (kv_GetForWrite t kv k)"

type_synonym cell = "gvalue \<times> dataType \<times> int"
type_synonym flat = "string \<rightharpoonup> cell"

definition cell_of :: "entry \<Rightarrow> cell" where
  "cell_of e = (e_value e, e_type e, e_expires e)"

fun cell_live :: "int \<Rightarrow> cell option \<Rightarrow> cell option" where
  "cell_live t None = None"
| "cell_live t (Some (v, ty, x)) = (if x \<noteq> 0 \<and> t > x then None else Some (v, ty, x))"

fun close_value :: "dataType \<Rightarrow> gvalue \<Rightarrow> gvalue" where
  "close_value TypeVector (VVector _) = VNil"
| "close_value _ v = v"

fun flat_run :: "int \<Rightarrow> kvop \<Rightarrow> flat \<Rightarrow> flat" where
  "flat_run t (KSet k v ty ttl) m = m(k \<mapsto> (v, ty, set_deadline t ttl))"
| "flat_run t (KDelete ks) m = m |` (- set ks)"
| "flat_run t (KExpire k n) m =
     (case cell_live t (m k) of
        None \<Rightarrow> m
      | Some (v, ty, x) \<Rightarrow>
          if n \<le> 0 then m(k := None) else m(k \<mapsto> (v, ty, i64 (t + i64 (n * second)))))"
| "flat_run t (KPersist k) m =
     (case cell_live t (m k) of None \<Rightarrow> m | Some (v, ty, x) \<Rightarrow> m(k \<mapsto> (v, ty, 0)))"
| "flat_run t (KRename a b) m =
     (case cell_live t (m a) of
        None \<Rightarrow> m
      | Some (v, ty, x) \<Rightarrow>
          if x > 0 \<and> i64 (x - t) \<le> 0 then m(a := None)
          else m(a := None, b \<mapsto> (close_value ty v, ty,
                 if x > 0 then set_deadline t (i64 (x - t)) else 0)))"
| "flat_run t KFlushAll m = Map.empty"
| "flat_run t (KReap limit) m = m"
| "flat_run t (KTouch k) m = m"

fun kv_trace :: "(int \<times> kvop) list \<Rightarrow> kvstore \<Rightarrow> kvstore" where
  "kv_trace [] kv = kv"
| "kv_trace ((t, op) # ops) kv = kv_trace ops (kv_run t op kv)"

fun flat_trace :: "(int \<times> kvop) list \<Rightarrow> flat \<Rightarrow> flat" where
  "flat_trace [] m = m"
| "flat_trace ((t, op) # ops) m = flat_trace ops (flat_run t op m)"

text \<open>The clock moves on between operations, and no expiry wraps around to the value that means "no
  expiry".\<close>

fun sane_op :: "int \<Rightarrow> kvop \<Rightarrow> bool" where
  "sane_op t (KExpire k n) \<longleftrightarrow> (0 < n \<longrightarrow> i64 (t + i64 (n * second)) \<noteq> 0)"
| "sane_op t _ \<longleftrightarrow> True"

fun sane_trace :: "int \<Rightarrow> (int \<times> kvop) list \<Rightarrow> bool" where
  "sane_trace t0 [] \<longleftrightarrow> True"
| "sane_trace t0 ((t, op) # ops) \<longleftrightarrow> t0 < t \<and> sane_op t op \<and> sane_trace t ops"

section \<open>The simulation\<close>

fun gone :: "int \<Rightarrow> cell option \<Rightarrow> bool" where
  "gone t None = True"
| "gone t (Some (v, ty, x)) = (x \<noteq> 0 \<and> x \<le> t)"

definition agree :: "int \<Rightarrow> cell option \<Rightarrow> cell option \<Rightarrow> bool" where
  "agree t a b \<longleftrightarrow> a = b \<or> gone t a \<and> gone t b"

definition kv_cells :: "kvstore \<Rightarrow> flat" where
  "kv_cells kv k = map_option cell_of (kv_find kv k)"

definition sim :: "int \<Rightarrow> kvstore \<Rightarrow> flat \<Rightarrow> bool" where
  "sim t kv m \<longleftrightarrow> kv_inv kv \<and> kv_deadlines kv \<and> (\<forall>k. agree t (kv_cells kv k) (m k))"

lemma agree_refl [simp]: "agree t a a"
  by (simp add: agree_def)

lemma gone_mono: "gone t a \<Longrightarrow> t \<le> t' \<Longrightarrow> gone t' a"
  by (cases "(t, a)" rule: gone.cases) auto

lemma agree_mono: "agree t a b \<Longrightarrow> t \<le> t' \<Longrightarrow> agree t' a b"
  by (auto simp: agree_def intro: gone_mono)

lemma gone_live: "gone t a \<Longrightarrow> t < t' \<Longrightarrow> cell_live t' a = None"
  by (cases "(t, a)" rule: gone.cases) auto

lemma agree_live: "agree t a b \<Longrightarrow> t < t' \<Longrightarrow> cell_live t' a = cell_live t' b"
  by (auto simp: agree_def gone_live)

lemma live_gone: "cell_live t a = None \<Longrightarrow> gone t a"
  by (cases "(t, a)" rule: cell_live.cases) (auto split: if_splits)

lemma kv_cells_live: "cell_live t (kv_cells kv k) = map_option cell_of (kv_Get t kv k)"
  by (auto simp: kv_cells_def kv_Get_def cell_of_def isExpired_def split: option.splits)

lemma close_value_entry: "e_value (closeVectorEntry e) = close_value (e_type e) (e_value e)"
  by (cases "(e_type e, e_value e)" rule: close_value.cases) (auto simp: closeVectorEntry_def)

lemma kv_cells_upd: "kv_find kv' = (kv_find kv)(k := x) \<Longrightarrow>
    kv_cells kv' = (kv_cells kv)(k := map_option cell_of x)"
  by (auto simp: kv_cells_def fun_eq_iff)

lemma kv_cells_eq_upd:
  "(\<And>x. kv_find kv' x = (if x = k then y else kv_find kv x)) \<Longrightarrow>
     kv_cells kv' = (kv_cells kv)(k := map_option cell_of y)"
  by (auto simp: kv_cells_def fun_eq_iff)

lemma sim_later:
  assumes "sim t0 kv m" and "t0 < t" and "kv_inv kv'" and "kv_deadlines kv'"
    and "\<And>k. kv_cells kv' k = kv_cells kv k \<and> m' k = m k
       \<or> kv_cells kv' k = m' k
       \<or> kv_cells kv' k = None \<and> gone t (kv_cells kv k) \<and> m' k = m k"
  shows "sim t kv' m'"
proof -
  have "agree t (kv_cells kv' k) (m' k)" for k
  proof -
    have a: "agree t (kv_cells kv k) (m k)" using assms(1,2) by (auto simp: sim_def intro: agree_mono)
    then have "gone t (kv_cells kv k) \<Longrightarrow> gone t (m k)" by (auto simp: agree_def)
    with a assms(5) [of k] show ?thesis by (auto simp: agree_def)
  qed
  with assms(3,4) show ?thesis by (simp add: sim_def)
qed

lemma sim_live: "sim t0 kv m \<Longrightarrow> t0 < t \<Longrightarrow> cell_live t (m k) = map_option cell_of (kv_Get t kv k)"
  using agree_live [of t0 "kv_cells kv k" "m k" t] by (simp add: sim_def kv_cells_live)

lemma sim_Set:
  assumes "sim t0 kv m" and "t0 < t"
  shows "sim t (kv_run t (KSet k v ty ttl) kv) (flat_run t (KSet k v ty ttl) m)"
proof -
  have i: "kv_inv kv" "kv_deadlines kv" using assms by (auto simp: sim_def)
  have "kv_cells (kv_Set t kv k v ty ttl) = (kv_cells kv)(k \<mapsto> (v, ty, set_deadline t ttl))"
    using kv_cells_upd [OF kv_Set_find [OF i(1), of t k v ty ttl]] by (simp add: cell_of_def)
  then show ?thesis using i by (intro sim_later [OF assms]) (auto simp: kv_inv_ops kv_deadlines_ops)
qed

lemma sim_Delete:
  assumes "sim t0 kv m" and "t0 < t"
  shows "sim t (kv_run t (KDelete ks) kv) (flat_run t (KDelete ks) m)"
proof -
  have i: "kv_inv kv" "kv_deadlines kv" using assms by (auto simp: sim_def)
  have "kv_cells (fst (kv_Delete kv ks)) = kv_cells kv |` (- set ks)"
    using kv_Delete_find [OF i(1), of ks] by (auto simp: kv_cells_def restrict_map_def fun_eq_iff)
  then show ?thesis using i
    by (intro sim_later [OF assms]) (auto simp: kv_inv_ops kv_deadlines_ops restrict_map_def)
qed

lemma sim_Expire:
  assumes "sim t0 kv m" and "t0 < t" and "sane_op t (KExpire k n)"
  shows "sim t (kv_run t (KExpire k n) kv) (flat_run t (KExpire k n) m)"
proof -
  have i: "kv_inv kv" "kv_deadlines kv" using assms by (auto simp: sim_def)
  have inv: "kv_inv (fst (kv_Expire t t kv k n))" "kv_deadlines (fst (kv_Expire t t kv k n))"
    using i assms(3) by (auto intro: kv_Expire_inv kv_deadlines_Expire)
  note live = sim_live [OF assms(1,2), of k]
  show ?thesis
  proof (cases "kv_Get t kv k")
    case None
    with live inv show ?thesis
      by (intro sim_later [OF assms(1,2)]) (simp_all add: kv_Expire_absent)
  next
    case (Some e)
    from kv_cells_upd [OF kv_Expire_find [OF i(1) Some, of t n]] Some live inv show ?thesis
      by (intro sim_later [OF assms(1,2)]) (auto simp: cell_of_def)
  qed
qed

lemma sim_Persist:
  assumes "sim t0 kv m" and "t0 < t"
  shows "sim t (kv_run t (KPersist k) kv) (flat_run t (KPersist k) m)"
proof -
  have i: "kv_inv kv" "kv_deadlines kv" using assms by (auto simp: sim_def)
  then have inv: "kv_inv (fst (kv_Persist t kv k))" "kv_deadlines (fst (kv_Persist t kv k))"
    by (auto intro: kv_Persist_inv kv_deadlines_Persist)
  note live = sim_live [OF assms, of k]
  show ?thesis
  proof (cases "kv_Get t kv k")
    case None
    with live inv show ?thesis by (intro sim_later [OF assms]) (simp_all add: kv_Persist_absent)
  next
    case (Some e)
    from kv_cells_upd [OF kv_Persist_find(1) [OF i(1) Some]] Some live inv show ?thesis
      by (intro sim_later [OF assms]) (auto simp: cell_of_def)
  qed
qed

lemma kv_Rename_find:
  assumes "kv_inv kv" and "kv_Get t kv a = Some e"
  shows "kv_cells (fst (kv_Rename t t t kv a b)) =
    (if e_expires e > 0 \<and> i64 (e_expires e - t) \<le> 0 then (kv_cells kv)(a := None)
     else (kv_cells kv)(a := None, b \<mapsto> (close_value (e_type e) (e_value e), e_type e,
       if e_expires e > 0 then set_deadline t (i64 (e_expires e - t)) else 0)))"
proof -
  let ?kv1 = "fst (kv_Delete kv [a])"
  have i1: "kv_inv ?kv1" using assms(1) by (rule kv_Delete_inv)
  have f1: "kv_find ?kv1 = (kv_find kv)(a := None)"
    using kv_Delete_find [OF assms(1), of "[a]"] by (auto simp: restrict_map_def fun_eq_iff)
  have f2: "kv_cells (kv_Set t ?kv1 b v ty ttl) = (kv_cells kv)(a := None, b \<mapsto> (v, ty, set_deadline t ttl))"
    for v ty ttl
    using kv_cells_upd [OF kv_Set_find [OF i1]] kv_cells_upd [OF f1] by (simp add: cell_of_def)
  show ?thesis
    using assms(2) f2 kv_cells_upd [OF f1]
    by (simp add: kv_Rename_def Let_def close_value_entry set_deadline_def del: kv_Delete.simps)
qed

lemma sim_Rename:
  assumes "sim t0 kv m" and "t0 < t"
  shows "sim t (kv_run t (KRename a b) kv) (flat_run t (KRename a b) m)"
proof -
  have i: "kv_inv kv" "kv_deadlines kv" using assms by (auto simp: sim_def)
  then have inv: "kv_inv (fst (kv_Rename t t t kv a b))" "kv_deadlines (fst (kv_Rename t t t kv a b))"
    by (auto intro: kv_Rename_inv kv_deadlines_Rename)
  note live = sim_live [OF assms, of a]
  show ?thesis
  proof (cases "kv_Get t kv a")
    case None
    with live inv show ?thesis
      by (intro sim_later [OF assms]) (simp_all add: kv_Rename_def)
  next
    case (Some e)
    from kv_Rename_find [OF i(1) Some, of b] Some live inv show ?thesis
      by (intro sim_later [OF assms]) (auto simp: cell_of_def)
  qed
qed

lemma sim_Reap:
  assumes "sim t0 kv m" and "t0 < t"
  shows "sim t (kv_run t (KReap limit) kv) (flat_run t (KReap limit) m)"
proof -
  have i: "kv_inv kv" "kv_deadlines kv" using assms by (auto simp: sim_def)
  let ?kv = "fst (kv_DeleteExpiredLimit t kv limit)"
  have "kv_cells ?kv k = kv_cells kv k \<or> kv_cells ?kv k = None \<and> gone t (kv_cells kv k)" for k
  proof -
    have "e_expires e \<noteq> 0 \<and> e_expires e \<le> t" if "reapable t (sh_expiries (kv_shard kv k)) e" for e
      using that i kv_shard_in [OF i(1), of k]
      by (auto simp: reapable_def kv_deadlines_def deadlines_set_def)
    with kv_reap_find [OF i(1), of t limit k] show ?thesis
      by (fastforce simp: kv_cells_def cell_of_def)
  qed
  with i show ?thesis by (intro sim_later [OF assms]) (auto simp: kv_inv_ops kv_deadlines_ops)
qed

lemma sim_Touch:
  assumes "sim t0 kv m" and "t0 < t"
  shows "sim t (kv_run t (KTouch x) kv) (flat_run t (KTouch x) m)"
proof -
  have i: "kv_inv kv" "kv_deadlines kv" using assms by (auto simp: sim_def)
  let ?kv = "fst (kv_GetForWrite t kv x)"
  have "kv_cells ?kv k = kv_cells kv k \<or> kv_cells ?kv k = None \<and> gone t (kv_cells kv k)" for k
    using i(1) by (auto simp: kv_GetForWrite_def kv_cells_def cell_of_def isExpired_def kv_find_del
        split: option.splits if_splits)
  with i show ?thesis by (intro sim_later [OF assms]) (auto simp: kv_inv_ops kv_deadlines_ops)
qed

lemma sim_Flush:
  assumes "sim t0 kv m" and "t0 < t"
  shows "sim t (kv_run t KFlushAll kv) (flat_run t KFlushAll m)"
proof -
  have i: "kv_inv kv" "kv_deadlines kv" using assms by (auto simp: sim_def)
  then have "kv_cells (kv_FlushAll kv) k = None" for k by (simp add: kv_cells_def kv_FlushAll_find)
  with i show ?thesis by (intro sim_later [OF assms]) (auto simp: kv_inv_ops kv_deadlines_ops)
qed

lemma sim_step: "sim t0 kv m \<Longrightarrow> t0 < t \<Longrightarrow> sane_op t op \<Longrightarrow> sim t (kv_run t op kv) (flat_run t op m)"
  by (cases op)
    (simp_all only: sim_Set sim_Delete sim_Expire sim_Persist sim_Rename sim_Reap sim_Touch sim_Flush)

fun last_time :: "int \<Rightarrow> (int \<times> kvop) list \<Rightarrow> int" where
  "last_time t0 [] = t0"
| "last_time t0 ((t, op) # ops) = last_time t ops"

lemma sim_trace:
  "sim t0 kv m \<Longrightarrow> sane_trace t0 ops \<Longrightarrow> sim (last_time t0 ops) (kv_trace ops kv) (flat_trace ops m)"
proof (induction t0 ops arbitrary: kv m rule: sane_trace.induct)
  case (2 t0 t op ops)
  then have "sim t (kv_run t op kv) (flat_run t op m)" by (intro sim_step [OF 2(2)]) auto
  with 2 show ?case by simp
qed simp

lemma sim_New: "sim t (New n) Map.empty"
  by (simp add: sim_def kv_inv_New kv_deadlines_New kv_cells_def kv_find_New)

text \<open>
  C3. The sharded store refines a flat map. After any sequence of sets, deletes, expires, persists,
  renames, flushes, reaper runs and lazy deletions at increasing clock readings, a lookup at a later
  instant returns exactly the value, type and deadline a flat map without shards, heaps or background
  deletion would hold.
\<close>

theorem kv_refines_flat_map:
  assumes "sane_trace t0 ops" and "last_time t0 ops < t"
  shows "map_option cell_of (kv_Get t (kv_trace ops (New n)) k)
    = cell_live t (flat_trace ops Map.empty k)"
proof -
  have "sim (last_time t0 ops) (kv_trace ops (New n)) (flat_trace ops Map.empty)"
    using sim_New assms(1) by (rule sim_trace)
  from sim_live [OF this assms(2)] show ?thesis by simp
qed

theorem kv_refines_flat_map_witness:
  "map_option cell_of (kv_Get 20 (kv_trace [(1, KSet ''a'' (VBytes (Some ''x'')) TypeString 5),
     (2, KRename ''a'' ''b''), (3, KPersist ''b''), (10, KReap 0)] (New 4)) ''b'')
   = Some (VBytes (Some ''x''), TypeString, 0)"
  using kv_refines_flat_map [of 0 "[(1, KSet ''a'' (VBytes (Some ''x'')) TypeString 5),
     (2, KRename ''a'' ''b''), (3, KPersist ''b''), (10, KReap 0)]" 20 4 "''b''"]
  by (simp add: set_deadline_def i64_def)

text \<open>
  C12. The reaper is safe. Whatever its limit, a run at time \<open>now\<close> changes no lookup at any later instant,
  keeps the store well-formed, removes exactly as many entries as it reports and, with a positive
  limit, no more than the limit.
\<close>

theorem kv_reaper_safe:
  assumes "kv_inv kv" and "kv_deadlines kv"
  shows "(\<forall>t k. now < t \<longrightarrow> kv_Get t (fst (kv_DeleteExpiredLimit now kv limit)) k = kv_Get t kv k)
    \<and> kv_inv (fst (kv_DeleteExpiredLimit now kv limit))
    \<and> snd (kv_DeleteExpiredLimit now kv limit) = int (length (kv_entries kv))
        - int (length (kv_entries (fst (kv_DeleteExpiredLimit now kv limit))))
    \<and> (0 < limit \<longrightarrow> snd (kv_DeleteExpiredLimit now kv limit) \<le> limit)"
proof -
  have wf: "\<forall>s \<in> set (kv_shards kv). wf_map (sh_data s)"
    using assms(1) by (auto simp: kv_inv_def wf_shard_def all_set_conv_all_nth)
  show ?thesis
    using kv_reap_invisible [OF assms] kv_reap_inv [OF assms(1)] reap_shards_count [OF wf, of limit now 0]
      reap_shards_limit [of limit 0 now "kv_shards kv"]
    by (simp add: kv_reap_shards kv_entries_def)
qed

theorem kv_reaper_safe_witness:
  "kv_Get 7 (fst (kv_DeleteExpiredLimit 6 (kv_Set 1 (New 2) ''a'' (VBytes None) TypeString 0) 3)) ''a'' \<noteq> None"
proof -
  let ?kv = "kv_Set 1 (New 2) ''a'' (VBytes None) TypeString 0"
  have "kv_inv ?kv" "kv_deadlines ?kv"
    by (simp_all add: kv_Set_inv kv_deadlines_Set kv_inv_New kv_deadlines_New)
  then have "kv_Get 7 (fst (kv_DeleteExpiredLimit 6 ?kv 3)) ''a'' = kv_Get 7 ?kv ''a''"
    using kv_reaper_safe [of ?kv 6 3] by auto
  then show ?thesis by (simp add: kv_Get_def kv_Set_find kv_inv_New set_deadline_def)
qed

text \<open>
  C13. The reaper is complete. When every entry with a deadline has its item in the heap of its shard
  (which \<^verbatim>\<open>Set\<close>, \<^verbatim>\<open>Expire\<close>, \<^verbatim>\<open>Persist\<close>, \<^verbatim>\<open>Delete\<close>, \<^verbatim>\<open>Rename\<close> and lazy deletion all preserve), an unlimited run
  leaves no entry whose deadline has come.
\<close>

theorem kv_reaper_complete:
  assumes "kv_inv kv" and "kv_covered kv"
  shows "(\<forall>k e. kv_find (fst (kv_DeleteExpired now kv)) k = Some e \<and> 0 < e_expires e \<longrightarrow> now < e_expires e)
    \<and> kv_covered (kv_Set t kv k v ty ttl) \<and> kv_covered (fst (kv_Expire t t' kv k n))
    \<and> kv_covered (fst (kv_Persist t kv k)) \<and> kv_covered (fst (kv_Delete kv ks))
    \<and> kv_covered (fst (kv_Rename t t' t'' kv a b)) \<and> kv_covered (fst (kv_GetForWrite t kv k))"
  by (intro conjI allI impI kv_covered_Set kv_covered_Expire kv_covered_Persist kv_covered_Delete
      kv_covered_Rename kv_covered_GetForWrite assms)
    (auto intro: kv_reap_complete [OF assms])

theorem kv_reaper_complete_witness:
  "kv_find (fst (kv_DeleteExpired 9 (kv_Set 1 (New 1) ''a'' (VBytes None) TypeString 4))) ''a'' = None"
proof -
  let ?kv = "kv_Set 1 (New 1) ''a'' (VBytes None) TypeString 4"
  have i: "kv_inv ?kv" "kv_covered ?kv" by (simp_all add: kv_Set_inv kv_covered_Set kv_inv_New kv_covered_New)
  have f: "kv_find ?kv ''a'' = Some \<lparr>e_value = VBytes None, e_type = TypeString, e_expires = 5,
      e_version = 1, e_created = 1, e_updated = 1\<rparr>"
    by (simp add: kv_Set_find kv_inv_New kv_find_New kv_set_entry_def set_deadline_def i64_def)
  show ?thesis
  proof (cases "kv_find (fst (kv_DeleteExpired 9 ?kv)) ''a''")
    case (Some e)
    then have "kv_find ?kv ''a'' = Some e"
      using kv_reap_find [OF i(1), of 9 0 "''a''"] by (auto simp: kv_DeleteExpired_def)
    with f have "e_expires e = 5" by simp
    with kv_reaper_complete [OF i] Some show ?thesis by fastforce
  qed
qed

end
