(* ===== verification/Glob.thy ===== *)
theory Glob
  imports Prelude
begin

text \<open>
  The pattern matcher of \<^verbatim>\<open>KEYS\<close> (\<^verbatim>\<open>matchGlob\<close> and \<^verbatim>\<open>globMatch\<close> of \<^verbatim>\<open>src/internal/engine/kv.go\<close>): the
  backtracking loop with one remembered star, against the declarative reading of a glob pattern.
\<close>

text \<open>The loop; \<open>star\<close> is \<open>None\<close> for Go's \<open>-1\<close>. After it, trailing stars are skipped.\<close>

function glob_loop ::
  "string \<Rightarrow> string \<Rightarrow> nat \<Rightarrow> nat \<Rightarrow> nat option \<Rightarrow> nat \<Rightarrow> bool" where
  "glob_loop pat str p s star match =
     (if s < length str then
        if p < length pat \<and> (pat ! p = CHR ''?'' \<or> pat ! p = str ! s)
        then glob_loop pat str (p + 1) (s + 1) star match
        else if p < length pat \<and> pat ! p = CHR ''*''
        then glob_loop pat str (p + 1) s (Some p) s
        else case star of
               Some st \<Rightarrow> glob_loop pat str (st + 1) (match + 1) star (match + 1)
             | None \<Rightarrow> False
      else p + length (takeWhile (\<lambda>c. c = CHR ''*'') (drop p pat)) = length pat)"
  by pat_completeness auto
termination
proof (relation "measures [\<lambda>(pat, str, p, s, star, match). if match \<le> s then 0 else 1,
      \<lambda>(pat, str, p, s, star, match). length str - match,
      \<lambda>(pat, str, p, s, star, match). length str - s,
      \<lambda>(pat, str, p, s, star, match). length pat - p]", goal_cases)
  case 1
  show ?case by simp
qed auto

declare glob_loop.simps [simp del]

definition globMatch :: "string \<Rightarrow> string \<Rightarrow> bool" where
  "globMatch pattern str = glob_loop pattern str 0 0 None 0"

definition matchGlob :: "string \<Rightarrow> string \<Rightarrow> bool" where
  "matchGlob pattern s = (if pattern = ''*'' then True else globMatch pattern s)"

section \<open>What a pattern means\<close>

fun glob_spec :: "string \<Rightarrow> string \<Rightarrow> bool" where
  "glob_spec [] s = (s = [])"
| "glob_spec (c # p) s =
     (if c = CHR ''*'' then \<exists>k \<le> length s. glob_spec p (drop k s)
      else case s of [] \<Rightarrow> False | x # xs \<Rightarrow> (c = CHR ''?'' \<or> c = x) \<and> glob_spec p xs)"

lemma glob_spec_segment:
  "CHR ''*'' \<notin> set q \<Longrightarrow> glob_spec (q @ r) xs \<longleftrightarrow> length q \<le> length xs
     \<and> (\<forall>i < length q. q ! i = CHR ''?'' \<or> q ! i = xs ! i) \<and> glob_spec r (drop (length q) xs)"
proof (induction q arbitrary: xs)
  case Nil
  then show ?case by simp
next
  case (Cons c q)
  show ?case
  proof (cases xs)
    case Nil
    with Cons.prems show ?thesis by auto
  next
    case (Cons x ys)
    have "(\<forall>i < length (c # q). (c # q) ! i = CHR ''?'' \<or> (c # q) ! i = (x # ys) ! i)
      \<longleftrightarrow> (c = CHR ''?'' \<or> c = x) \<and> (\<forall>i < length q. q ! i = CHR ''?'' \<or> q ! i = ys ! i)"
      by (auto simp: nth_Cons split: nat.splits)
    with Cons Cons.IH [of ys] Cons.prems show ?thesis by auto
  qed
qed

lemma glob_spec_empty: "glob_spec p [] \<longleftrightarrow> (\<forall>c \<in> set p. c = CHR ''*'')"
  by (induction p) auto

lemma length_takeWhile_all: "length (takeWhile P d) = length d \<longleftrightarrow> (\<forall>x \<in> set d. P x)"
  by (induction d) auto

lemma skip_stars:
  assumes "p \<le> length pat"
  shows "p + length (takeWhile (\<lambda>c. c = CHR ''*'') (drop p pat)) = length pat \<longleftrightarrow> glob_spec (drop p pat) []"
proof -
  have "p + length (takeWhile (\<lambda>c. c = CHR ''*'') (drop p pat)) = length pat
    \<longleftrightarrow> length (takeWhile (\<lambda>c. c = CHR ''*'') (drop p pat)) = length (drop p pat)"
    using assms unfolding length_drop by linarith
  then show ?thesis by (simp only: length_takeWhile_all glob_spec_empty)
qed

section \<open>The loop computes the meaning\<close>

definition segment :: "string \<Rightarrow> nat \<Rightarrow> nat \<Rightarrow> string" where
  "segment pat st p = take (p - st - 1) (drop (st + 1) pat)"

text \<open>With a remembered star at \<open>st\<close>, the pattern between it and \<open>p\<close> is free of stars and matches the
  text from \<open>match\<close> to \<open>s\<close>.\<close>

definition star_inv :: "string \<Rightarrow> string \<Rightarrow> nat \<Rightarrow> nat \<Rightarrow> nat \<Rightarrow> nat \<Rightarrow> bool" where
  "star_inv pat str p s st match \<longleftrightarrow>
     st < p \<and> pat ! st = CHR ''*'' \<and> match \<le> s \<and> s - match = p - st - 1
     \<and> CHR ''*'' \<notin> set (segment pat st p)
     \<and> (\<forall>i < p - st - 1. pat ! (st + 1 + i) = CHR ''?'' \<or> pat ! (st + 1 + i) = str ! (match + i))"

fun loop_inv :: "string \<Rightarrow> string \<Rightarrow> nat \<Rightarrow> nat \<Rightarrow> nat option \<Rightarrow> nat \<Rightarrow> bool" where
  "loop_inv pat str p s None match \<longleftrightarrow> True"
| "loop_inv pat str p s (Some st) match \<longleftrightarrow> star_inv pat str p s st match"

fun loop_goal :: "string \<Rightarrow> string \<Rightarrow> nat \<Rightarrow> nat \<Rightarrow> nat option \<Rightarrow> nat \<Rightarrow> bool" where
  "loop_goal pat str p s None match \<longleftrightarrow> glob_spec (drop p pat) (drop s str)"
| "loop_goal pat str p s (Some st) match \<longleftrightarrow>
     (\<exists>m. match \<le> m \<and> m \<le> length str \<and> glob_spec (drop (st + 1) pat) (drop m str))"

lemma segment_facts:
  assumes "st < p" and "p \<le> length pat"
  shows "length (segment pat st p) = p - st - 1" and "drop (st + 1) pat = segment pat st p @ drop p pat"
    and "i < p - st - 1 \<Longrightarrow> segment pat st p ! i = pat ! (st + 1 + i)"
proof -
  show "length (segment pat st p) = p - st - 1" using assms by (simp add: segment_def)
  have "drop p pat = drop (p - st - 1) (drop (st + 1) pat)" using assms by simp
  then show "drop (st + 1) pat = segment pat st p @ drop p pat"
    unfolding segment_def by (simp only: append_take_drop_id)
  show "i < p - st - 1 \<Longrightarrow> segment pat st p ! i = pat ! (st + 1 + i)" using assms by (simp add: segment_def)
qed

lemma star_at:
  assumes inv: "star_inv pat str p s st match" and p: "p \<le> length pat" and s: "s \<le> length str"
    and m: "match \<le> m" "m \<le> length str"
  shows "glob_spec (drop (st + 1) pat) (drop m str) \<longrightarrow>
      m + (s - match) \<le> length str \<and> glob_spec (drop p pat) (drop (m + (s - match)) str)"
    and "m = match \<Longrightarrow> glob_spec (drop (st + 1) pat) (drop m str) \<longleftrightarrow> glob_spec (drop p pat) (drop s str)"
proof -
  have st: "st < p" and k: "s - match = p - st - 1" and ms: "match \<le> s"
    and q: "CHR ''*'' \<notin> set (segment pat st p)" using inv by (auto simp: star_inv_def)
  note seg = segment_facts [OF st p]
  have eq: "glob_spec (drop (st + 1) pat) (drop m str) \<longleftrightarrow> s - match \<le> length str - m
     \<and> (\<forall>i < s - match. segment pat st p ! i = CHR ''?'' \<or> segment pat st p ! i = drop m str ! i)
     \<and> glob_spec (drop p pat) (drop (m + (s - match)) str)"
    unfolding seg(2) glob_spec_segment [OF q] seg(1) k by (simp add: add.commute)
  then show "glob_spec (drop (st + 1) pat) (drop m str) \<longrightarrow>
      m + (s - match) \<le> length str \<and> glob_spec (drop p pat) (drop (m + (s - match)) str)"
    using m by auto
  assume [simp]: "m = match"
  have "segment pat st p ! i = CHR ''?'' \<or> segment pat st p ! i = drop m str ! i" if "i < s - match" for i
    using inv that m seg(3) [of i] by (auto simp: star_inv_def k)
  then show "glob_spec (drop (st + 1) pat) (drop m str) \<longleftrightarrow> glob_spec (drop p pat) (drop s str)"
    unfolding eq using ms s by auto
qed

lemma star_inv_step:
  assumes "star_inv pat str p s st match" and "p < length pat"
    and "pat ! p = CHR ''?'' \<or> pat ! p = str ! s" and "pat ! p \<noteq> CHR ''*''"
  shows "star_inv pat str (p + 1) (s + 1) st match"
proof -
  have st: "st < p" and k: "s - match = p - st - 1" and ms: "match \<le> s"
    using assms(1) by (auto simp: star_inv_def)
  have "segment pat st (p + 1) = segment pat st p @ [pat ! p]"
  proof -
    have "p + 1 - st - 1 = Suc (p - st - 1)" using st by simp
    moreover have "drop (st + 1) pat ! (p - st - 1) = pat ! p" using st assms(2) by simp
    ultimately show ?thesis unfolding segment_def
      using st assms(2) take_Suc_conv_app_nth [of "p - st - 1" "drop (st + 1) pat"] by simp
  qed
  moreover have "pat ! (st + 1 + i) = CHR ''?'' \<or> pat ! (st + 1 + i) = str ! (match + i)"
    if "i < p + 1 - st - 1" for i
  proof (cases "i = p - st - 1")
    case True
    then have "st + 1 + i = p" "match + i = s" using st k ms by auto
    with assms(3) show ?thesis by simp
  next
    case False
    with that have "i < p - st - 1" by simp
    with assms(1) show ?thesis unfolding star_inv_def by blast
  qed
  ultimately show ?thesis using assms(1,4) st k ms by (auto simp: star_inv_def)
qed

lemma glob_spec_mismatch:
  assumes "s < length str" and "\<not> (p < length pat \<and> (pat ! p = CHR ''?'' \<or> pat ! p = str ! s))"
    and "\<not> (p < length pat \<and> pat ! p = CHR ''*'')"
  shows "\<not> glob_spec (drop p pat) (drop s str)"
proof (cases "p < length pat")
  case True
  then have "drop p pat = pat ! p # drop (Suc p) pat" by (rule Cons_nth_drop_Suc [symmetric])
  moreover have "drop s str = str ! s # drop (Suc s) str" using assms(1) by (rule Cons_nth_drop_Suc [symmetric])
  ultimately show ?thesis using assms True by simp
qed (use assms in simp)

lemma glob_spec_hit:
  assumes "s < length str" and "p < length pat \<and> (pat ! p = CHR ''?'' \<or> pat ! p = str ! s)"
    and "pat ! p \<noteq> CHR ''*''"
  shows "glob_spec (drop (p + 1) pat) (drop (s + 1) str) \<longleftrightarrow> glob_spec (drop p pat) (drop s str)"
proof -
  have "drop p pat = pat ! p # drop (p + 1) pat"
    using assms(2) Cons_nth_drop_Suc [of p pat] by simp
  moreover have "drop s str = str ! s # drop (s + 1) str"
    using assms(1) Cons_nth_drop_Suc [of s str] by simp
  ultimately show ?thesis using assms by simp
qed

lemma loop_goal_end:
  assumes "loop_inv pat str p s star match" and "p \<le> length pat" and "s = length str"
  shows "loop_goal pat str p s star match \<longleftrightarrow> glob_spec (drop p pat) []"
proof (cases star)
  case None
  with assms show ?thesis by simp
next
  case (Some st)
  then have inv: "star_inv pat str p s st match" using assms by simp
  have ms: "match \<le> length str" using inv assms(3) by (simp add: star_inv_def)
  have "glob_spec (drop p pat) []" if "match \<le> m" "m \<le> length str"
    "glob_spec (drop (st + 1) pat) (drop m str)" for m
  proof -
    have "m + (s - match) \<le> length str \<and> glob_spec (drop p pat) (drop (m + (s - match)) str)"
      using star_at(1) [OF inv assms(2) _ that(1,2)] that(3) assms(3) by simp
    moreover from this have "m + (s - match) = length str" using that(1) ms assms(3) by linarith
    ultimately show ?thesis by simp
  qed
  moreover have "glob_spec (drop (st + 1) pat) (drop match str) \<longleftrightarrow> glob_spec (drop p pat) []"
    using star_at(2) [OF inv assms(2) _ order_refl ms refl] assms(3) by simp
  ultimately show ?thesis using Some ms by auto
qed

lemma loop_goal_star:
  assumes "loop_inv pat str p s star match" and "p < length pat" and "s \<le> length str"
    and "pat ! p = CHR ''*''"
  shows "loop_goal pat str p s star match \<longleftrightarrow> loop_goal pat str (p + 1) s (Some p) s"
proof -
  have d: "drop p pat = CHR ''*'' # drop (p + 1) pat"
    using assms(2,4) Cons_nth_drop_Suc [of p pat] by simp
  have here: "glob_spec (drop p pat) (drop j str) \<longleftrightarrow>
      (\<exists>m. j \<le> m \<and> m \<le> length str \<and> glob_spec (drop (p + 1) pat) (drop m str))"
    if "j \<le> length str" for j
  proof
    assume "glob_spec (drop p pat) (drop j str)"
    then obtain k where "k \<le> length str - j" "glob_spec (drop (p + 1) pat) (drop (k + j) str)"
      unfolding d by auto
    with that show "\<exists>m. j \<le> m \<and> m \<le> length str \<and> glob_spec (drop (p + 1) pat) (drop m str)"
      by (intro exI [of _ "k + j"]) auto
  next
    assume "\<exists>m. j \<le> m \<and> m \<le> length str \<and> glob_spec (drop (p + 1) pat) (drop m str)"
    then obtain m where "j \<le> m" "m \<le> length str" "glob_spec (drop (p + 1) pat) (drop m str)" by blast
    then show "glob_spec (drop p pat) (drop j str)"
      unfolding d by (auto intro!: exI [of _ "m - j"])
  qed
  show ?thesis
  proof (cases star)
    case None
    with here [OF assms(3)] show ?thesis by simp
  next
    case (Some st)
    then have inv: "star_inv pat str p s st match" using assms by simp
    have p: "p \<le> length pat" using assms(2) by simp
    have ms: "match \<le> s" "match \<le> length str" using inv assms(3) by (auto simp: star_inv_def)
    have "loop_goal pat str (p + 1) s (Some p) s"
      if "match \<le> m" "m \<le> length str" "glob_spec (drop (st + 1) pat) (drop m str)" for m
    proof -
      have le: "m + (s - match) \<le> length str" and "glob_spec (drop p pat) (drop (m + (s - match)) str)"
        using star_at(1) [OF inv p assms(3) that(1,2)] that(3) by simp_all
      then obtain m' where "m + (s - match) \<le> m'" "m' \<le> length str"
        "glob_spec (drop (p + 1) pat) (drop m' str)" using here [OF le] by blast
      then show ?thesis using that(1) ms by (auto intro!: exI [of _ m'])
    qed
    moreover have "glob_spec (drop (st + 1) pat) (drop match str) \<longleftrightarrow> glob_spec (drop p pat) (drop s str)"
      using star_at(2) [OF inv p assms(3) order_refl ms(2) refl] .
    ultimately show ?thesis using Some ms here [OF assms(3)] by auto
  qed
qed

lemma loop_goal_back:
  assumes inv: "star_inv pat str p s st match" and "p \<le> length pat" and "s < length str"
    and "\<not> glob_spec (drop p pat) (drop s str)"
  shows "loop_goal pat str p s (Some st) match \<longleftrightarrow>
    loop_goal pat str (st + 1) (match + 1) (Some st) (match + 1)"
proof -
  have "match \<le> length str" using inv assms(3) by (simp add: star_inv_def)
  then have "\<not> glob_spec (drop (st + 1) pat) (drop match str)"
    using star_at(2) [OF inv assms(2) _ order_refl] assms(3,4) by simp
  moreover have "match \<le> m \<longleftrightarrow> m = match \<or> match + 1 \<le> m" for m by linarith
  ultimately show ?thesis unfolding loop_goal.simps by metis
qed

lemma glob_loop_goal:
  assumes "CHR ''*'' \<notin> set str"
  shows "p \<le> length pat \<Longrightarrow> s \<le> length str \<Longrightarrow> loop_inv pat str p s star match \<Longrightarrow>
     glob_loop pat str p s star match \<longleftrightarrow> loop_goal pat str p s star match"
  using assms
proof (induction pat str p s star match rule: glob_loop.induct)
  case (1 pat str p s star match)
  note IH = 1(1-3) and p = 1(4) and s = 1(5) and inv = 1(6) and nostar = 1(7)
  let ?hit = "p < length pat \<and> (pat ! p = CHR ''?'' \<or> pat ! p = str ! s)"
  let ?star = "p < length pat \<and> pat ! p = CHR ''*''"
  show ?case
  proof (cases "s < length str")
    case False
    with s have "s = length str" by simp
    then show ?thesis
      using loop_goal_end [OF inv p] skip_stars [OF p] by (simp add: glob_loop.simps [of pat str p])
  next
    case lt: True
    then have ns: "str ! s \<noteq> CHR ''*''" using nostar nth_mem by fastforce
    consider "?hit" | "\<not> ?hit" "?star" | "\<not> ?hit" "\<not> ?star" by blast
    then show ?thesis
    proof cases
      case 1
      have step: "glob_loop pat str p s star match = glob_loop pat str (p + 1) (s + 1) star match"
        using lt 1 by (simp add: glob_loop.simps [of pat str p s])
      have c: "pat ! p \<noteq> CHR ''*''" using 1 ns by auto
      have "loop_inv pat str (p + 1) (s + 1) star match"
        using inv 1 c by (cases star) (auto intro: star_inv_step [simplified])
      then have "glob_loop pat str (p + 1) (s + 1) star match \<longleftrightarrow> loop_goal pat str (p + 1) (s + 1) star match"
        using 1 lt nostar by (intro IH(1)) auto
      moreover have "loop_goal pat str (p + 1) (s + 1) star match \<longleftrightarrow> loop_goal pat str p s star match"
        using glob_spec_hit [OF lt 1 c] by (cases star) simp_all
      ultimately show ?thesis using step by simp
    next
      case 2
      have step: "glob_loop pat str p s star match = glob_loop pat str (p + 1) s (Some p) s"
        using lt 2 by (simp add: glob_loop.simps [of pat str p s])
      have "glob_loop pat str (p + 1) s (Some p) s \<longleftrightarrow> loop_goal pat str (p + 1) s (Some p) s"
        using 2 lt nostar by (intro IH(2)) (auto simp: star_inv_def segment_def)
      then show ?thesis using step loop_goal_star [OF inv _ s] 2 by simp
    next
      case 3
      note mism = glob_spec_mismatch [OF lt 3]
      show ?thesis
      proof (cases star)
        case None
        then show ?thesis using mism lt 3 by (auto simp: glob_loop.simps [of pat str p s])
      next
        case (Some st)
        then have si: "star_inv pat str p s st match" using inv by simp
        then have b: "st < p" "match \<le> s" "pat ! st = CHR ''*''" by (auto simp: star_inv_def)
        have step: "glob_loop pat str p s star match = glob_loop pat str (st + 1) (match + 1) star (match + 1)"
          using lt 3 Some by (auto simp: glob_loop.simps [of pat str p s])
        have "glob_loop pat str (st + 1) (match + 1) star (match + 1)
            \<longleftrightarrow> loop_goal pat str (st + 1) (match + 1) star (match + 1)"
          using 3 lt nostar Some b p by (intro IH(3)) (auto simp: star_inv_def segment_def)
        then show ?thesis using step loop_goal_back [OF si p lt mism] Some by simp
      qed
    qed
  qed
qed

lemma globMatch_spec: "CHR ''*'' \<notin> set str \<Longrightarrow> globMatch pattern str \<longleftrightarrow> glob_spec pattern str"
  using glob_loop_goal [of str 0 pattern 0 None 0] by (simp add: globMatch_def)

lemma glob_spec_star: "glob_spec ''*'' s"
  by (auto intro!: exI [of _ "length s"])

lemma matchGlob_spec: "CHR ''*'' \<notin> set s \<Longrightarrow> matchGlob pattern s \<longleftrightarrow> glob_spec pattern s"
  using glob_spec_star [of s] by (simp add: matchGlob_def globMatch_spec)

text \<open>
  C16. The glob matcher of \<^verbatim>\<open>KEYS\<close> decides what a pattern means: \<^verbatim>\<open>*\<close> stands for any text, \<^verbatim>\<open>?\<close> for any
  character, every other character for itself, on every text without a star of its own. The loop with
  one backtracking point loses no match.
\<close>

theorem glob_matcher_correct:
  assumes "CHR ''*'' \<notin> set s"
  shows "matchGlob pattern s \<longleftrightarrow> glob_spec pattern s"
  using assms by (rule matchGlob_spec)

theorem glob_matcher_correct_witness: "matchGlob ''a*c?*'' ''abcbcd''"
proof -
  have "glob_spec ''a*c?*'' ''abcbcd''" by code_simp
  then show ?thesis using glob_matcher_correct [of "''abcbcd''" "''a*c?*''"] by simp
qed

text \<open>On a text that contains a star the loop takes the pattern's star literally and gives up.\<close>

lemma glob_literal_star: "glob_spec ''*a'' ''*ba'' \<and> \<not> matchGlob ''*a'' ''*ba''"
  by code_simp

end
