(* ===== verification/KVScan.thy ===== *)
theory KVScan
  imports KVExpiry Glob
begin

text \<open>
  The operations of \<^verbatim>\<open>src/internal/engine/kv.go\<close> that walk every shard (\<^verbatim>\<open>Keys\<close>, \<^verbatim>\<open>DBSize\<close>,
  \<^verbatim>\<open>KeyspaceStats\<close>, \<^verbatim>\<open>KeyCount\<close>, \<^verbatim>\<open>Snapshot\<close>, \<^verbatim>\<open>ExpiredKeys\<close>) against the flat map: each live key is
  visited exactly once, whatever the number of shards.
\<close>

definition kv_Keys :: "int \<Rightarrow> kvstore \<Rightarrow> string \<Rightarrow> string list" where
  "kv_Keys now kv pattern =
     map fst (filter (\<lambda>(k, e). \<not> isExpired now e \<and> matchGlob pattern k) (kv_entries kv))"

lemma distinct_concat_tagged:
  "(\<And>i. i < length xss \<Longrightarrow> distinct (xss ! i) \<and> (\<forall>x \<in> set (xss ! i). f x = i)) \<Longrightarrow>
     distinct (concat xss)"
proof (induction xss rule: rev_induct)
  case Nil
  then show ?case by simp
next
  case (snoc xs xss)
  have tag: "f x = i" if "i < length xss" "x \<in> set (xss ! i)" for i x
    using snoc.prems [of i] that by (simp add: nth_append)
  have "distinct (concat xss)"
  proof (rule snoc.IH)
    fix i assume "i < length xss"
    then show "distinct (xss ! i) \<and> (\<forall>x \<in> set (xss ! i). f x = i)"
      using snoc.prems [of i] by (simp add: nth_append)
  qed
  moreover have "distinct xs" and last: "\<forall>x \<in> set xs. f x = length xss"
    using snoc.prems [of "length xss"] by simp_all
  moreover have "x \<notin> set xs" if x: "x \<in> set (concat xss)" for x
  proof -
    obtain ys where "ys \<in> set xss" "x \<in> set ys" using x by auto
    then obtain i where "i < length xss" "x \<in> set (xss ! i)" by (metis in_set_conv_nth)
    then have "f x < length xss" using tag by auto
    with last show ?thesis by auto
  qed
  ultimately show ?case by auto
qed

lemma kv_entries_wf:
  assumes "kv_inv kv"
  shows "wf_map (kv_entries kv)"
proof -
  have "distinct (concat (map (map fst \<circ> sh_data) (kv_shards kv)))"
  proof (rule distinct_concat_tagged [where f = "\<lambda>k. ShardIndex k (kv_numShards kv)"])
    fix i assume "i < length (map (map fst \<circ> sh_data) (kv_shards kv))"
    then have i: "i < length (kv_shards kv)" by simp
    with assms have "wf_shard (kv_numShards kv) i (kv_shards kv ! i)" by (simp add: kv_inv_def)
    with i show "distinct (map (map fst \<circ> sh_data) (kv_shards kv) ! i)
      \<and> (\<forall>x \<in> set (map (map fst \<circ> sh_data) (kv_shards kv) ! i). ShardIndex x (kv_numShards kv) = i)"
      by (auto simp: wf_shard_def wf_map_def)
  qed
  then show ?thesis by (simp add: wf_map_def kv_entries_def map_concat)
qed

lemma kv_entries_mem:
  assumes "kv_inv kv"
  shows "(k, e) \<in> set (kv_entries kv) \<longleftrightarrow> kv_find kv k = Some e"
proof -
  have wf: "wf_map (sh_data (kv_shard kv k))"
    using wf_kv_shard [OF assms, of k] by (simp add: wf_shard_def)
  have "(k, e) \<in> set (kv_entries kv) \<longleftrightarrow> (k, e) \<in> set (sh_data (kv_shard kv k))"
  proof
    assume "(k, e) \<in> set (kv_entries kv)"
    then obtain s where "s \<in> set (kv_shards kv)" "(k, e) \<in> set (sh_data s)"
      by (auto simp: kv_entries_def)
    then obtain i where i: "i < length (kv_shards kv)" "(k, e) \<in> set (sh_data (kv_shards kv ! i))"
      by (metis in_set_conv_nth)
    then have "kv_idx kv k = i"
      using assms by (fastforce simp: kv_inv_def wf_shard_def kv_idx_def)
    with i show "(k, e) \<in> set (sh_data (kv_shard kv k))" by (simp add: kv_shard_def)
  next
    assume "(k, e) \<in> set (sh_data (kv_shard kv k))"
    then show "(k, e) \<in> set (kv_entries kv)"
      using kv_shard_in [OF assms, of k] by (auto simp: kv_entries_def)
  qed
  then show ?thesis by (simp add: kv_find_def map_of_iff_mem [OF wf])
qed

lemma map_of_kv_entries: "kv_inv kv \<Longrightarrow> map_of (kv_entries kv) = kv_find kv"
proof
  fix k assume i: "kv_inv kv"
  show "map_of (kv_entries kv) k = kv_find kv k"
    using kv_entries_mem [OF i, of k] map_of_iff_mem [OF kv_entries_wf [OF i], of k]
    by (metis not_Some_eq)
qed

lemma live_entries_wf: "kv_inv kv \<Longrightarrow> wf_map (live_entries now kv)"
  unfolding live_entries_def by (intro wf_map_filter kv_entries_wf)

lemma map_of_live_entries: "kv_inv kv \<Longrightarrow> map_of (live_entries now kv) k = kv_Get now kv k"
  by (simp add: live_entries_def map_of_filter_wf kv_entries_wf map_of_kv_entries kv_Get_def
      split: option.splits)

lemma live_entries_mem: "kv_inv kv \<Longrightarrow> (k, e) \<in> set (live_entries now kv) \<longleftrightarrow> kv_Get now kv k = Some e"
  by (metis live_entries_wf map_of_iff_mem map_of_live_entries)

lemma kv_Keys_spec:
  assumes "kv_inv kv"
  shows "distinct (kv_Keys now kv pattern)"
    and "set (kv_Keys now kv pattern) = {k. kv_Exists now kv k \<and> matchGlob pattern k}"
proof -
  have "wf_map (filter (\<lambda>(k, e). \<not> isExpired now e \<and> matchGlob pattern k) (kv_entries kv))"
    by (intro wf_map_filter kv_entries_wf assms)
  then show "distinct (kv_Keys now kv pattern)" by (simp add: kv_Keys_def wf_map_def)
  show "set (kv_Keys now kv pattern) = {k. kv_Exists now kv k \<and> matchGlob pattern k}"
  proof (rule set_eqI)
    fix k
    have "k \<in> set (kv_Keys now kv pattern) \<longleftrightarrow>
      (\<exists>e. (k, e) \<in> set (kv_entries kv) \<and> \<not> isExpired now e \<and> matchGlob pattern k)"
      by (force simp: kv_Keys_def)
    also have "\<dots> \<longleftrightarrow> kv_Exists now kv k \<and> matchGlob pattern k"
      by (auto simp: kv_entries_mem [OF assms] kv_Exists_def kv_Get_Some_iff)
    finally show "k \<in> set (kv_Keys now kv pattern) \<longleftrightarrow> k \<in> {k. kv_Exists now kv k \<and> matchGlob pattern k}"
      by simp
  qed
qed

lemma kv_DBSize_card:
  assumes "kv_inv kv"
  shows "kv_DBSize now kv = int (card {k. kv_Exists now kv k})"
proof -
  have "{k. kv_Exists now kv k} = fst ` set (live_entries now kv)"
    using live_entries_mem [OF assms] by (force simp: kv_Exists_def)
  moreover have "card (fst ` set (live_entries now kv)) = length (live_entries now kv)"
    using live_entries_wf [OF assms, of now] by (metis wf_map_def distinct_card length_map list.set_map)
  ultimately show ?thesis by (simp add: kv_DBSize_def)
qed

subsection \<open>Counting by type\<close>

lemma sum_update:
  "wf_map m \<Longrightarrow> sum_list (map snd (AList.update k v m))
     = sum_list (map snd m) + (v :: int) - (case map_of m k of None \<Rightarrow> 0 | Some w \<Rightarrow> w)"
proof (induction m)
  case Nil
  then show ?case by simp
next
  case (Cons p m)
  obtain a b where p: "p = (a, b)" by (cases p)
  then show ?case using Cons by (auto simp: wf_map_def)
qed

lemma count_type_fold:
  "wf_map stats \<Longrightarrow> wf_map (foldl count_type stats xs)
     \<and> sum_list (map snd (foldl count_type stats xs)) = sum_list (map snd stats) + int (length xs)"
proof (induction xs arbitrary: stats)
  case Nil
  then show ?case by simp
next
  case (Cons x xs)
  have "wf_map (count_type stats x)" using Cons.prems by (simp add: count_type_def case_prod_unfold Let_def)
  moreover have "sum_list (map snd (count_type stats x)) = sum_list (map snd stats) + 1"
    using Cons.prems by (simp add: count_type_def case_prod_unfold Let_def sum_update split: option.splits)
  ultimately show ?case using Cons.IH by simp
qed

lemma kv_KeyCount_eq: "kv_KeyCount now kv = kv_DBSize now kv"
  using count_type_fold [of "[]" "live_entries now kv"]
  by (simp add: kv_KeyCount_def kv_KeyspaceStats_def kv_DBSize_def)

lemma count_type_step:
  "map_of (count_type stats x) t =
     (if type_name (e_type (snd x)) = t
      then Some ((case map_of stats t of None \<Rightarrow> 0 | Some w \<Rightarrow> w) + 1) else map_of stats t)"
  by (simp add: count_type_def case_prod_unfold Let_def)

lemma count_type_lookup:
  "map_of (foldl count_type stats xs) t =
     (let n = length (filter (\<lambda>(k, e). type_name (e_type e) = t) xs)
      in if n = 0 then map_of stats t
         else Some ((case map_of stats t of None \<Rightarrow> 0 | Some w \<Rightarrow> w) + int n))"
proof (induction xs arbitrary: stats)
  case Nil
  then show ?case by simp
next
  case (Cons x xs)
  have "map_of (foldl count_type stats (x # xs)) t = map_of (foldl count_type (count_type stats x) xs) t"
    by simp
  then show ?case unfolding Cons.IH
    by (cases "type_name (e_type (snd x)) = t")
      (simp_all add: count_type_step Let_def case_prod_unfold)
qed

lemma kv_Snapshot_lookup:
  assumes "kv_inv kv"
  shows "map_of (kv_Snapshot now kv) k = kv_Get now kv k"
proof -
  have fold: "map_of (foldl (\<lambda>snap (k, e). AList.update k e snap) m xs) = map_of m ++ map_of (rev xs)"
    for m and xs :: "(string \<times> entry) list"
    by (induction xs arbitrary: m)
      (auto simp: fun_eq_iff map_add_def split: option.splits if_splits)
  have "map_of (rev (live_entries now kv)) = map_of (live_entries now kv)"
  proof
    fix k
    have "wf_map (rev (live_entries now kv))"
      using live_entries_wf [OF assms, of now] by (simp add: wf_map_def rev_map [symmetric])
    then show "map_of (rev (live_entries now kv)) k = map_of (live_entries now kv) k"
      by (metis live_entries_wf [OF assms, of now] map_of_iff_mem set_rev not_Some_eq)
  qed
  then show ?thesis
    by (simp add: kv_Snapshot_def fold map_of_live_entries [OF assms])
qed

lemma kv_ExpiredKeys_spec:
  assumes "kv_inv kv"
  shows "set (kv_ExpiredKeys now kv) = {k. \<exists>e. kv_find kv k = Some e \<and> isExpired now e}"
proof (rule set_eqI)
  fix k
  have "k \<in> set (kv_ExpiredKeys now kv) \<longleftrightarrow> (\<exists>e. (k, e) \<in> set (kv_entries kv) \<and> isExpired now e)"
    by (force simp: kv_ExpiredKeys_def)
  then show "k \<in> set (kv_ExpiredKeys now kv) \<longleftrightarrow> k \<in> {k. \<exists>e. kv_find kv k = Some e \<and> isExpired now e}"
    by (simp add: kv_entries_mem [OF assms])
qed

text \<open>
  C22. Scans see every live key once. \<^verbatim>\<open>DBSIZE\<close> is the number of keys a lookup finds and equals the key count
  summed over types; \<^verbatim>\<open>KEYS\<close> lists, without repetition, exactly the existing keys that match; a snapshot
  maps each key to what a lookup returns.
\<close>

theorem kv_scans:
  assumes "kv_inv kv"
  shows "kv_DBSize now kv = int (card {k. kv_Exists now kv k})
    \<and> kv_KeyCount now kv = kv_DBSize now kv
    \<and> distinct (kv_Keys now kv pattern)
    \<and> set (kv_Keys now kv pattern) = {k. kv_Exists now kv k \<and> matchGlob pattern k}
    \<and> map_of (kv_Snapshot now kv) = kv_Get now kv"
  using kv_DBSize_card [OF assms] kv_KeyCount_eq kv_Keys_spec [OF assms] kv_Snapshot_lookup [OF assms]
  by blast

theorem kv_scans_witness:
  "kv_DBSize 9 (kv_Set 1 (New 3) ''a'' (VBytes None) TypeString 0) = 1"
proof -
  let ?kv = "kv_Set 1 (New 3) ''a'' (VBytes None) TypeString 0"
  have "kv_inv ?kv" by (simp add: kv_Set_inv kv_inv_New)
  moreover have "{k. kv_Exists 9 ?kv k} = {''a''}"
    by (auto simp: kv_Exists_def kv_Get_def kv_Set_find kv_inv_New kv_find_New set_deadline_def
        split: if_splits)
  ultimately show ?thesis using kv_scans [of ?kv 9 "''*''"] by simp
qed

end
