(* ===== verification/Typed.thy ===== *)
theory Typed
  imports KVTrace KVScan
begin

text \<open>
  What the typed stores (\<^verbatim>\<open>hash.go\<close>, \<^verbatim>\<open>list.go\<close>, \<^verbatim>\<open>set.go\<close>, \<^verbatim>\<open>zset.go\<close>, \<^verbatim>\<open>stream.go\<close>, \<^verbatim>\<open>geo.go\<close> of
  \<^verbatim>\<open>src/internal/engine\<close>) share. Each of them has the same \<^verbatim>\<open>getOrCreate\<close> and \<^verbatim>\<open>getReadOnly\<close> up to its
  type tag and Go type; here they are one pair of functions with those as arguments. The locale
  \<open>typed_store\<close> states what a store brings (its type assertion inverts its constructor, its tag
  announces its values) and proves once what every modifying operation then guarantees: the result
  of its body on the current contents, the type error on a key of another type, no panic, no change
  of any other key, and the store invariants.
\<close>

section \<open>Well-typed stores\<close>

definition kv_typed :: "kvstore \<Rightarrow> bool" where
  "kv_typed kv \<longleftrightarrow> (\<forall>(k, e) \<in> set (kv_entries kv). well_typed e)"

lemma kv_typed_find: "kv_inv kv \<Longrightarrow> kv_typed kv \<longleftrightarrow> (\<forall>k e. kv_find kv k = Some e \<longrightarrow> well_typed e)"
  by (auto simp: kv_typed_def kv_entries_mem)

lemma kv_typed_Get: "kv_inv kv \<Longrightarrow> kv_typed kv \<Longrightarrow> kv_Get now kv k = Some e \<Longrightarrow> well_typed e"
  by (auto simp: kv_typed_find kv_Get_Some_iff)

lemma kv_typed_put: "kv_inv kv \<Longrightarrow> kv_typed kv \<Longrightarrow> well_typed e \<Longrightarrow> kv_typed (kv_put kv k e)"
  by (auto simp: kv_typed_find kv_inv_put kv_find_put split: if_splits)

lemma kv_typed_del: "kv_inv kv \<Longrightarrow> kv_typed kv \<Longrightarrow> kv_typed (kv_del kv k)"
  by (auto simp: kv_typed_find kv_inv_del kv_find_del split: if_splits)

lemma kv_typed_New: "kv_typed (New n)"
  by (simp add: kv_typed_find kv_inv_New kv_find_New)

lemma kv_typed_GetForWrite: "kv_inv kv \<Longrightarrow> kv_typed kv \<Longrightarrow> kv_typed (fst (kv_GetForWrite now kv k))"
  by (auto simp: kv_GetForWrite_def kv_typed_del split: option.splits)

lemma kv_typed_Set:
  "kv_inv kv \<Longrightarrow> kv_typed kv \<Longrightarrow> well_typed_value ty v \<Longrightarrow> kv_typed (kv_Set now kv k v ty ttl)"
  by (auto simp: kv_typed_find kv_Set_inv kv_Set_find well_typed_def split: if_splits)

lemma kv_typed_Delete: "kv_inv kv \<Longrightarrow> kv_typed kv \<Longrightarrow> kv_typed (fst (kv_Delete kv ks))"
  by (auto simp: kv_typed_find kv_Delete_inv kv_Delete_find restrict_map_def split: if_splits)

lemma kv_typed_Expire: "kv_inv kv \<Longrightarrow> kv_typed kv \<Longrightarrow> kv_typed (fst (kv_Expire t1 t2 kv k n))"
proof (cases "kv_Get t1 kv k")
  case (Some e)
  assume i: "kv_inv kv" "kv_typed kv"
  then have "well_typed e" using Some by (auto intro: kv_typed_Get)
  with i show ?thesis unfolding kv_typed_find [OF kv_Expire_inv [OF i(1)]] kv_Expire_find [OF i(1) Some]
    by (auto simp: kv_typed_find well_typed_def split: if_splits)
qed (simp add: kv_Expire_absent)

lemma kv_typed_Persist: "kv_inv kv \<Longrightarrow> kv_typed kv \<Longrightarrow> kv_typed (fst (kv_Persist now kv k))"
  by (auto simp: kv_Persist_def kv_typed_put kv_typed_find well_typed_def split: option.splits)

lemma kv_typed_FlushAll: "kv_inv kv \<Longrightarrow> kv_typed (kv_FlushAll kv)"
  by (simp add: kv_typed_find kv_FlushAll_inv kv_FlushAll_find)

lemma well_typed_close: "well_typed e \<Longrightarrow> well_typed_value (e_type e) (e_value (closeVectorEntry e))"
  by (auto simp: well_typed_def closeVectorEntry_def split: gvalue.splits)

lemma kv_typed_Rename:
  assumes "kv_inv kv" and "kv_typed kv"
  shows "kv_typed (fst (kv_Rename t1 t2 t3 kv a b))"
proof (cases "kv_Get t1 kv a")
  case None
  with assms show ?thesis by (simp add: kv_Rename_def)
next
  case (Some e)
  with assms have "well_typed e" by (auto intro: kv_typed_Get)
  then have "well_typed_value (e_type e) (e_value (closeVectorEntry e))" by (rule well_typed_close)
  with Some assms show ?thesis
    by (simp add: kv_Rename_def Let_def kv_typed_Set kv_typed_Delete kv_Delete_inv del: kv_Delete.simps)
qed

section \<open>Access to a typed value\<close>

definition getOrCreate ::
  "dataType \<Rightarrow> ('a \<Rightarrow> gvalue) \<Rightarrow> (gvalue \<Rightarrow> 'a option) \<Rightarrow> 'a \<Rightarrow> int \<Rightarrow> kvstore \<Rightarrow> string \<Rightarrow> kvstore \<times> 'a res"
  where
  "getOrCreate ty wrap proj fresh now kv key =
     (case kv_GetForWrite now kv key of
        (kv1, None) \<Rightarrow> (kv_put kv1 key (mkEntry (wrap fresh) ty), Ok fresh)
      | (kv1, Some e) \<Rightarrow>
          if e_type e \<noteq> ty then (kv1, Err ErrWrongType)
          else (kv1, case proj (e_value e) of Some x \<Rightarrow> Ok x | None \<Rightarrow> Panic))"

definition getReadOnly ::
  "dataType \<Rightarrow> (gvalue \<Rightarrow> 'a option) \<Rightarrow> int \<Rightarrow> kvstore \<Rightarrow> string \<Rightarrow> 'a option res" where
  "getReadOnly ty proj now kv key =
     (case kv_GetForRead now kv key of
        None \<Rightarrow> Ok None
      | Some e \<Rightarrow>
          if e_type e \<noteq> ty then Err ErrWrongType
          else case proj (e_value e) of Some x \<Rightarrow> Ok (Some x) | None \<Rightarrow> Panic)"

text \<open>Writing through the pointer an entry holds.\<close>

definition kv_poke :: "kvstore \<Rightarrow> string \<Rightarrow> gvalue \<Rightarrow> kvstore" where
  "kv_poke kv key v =
     (case kv_find kv key of None \<Rightarrow> kv | Some e \<Rightarrow> kv_put kv key (e\<lparr>e_value := v\<rparr>))"

text \<open>A modifying operation: get or create the value, run its body, the changed value stays in the
  entry.\<close>

definition modify ::
  "dataType \<Rightarrow> ('a \<Rightarrow> gvalue) \<Rightarrow> (gvalue \<Rightarrow> 'a option) \<Rightarrow> 'a \<Rightarrow> int \<Rightarrow> kvstore \<Rightarrow> string
     \<Rightarrow> ('a \<Rightarrow> 'a \<times> 'r res) \<Rightarrow> kvstore \<times> 'r res" where
  "modify ty wrap proj fresh now kv key body =
     (case getOrCreate ty wrap proj fresh now kv key of
        (kv1, Ok x) \<Rightarrow> (case body x of (x', r) \<Rightarrow> (kv_poke kv1 key (wrap x'), r))
      | (kv1, Err e) \<Rightarrow> (kv1, Err e)
      | (kv1, Panic) \<Rightarrow> (kv1, Panic))"

text \<open>What a key holds for a store: its contents, the fresh value when the key does not exist, \<open>None\<close>
  when it holds something else.\<close>

definition content ::
  "dataType \<Rightarrow> (gvalue \<Rightarrow> 'a option) \<Rightarrow> 'a \<Rightarrow> int \<Rightarrow> kvstore \<Rightarrow> string \<Rightarrow> 'a option" where
  "content ty proj fresh now kv key =
     (case kv_Get now kv key of
        None \<Rightarrow> Some fresh
      | Some e \<Rightarrow> if e_type e = ty then proj (e_value e) else None)"

definition store_inv :: "kvstore \<Rightarrow> bool" where
  "store_inv kv \<longleftrightarrow> kv_inv kv \<and> kv_typed kv \<and> kv_deadlines kv"

lemma store_inv_New: "store_inv (New n)"
  by (simp add: store_inv_def kv_inv_New kv_typed_New kv_deadlines_New)

lemma store_inv_GetForWrite: "store_inv kv \<Longrightarrow> store_inv (fst (kv_GetForWrite now kv k))"
  by (simp add: store_inv_def kv_GetForWrite_spec kv_typed_GetForWrite kv_deadlines_GetForWrite)

lemma store_inv_put: "store_inv kv \<Longrightarrow> well_typed e \<Longrightarrow> store_inv (kv_put kv k e)"
  by (simp add: store_inv_def kv_inv_put kv_typed_put kv_deadlines_put)

lemma store_inv_poke:
  "store_inv kv \<Longrightarrow> kv_find kv k = Some e \<Longrightarrow> well_typed_value (e_type e) v \<Longrightarrow> store_inv (kv_poke kv k v)"
  by (auto simp: kv_poke_def well_typed_def intro!: store_inv_put)

lemma kv_covered_poke: "kv_inv kv \<Longrightarrow> kv_covered kv \<Longrightarrow> kv_covered (kv_poke kv k v)"
  by (auto simp: kv_poke_def intro!: kv_covered_put split: option.splits)

lemma kv_covered_getOrCreate:
  "kv_inv kv \<Longrightarrow> kv_covered kv \<Longrightarrow> kv_covered (fst (getOrCreate ty wrap proj fresh now kv key))
     \<and> kv_inv (fst (getOrCreate ty wrap proj fresh now kv key))"
  using kv_covered_GetForWrite [of kv now key] kv_GetForWrite_spec(1) [of kv now key]
  by (auto simp: getOrCreate_def kv_inv_put intro!: kv_covered_put split: prod.splits option.splits)

text \<open>The typed stores never touch a deadline or a version, so the reaper keeps finding every entry.\<close>

lemma kv_covered_modify:
  "kv_inv kv \<Longrightarrow> kv_covered kv \<Longrightarrow> kv_covered (fst (modify ty wrap proj fresh now kv key body))"
  using kv_covered_getOrCreate [of kv ty wrap proj fresh now key]
  by (auto simp: modify_def intro!: kv_covered_poke split: prod.splits res.splits)

lemma kv_find_poke:
  "kv_inv kv \<Longrightarrow> kv_find (kv_poke kv k v) x =
     (if x = k then map_option (\<lambda>e. e\<lparr>e_value := v\<rparr>) (kv_find kv k) else kv_find kv x)"
  by (auto simp: kv_poke_def kv_find_put split: option.splits)

locale typed_store =
  fixes ty :: dataType
    and wrap :: "'a \<Rightarrow> gvalue"
    and proj :: "gvalue \<Rightarrow> 'a option"
    and fresh :: 'a
    and wf :: "'a \<Rightarrow> bool"
  assumes proj_wrap: "proj (wrap x) = Some x"
    and tag: "well_typed_value ty v \<longleftrightarrow> shape proj wf v"
    and wf_fresh: "wf fresh"
begin

lemma typed_wrap: "wf x \<Longrightarrow> well_typed_value ty (wrap x)"
  by (simp add: tag proj_wrap shape_def)

text \<open>A key of another type: the type error, and nothing changes.\<close>

lemma modify_wrong_type:
  assumes "kv_Get now kv key = Some e" and "e_type e \<noteq> ty"
  shows "modify ty wrap proj fresh now kv key body = (kv, Err ErrWrongType)"
  using assms
  by (auto simp: modify_def getOrCreate_def kv_GetForWrite_def kv_Get_Some_iff)

lemma typed_Get:
  assumes "store_inv kv" and "kv_Get now kv key = Some e" and "e_type e = ty"
  shows "\<exists>x. proj (e_value e) = Some x \<and> wf x"
proof -
  have "well_typed e" using assms kv_typed_Get by (auto simp: store_inv_def)
  with assms(3) have "well_typed_value ty (e_value e)" by (simp add: well_typed_def)
  then show ?thesis by (auto simp: tag shape_def split: option.splits)
qed

lemma content_wf: "store_inv kv \<Longrightarrow> content ty proj fresh now kv key = Some x \<Longrightarrow> wf x"
  using typed_Get [of kv now key] wf_fresh by (auto simp: content_def split: option.splits if_splits)

lemma content_None_iff:
  assumes "store_inv kv"
  shows "content ty proj fresh now kv key = None
    \<longleftrightarrow> (\<exists>e. kv_Get now kv key = Some e \<and> e_type e \<noteq> ty)"
  using typed_Get [OF assms, of now key] by (auto simp: content_def split: option.splits)

lemma getOrCreate_ok:
  assumes inv: "store_inv kv" and c: "content ty proj fresh now kv key = Some x"
  obtains e kv1 where "getOrCreate ty wrap proj fresh now kv key = (kv1, Ok x)"
    and "kv_find kv1 key = Some e" and "e_type e = ty" and "\<not> isExpired now e"
    and "store_inv kv1" and "\<And>k. k \<noteq> key \<Longrightarrow> kv_find kv1 k = kv_find kv k"
    and "kv_version kv1 = kv_version kv"
    and "e_expires e = (case kv_Get now kv key of None \<Rightarrow> 0 | Some e0 \<Rightarrow> e_expires e0)"
proof -
  have i: "kv_inv kv" using inv by (simp add: store_inv_def)
  note w = kv_GetForWrite_spec [OF i]
  let ?kv0 = "fst (kv_GetForWrite now kv key)"
  have inv0: "store_inv ?kv0" using inv by (rule store_inv_GetForWrite)
  show thesis
  proof (cases "kv_Get now kv key")
    case None
    let ?kv1 = "kv_put ?kv0 key (mkEntry (wrap fresh) ty)"
    have "getOrCreate ty wrap proj fresh now kv key = (?kv1, Ok x)"
      using None c w(2) [of now key]
      by (auto simp: getOrCreate_def content_def case_prod_unfold)
    moreover have "store_inv ?kv1"
      using inv0 typed_wrap [OF wf_fresh] by (intro store_inv_put) (auto simp: well_typed_def)
    ultimately show thesis
      using that [of ?kv1 "mkEntry (wrap fresh) ty"] None w(1,5,6) by (simp add: kv_find_put)
  next
    case (Some e)
    with c have e: "e_type e = ty" "proj (e_value e) = Some x"
      by (auto simp: content_def split: if_splits)
    have "getOrCreate ty wrap proj fresh now kv key = (?kv0, Ok x)"
      using Some e w(2) [of now key] by (auto simp: getOrCreate_def case_prod_unfold)
    moreover have "\<not> isExpired now e" using Some by (simp add: kv_Get_Some_iff)
    ultimately show thesis
      using that [of ?kv0 e] inv0 Some e w(4,5,6) by simp
  qed
qed

text \<open>The contract of a modifying operation on contents \<open>x\<close>.\<close>

lemma modify_ok:
  assumes inv: "store_inv kv" and c: "content ty proj fresh now kv key = Some x"
    and body: "body x = (x', r)" and wf: "wf x'"
  shows "snd (modify ty wrap proj fresh now kv key body) = r"
    and "content ty proj fresh now (fst (modify ty wrap proj fresh now kv key body)) key = Some x'"
    and "store_inv (fst (modify ty wrap proj fresh now kv key body))"
    and "k \<noteq> key \<Longrightarrow> kv_find (fst (modify ty wrap proj fresh now kv key body)) k = kv_find kv k"
    and "kv_Type now (fst (modify ty wrap proj fresh now kv key body)) key = ty"
    and "\<exists>e. kv_Get now (fst (modify ty wrap proj fresh now kv key body)) key = Some e
      \<and> e_value e = wrap x' \<and> e_type e = ty
      \<and> e_expires e = (case kv_Get now kv key of None \<Rightarrow> 0 | Some e0 \<Rightarrow> e_expires e0)"
proof -
  obtain e kv1 where g: "getOrCreate ty wrap proj fresh now kv key = (kv1, Ok x)"
    and f: "kv_find kv1 key = Some e" and ty: "e_type e = ty" and live: "\<not> isExpired now e"
    and i1: "store_inv kv1" and frame: "\<And>k. k \<noteq> key \<Longrightarrow> kv_find kv1 k = kv_find kv k"
    and ex: "e_expires e = (case kv_Get now kv key of None \<Rightarrow> 0 | Some e0 \<Rightarrow> e_expires e0)"
    using getOrCreate_ok [OF inv c] by metis
  have m: "modify ty wrap proj fresh now kv key body = (kv_poke kv1 key (wrap x'), r)"
    by (simp add: modify_def g body)
  have k1: "kv_inv kv1" using i1 by (simp add: store_inv_def)
  have get: "kv_Get now (kv_poke kv1 key (wrap x')) key = Some (e\<lparr>e_value := wrap x'\<rparr>)"
    using f live by (simp add: kv_Get_def kv_find_poke [OF k1])
  show "snd (modify ty wrap proj fresh now kv key body) = r" by (simp add: m)
  show "content ty proj fresh now (fst (modify ty wrap proj fresh now kv key body)) key = Some x'"
    by (simp add: m content_def get ty proj_wrap)
  show "store_inv (fst (modify ty wrap proj fresh now kv key body))"
    unfolding m using i1 f ty typed_wrap [OF wf] by (auto intro: store_inv_poke)
  show "k \<noteq> key \<Longrightarrow> kv_find (fst (modify ty wrap proj fresh now kv key body)) k = kv_find kv k"
    by (simp add: m kv_find_poke [OF k1] frame)
  show "kv_Type now (fst (modify ty wrap proj fresh now kv key body)) key = ty"
    by (simp add: m kv_Type_def get ty)
  show "\<exists>e. kv_Get now (fst (modify ty wrap proj fresh now kv key body)) key = Some e
      \<and> e_value e = wrap x' \<and> e_type e = ty
      \<and> e_expires e = (case kv_Get now kv key of None \<Rightarrow> 0 | Some e0 \<Rightarrow> e_expires e0)"
    using get ty ex by (simp add: m)
qed

lemma modify_run:
  assumes "store_inv kv" and "content ty proj fresh now kv key = Some x" and "wf (fst (body x))"
  shows "snd (modify ty wrap proj fresh now kv key body) = snd (body x)"
    and "content ty proj fresh now (fst (modify ty wrap proj fresh now kv key body)) key = Some (fst (body x))"
    and "store_inv (fst (modify ty wrap proj fresh now kv key body))"
    and "k \<noteq> key \<Longrightarrow> kv_find (fst (modify ty wrap proj fresh now kv key body)) k = kv_find kv k"
    and "kv_Type now (fst (modify ty wrap proj fresh now kv key body)) key = ty"
  using modify_ok [of kv now key x body "fst (body x)" "snd (body x)"] assms by simp_all

text \<open>Every modifying operation keeps the store invariants and leaves other keys alone, whatever the
  key holds.\<close>

lemma modify_safe:
  assumes "store_inv kv" and wf: "\<And>x. wf x \<Longrightarrow> wf (fst (body x))"
  shows "store_inv (fst (modify ty wrap proj fresh now kv key body))"
    and "k \<noteq> key \<Longrightarrow> kv_find (fst (modify ty wrap proj fresh now kv key body)) k = kv_find kv k"
    and "(\<And>x. wf x \<Longrightarrow> snd (body x) \<noteq> Panic) \<Longrightarrow> snd (modify ty wrap proj fresh now kv key body) \<noteq> Panic"
proof -
  have *: "store_inv (fst (modify ty wrap proj fresh now kv key body))
    \<and> (k \<noteq> key \<longrightarrow> kv_find (fst (modify ty wrap proj fresh now kv key body)) k = kv_find kv k)
    \<and> ((\<forall>x. wf x \<longrightarrow> snd (body x) \<noteq> Panic) \<longrightarrow> snd (modify ty wrap proj fresh now kv key body) \<noteq> Panic)"
  proof (cases "content ty proj fresh now kv key")
    case None
    then obtain e where "kv_Get now kv key = Some e" "e_type e \<noteq> ty"
      using content_None_iff [OF assms(1)] by blast
    then have "modify ty wrap proj fresh now kv key body = (kv, Err ErrWrongType)"
      by (rule modify_wrong_type)
    then show ?thesis using assms by simp
  next
    case (Some x)
    then have x: "wf x" by (rule content_wf [OF assms(1)])
    obtain x' r where b: "body x = (x', r)" by (cases "body x")
    have x': "wf x'" using wf [OF x] b by simp
    have "(\<forall>x. wf x \<longrightarrow> snd (body x) \<noteq> Panic) \<Longrightarrow> r \<noteq> Panic" using x b by (metis snd_conv)
    with modify_ok [of kv now key x body x' r, OF assms(1) Some b x'] show ?thesis by simp
  qed
  then show "store_inv (fst (modify ty wrap proj fresh now kv key body))"
    and "k \<noteq> key \<Longrightarrow> kv_find (fst (modify ty wrap proj fresh now kv key body)) k = kv_find kv k"
    and "(\<And>x. wf x \<Longrightarrow> snd (body x) \<noteq> Panic) \<Longrightarrow> snd (modify ty wrap proj fresh now kv key body) \<noteq> Panic"
    by blast+
qed

text \<open>Reading agrees with the contents and never panics.\<close>

lemma getReadOnly_content:
  assumes "store_inv kv"
  shows "getReadOnly ty proj now kv key =
    (case content ty proj fresh now kv key of
       None \<Rightarrow> Err ErrWrongType
     | Some x \<Rightarrow> Ok (if kv_Exists now kv key then Some x else None))"
  using typed_Get [OF assms, of now key]
  by (auto simp: getReadOnly_def kv_GetForRead_eq content_def kv_Exists_def split: option.splits)

end

lemmas store_laws = shape_def wf_zset_def wf_stream_def wf_geo_def

interpretation hash_store: typed_store TypeHash VHash as_hash "[]" wf_map
  by unfold_locales simp_all

interpretation list_store: typed_store TypeList VList as_list "\<lparr>l_items = []\<rparr>" "\<lambda>_. True"
  by unfold_locales simp_all

interpretation set_store: typed_store TypeSet VSet as_set "[]" wf_map
  by unfold_locales simp_all

interpretation zset_store: typed_store TypeZSet VZSet as_zset "\<lparr>z_scores = [], z_sorted = []\<rparr>" wf_zset
  by unfold_locales (simp_all add: store_laws)

interpretation stream_store: typed_store TypeStream VStream as_stream
  "\<lparr>s_entries = [], s_lastID = [], s_groups = []\<rparr>" wf_stream
  by unfold_locales (simp_all add: store_laws)

interpretation geo_store: typed_store TypeGeo VGeo as_geo "\<lparr>geo_points = [], geo_sorted = []\<rparr>" wf_geo
  by unfold_locales (simp_all add: store_laws)

end
