(* ===== verification/StringStore.thy ===== *)
theory StringStore
  imports Typed
begin

text \<open>
  The string operations of \<^verbatim>\<open>src/internal/engine/string.go\<close> over the key-value store, and the argument
  parser of the \<^verbatim>\<open>SET\<close> command. A failed type assertion is \<open>Panic\<close>; on a well-typed store it never
  happens.
\<close>

section \<open>Operations\<close>

definition Str_Get :: "int \<Rightarrow> kvstore \<Rightarrow> string \<Rightarrow> slice res" where
  "Str_Get now kv key =
     (case kv_Get now kv key of
        None \<Rightarrow> Ok None
      | Some e \<Rightarrow>
          if e_type e \<noteq> TypeString then Err ErrWrongType
          else case as_bytes (e_value e) of Some b \<Rightarrow> Ok b | None \<Rightarrow> Panic)"

definition Str_Set ::
  "int \<Rightarrow> kvstore \<Rightarrow> string \<Rightarrow> slice \<Rightarrow> int \<Rightarrow> bool \<Rightarrow> bool \<Rightarrow> kvstore \<times> bool" where
  "Str_Set now kv key value ttlSeconds nx xx =
     (if nx \<and> kv_Exists now kv key then (kv, False)
      else if xx \<and> \<not> kv_Exists now kv key then (kv, False)
      else (kv_Set now kv key (VBytes value) TypeString (i64 (ttlSeconds * 1000000000)), True))"

definition Str_GetSet :: "int \<Rightarrow> kvstore \<Rightarrow> string \<Rightarrow> slice \<Rightarrow> kvstore \<times> slice res" where
  "Str_GetSet now kv key value =
     (case Str_Get now kv key of
        Ok old \<Rightarrow> (kv_Set now kv key (VBytes value) TypeString 0, Ok old)
      | Err e \<Rightarrow> (kv, Err e)
      | Panic \<Rightarrow> (kv, Panic))"

definition Str_Incr :: "int \<Rightarrow> kvstore \<Rightarrow> string \<Rightarrow> int \<Rightarrow> kvstore \<times> int res" where
  "Str_Incr now kv key delta =
     (case kv_GetForWrite now kv key of
        (kv1, Some e) \<Rightarrow>
          if e_type e \<noteq> TypeString then (kv1, Err ErrWrongType)
          else (case as_bytes (e_value e) of
                  None \<Rightarrow> (kv1, Panic)
                | Some b \<Rightarrow>
                    (case ParseInt (sl b) of
                       (v, Some _) \<Rightarrow> (kv1, Err ErrOutOfRange)
                     | (v, None) \<Rightarrow>
                         let n = i64 (v + delta); (ver, kv2) = nextVersion kv1
                         in (kv_put kv2 key (e\<lparr>e_value := VBytes (Some (FormatInt n)),
                               e_version := ver\<rparr>), Ok n)))
      | (kv1, None) \<Rightarrow>
          let n = delta; (ver, kv2) = nextVersion kv1
          in (kv_put kv2 key ((mkEntry (VBytes (Some (FormatInt n))) TypeString)\<lparr>e_version := ver\<rparr>),
              Ok n))"

text \<open>Go's \<^verbatim>\<open>append(existing, value...)\<close>: appending nothing to nil leaves nil.\<close>

definition go_append :: "slice \<Rightarrow> slice \<Rightarrow> slice" where
  "go_append s v = (if s = None \<and> sl v = [] then None else Some (sl s @ sl v))"

definition Str_Append :: "int \<Rightarrow> kvstore \<Rightarrow> string \<Rightarrow> slice \<Rightarrow> kvstore \<times> int res" where
  "Str_Append now kv key value =
     (case kv_GetForWrite now kv key of
        (kv1, Some e) \<Rightarrow>
          if e_type e \<noteq> TypeString then (kv1, Err ErrWrongType)
          else (case as_bytes (e_value e) of
                  None \<Rightarrow> (kv1, Panic)
                | Some b \<Rightarrow>
                    let newVal = go_append b value
                    in (kv_put kv1 key (e\<lparr>e_value := VBytes newVal\<rparr>), Ok (int (length (sl newVal)))))
      | (kv1, None) \<Rightarrow>
          (kv_put kv1 key (mkEntry (VBytes value) TypeString), Ok (int (length (sl value)))))"

definition Str_Strlen :: "int \<Rightarrow> kvstore \<Rightarrow> string \<Rightarrow> int res" where
  "Str_Strlen now kv key = bind_res (Str_Get now kv key) (\<lambda>v. Ok (int (length (sl v))))"

text \<open>The index arithmetic \<^verbatim>\<open>GETRANGE\<close>, \<^verbatim>\<open>LRANGE\<close>, \<^verbatim>\<open>LTRIM\<close> and \<^verbatim>\<open>ZRANGE\<close> share: negative positions
  count from the end, then both ends are clamped.\<close>

definition norm_start :: "int \<Rightarrow> int \<Rightarrow> int" where
  "norm_start l start = (let s = (if start < 0 then l + start else start) in if s < 0 then 0 else s)"

definition norm_end :: "int \<Rightarrow> int \<Rightarrow> int" where
  "norm_end l e = (let e1 = (if e < 0 then l + e else e) in if e1 \<ge> l then l - 1 else e1)"

definition range_of :: "'a list \<Rightarrow> int \<Rightarrow> int \<Rightarrow> 'a list" where
  "range_of xs start stop =
     (let s = norm_start (int (length xs)) start; e = norm_end (int (length xs)) stop
      in if s > e then [] else subslice xs (nat s) (nat (e + 1)))"

definition Str_GetRange :: "int \<Rightarrow> kvstore \<Rightarrow> string \<Rightarrow> int \<Rightarrow> int \<Rightarrow> slice res" where
  "Str_GetRange now kv key start stop =
     (case Str_Get now kv key of
        Err e \<Rightarrow> Err e
      | Panic \<Rightarrow> Panic
      | Ok None \<Rightarrow> Ok (Some [])
      | Ok (Some v) \<Rightarrow>
          let s = norm_start (int (length v)) start; e = norm_end (int (length v)) stop
          in if s > e then Ok (Some [])
             else Ok (Some (subslice v (nat s) (nat (e + 1)))))"

text \<open>\<^verbatim>\<open>SetRange\<close>: grow with zero bytes up to the end of the write, then copy. A slice expression
  \<^verbatim>\<open>current[offset:]\<close> outside the buffer panics.\<close>

definition set_range :: "bytes \<Rightarrow> int \<Rightarrow> bytes \<Rightarrow> bytes option" where
  "set_range current offset value =
     (let stop = i64 (offset + int (length value));
          cur = (if stop > int (length current)
                 then current @ replicate (nat stop - length current) (char_of (0 :: nat)) else current)
      in if 0 \<le> offset \<and> offset \<le> int (length cur)
         then Some (take (nat offset) cur @ take (length cur - nat offset) value
                      @ drop (nat offset + length value) cur)
         else None)"

definition Str_SetRange :: "int \<Rightarrow> kvstore \<Rightarrow> string \<Rightarrow> int \<Rightarrow> bytes \<Rightarrow> kvstore \<times> int res" where
  "Str_SetRange now kv key offset value =
     (case kv_GetForWrite now kv key of
        (kv1, Some e) \<Rightarrow>
          if e_type e \<noteq> TypeString then (kv1, Err ErrWrongType)
          else (case as_bytes (e_value e) of
                  None \<Rightarrow> (kv1, Panic)
                | Some b \<Rightarrow>
                    (case set_range (sl b) offset value of
                       None \<Rightarrow> (kv1, Panic)
                     | Some cur \<Rightarrow>
                         (kv_put kv1 key (e\<lparr>e_value := VBytes (if b = None then nil_append cur else Some cur)\<rparr>),
                          Ok (int (length cur)))))
      | (kv1, None) \<Rightarrow>
          (case set_range [] offset value of
             None \<Rightarrow> (kv1, Panic)
           | Some cur \<Rightarrow>
               (kv_put kv1 key (mkEntry (VBytes (nil_append cur)) TypeString),
                Ok (int (length cur)))))"

definition Str_MGet :: "int \<Rightarrow> kvstore \<Rightarrow> string list \<Rightarrow> slice list" where
  "Str_MGet now kv keys =
     map (\<lambda>key. case Str_Get now kv key of Ok v \<Rightarrow> v | _ \<Rightarrow> None) keys"

definition Str_MSet :: "int \<Rightarrow> kvstore \<Rightarrow> (string, slice) gomap \<Rightarrow> kvstore" where
  "Str_MSet now kv pairs =
     foldl (\<lambda>kv (k, v). kv_Set now kv k (VBytes v) TypeString 0) kv pairs"

text \<open>The option loop of \<^verbatim>\<open>ParseSetArgs\<close>; \<^verbatim>\<open>PX\<close> is divided down to whole seconds.\<close>

fun parse_set_opts :: "bytes list \<Rightarrow> int \<Rightarrow> bool \<Rightarrow> bool \<Rightarrow> (int \<times> bool \<times> bool) res" where
  "parse_set_opts [] ttlSec nx xx = Ok (ttlSec, nx, xx)"
| "parse_set_opts (a # rest) ttlSec nx xx =
     (if ToUpper a = ''EX'' then
        (case rest of
           [] \<Rightarrow> Err ErrSyntax
         | b # rest' \<Rightarrow>
             (case ParseInt b of
                (n, None) \<Rightarrow> if n \<le> 0 then Err ErrOutOfRange else parse_set_opts rest' n nx xx
              | (n, Some _) \<Rightarrow> Err ErrOutOfRange))
      else if ToUpper a = ''PX'' then
        (case rest of
           [] \<Rightarrow> Err ErrSyntax
         | b # rest' \<Rightarrow>
             (case ParseInt b of
                (n, None) \<Rightarrow>
                  if n \<le> 0 then Err ErrOutOfRange else parse_set_opts rest' (go_div n 1000) nx xx
              | (n, Some _) \<Rightarrow> Err ErrOutOfRange))
      else if ToUpper a = ''NX'' then parse_set_opts rest ttlSec True xx
      else if ToUpper a = ''XX'' then parse_set_opts rest ttlSec nx True
      else Err ErrSyntax)"

definition ParseSetArgs :: "slice list \<Rightarrow> (slice \<times> int \<times> bool \<times> bool) res" where
  "ParseSetArgs args =
     (case args of
        [] \<Rightarrow> Err (ErrMsg ''missing value'')
      | value # opts \<Rightarrow>
          bind_res (parse_set_opts (map sl opts) 0 False False) (\<lambda>(ttl, nx, xx). Ok (value, ttl, nx, xx)))"

section \<open>Ranges\<close>

lemma range_of_subslice:
  assumes "norm_start (int (length xs)) a \<le> norm_end (int (length xs)) b"
  shows "0 \<le> norm_start (int (length xs)) a" "norm_end (int (length xs)) b < int (length xs)"
    "nat (norm_start (int (length xs)) a) \<le> nat (norm_end (int (length xs)) b + 1)"
    "nat (norm_end (int (length xs)) b + 1) \<le> length xs"
  using assms by (auto simp: norm_start_def norm_end_def Let_def split: if_splits)

text \<open>A position is selected exactly when it lies between the two normalized ends.\<close>

lemma length_range_of:
  "int (length (range_of xs a b)) =
     max 0 (norm_end (int (length xs)) b - norm_start (int (length xs)) a + 1)"
proof (cases "norm_start (int (length xs)) a > norm_end (int (length xs)) b")
  case True
  then show ?thesis by (simp add: range_of_def Let_def)
next
  case False
  with range_of_subslice [of xs a b] show ?thesis by (simp add: range_of_def Let_def nat_diff_distrib)
qed

lemma nth_range_of:
  assumes "i < length (range_of xs a b)"
  shows "range_of xs a b ! i = xs ! (nat (norm_start (int (length xs)) a) + i)"
proof (cases "norm_start (int (length xs)) a > norm_end (int (length xs)) b")
  case True
  with assms show ?thesis by (simp add: range_of_def Let_def)
next
  case False
  with assms range_of_subslice [of xs a b] show ?thesis
    by (simp add: range_of_def Let_def nth_subslice)
qed

lemma range_of_all [simp]: "range_of xs 0 (-1) = xs"
  by (cases xs) (simp_all add: range_of_def norm_start_def norm_end_def Let_def subslice_def)

lemma Str_GetRange_range_of:
  "Str_GetRange now kv key a b = bind_res (Str_Get now kv key) (\<lambda>v. Ok (Some (range_of (sl v) a b)))"
  by (auto simp: Str_GetRange_def range_of_def Let_def norm_start_def norm_end_def
      split: res.splits option.splits)

section \<open>SetRange\<close>

lemma set_range_ok:
  assumes "0 \<le> offset" and "offset + int (length value) \<le> max_int64"
  shows "set_range current offset value = Some
    (take (nat offset) (current @ replicate (nat offset + length value - length current) (char_of (0::nat)))
     @ value @ drop (nat offset + length value) current)"
proof -
  have i: "i64 (offset + int (length value)) = offset + int (length value)"
    using assms by (intro i64_small) (simp_all add: max_int64_def)
  have n: "nat (offset + int (length value)) = nat offset + length value" using assms(1) by simp
  show ?thesis
  proof (cases "offset + int (length value) > int (length current)")
    case True
    with assms(1) show ?thesis by (simp add: set_range_def i n)
  next
    case False
    with assms(1) have "nat offset + length value \<le> length current" by linarith
    with assms(1) False show ?thesis by (simp add: set_range_def i)
  qed
qed

lemma set_range_negative: "offset < 0 \<Longrightarrow> set_range current offset value = None"
  by (simp add: set_range_def Let_def)

section \<open>What the operations guarantee\<close>

interpretation str_store: typed_store TypeString VBytes as_bytes None "\<lambda>_. True"
  by unfold_locales simp_all

lemma Str_Get_cong: "kv_Get t kv k = kv_Get t' kv' k' \<Longrightarrow> Str_Get t kv k = Str_Get t' kv' k'"
  by (simp add: Str_Get_def)

lemma Str_Get_frame: "kv_find kv k = kv_find kv' k \<Longrightarrow> Str_Get t kv k = Str_Get t kv' k"
  by (rule Str_Get_cong) (rule kv_Get_cong)

lemma shape_bytes [simp]: "shape as_bytes (\<lambda>_. True) (VBytes b)"
  by (simp add: shape_def)

lemma Str_Get_no_panic: "store_inv kv \<Longrightarrow> Str_Get now kv key \<noteq> Panic"
  using str_store.typed_Get [of kv now key] by (auto simp: Str_Get_def split: option.splits)

lemma Str_Get_kv_Set:
  assumes "kv_inv kv"
  shows "Str_Get t (kv_Set now kv key (VBytes v) TypeString ttl) k =
    (if k = key then if set_deadline now ttl \<noteq> 0 \<and> t > set_deadline now ttl then Ok None else Ok v
     else Str_Get t kv k)"
  by (simp add: Str_Get_def kv_Get_def kv_Set_find [OF assms] split: option.splits)

lemma Str_Get_put:
  assumes "kv_inv kv" and "e_type e = TypeString" and "e_value e = VBytes b" and "\<not> isExpired t e"
  shows "Str_Get t (kv_put kv key e) k = (if k = key then Ok b else Str_Get t kv k)"
  using assms by (simp add: Str_Get_def kv_Get_put)

text \<open>
  \<^verbatim>\<open>SET\<close> with its options. Under \<^verbatim>\<open>NX\<close> an existing key, under \<^verbatim>\<open>XX\<close> a missing one, makes it answer false
  and change nothing. Otherwise the value can be read back at every instant up to the deadline (always,
  when there is no TTL) and is gone right after it, and no other key changes.
\<close>

lemma str_set_get:
  assumes "kv_inv kv" and "0 \<le> now" and "0 \<le> ttl" and "now + ttl * 1000000000 \<le> max_int64"
  shows "if nx \<and> kv_Exists now kv key \<or> xx \<and> \<not> kv_Exists now kv key
    then Str_Set now kv key v ttl nx xx = (kv, False)
    else snd (Str_Set now kv key v ttl nx xx)
      \<and> Str_Get t (fst (Str_Set now kv key v ttl nx xx)) key
          = Ok (if ttl = 0 \<or> t \<le> now + ttl * 1000000000 then v else None)
      \<and> (\<forall>k. k \<noteq> key \<longrightarrow> Str_Get t (fst (Str_Set now kv key v ttl nx xx)) k = Str_Get t kv k)"
proof -
  have "i64 (ttl * 1000000000) = ttl * 1000000000"
    using assms(2-4) by (intro i64_small) (simp_all add: max_int64_def)
  moreover have "i64 (now + ttl * 1000000000) = now + ttl * 1000000000"
    using assms(2-4) by (intro i64_small) (simp_all add: max_int64_def)
  ultimately show ?thesis
    using assms by (auto simp: Str_Set_def Str_Get_kv_Set set_deadline_def)
qed

lemma i64_add_left: "i64 (i64 a + b) = i64 (a + b)"
proof -
  have "(i64 a + b + 9223372036854775808) mod 18446744073709551616
      = ((a + 9223372036854775808) mod 18446744073709551616 + b) mod 18446744073709551616"
    by (rule arg_cong [where f = "\<lambda>x. x mod 18446744073709551616"]) (simp add: i64_def)
  also have "\<dots> = (a + 9223372036854775808 + b) mod 18446744073709551616"
    by (rule mod_add_left_eq)
  also have "\<dots> = (a + b + 9223372036854775808) mod 18446744073709551616"
    by (simp only: add.assoc add.commute [of b])
  finally show ?thesis by (simp only: i64_def [of "i64 a + b"] i64_def [of "a + b"])
qed

lemma Str_Incr_live:
  assumes inv: "kv_inv kv" and get: "kv_Get now kv key = Some e" and ty: "e_type e = TypeString"
    and val: "e_value e = VBytes b" and num: "ParseInt (sl b) = (v, None)"
  shows "snd (Str_Incr now kv key d) = Ok (i64 (v + d))"
    and "kv_find (fst (Str_Incr now kv key d)) = (kv_find kv)(key \<mapsto>
      e\<lparr>e_value := VBytes (Some (FormatInt (i64 (v + d)))), e_version := kv_version kv + 1\<rparr>)"
    and "kv_inv (fst (Str_Incr now kv key d))"
  using assms
  by (auto simp: Str_Incr_def kv_GetForWrite_def kv_Get_Some_iff nextVersion_def Let_def kv_find_put
      kv_inv_put)

lemma Str_Incr_absent:
  assumes inv: "kv_inv kv" and get: "kv_Get now kv key = None"
  shows "snd (Str_Incr now kv key d) = Ok d"
    and "kv_Get now (fst (Str_Incr now kv key d)) key = Some ((mkEntry
      (VBytes (Some (FormatInt d))) TypeString)\<lparr>e_version := kv_version kv + 1\<rparr>)"
    and "k \<noteq> key \<Longrightarrow> kv_find (fst (Str_Incr now kv key d)) k = kv_find kv k"
    and "kv_inv (fst (Str_Incr now kv key d))"
  using assms kv_GetForWrite_spec [OF inv, where now = now and k = key]
  by (auto simp: Str_Incr_def case_prod_unfold nextVersion_def Let_def kv_find_put kv_inv_put
      kv_Get_def isExpired_def mkEntry_def split: option.splits)

text \<open>The counter a key holds, when it holds a decimal number.\<close>

definition holds_int :: "int \<Rightarrow> kvstore \<Rightarrow> string \<Rightarrow> int \<Rightarrow> bool" where
  "holds_int now kv key n \<longleftrightarrow> Str_Get now kv key = Ok (Some (FormatInt n))"

lemma holds_intE:
  assumes "holds_int now kv key n" and "in_i64 n"
  obtains e where "kv_Get now kv key = Some e" "e_type e = TypeString"
    "e_value e = VBytes (Some (FormatInt n))" "ParseInt (sl (Some (FormatInt n))) = (n, None)"
proof -
  have "\<exists>e. kv_Get now kv key = Some e \<and> e_type e = TypeString \<and> e_value e = VBytes (Some (FormatInt n))"
    using assms(1) by (auto simp: holds_int_def Str_Get_def split: option.splits if_splits elim!: as_bytes.elims)
  then show thesis using that ParseInt_FormatInt [OF assms(2)] by auto
qed

lemma Str_Incr_holds:
  assumes "kv_inv kv" and "holds_int now kv key n" and "in_i64 n"
  shows "holds_int now (fst (Str_Incr now kv key d)) key (i64 (n + d))"
    and "kv_inv (fst (Str_Incr now kv key d))"
proof -
  obtain e where e: "kv_Get now kv key = Some e" "e_type e = TypeString"
    "e_value e = VBytes (Some (FormatInt n))" "ParseInt (sl (Some (FormatInt n))) = (n, None)"
    using holds_intE [OF assms(2,3)] .
  note f = Str_Incr_live [OF assms(1) e]
  show "holds_int now (fst (Str_Incr now kv key d)) key (i64 (n + d))"
    using e by (simp add: holds_int_def Str_Get_def kv_Get_def f(2) isExpired_def kv_find_def split: option.splits if_splits)
  show "kv_inv (fst (Str_Incr now kv key d))" by (rule f(3))
qed

definition Str_Incrs :: "int \<Rightarrow> kvstore \<Rightarrow> string \<Rightarrow> int list \<Rightarrow> kvstore" where
  "Str_Incrs now kv key ds = foldl (\<lambda>kv d. fst (Str_Incr now kv key d)) kv ds"

lemma Str_Incrs_holds:
  "kv_inv kv \<Longrightarrow> holds_int now kv key n \<Longrightarrow> in_i64 n \<Longrightarrow>
     holds_int now (Str_Incrs now kv key ds) key (i64 (n + sum_list ds))"
proof (induction ds arbitrary: kv n)
  case Nil
  then show ?case by (simp add: Str_Incrs_def i64_id)
next
  case (Cons d ds)
  have "holds_int now (Str_Incrs now (fst (Str_Incr now kv key d)) key ds) key
      (i64 (i64 (n + d) + sum_list ds))"
    using Str_Incr_holds [OF Cons.prems] i64_range by (intro Cons.IH) auto
  then show ?case by (simp add: Str_Incrs_def i64_add_left add.assoc)
qed

text \<open>
  C21. Increments add up. Any sequence of \<^verbatim>\<open>INCRBY\<close> with 64-bit amounts on a key that does not exist
  leaves the decimal text of their sum, reduced to 64 bits in two's complement, whatever their order.
\<close>

theorem str_incr_sum:
  assumes "kv_inv kv" and "kv_Get now kv key = None" and "\<forall>x \<in> set ds. in_i64 x" and "ds \<noteq> []"
  shows "Str_Get now (Str_Incrs now kv key ds) key = Ok (Some (FormatInt (i64 (sum_list ds))))"
proof -
  obtain d rest where ds: "ds = d # rest" using assms(4) by (cases ds) auto
  have i: "in_i64 d" using assms(3) ds by simp
  have "holds_int now (fst (Str_Incr now kv key d)) key d"
    using Str_Incr_absent(2) [OF assms(1,2), of d] by (simp add: holds_int_def Str_Get_def)
  then have "holds_int now (Str_Incrs now (fst (Str_Incr now kv key d)) key rest) key
      (i64 (d + sum_list rest))"
    using Str_Incr_absent(4) [OF assms(1,2)] i by (intro Str_Incrs_holds) auto
  then show ?thesis by (simp add: ds Str_Incrs_def holds_int_def)
qed

theorem str_incr_sum_witness:
  "Str_Get 7 (Str_Incrs 7 (New 4) ''c'' [9223372036854775807, 1]) ''c''
     = Ok (Some (FormatInt (- 9223372036854775808)))"
  using str_incr_sum [of "New 4" 7 "''c''" "[9223372036854775807, 1]"]
  by (simp add: kv_inv_New kv_Get_def kv_find_New in_i64_def min_int64_def max_int64_def i64_def)

subsection \<open>Append, range writes and batches\<close>

lemma GetForWrite_cases [consumes 1, case_names absent live]:
  assumes "kv_inv kv"
  obtains (absent) kv1 where "kv_GetForWrite now kv key = (kv1, None)" "kv_Get now kv key = None"
      "kv_inv kv1" "kv_find kv1 key = None" "\<And>k. k \<noteq> key \<Longrightarrow> kv_find kv1 k = kv_find kv k"
      "kv_version kv1 = kv_version kv"
    | (live) e where "kv_GetForWrite now kv key = (kv, Some e)" "kv_Get now kv key = Some e"
      "kv_find kv key = Some e" "\<not> isExpired now e"
proof (cases "kv_Get now kv key")
  case None
  then show thesis
    using absent [of "fst (kv_GetForWrite now kv key)"]
      kv_GetForWrite_spec [OF assms, where now = now and k = key]
    by (metis prod.collapse)
next
  case (Some e)
  then show thesis using live [of e] by (simp add: kv_Get_Some_iff kv_GetForWrite_def)
qed

text \<open>
  \<^verbatim>\<open>APPEND\<close>: on a key that holds a string or does not exist, the bytes read back are the old bytes
  followed by the new ones, the reply is their length, and no other key changes.
\<close>

lemma str_append:
  assumes "kv_inv kv" and "Str_Get now kv key = Ok old"
  shows "snd (Str_Append now kv key v) = Ok (int (length (sl old @ sl v)))
    \<and> (\<exists>new. Str_Get now (fst (Str_Append now kv key v)) key = Ok new \<and> sl new = sl old @ sl v)
    \<and> (\<forall>k. k \<noteq> key \<longrightarrow> Str_Get now (fst (Str_Append now kv key v)) k = Str_Get now kv k)"
  using assms(1)
proof (cases rule: GetForWrite_cases [where now = now and key = key])
  case (absent kv1)
  have a: "Str_Append now kv key v
      = (kv_put kv1 key (mkEntry (VBytes v) TypeString), Ok (int (length (sl v))))"
    by (simp add: Str_Append_def absent(1))
  have "Str_Get now (kv_put kv1 key (mkEntry (VBytes v) TypeString)) k
      = (if k = key then Ok v else Str_Get now kv k)" for k
    using absent by (auto simp: Str_Get_put intro: Str_Get_frame)
  moreover have "old = None" using assms(2) absent(2) by (simp add: Str_Get_def)
  ultimately show ?thesis by (simp add: a)
next
  case (live e)
  have e: "e_type e = TypeString" "as_bytes (e_value e) = Some old"
    using assms(2) live(2) by (auto simp: Str_Get_def split: if_splits option.splits)
  let ?e = "e\<lparr>e_value := VBytes (go_append old v)\<rparr>"
  have a: "Str_Append now kv key v = (kv_put kv key ?e, Ok (int (length (sl (go_append old v)))))"
    by (simp add: Str_Append_def live(1) e Let_def)
  have "Str_Get now (kv_put kv key ?e) k = (if k = key then Ok (go_append old v) else Str_Get now kv k)" for k
    using assms(1) e live(4) by (intro Str_Get_put) simp_all
  moreover have "sl (go_append old v) = sl old @ sl v" by (cases old) (auto simp: go_append_def)
  ultimately show ?thesis by (simp add: a)
qed

text \<open>The string operations keep the store well-formed and never hit a failed type assertion.\<close>

lemma store_inv_version: "store_inv (kv\<lparr>kv_version := v\<rparr>) \<longleftrightarrow> store_inv kv"
  by (simp add: store_inv_def kv_typed_def kv_entries_def)

lemma store_inv_kv_Set:
  "store_inv kv \<Longrightarrow> well_typed_value ty v \<Longrightarrow> store_inv (kv_Set now kv k v ty ttl)"
  by (simp add: store_inv_def kv_Set_inv kv_typed_Set kv_deadlines_Set)

lemma Str_Incr_safe:
  assumes "store_inv kv"
  shows "store_inv (fst (Str_Incr now kv key d))" and "snd (Str_Incr now kv key d) \<noteq> Panic"
proof -
  have i: "kv_inv kv" using assms by (simp add: store_inv_def)
  have w: "store_inv (fst (kv_GetForWrite now kv key))" using assms by (rule store_inv_GetForWrite)
  have "store_inv (fst (Str_Incr now kv key d)) \<and> snd (Str_Incr now kv key d) \<noteq> Panic"
    using i
  proof (cases rule: GetForWrite_cases [where now = now and key = key])
    case (absent kv1)
    then show ?thesis using w
      by (auto simp: Str_Incr_def nextVersion_def Let_def store_inv_version well_typed_def
          intro!: store_inv_put)
  next
    case (live e)
    then show ?thesis
      using assms str_store.typed_Get [OF assms live(2)]
      by (auto simp: Str_Incr_def nextVersion_def Let_def store_inv_version well_typed_def
          intro!: store_inv_put split: prod.splits option.splits)
  qed
  then show "store_inv (fst (Str_Incr now kv key d))" and "snd (Str_Incr now kv key d) \<noteq> Panic" by auto
qed

lemma Str_Append_safe:
  assumes "store_inv kv"
  shows "store_inv (fst (Str_Append now kv key v))" and "snd (Str_Append now kv key v) \<noteq> Panic"
proof -
  have i: "kv_inv kv" using assms by (simp add: store_inv_def)
  have w: "store_inv (fst (kv_GetForWrite now kv key))" using assms by (rule store_inv_GetForWrite)
  have "store_inv (fst (Str_Append now kv key v)) \<and> snd (Str_Append now kv key v) \<noteq> Panic"
    using i
  proof (cases rule: GetForWrite_cases [where now = now and key = key])
    case (absent kv1)
    then show ?thesis using w by (auto simp: Str_Append_def well_typed_def intro!: store_inv_put)
  next
    case (live e)
    then show ?thesis
      using assms str_store.typed_Get [OF assms live(2)]
      by (auto simp: Str_Append_def Let_def well_typed_def intro!: store_inv_put split: option.splits)
  qed
  then show "store_inv (fst (Str_Append now kv key v))" and "snd (Str_Append now kv key v) \<noteq> Panic"
    by auto
qed

lemma Str_SetRange_safe:
  assumes "store_inv kv" and "0 \<le> offset" and "offset + int (length v) \<le> max_int64"
  shows "store_inv (fst (Str_SetRange now kv key offset v))"
    and "snd (Str_SetRange now kv key offset v) \<noteq> Panic"
proof -
  have i: "kv_inv kv" using assms by (simp add: store_inv_def)
  have w: "store_inv (fst (kv_GetForWrite now kv key))" using assms(1) by (rule store_inv_GetForWrite)
  have "store_inv (fst (Str_SetRange now kv key offset v)) \<and> snd (Str_SetRange now kv key offset v) \<noteq> Panic"
    using i
  proof (cases rule: GetForWrite_cases [where now = now and key = key])
    case (absent kv1)
    then show ?thesis using w
      by (auto simp: Str_SetRange_def set_range_ok [OF assms(2,3)] well_typed_def intro!: store_inv_put)
  next
    case (live e)
    then show ?thesis
      using assms(1) str_store.typed_Get [OF assms(1) live(2)]
      by (auto simp: Str_SetRange_def set_range_ok [OF assms(2,3)] well_typed_def
          intro!: store_inv_put split: option.splits)
  qed
  then show "store_inv (fst (Str_SetRange now kv key offset v))"
    and "snd (Str_SetRange now kv key offset v) \<noteq> Panic" by auto
qed

lemma Str_GetSet_safe:
  assumes "store_inv kv"
  shows "store_inv (fst (Str_GetSet now kv key v))" and "snd (Str_GetSet now kv key v) \<noteq> Panic"
  using assms Str_Get_no_panic [OF assms, of now key]
  by (auto simp: Str_GetSet_def intro!: store_inv_kv_Set split: res.splits)

lemma Str_MSet_find:
  assumes "kv_inv kv" and "wf_map pairs"
  shows "kv_inv (Str_MSet now kv pairs) \<and> Str_Get t (Str_MSet now kv pairs) k =
    (case map_of pairs k of Some v \<Rightarrow> Ok v | None \<Rightarrow> Str_Get t kv k)"
  using assms
proof (induction pairs arbitrary: kv)
  case Nil
  then show ?case by (simp add: Str_MSet_def)
next
  case (Cons p pairs)
  obtain a v where p: "p = (a, v)" by (cases p)
  let ?kv = "kv_Set now kv a (VBytes v) TypeString 0"
  have wf: "wf_map pairs" and new: "map_of pairs a = None"
    using Cons.prems p by (auto simp: wf_map_def map_of_eq_None_iff)
  have "kv_inv ?kv" using Cons.prems by (simp add: kv_Set_inv)
  note IH = Cons.IH [OF this wf]
  have "Str_MSet now kv (p # pairs) = Str_MSet now ?kv pairs" by (simp add: Str_MSet_def p)
  with IH new show ?case
    by (auto simp: p Str_Get_kv_Set [OF Cons.prems(1)] set_deadline_def split: option.splits)
qed

subsection \<open>Incrementing a key with a deadline hides it from the reaper\<close>

text \<open>\<^verbatim>\<open>Incr\<close> gives the entry a new version without a new heap item, so the only item of the key is stale:
  the reaper pops it and leaves the expired entry in the map for good.\<close>

lemma incr_unreaped:
  defines "kv \<equiv> fst (Str_Incr 5 (fst (Str_Set 5 (New 1) ''k'' (Some ''1'') 1 False False)) ''k'' 1)"
  shows "kv_Get 2000000000 kv ''k'' = None
    \<and> snd (kv_DeleteExpired 2000000000 kv) = 0
    \<and> kv_find (fst (kv_DeleteExpired 2000000000 kv)) ''k'' \<noteq> None
    \<and> \<not> kv_covered kv"
proof -
  have p: "ParseInt ''1'' = (1, None)"
    by (simp add: ParseInt_def ParseUint_def is_digit_def digit_val_def max_int64_def)
  have f: "FormatInt 2 = ''2''" by code_simp
  have set: "fst (Str_Set 5 (New 1) ''k'' (Some ''1'') 1 False False) =
      \<lparr>kv_shards = [\<lparr>sh_data = [(''k'', \<lparr>e_value = VBytes (Some ''1''), e_type = TypeString,
        e_expires = 1000000005, e_version = 1, e_created = 5, e_updated = 5\<rparr>)],
        sh_expiries = [\<lparr>xi_key = ''k'', xi_deadline = 1000000005, xi_version = 1\<rparr>]\<rparr>],
      kv_numShards = 1, kv_version = 1\<rparr>"
    by (simp add: Str_Set_def kv_Set_def New_def Let_def set_deadline_def i64_def nextVersion_def
        kv_put_def kv_upd_def kv_idx_def kv_shard_def kv_find_def kv_push_def kv_set_entry_def)
  have kv: "kv = \<lparr>kv_shards = [\<lparr>sh_data = [(''k'', \<lparr>e_value = VBytes (Some ''2''), e_type = TypeString,
        e_expires = 1000000005, e_version = 2, e_created = 5, e_updated = 5\<rparr>)],
        sh_expiries = [\<lparr>xi_key = ''k'', xi_deadline = 1000000005, xi_version = 1\<rparr>]\<rparr>],
      kv_numShards = 1, kv_version = 2\<rparr>"
    unfolding kv_def set
    by (simp add: Str_Incr_def Let_def i64_def nextVersion_def kv_put_def kv_upd_def kv_idx_def
        kv_shard_def kv_find_def kv_GetForWrite_def isExpired_def p f)
  have reap: "reap_shard 0 2000000000 0 (hd (kv_shards kv)) = (0, (hd (kv_shards kv))\<lparr>sh_expiries := []\<rparr>)"
    by (simp add: kv reap_shard.simps [of 0 2000000000 0] Let_def)
  show ?thesis
    using reap
    by (simp add: kv kv_Get_def kv_find_def kv_shard_def kv_idx_def isExpired_def kv_DeleteExpired_def
        kv_DeleteExpiredLimit_def kv_covered_def covered_def)
qed

end
