(* ===== verification/HashStore.thy ===== *)
theory HashStore
  imports StringStore
begin

text \<open>
  The hash operations of \<^verbatim>\<open>src/internal/engine/hash.go\<close>. Each operation is its body on the field map,
  run by \<open>modify\<close> or \<open>getReadOnly\<close>; the contract of the typed stores then turns a fact about the body
  into a fact about the keyspace.
\<close>

abbreviation hash_modify ::
  "int \<Rightarrow> kvstore \<Rightarrow> string \<Rightarrow> (hashMap \<Rightarrow> hashMap \<times> 'r res) \<Rightarrow> kvstore \<times> 'r res" where
  "hash_modify \<equiv> modify TypeHash VHash as_hash []"

abbreviation hash_read :: "int \<Rightarrow> kvstore \<Rightarrow> string \<Rightarrow> hashMap option res" where
  "hash_read \<equiv> getReadOnly TypeHash as_hash"

abbreviation hash_at :: "int \<Rightarrow> kvstore \<Rightarrow> string \<Rightarrow> hashMap option" where
  "hash_at \<equiv> content TypeHash as_hash []"

section \<open>Operations\<close>

text \<open>A missing field reads as the nil slice, Go's zero value.\<close>

definition field :: "hashMap \<Rightarrow> string \<Rightarrow> slice" where
  "field m f = (case map_of m f of None \<Rightarrow> None | Some v \<Rightarrow> v)"

fun hset_body :: "(string, slice) gomap \<Rightarrow> int \<Rightarrow> hashMap \<Rightarrow> hashMap \<times> int" where
  "hset_body [] added m = (m, added)"
| "hset_body ((f, v) # pairs) added m =
     hset_body pairs (if map_of m f = None then added + 1 else added) (AList.update f v m)"

definition HSet :: "int \<Rightarrow> kvstore \<Rightarrow> string \<Rightarrow> (string, slice) gomap \<Rightarrow> kvstore \<times> int res" where
  "HSet now kv key pairs =
     hash_modify now kv key (\<lambda>m. let (m', added) = hset_body pairs 0 m in (m', Ok added))"

definition HGet :: "int \<Rightarrow> kvstore \<Rightarrow> string \<Rightarrow> string \<Rightarrow> slice res" where
  "HGet now kv key f =
     bind_res (hash_read now kv key)
       (\<lambda>m. case m of None \<Rightarrow> Ok None | Some m \<Rightarrow> Ok (field m f))"

definition HMGet :: "int \<Rightarrow> kvstore \<Rightarrow> string \<Rightarrow> string list \<Rightarrow> slice list res" where
  "HMGet now kv key flds =
     bind_res (hash_read now kv key)
       (\<lambda>m. Ok (map (\<lambda>f. case m of None \<Rightarrow> None | Some m \<Rightarrow> field m f) flds))"

fun hdel_body :: "string list \<Rightarrow> int \<Rightarrow> hashMap \<Rightarrow> hashMap \<times> int" where
  "hdel_body [] deleted m = (m, deleted)"
| "hdel_body (f # fs) deleted m =
     (if map_of m f \<noteq> None then hdel_body fs (deleted + 1) (AList.delete f m)
      else hdel_body fs deleted m)"

definition HDel :: "int \<Rightarrow> kvstore \<Rightarrow> string \<Rightarrow> string list \<Rightarrow> kvstore \<times> int res" where
  "HDel now kv key flds =
     hash_modify now kv key (\<lambda>m. let (m', n) = hdel_body flds 0 m in (m', Ok n))"

definition HGetAll :: "int \<Rightarrow> kvstore \<Rightarrow> string \<Rightarrow> hashMap option res" where
  "HGetAll now kv key =
     bind_res (hash_read now kv key)
       (\<lambda>m. Ok (map_option (\<lambda>m. foldl (\<lambda>r (k, v). AList.update k v r) [] m) m))"

definition HKeys :: "int \<Rightarrow> kvstore \<Rightarrow> string \<Rightarrow> string list res" where
  "HKeys now kv key =
     bind_res (hash_read now kv key) (\<lambda>m. Ok (case m of None \<Rightarrow> [] | Some m \<Rightarrow> map fst m))"

definition HVals :: "int \<Rightarrow> kvstore \<Rightarrow> string \<Rightarrow> slice list res" where
  "HVals now kv key =
     bind_res (hash_read now kv key) (\<lambda>m. Ok (case m of None \<Rightarrow> [] | Some m \<Rightarrow> map snd m))"

definition HLen :: "int \<Rightarrow> kvstore \<Rightarrow> string \<Rightarrow> int res" where
  "HLen now kv key =
     bind_res (hash_read now kv key) (\<lambda>m. Ok (case m of None \<Rightarrow> 0 | Some m \<Rightarrow> int (length m)))"

definition HExists :: "int \<Rightarrow> kvstore \<Rightarrow> string \<Rightarrow> string \<Rightarrow> bool res" where
  "HExists now kv key f =
     bind_res (hash_read now kv key)
       (\<lambda>m. Ok (case m of None \<Rightarrow> False | Some m \<Rightarrow> map_of m f \<noteq> None))"

definition hincrby_body :: "string \<Rightarrow> int \<Rightarrow> hashMap \<Rightarrow> hashMap \<times> int res" where
  "hincrby_body f delta m =
     (case map_of m f of
        None \<Rightarrow> let n = i64 (0 + delta) in (AList.update f (Some (FormatInt n)) m, Ok n)
      | Some v \<Rightarrow>
          (case ParseInt (sl v) of
             (n0, Some _) \<Rightarrow> (m, Err ErrOutOfRange)
           | (n0, None) \<Rightarrow>
               let n = i64 (n0 + delta) in (AList.update f (Some (FormatInt n)) m, Ok n)))"

definition HIncrBy :: "int \<Rightarrow> kvstore \<Rightarrow> string \<Rightarrow> string \<Rightarrow> int \<Rightarrow> kvstore \<times> int res" where
  "HIncrBy now kv key f delta = hash_modify now kv key (hincrby_body f delta)"

section \<open>The bodies\<close>

lemma hset_body_wf: "wf_map m \<Longrightarrow> wf_map (fst (hset_body pairs n m))"
  by (induction pairs n m rule: hset_body.induct) auto

lemma hset_body_map: "map_of (fst (hset_body pairs n m)) = map_of m ++ map_of (rev pairs)"
proof (induction pairs n m rule: hset_body.induct)
  case (2 f v pairs added m)
  have "map_of (AList.update f v m) = (map_of m)(f \<mapsto> v)" by (auto simp: fun_eq_iff)
  with 2 show ?case by (simp add: map_add_def fun_eq_iff split: option.splits)
qed simp

text \<open>The reply counts the growth of the field set.\<close>

lemma hset_body_count:
  "wf_map m \<Longrightarrow> snd (hset_body pairs n m) - n = int (length (fst (hset_body pairs n m))) - int (length m)"
proof (induction pairs n m rule: hset_body.induct)
  case (2 f v pairs added m)
  then show ?case
    using length_update_new [of m f v] length_update_old [of m f _ v] by (cases "map_of m f") auto
qed simp

lemma hdel_body_wf: "wf_map m \<Longrightarrow> wf_map (fst (hdel_body fs n m))"
  by (induction fs n m rule: hdel_body.induct) auto

lemma hdel_body_map: "map_of (fst (hdel_body fs n m)) = map_of m |` (- set fs)"
proof (induction fs n m rule: hdel_body.induct)
  case (2 f fs n m)
  then show ?case by (auto simp: restrict_map_def fun_eq_iff)
qed simp

lemma hdel_body_count:
  "wf_map m \<Longrightarrow> snd (hdel_body fs n m) - n = int (length m) - int (length (fst (hdel_body fs n m)))"
proof (induction fs n m rule: hdel_body.induct)
  case (2 f fs n m)
  then show ?case using length_delete_present [of m f] by auto
qed simp

lemma length_map_card: "wf_map m \<Longrightarrow> length m = card (dom (map_of m))"
  by (metis dom_map_of_conv_image_fst distinct_card length_map list.set_map wf_map_def)

lemma hincrby_wf: "wf_map m \<Longrightarrow> wf_map (fst (hincrby_body f d m))"
  by (auto simp: hincrby_body_def Let_def split: option.splits prod.splits)

section \<open>On the keyspace\<close>

lemma hash_read_at:
  "store_inv kv \<Longrightarrow> hash_at now kv key = Some m \<Longrightarrow>
     hash_read now kv key = Ok (if kv_Exists now kv key then Some m else None)"
  by (simp add: hash_store.getReadOnly_content)

lemma hash_at_absent: "hash_at now kv key = Some m \<Longrightarrow> \<not> kv_Exists now kv key \<Longrightarrow> m = []"
  by (auto simp: content_def kv_Exists_def split: option.splits)

lemma HGet_at:
  "store_inv kv \<Longrightarrow> hash_at now kv key = Some m \<Longrightarrow> HGet now kv key f = Ok (field m f)"
  using hash_at_absent [of now kv key m] by (auto simp: HGet_def hash_read_at field_def)

lemma HLen_at:
  "store_inv kv \<Longrightarrow> hash_at now kv key = Some m \<Longrightarrow> HLen now kv key = Ok (int (length m))"
  using hash_at_absent [of now kv key m] by (auto simp: HLen_def hash_read_at)

lemma HExists_at:
  "store_inv kv \<Longrightarrow> hash_at now kv key = Some m \<Longrightarrow> HExists now kv key f = Ok (map_of m f \<noteq> None)"
  using hash_at_absent [of now kv key m] by (auto simp: HExists_def hash_read_at)

text \<open>
  \<^verbatim>\<open>HSET\<close> and \<^verbatim>\<open>HDEL\<close> act on a hash as a finite map: setting overrides exactly the given fields, the
  reply is the number of fields that did not exist before; deleting removes exactly the given fields,
  the reply is how many of them existed; no other key of the keyspace changes and the store stays
  well-formed.
\<close>

lemma hash_set_del:
  assumes inv: "store_inv kv" and m: "hash_at now kv key = Some m"
  shows "(\<exists>m'. hash_at now (fst (HSet now kv key pairs)) key = Some m'
        \<and> map_of m' = map_of m ++ map_of (rev pairs)
        \<and> snd (HSet now kv key pairs) = Ok (int (card (dom (map_of m'))) - int (card (dom (map_of m)))))
    \<and> (\<exists>m'. hash_at now (fst (HDel now kv key fs)) key = Some m'
        \<and> map_of m' = map_of m |` (- set fs)
        \<and> snd (HDel now kv key fs) = Ok (int (card (dom (map_of m))) - int (card (dom (map_of m')))))
    \<and> store_inv (fst (HSet now kv key pairs)) \<and> store_inv (fst (HDel now kv key fs))
    \<and> (\<forall>k. k \<noteq> key \<longrightarrow> kv_find (fst (HSet now kv key pairs)) k = kv_find kv k
        \<and> kv_find (fst (HDel now kv key fs)) k = kv_find kv k)"
proof -
  have wf: "wf_map m" by (rule hash_store.content_wf [OF inv m])
  let ?s = "\<lambda>m. let (m', n) = hset_body pairs 0 m in (m', Ok n)"
  let ?d = "\<lambda>m. let (m', n) = hdel_body fs 0 m in (m', Ok n)"
  have s: "?s m = (fst (hset_body pairs 0 m), Ok (snd (hset_body pairs 0 m)))"
    and d: "?d m = (fst (hdel_body fs 0 m), Ok (snd (hdel_body fs 0 m)))" by (simp_all add: case_prod_unfold Let_def)
  note S = hash_store.modify_ok [of kv now key m ?s, OF inv m s hset_body_wf [OF wf]]
  note D = hash_store.modify_ok [of kv now key m ?d, OF inv m d hdel_body_wf [OF wf]]
  show ?thesis
    using S(1-4) D(1-4) hset_body_map [of pairs 0 m] hdel_body_map [of fs 0 m]
      hset_body_count [OF wf, of pairs 0] hdel_body_count [OF wf, of fs 0]
      length_map_card [OF wf] length_map_card [OF hset_body_wf [OF wf, of pairs 0]]
      length_map_card [OF hdel_body_wf [OF wf, of fs 0]]
    unfolding HSet_def HDel_def by auto
qed

lemma HIncrBy_at:
  assumes "store_inv kv" and "hash_at now kv key = Some m"
  shows "snd (HIncrBy now kv key f d) = snd (hincrby_body f d m)"
    and "hash_at now (fst (HIncrBy now kv key f d)) key = Some (fst (hincrby_body f d m))"
    and "store_inv (fst (HIncrBy now kv key f d))"
proof -
  have wf: "wf_map (fst (hincrby_body f d m))"
    using hash_store.content_wf [OF assms] by (rule hincrby_wf)
  note M = hash_store.modify_ok [of kv now key m "hincrby_body f d", OF assms prod.collapse [symmetric] wf]
  show "snd (HIncrBy now kv key f d) = snd (hincrby_body f d m)"
    and "hash_at now (fst (HIncrBy now kv key f d)) key = Some (fst (hincrby_body f d m))"
    and "store_inv (fst (HIncrBy now kv key f d))"
    unfolding HIncrBy_def using M(1-3) by simp_all
qed

text \<open>
  \<^verbatim>\<open>HINCRBY\<close> twice is once with the sum: after an increment by \<open>a\<close> succeeds on a field, an increment
  by \<open>b\<close> also succeeds and the reply is what a single increment by \<open>a + b\<close> would have replied, in 64-bit
  wrap-around arithmetic.
\<close>

lemma hincrby_twice:
  assumes inv: "store_inv kv" and m: "hash_at now kv key = Some m"
    and ok: "snd (HIncrBy now kv key f a) = Ok n"
  shows "snd (HIncrBy now (fst (HIncrBy now kv key f a)) key f b) = Ok (i64 (n + b))
    \<and> snd (HIncrBy now kv key f (a + b)) = Ok (i64 (n + b))"
proof -
  have n: "snd (hincrby_body f a m) = Ok n" using ok HIncrBy_at(1) [OF inv m] by simp
  have new: "map_of (fst (hincrby_body f a m)) f = Some (Some (FormatInt n))" and i: "in_i64 n"
    using n i64_range by (auto simp: hincrby_body_def Let_def split: option.splits prod.splits)
  have "snd (hincrby_body f b (fst (hincrby_body f a m))) = Ok (i64 (n + b))"
    using new ParseInt_FormatInt [OF i] by (simp add: hincrby_body_def Let_def)
  moreover have "snd (hincrby_body f (a + b) m) = Ok (i64 (n + b))"
    using n i64_add_left [of _ b]
    by (auto simp: hincrby_body_def Let_def add.assoc split: option.splits prod.splits)
  ultimately show ?thesis
    using HIncrBy_at(1) [OF inv m] HIncrBy_at(1) [OF HIncrBy_at(3,2) [OF inv m]] by simp
qed

text \<open>Deleting from a key that does not exist leaves an empty hash behind: the key then exists.\<close>

lemma hdel_creates_key:
  assumes "store_inv kv" and "kv_Get now kv key = None"
  shows "kv_Type now (fst (HDel now kv key fs)) key = TypeHash"
proof -
  have m: "hash_at now kv key = Some []" using assms(2) by (simp add: content_def)
  have "wf_map (fst (let (m', n) = hdel_body fs 0 [] in (m', Ok n :: int res)))"
    using hdel_body_wf [of "[]"] by (simp add: case_prod_unfold Let_def)
  from hash_store.modify_run(5) [of kv now key "[]" "\<lambda>m. let (m', n) = hdel_body fs 0 m in (m', Ok n)",
    OF assms(1) m this] show ?thesis by (simp add: HDel_def)
qed

end
