(* ===== verification/ListStore.thy ===== *)
theory ListStore
  imports HashStore
begin

text \<open>
  The list operations of \<^verbatim>\<open>src/internal/engine/list.go\<close>. A nil result slice is \<open>None\<close>; a negative pop count
  reaches \<^verbatim>\<open>make([][]byte, count)\<close> and panics.
\<close>

abbreviation empty_list :: dbxList where "empty_list \<equiv> \<lparr>l_items = []\<rparr>"

abbreviation list_modify ::
  "int \<Rightarrow> kvstore \<Rightarrow> string \<Rightarrow> (dbxList \<Rightarrow> dbxList \<times> 'r res) \<Rightarrow> kvstore \<times> 'r res" where
  "list_modify \<equiv> modify TypeList VList as_list empty_list"

abbreviation list_read :: "int \<Rightarrow> kvstore \<Rightarrow> string \<Rightarrow> dbxList option res" where
  "list_read \<equiv> getReadOnly TypeList as_list"

abbreviation list_at :: "int \<Rightarrow> kvstore \<Rightarrow> string \<Rightarrow> dbxList option" where
  "list_at \<equiv> content TypeList as_list empty_list"

section \<open>Operations\<close>

definition lpush_body :: "slice list \<Rightarrow> dbxList \<Rightarrow> dbxList \<times> int res" where
  "lpush_body vals l =
     (let items = foldl (\<lambda>items v. [v] @ items) (l_items l) vals
      in (l\<lparr>l_items := items\<rparr>, Ok (int (length items))))"

definition LPush :: "int \<Rightarrow> kvstore \<Rightarrow> string \<Rightarrow> slice list \<Rightarrow> kvstore \<times> int res" where
  "LPush now kv key vals = list_modify now kv key (lpush_body vals)"

definition rpush_body :: "slice list \<Rightarrow> dbxList \<Rightarrow> dbxList \<times> int res" where
  "rpush_body vals l =
     (let items = l_items l @ vals in (l\<lparr>l_items := items\<rparr>, Ok (int (length items))))"

definition RPush :: "int \<Rightarrow> kvstore \<Rightarrow> string \<Rightarrow> slice list \<Rightarrow> kvstore \<times> int res" where
  "RPush now kv key vals = list_modify now kv key (rpush_body vals)"

definition lpop_body :: "int \<Rightarrow> dbxList \<Rightarrow> dbxList \<times> slice list option res" where
  "lpop_body cnt l =
     (if l_items l = [] then (l, Ok None)
      else let c = (if cnt > int (length (l_items l)) then int (length (l_items l)) else cnt)
           in if c < 0 then (l, Panic)
              else (l\<lparr>l_items := drop (nat c) (l_items l)\<rparr>, Ok (Some (take (nat c) (l_items l)))))"

definition LPop :: "int \<Rightarrow> kvstore \<Rightarrow> string \<Rightarrow> int \<Rightarrow> kvstore \<times> slice list option res" where
  "LPop now kv key cnt = list_modify now kv key (lpop_body cnt)"

definition rpop_body :: "int \<Rightarrow> dbxList \<Rightarrow> dbxList \<times> slice list option res" where
  "rpop_body cnt l =
     (if l_items l = [] then (l, Ok None)
      else let c = (if cnt > int (length (l_items l)) then int (length (l_items l)) else cnt)
           in if c < 0 then (l, Panic)
              else let start = nat (int (length (l_items l)) - c)
                   in (l\<lparr>l_items := take start (l_items l)\<rparr>, Ok (Some (drop start (l_items l)))))"

definition RPop :: "int \<Rightarrow> kvstore \<Rightarrow> string \<Rightarrow> int \<Rightarrow> kvstore \<times> slice list option res" where
  "RPop now kv key cnt = list_modify now kv key (rpop_body cnt)"

definition LRange :: "int \<Rightarrow> kvstore \<Rightarrow> string \<Rightarrow> int \<Rightarrow> int \<Rightarrow> slice list option res" where
  "LRange now kv key start stop =
     bind_res (list_read now kv key) (\<lambda>l. case l of
        None \<Rightarrow> Ok None
      | Some l \<Rightarrow>
          let n = int (length (l_items l)); s = norm_start n start; e = norm_end n stop
          in if s > e then Ok (Some []) else Ok (Some (subslice (l_items l) (nat s) (nat (e + 1)))))"

definition LLen :: "int \<Rightarrow> kvstore \<Rightarrow> string \<Rightarrow> int res" where
  "LLen now kv key =
     bind_res (list_read now kv key)
       (\<lambda>l. Ok (case l of None \<Rightarrow> 0 | Some l \<Rightarrow> int (length (l_items l))))"

definition LIndex :: "int \<Rightarrow> kvstore \<Rightarrow> string \<Rightarrow> int \<Rightarrow> slice res" where
  "LIndex now kv key index =
     bind_res (list_read now kv key) (\<lambda>l. case l of
        None \<Rightarrow> Ok None
      | Some l \<Rightarrow>
          let n = int (length (l_items l)); i = (if index < 0 then n + index else index)
          in if i < 0 \<or> i \<ge> n then Ok None else Ok (l_items l ! nat i))"

definition lset_body :: "int \<Rightarrow> slice \<Rightarrow> dbxList \<Rightarrow> dbxList \<times> unit res" where
  "lset_body index v l =
     (let n = int (length (l_items l)); i = (if index < 0 then n + index else index)
      in if i < 0 \<or> i \<ge> n then (l, Err ErrIndexRange)
         else (l\<lparr>l_items := (l_items l)[nat i := v]\<rparr>, Ok ()))"

definition LSet :: "int \<Rightarrow> kvstore \<Rightarrow> string \<Rightarrow> int \<Rightarrow> slice \<Rightarrow> kvstore \<times> unit res" where
  "LSet now kv key index v = list_modify now kv key (lset_body index v)"

definition ltrim_body :: "int \<Rightarrow> int \<Rightarrow> dbxList \<Rightarrow> dbxList \<times> unit res" where
  "ltrim_body start stop l =
     (let n = int (length (l_items l)); s = norm_start n start; e = norm_end n stop
      in if s > e then (l\<lparr>l_items := []\<rparr>, Ok ())
         else (l\<lparr>l_items := subslice (l_items l) (nat s) (nat (e + 1))\<rparr>, Ok ()))"

definition LTrim :: "int \<Rightarrow> kvstore \<Rightarrow> string \<Rightarrow> int \<Rightarrow> int \<Rightarrow> kvstore \<times> unit res" where
  "LTrim now kv key start stop = list_modify now kv key (ltrim_body start stop)"

section \<open>The list as a double-ended queue\<close>

lemma lpush_items: "l_items (fst (lpush_body vals l)) = rev vals @ l_items l"
proof -
  have "foldl (\<lambda>items v. [v] @ items) xs vals = rev vals @ xs" for xs :: "slice list"
    by (induction vals arbitrary: xs) auto
  then show ?thesis by (simp add: lpush_body_def Let_def)
qed

lemma rpush_items: "l_items (fst (rpush_body vals l)) = l_items l @ vals"
  by (simp add: rpush_body_def Let_def)

lemma list_eqI: "l_items a = l_items b \<Longrightarrow> a = (b :: dbxList)"
  by (rule dbxList.equality) simp_all

lemma list_run:
  assumes "store_inv kv" and "list_at now kv key = Some l"
  shows "list_at now (fst (list_modify now kv key body)) key = Some (fst (body l))"
    and "snd (list_modify now kv key body) = snd (body l)"
    and "store_inv (fst (list_modify now kv key body))"
  using list_store.modify_run [where kv = kv and now = now and key = key and x = l and body = body] assms by simp_all

lemma lpop_pushed:
  "vals \<noteq> [] \<Longrightarrow> lpop_body (int (length vals)) \<lparr>l_items = vals @ xs\<rparr> = (\<lparr>l_items = xs\<rparr>, Ok (Some vals))"
  by (simp add: lpop_body_def Let_def)

lemma rpop_pushed:
  "vals \<noteq> [] \<Longrightarrow> rpop_body (int (length vals)) \<lparr>l_items = xs @ vals\<rparr> = (\<lparr>l_items = xs\<rparr>, Ok (Some vals))"
  by (simp add: rpop_body_def Let_def)

text \<open>
  C23. A list is a double-ended queue: pushing values on either end and popping as many from the same
  end returns them (in the order the list holds them) and restores the list; pushing on the right and
  popping from the left serves the oldest elements first.
\<close>

theorem list_push_pop:
  assumes inv: "store_inv kv" and l: "list_at now kv key = Some l" and "vals \<noteq> []"
  shows "snd (LPop now (fst (LPush now kv key vals)) key (int (length vals))) = Ok (Some (rev vals))
      \<and> list_at now (fst (LPop now (fst (LPush now kv key vals)) key (int (length vals)))) key = Some l
      \<and> snd (RPop now (fst (RPush now kv key vals)) key (int (length vals))) = Ok (Some vals)
      \<and> list_at now (fst (RPop now (fst (RPush now kv key vals)) key (int (length vals)))) key = Some l
      \<and> snd (LPop now (fst (RPush now kv key vals)) key (int (length (l_items l @ vals))))
          = Ok (Some (l_items l @ vals))"
proof -
  have L: "fst (lpush_body vals l) = \<lparr>l_items = rev vals @ l_items l\<rparr>"
    and R: "fst (rpush_body vals l) = \<lparr>l_items = l_items l @ vals\<rparr>"
    by (rule list_eqI, simp add: lpush_items rpush_items)+
  have l': "\<lparr>l_items = l_items l\<rparr> = l" by (rule list_eqI) simp
  note push_l = list_run [OF inv l, of "lpush_body vals"] and push_r = list_run [OF inv l, of "rpush_body vals"]
  note ll = list_run [OF push_l(3,1), of "lpop_body (int (length vals))"]
  note rr = list_run [OF push_r(3,1), of "rpop_body (int (length vals))"]
  note rl = list_run [OF push_r(3,1), of "lpop_body (int (length (l_items l @ vals)))"]
  have "lpop_body (int (length vals)) \<lparr>l_items = rev vals @ l_items l\<rparr> = (l, Ok (Some (rev vals)))"
    using lpop_pushed [of "rev vals" "l_items l"] assms(3) l' by simp
  moreover have "rpop_body (int (length vals)) \<lparr>l_items = l_items l @ vals\<rparr> = (l, Ok (Some vals))"
    using rpop_pushed [of vals "l_items l"] assms(3) l' by simp
  moreover have "lpop_body (int (length (l_items l @ vals))) \<lparr>l_items = l_items l @ vals\<rparr>
      = (\<lparr>l_items = []\<rparr>, Ok (Some (l_items l @ vals)))"
    using lpop_pushed [of "l_items l @ vals" "[]"] assms(3) by simp
  ultimately show ?thesis
    using ll rr rl L R by (simp add: LPush_def RPush_def LPop_def RPop_def)
qed

theorem list_push_pop_witness:
  "snd (LPop 1 (fst (LPush 1 (New 3) ''l'' [Some ''a'', Some ''b''])) ''l'' 2) = Ok (Some [Some ''b'', Some ''a''])"
  using list_push_pop [of "New 3" 1 "''l''" empty_list "[Some ''a'', Some ''b'']"]
  by (simp add: store_inv_New content_def kv_Get_def kv_find_New)

section \<open>Ranges\<close>

lemma list_read_at:
  "store_inv kv \<Longrightarrow> list_at now kv key = Some l \<Longrightarrow>
     list_read now kv key = Ok (if kv_Exists now kv key then Some l else None)"
  by (simp add: list_store.getReadOnly_content)

lemma LRange_at:
  "store_inv kv \<Longrightarrow> list_at now kv key = Some l \<Longrightarrow> kv_Exists now kv key \<Longrightarrow>
     LRange now kv key a b = Ok (Some (range_of (l_items l) a b))"
  by (simp add: LRange_def list_read_at range_of_def Let_def)

lemma ltrim_items: "l_items (fst (ltrim_body a b l)) = range_of (l_items l) a b"
  by (simp add: ltrim_body_def range_of_def Let_def)

text \<open>
  \<^verbatim>\<open>LTRIM\<close> keeps exactly what \<^verbatim>\<open>LRANGE\<close> with the same bounds shows: the elements between the two
  positions, where negative positions count from the end and both ends are clamped to the list. The
  element shown at place \<open>i\<close> is the one \<open>i\<close> places after the start.
\<close>

lemma list_trim_range:
  assumes inv: "store_inv kv" and l: "list_at now kv key = Some l" and ex: "kv_Exists now kv key"
  shows "\<exists>xs. LRange now kv key a b = Ok (Some xs)
    \<and> list_at now (fst (LTrim now kv key a b)) key = Some \<lparr>l_items = xs\<rparr>
    \<and> int (length xs) = max 0 (norm_end (int (length (l_items l))) b - norm_start (int (length (l_items l))) a + 1)
    \<and> (\<forall>i < length xs. xs ! i = l_items l ! (nat (norm_start (int (length (l_items l))) a) + i))"
proof -
  let ?xs = "range_of (l_items l) a b"
  have "fst (ltrim_body a b l) = \<lparr>l_items = ?xs\<rparr>" by (rule list_eqI) (simp add: ltrim_items)
  then have "list_at now (fst (LTrim now kv key a b)) key = Some \<lparr>l_items = ?xs\<rparr>"
    using list_run(1) [OF inv l, of "ltrim_body a b"] by (simp add: LTrim_def)
  then show ?thesis
    using LRange_at [OF inv l ex] length_range_of [of "l_items l" a b] nth_range_of [of _ "l_items l" a b]
    by blast
qed

text \<open>A non-negative count never panics.\<close>

lemma list_no_panic:
  assumes "store_inv kv" and "0 \<le> cnt"
  shows "snd (LPop now kv key cnt) \<noteq> Panic" and "snd (RPop now kv key cnt) \<noteq> Panic"
  unfolding LPop_def RPop_def
  by (rule list_store.modify_safe(3) [OF assms(1)]; use assms(2) in
      \<open>simp add: lpop_body_def rpop_body_def Let_def\<close>)+

lemma list_negative_pop_panics:
  assumes "store_inv kv" and "list_at now kv key = Some l" and "l_items l \<noteq> []" and "cnt < 0"
  shows "snd (LPop now kv key cnt) = Panic"
  using list_run(2) [OF assms(1,2), of "lpop_body cnt"] assms(3,4)
  by (simp add: LPop_def lpop_body_def Let_def)

end
