(* ===== verification/SetStore.thy ===== *)
theory SetStore
  imports ListStore
begin

text \<open>
  The set operations of \<^verbatim>\<open>src/internal/engine/set.go\<close>. \<^verbatim>\<open>rand.Shuffle\<close> is an argument \<open>shuffle\<close>; the one fact
  about it that the proofs use is that it permutes its list.
\<close>

abbreviation set_modify ::
  "int \<Rightarrow> kvstore \<Rightarrow> string \<Rightarrow> (dbxSet \<Rightarrow> dbxSet \<times> 'r res) \<Rightarrow> kvstore \<times> 'r res" where
  "set_modify \<equiv> modify TypeSet VSet as_set []"

abbreviation set_read :: "int \<Rightarrow> kvstore \<Rightarrow> string \<Rightarrow> dbxSet option res" where
  "set_read \<equiv> getReadOnly TypeSet as_set"

abbreviation set_at :: "int \<Rightarrow> kvstore \<Rightarrow> string \<Rightarrow> dbxSet option" where
  "set_at \<equiv> content TypeSet as_set []"

definition members :: "dbxSet \<Rightarrow> string set" where
  "members s = fst ` set s"

section \<open>Operations\<close>

fun sadd_body :: "bytes list \<Rightarrow> int \<Rightarrow> dbxSet \<Rightarrow> dbxSet \<times> int" where
  "sadd_body [] added s = (s, added)"
| "sadd_body (k # ms) added s =
     (if map_of s k = None then sadd_body ms (added + 1) (AList.update k () s)
      else sadd_body ms added s)"

definition SAdd :: "int \<Rightarrow> kvstore \<Rightarrow> string \<Rightarrow> bytes list \<Rightarrow> kvstore \<times> int res" where
  "SAdd now kv key ms =
     set_modify now kv key (\<lambda>s. let (s', n) = sadd_body ms 0 s in (s', Ok n))"

fun srem_body :: "bytes list \<Rightarrow> int \<Rightarrow> dbxSet \<Rightarrow> dbxSet \<times> int" where
  "srem_body [] removed s = (s, removed)"
| "srem_body (k # ms) removed s =
     (if map_of s k \<noteq> None then srem_body ms (removed + 1) (AList.delete k s)
      else srem_body ms removed s)"

definition SRem :: "int \<Rightarrow> kvstore \<Rightarrow> string \<Rightarrow> bytes list \<Rightarrow> kvstore \<times> int res" where
  "SRem now kv key ms =
     set_modify now kv key (\<lambda>s. let (s', n) = srem_body ms 0 s in (s', Ok n))"

definition SMembers :: "int \<Rightarrow> kvstore \<Rightarrow> string \<Rightarrow> bytes list res" where
  "SMembers now kv key =
     bind_res (set_read now kv key) (\<lambda>s. Ok (case s of None \<Rightarrow> [] | Some s \<Rightarrow> map fst s))"

definition SIsMember :: "int \<Rightarrow> kvstore \<Rightarrow> string \<Rightarrow> bytes \<Rightarrow> bool res" where
  "SIsMember now kv key m =
     bind_res (set_read now kv key)
       (\<lambda>s. Ok (case s of None \<Rightarrow> False | Some s \<Rightarrow> map_of s m \<noteq> None))"

definition SCard :: "int \<Rightarrow> kvstore \<Rightarrow> string \<Rightarrow> int res" where
  "SCard now kv key =
     bind_res (set_read now kv key) (\<lambda>s. Ok (case s of None \<Rightarrow> 0 | Some s \<Rightarrow> int (length s)))"

text \<open>A nil set has no members.\<close>

definition nil_set :: "dbxSet option \<Rightarrow> dbxSet" where
  "nil_set s = (case s of None \<Rightarrow> [] | Some s \<Rightarrow> s)"

fun sinter_loop :: "int \<Rightarrow> kvstore \<Rightarrow> string list \<Rightarrow> dbxSet \<Rightarrow> dbxSet res" where
  "sinter_loop now kv [] result = Ok result"
| "sinter_loop now kv (k # ks) result =
     bind_res (set_read now kv k)
       (\<lambda>st. sinter_loop now kv ks (filter (\<lambda>(m, _). map_of (nil_set st) m \<noteq> None) result))"

definition SInter :: "int \<Rightarrow> kvstore \<Rightarrow> string list \<Rightarrow> bytes list res" where
  "SInter now kv keys =
     (case keys of
        [] \<Rightarrow> Ok []
      | k # ks \<Rightarrow>
          bind_res (set_read now kv k) (\<lambda>first. case first of
             None \<Rightarrow> Ok []
           | Some s \<Rightarrow> bind_res (sinter_loop now kv ks s) (\<lambda>r. Ok (map fst r))))"

fun sunion_loop :: "int \<Rightarrow> kvstore \<Rightarrow> string list \<Rightarrow> dbxSet \<Rightarrow> dbxSet res" where
  "sunion_loop now kv [] result = Ok result"
| "sunion_loop now kv (k # ks) result =
     bind_res (set_read now kv k)
       (\<lambda>st. sunion_loop now kv ks (foldl (\<lambda>r (m, _). AList.update m () r) result (nil_set st)))"

definition SUnion :: "int \<Rightarrow> kvstore \<Rightarrow> string list \<Rightarrow> bytes list res" where
  "SUnion now kv keys = bind_res (sunion_loop now kv keys []) (\<lambda>r. Ok (map fst r))"

fun sdiff_loop :: "int \<Rightarrow> kvstore \<Rightarrow> string list \<Rightarrow> dbxSet \<Rightarrow> dbxSet res" where
  "sdiff_loop now kv [] result = Ok result"
| "sdiff_loop now kv (k # ks) result =
     bind_res (set_read now kv k)
       (\<lambda>st. sdiff_loop now kv ks (foldl (\<lambda>r (m, _). AList.delete m r) result (nil_set st)))"

definition SDiff :: "int \<Rightarrow> kvstore \<Rightarrow> string list \<Rightarrow> bytes list res" where
  "SDiff now kv keys =
     (case keys of
        [] \<Rightarrow> Ok []
      | k # ks \<Rightarrow>
          bind_res (set_read now kv k) (\<lambda>first. case first of
             None \<Rightarrow> Ok []
           | Some s \<Rightarrow> bind_res (sdiff_loop now kv ks s) (\<lambda>r. Ok (map fst r))))"

text \<open>The members picked after the shuffle; a negative count panics in \<^verbatim>\<open>make\<close>.\<close>

definition pick :: "(string list \<Rightarrow> string list) \<Rightarrow> int \<Rightarrow> dbxSet \<Rightarrow> string list res" where
  "pick shuffle cnt s =
     (let ms = shuffle (map fst s);
          c = (if cnt > int (length ms) then int (length ms) else cnt)
      in if c < 0 then Panic else Ok (take (nat c) ms))"

definition SRandMember ::
  "(string list \<Rightarrow> string list) \<Rightarrow> int \<Rightarrow> kvstore \<Rightarrow> string \<Rightarrow> int \<Rightarrow> bytes list res" where
  "SRandMember shuffle now kv key cnt =
     bind_res (set_read now kv key)
       (\<lambda>s. case s of None \<Rightarrow> Ok [] | Some s \<Rightarrow> pick shuffle cnt s)"

definition spop_body ::
  "(string list \<Rightarrow> string list) \<Rightarrow> int \<Rightarrow> dbxSet \<Rightarrow> dbxSet \<times> bytes list res" where
  "spop_body shuffle cnt s =
     (case pick shuffle cnt s of
        Ok ms \<Rightarrow> (foldl (\<lambda>s m. AList.delete m s) s ms, Ok ms)
      | Err e \<Rightarrow> (s, Err e)
      | Panic \<Rightarrow> (s, Panic))"

definition SPop ::
  "(string list \<Rightarrow> string list) \<Rightarrow> int \<Rightarrow> kvstore \<Rightarrow> string \<Rightarrow> int \<Rightarrow> kvstore \<times> bytes list res" where
  "SPop shuffle now kv key cnt = set_modify now kv key (spop_body shuffle cnt)"

section \<open>The bodies\<close>

lemma members_None_iff: "map_of s k = None \<longleftrightarrow> k \<notin> members s"
  by (simp add: members_def map_of_eq_None_iff)

lemma card_members: "wf_map s \<Longrightarrow> card (members s) = length s"
  by (metis distinct_card length_map list.set_map members_def wf_map_def)

lemma members_dom: "members s = dom (map_of s)"
  by (simp add: members_def dom_map_of_conv_image_fst)

lemma members_update [simp]: "members (AList.update k () s) = insert k (members s)"
  unfolding members_dom dom_def by auto

lemma members_delete [simp]: "members (AList.delete k s) = members s - {k}"
  unfolding members_dom dom_def by auto

lemma sadd_body_spec:
  "wf_map s \<Longrightarrow> wf_map (fst (sadd_body ms n s)) \<and> members (fst (sadd_body ms n s)) = members s \<union> set ms
     \<and> snd (sadd_body ms n s) - n = int (length (fst (sadd_body ms n s))) - int (length s)"
proof (induction ms n s rule: sadd_body.induct)
  case (2 k ms added s)
  show ?case
  proof (cases "map_of s k")
    case None
    with 2 length_update_new [OF None, of "()"] show ?thesis by auto
  next
    case (Some u)
    then have "k \<in> members s" using members_None_iff [of s k] by auto
    with 2 Some show ?thesis by auto
  qed
qed simp

lemma srem_body_spec:
  "wf_map s \<Longrightarrow> wf_map (fst (srem_body ms n s)) \<and> members (fst (srem_body ms n s)) = members s - set ms
     \<and> snd (srem_body ms n s) - n = int (length s) - int (length (fst (srem_body ms n s)))"
proof (induction ms n s rule: srem_body.induct)
  case (2 k ms removed s)
  show ?case
  proof (cases "map_of s k")
    case None
    then have "k \<notin> members s" by (simp add: members_None_iff)
    with 2 None show ?thesis by auto
  next
    case (Some u)
    with 2 length_delete_present [OF 2(3) Some] show ?thesis by auto
  qed
qed simp

section \<open>On the keyspace\<close>

definition set_members :: "int \<Rightarrow> kvstore \<Rightarrow> string \<Rightarrow> string set" where
  "set_members now kv key = (case set_at now kv key of None \<Rightarrow> {} | Some s \<Rightarrow> members s)"

lemma set_read_at:
  assumes "store_inv kv" and "set_at now kv key = Some s"
  shows "\<exists>st. set_read now kv key = Ok st \<and> nil_set st = s \<and> wf_map s \<and> (st = None \<longrightarrow> s = [])"
proof -
  have "\<not> kv_Exists now kv key \<Longrightarrow> s = []"
    using assms(2) by (auto simp: content_def kv_Exists_def split: option.splits)
  then show ?thesis
    using assms set_store.content_wf [OF assms]
    by (auto simp: set_store.getReadOnly_content nil_set_def)
qed



lemma sinter_loop_spec:
  assumes "store_inv kv" and "\<forall>k \<in> set ks. set_at now kv k \<noteq> None" and "wf_map r"
  shows "\<exists>r'. sinter_loop now kv ks r = Ok r' \<and> wf_map r'
    \<and> members r' = members r \<inter> (\<Inter>k \<in> set ks. set_members now kv k)"
  using assms(2,3)
proof (induction ks arbitrary: r)
  case Nil
  then show ?case by simp
next
  case (Cons k ks)
  obtain s where s: "set_at now kv k = Some s" using Cons.prems by auto
  obtain st where st: "set_read now kv k = Ok st" "nil_set st = s" using set_read_at [OF assms(1) s] by blast
  let ?r = "filter (\<lambda>(m, _). map_of s m \<noteq> None) r"
  have "members ?r = members r \<inter> members s"
    by (force simp: members_def map_of_eq_None_iff)
  moreover have "\<exists>r'. sinter_loop now kv ks ?r = Ok r' \<and> wf_map r'
      \<and> members r' = members ?r \<inter> (\<Inter>k \<in> set ks. set_members now kv k)"
    using Cons.prems by (intro Cons.IH) (auto intro: wf_map_filter)
  ultimately show ?case using st by (auto simp: set_members_def s)
qed

lemma foldl_add_members:
  "wf_map r \<Longrightarrow> wf_map (foldl (\<lambda>r (m, _). AList.update m () r) r s)
     \<and> members (foldl (\<lambda>r (m, _). AList.update m () r) r s) = members r \<union> members s"
proof (induction s arbitrary: r)
  case Nil
  then show ?case by (simp add: members_def)
next
  case (Cons p s)
  have "members (p # s) = insert (fst p) (members s)" by (simp add: members_def)
  with Cons.IH [of "AList.update (fst p) () r"] Cons.prems show ?case by (simp add: case_prod_unfold)
qed

lemma foldl_del_members:
  "wf_map r \<Longrightarrow> wf_map (foldl (\<lambda>r (m, _). AList.delete m r) r s)
     \<and> members (foldl (\<lambda>r (m, _). AList.delete m r) r s) = members r - members s"
proof (induction s arbitrary: r)
  case Nil
  then show ?case by (simp add: members_def)
next
  case (Cons p s)
  have "members (p # s) = insert (fst p) (members s)" by (simp add: members_def)
  with Cons.IH [of "AList.delete (fst p) r"] Cons.prems show ?case by (auto simp: case_prod_unfold)
qed

lemma sunion_loop_spec:
  assumes "store_inv kv" and "\<forall>k \<in> set ks. set_at now kv k \<noteq> None" and "wf_map r"
  shows "\<exists>r'. sunion_loop now kv ks r = Ok r' \<and> wf_map r'
    \<and> members r' = members r \<union> (\<Union>k \<in> set ks. set_members now kv k)"
  using assms(2,3)
proof (induction ks arbitrary: r)
  case Nil
  then show ?case by simp
next
  case (Cons k ks)
  obtain s where s: "set_at now kv k = Some s" using Cons.prems by auto
  obtain st where st: "set_read now kv k = Ok st" "nil_set st = s" using set_read_at [OF assms(1) s] by blast
  let ?r = "foldl (\<lambda>r (m, _). AList.update m () r) r s"
  note f = foldl_add_members [OF Cons.prems(2), of s]
  have "\<exists>r'. sunion_loop now kv ks ?r = Ok r' \<and> wf_map r'
      \<and> members r' = members ?r \<union> (\<Union>k \<in> set ks. set_members now kv k)"
    using Cons.prems f by (intro Cons.IH) auto
  then show ?case using st f by (auto simp: set_members_def s)
qed

lemma sdiff_loop_spec:
  assumes "store_inv kv" and "\<forall>k \<in> set ks. set_at now kv k \<noteq> None" and "wf_map r"
  shows "\<exists>r'. sdiff_loop now kv ks r = Ok r' \<and> wf_map r'
    \<and> members r' = members r - (\<Union>k \<in> set ks. set_members now kv k)"
  using assms(2,3)
proof (induction ks arbitrary: r)
  case Nil
  then show ?case by simp
next
  case (Cons k ks)
  obtain s where s: "set_at now kv k = Some s" using Cons.prems by auto
  obtain st where st: "set_read now kv k = Ok st" "nil_set st = s" using set_read_at [OF assms(1) s] by blast
  let ?r = "foldl (\<lambda>r (m, _). AList.delete m r) r s"
  note f = foldl_del_members [OF Cons.prems(2), of s]
  have "\<exists>r'. sdiff_loop now kv ks ?r = Ok r' \<and> wf_map r'
      \<and> members r' = members ?r - (\<Union>k \<in> set ks. set_members now kv k)"
    using Cons.prems f by (intro Cons.IH) auto
  then show ?case using st f by (auto simp: set_members_def s)
qed

lemma keys_list: "wf_map r \<Longrightarrow> distinct (map fst r) \<and> set (map fst r) = members r"
  by (simp add: wf_map_def members_def)

text \<open>
  C26. \<^verbatim>\<open>SINTER\<close>, \<^verbatim>\<open>SUNION\<close> and \<^verbatim>\<open>SDIFF\<close> over keys that hold sets or do not exist return, without
  repetition, exactly the intersection, the union, and the first set minus all others.
\<close>

theorem set_algebra:
  assumes inv: "store_inv kv" and sets: "\<forall>j \<in> set (k # ks). set_at now kv j \<noteq> None"
  shows "\<exists>i u d. SInter now kv (k # ks) = Ok i \<and> SUnion now kv (k # ks) = Ok u
    \<and> SDiff now kv (k # ks) = Ok d \<and> distinct i \<and> distinct u \<and> distinct d
    \<and> set i = (\<Inter>j \<in> set (k # ks). set_members now kv j)
    \<and> set u = (\<Union>j \<in> set (k # ks). set_members now kv j)
    \<and> set d = set_members now kv k - (\<Union>j \<in> set ks. set_members now kv j)"
proof -
  obtain s where s: "set_at now kv k = Some s" using sets by auto
  obtain st where st: "set_read now kv k = Ok st" "nil_set st = s" "wf_map s" "st = None \<longrightarrow> s = []"
    using set_read_at [OF inv s] by blast
  have ks: "\<forall>j \<in> set ks. set_at now kv j \<noteq> None" using sets by simp
  obtain i where i: "sinter_loop now kv ks s = Ok i" "wf_map i"
    "members i = members s \<inter> (\<Inter>j \<in> set ks. set_members now kv j)"
    using sinter_loop_spec [OF inv ks st(3)] by blast
  obtain d where d: "sdiff_loop now kv ks s = Ok d" "wf_map d"
    "members d = members s - (\<Union>j \<in> set ks. set_members now kv j)"
    using sdiff_loop_spec [OF inv ks st(3)] by blast
  obtain u where u: "sunion_loop now kv (k # ks) [] = Ok u" "wf_map u"
    "members u = (\<Union>j \<in> set (k # ks). set_members now kv j)"
    using sunion_loop_spec [OF inv sets, of "[]"] by (auto simp: members_def)
  have m: "set_members now kv k = members s" by (simp add: set_members_def s)
  have e: "st = None \<Longrightarrow> members s = {}" using st(4) by (simp add: members_def)
  have I: "\<exists>x. SInter now kv (k # ks) = Ok x \<and> distinct x \<and> set x = members i"
  proof (cases st)
    case None
    with st e i show ?thesis by (auto simp: SInter_def)
  next
    case (Some s')
    with st i keys_list [OF i(2)] show ?thesis by (simp add: SInter_def nil_set_def)
  qed
  have D: "\<exists>x. SDiff now kv (k # ks) = Ok x \<and> distinct x \<and> set x = members d"
  proof (cases st)
    case None
    with st e d show ?thesis by (auto simp: SDiff_def)
  next
    case (Some s')
    with st d keys_list [OF d(2)] show ?thesis by (simp add: SDiff_def nil_set_def)
  qed
  have U: "\<exists>x. SUnion now kv (k # ks) = Ok x \<and> distinct x \<and> set x = members u"
    using u keys_list [OF u(2)] by (simp add: SUnion_def)
  from I D U show ?thesis unfolding i(3) d(3) u(3) m by (auto simp: m)
qed

theorem set_algebra_witness:
  "\<exists>i. SInter 1 (New 2) [''s'', ''t''] = Ok i \<and> set i = {}"
proof -
  have s: "set_at 1 (New 2) j = Some []" for j by (simp add: content_def kv_Get_def kv_find_New)
  then have "set_members 1 (New 2) j = {}" for j by (simp add: set_members_def members_def)
  then show ?thesis
    using set_algebra [OF store_inv_New [of 2], where k = "''s''" and ks = "[''t'']" and now = 1] s by auto
qed

lemma foldl_delete_members:
  "wf_map s \<Longrightarrow> wf_map (foldl (\<lambda>s m. AList.delete m s) s ms)
     \<and> members (foldl (\<lambda>s m. AList.delete m s) s ms) = members s - set ms"
proof (induction ms arbitrary: s)
  case (Cons m ms)
  from Cons.IH [of "AList.delete m s"] Cons.prems show ?case by auto
qed simp

text \<open>
  \<^verbatim>\<open>SPOP\<close> with a non-negative count, whatever permutation the shuffle picks: it returns distinct
  members, as many as asked for or all of them, and the set that stays is the old one without them.
\<close>

lemma set_pop_random:
  assumes inv: "store_inv kv" and s: "set_at now kv key = Some s" and "0 \<le> cnt"
    and perm: "mset (shuffle (map fst s)) = mset (map fst s)"
  shows "\<exists>ms. snd (SPop shuffle now kv key cnt) = Ok ms \<and> distinct ms \<and> set ms \<subseteq> members s
    \<and> int (length ms) = min cnt (int (card (members s)))
    \<and> set_members now (fst (SPop shuffle now kv key cnt)) key = members s - set ms"
proof -
  have wf: "wf_map s" by (rule set_store.content_wf [OF inv s])
  let ?ps = "shuffle (map fst s)"
  have len: "length ?ps = length s" using perm by (metis length_map size_mset)
  have dist: "distinct ?ps" and set: "set ?ps = members s"
    using perm keys_list [OF wf] by (metis distinct_count_atmost_1 set_mset_mset)+
  let ?c = "nat (min cnt (int (length s)))" and ?ms = "take (nat (min cnt (int (length s)))) ?ps"
  have p: "pick shuffle cnt s = Ok ?ms" using assms(3) len by (auto simp: pick_def Let_def min_def)
  have b: "spop_body shuffle cnt s = (foldl (\<lambda>s m. AList.delete m s) s ?ms, Ok ?ms)"
    by (simp add: spop_body_def p)
  note f = foldl_delete_members [OF wf, of ?ms]
  note P = set_store.modify_ok [of kv now key s "spop_body shuffle cnt", OF inv s b conjunct1 [OF f]]
  have "set ?ms \<subseteq> members s" using set set_take_subset by metis
  moreover have "int (length ?ms) = min cnt (int (card (members s)))"
    using len assms(3) card_members [OF wf] by (simp add: min_def) linarith
  moreover have "distinct ?ms" using dist by simp
  ultimately show ?thesis using P(1,2) f by (auto simp: SPop_def set_members_def)
qed

end
