(* ===== verification/SortSearch.thy ===== *)
theory SortSearch
  imports Prelude
begin

text \<open>
  \<^verbatim>\<open>sort.Search\<close> of the Go library, the binary search that the sorted sets and the hash ring call, and what it
  returns on a predicate that stays true once it is true.
\<close>

function search_loop :: "(nat \<Rightarrow> bool) \<Rightarrow> nat \<Rightarrow> nat \<Rightarrow> nat" where
  "search_loop f i j =
     (if i < j then
        let h = (i + j) div 2
        in if \<not> f h then search_loop f (h + 1) j else search_loop f i h
      else i)"
  by pat_completeness auto
termination
  by (relation "measure (\<lambda>(f, i, j). j - i)") auto

declare search_loop.simps [simp del]

definition go_Search :: "nat \<Rightarrow> (nat \<Rightarrow> bool) \<Rightarrow> nat" where
  "go_Search n f = search_loop f 0 n"

lemma search_loop_inv:
  assumes "\<forall>a b. a \<le> b \<and> b < n \<and> f a \<longrightarrow> f b"
  shows "i \<le> j \<Longrightarrow> j \<le> n \<Longrightarrow> (\<And>k. k < i \<Longrightarrow> \<not> f k) \<Longrightarrow> (\<And>k. j \<le> k \<Longrightarrow> k < n \<Longrightarrow> f k) \<Longrightarrow>
    search_loop f i j \<le> n \<and> (\<forall>k < search_loop f i j. \<not> f k)
      \<and> (\<forall>k. search_loop f i j \<le> k \<and> k < n \<longrightarrow> f k)"
  using assms
proof (induction f i j rule: search_loop.induct)
  case (1 f i j)
  let ?h = "(i + j) div 2"
  show ?case
  proof (cases "i < j")
    case False
    then have "search_loop f i j = i" by (simp add: search_loop.simps [of f i j])
    moreover have "i = j" using False 1(3) by simp
    ultimately show ?thesis using 1(4-6) by auto
  next
    case lt: True
    then have h: "i \<le> ?h" "?h < j" by auto
    show ?thesis
    proof (cases "f ?h")
      case True
      have "search_loop f i ?h \<le> n \<and> (\<forall>k < search_loop f i ?h. \<not> f k)
          \<and> (\<forall>k. search_loop f i ?h \<le> k \<and> k < n \<longrightarrow> f k)"
        using lt True h 1(4,5,7) by (intro 1(2)) auto
      with lt True show ?thesis by (simp add: search_loop.simps [of f i j] Let_def)
    next
      case False
      have below: "\<not> f k" if "k < ?h + 1" for k
      proof -
        have "k \<le> ?h" "?h < n" using that h(2) 1(4) by linarith+
        then show ?thesis using 1(7) False by blast
      qed
      have "search_loop f (?h + 1) j \<le> n \<and> (\<forall>k < search_loop f (?h + 1) j. \<not> f k)
          \<and> (\<forall>k. search_loop f (?h + 1) j \<le> k \<and> k < n \<longrightarrow> f k)"
        using lt False h 1(4,6,7) below by (intro 1(1)) auto
      with lt False show ?thesis by (simp add: search_loop.simps [of f i j] Let_def)
    qed
  qed
qed

lemma go_Search_spec:
  assumes "\<forall>a b. a \<le> b \<and> b < n \<and> f a \<longrightarrow> f b"
  shows "go_Search n f \<le> n" and "k < go_Search n f \<Longrightarrow> \<not> f k"
    and "go_Search n f \<le> k \<Longrightarrow> k < n \<Longrightarrow> f k"
proof -
  have "search_loop f 0 n \<le> n \<and> (\<forall>k < search_loop f 0 n. \<not> f k)
      \<and> (\<forall>k. search_loop f 0 n \<le> k \<and> k < n \<longrightarrow> f k)"
    by (rule search_loop_inv [OF assms]) auto
  then show "go_Search n f \<le> n" and "k < go_Search n f \<Longrightarrow> \<not> f k"
    and "go_Search n f \<le> k \<Longrightarrow> k < n \<Longrightarrow> f k"
    by (simp_all add: go_Search_def)
qed

end
