(* ===== verification/ZSetStore.thy ===== *)
theory ZSetStore
  imports SetStore SortSearch
begin

text \<open>
  The sorted sets of \<^verbatim>\<open>src/internal/engine/zset.go\<close>: a score map and a slice kept in order by binary search.
  The binary search is \<^verbatim>\<open>sort.Search\<close> of theory \<open>SortSearch\<close>. The representation invariant
  (\<open>zset_ok\<close>: the slice is strictly ordered by score, then member, and holds exactly the score map) is kept
  by every operation as long as no score is NaN; with a NaN it breaks.
\<close>

abbreviation empty_zset :: dbxZSet where "empty_zset \<equiv> \<lparr>z_scores = [], z_sorted = []\<rparr>"

abbreviation zset_modify ::
  "int \<Rightarrow> kvstore \<Rightarrow> string \<Rightarrow> (dbxZSet \<Rightarrow> dbxZSet \<times> 'r res) \<Rightarrow> kvstore \<times> 'r res" where
  "zset_modify \<equiv> modify TypeZSet VZSet as_zset empty_zset"

abbreviation zset_read :: "int \<Rightarrow> kvstore \<Rightarrow> string \<Rightarrow> dbxZSet option res" where
  "zset_read \<equiv> getReadOnly TypeZSet as_zset"

abbreviation zset_at :: "int \<Rightarrow> kvstore \<Rightarrow> string \<Rightarrow> dbxZSet option" where
  "zset_at \<equiv> content TypeZSet as_zset empty_zset"

section \<open>The ordered slice\<close>

definition at_or_after :: "string \<Rightarrow> f64 \<Rightarrow> zsetMember \<Rightarrow> bool" where
  "at_or_after member score x =
     (if \<not> f_eq (zm_Score x) score then f_lt score (zm_Score x) else zm_Member x \<ge> member)"

definition insertSorted :: "string \<Rightarrow> f64 \<Rightarrow> dbxZSet \<Rightarrow> dbxZSet" where
  "insertSorted member score z =
     (let i = go_Search (length (z_sorted z)) (\<lambda>i. at_or_after member score (z_sorted z ! i))
      in z\<lparr>z_sorted := take i (z_sorted z) @ [\<lparr>zm_Member = member, zm_Score = score\<rparr>]
             @ drop i (z_sorted z)\<rparr>)"

definition removeSorted :: "string \<Rightarrow> f64 \<Rightarrow> dbxZSet \<Rightarrow> dbxZSet" where
  "removeSorted member score z =
     (let i = go_Search (length (z_sorted z)) (\<lambda>i. at_or_after member score (z_sorted z ! i))
      in if i < length (z_sorted z) \<and> zm_Member (z_sorted z ! i) = member
         then z\<lparr>z_sorted := take i (z_sorted z) @ drop (i + 1) (z_sorted z)\<rparr> else z)"

definition zlt :: "zsetMember \<Rightarrow> zsetMember \<Rightarrow> bool" where
  "zlt x y \<longleftrightarrow> f_lt (zm_Score x) (zm_Score y) \<or> zm_Score x = zm_Score y \<and> zm_Member x < zm_Member y"

definition no_nan :: "zsetMember \<Rightarrow> bool" where
  "no_nan x \<longleftrightarrow> zm_Score x \<noteq> NaN"

lemma zlt_irrefl [simp]: "\<not> zlt x x"
  by (simp add: zlt_def)

lemma zlt_trans: "zlt x y \<Longrightarrow> zlt y z \<Longrightarrow> zlt x z"
  by (auto simp: zlt_def intro: f_lt_trans)

lemma zlt_linear: "no_nan x \<Longrightarrow> no_nan y \<Longrightarrow> zlt x y \<or> x = y \<or> zlt y x"
  using f_lt_linear [of "zm_Score x" "zm_Score y"] linorder_less_linear [of "zm_Member x" "zm_Member y"]
  by (auto simp: zlt_def no_nan_def intro: zsetMember.equality)

text \<open>Away from NaN the search predicate is "not before the target".\<close>

lemma at_or_after_zlt:
  assumes "no_nan x" and "score \<noteq> NaN"
  shows "at_or_after member score x \<longleftrightarrow> \<not> zlt x \<lparr>zm_Member = member, zm_Score = score\<rparr>"
proof (cases "zm_Score x = score")
  case True
  with assms show ?thesis by (auto simp: at_or_after_def zlt_def f_eq_iff)
next
  case False
  then have "f_lt score (zm_Score x) \<longleftrightarrow> \<not> f_lt (zm_Score x) score"
    using assms f_lt_linear [of score "zm_Score x"] f_lt_asym by (auto simp: no_nan_def)
  with False assms show ?thesis by (simp add: at_or_after_def zlt_def f_eq_iff no_nan_def)
qed

lemma search_split:
  fixes member :: string
  assumes sorted: "sorted_wrt zlt xs" and nn: "\<forall>x \<in> set xs. no_nan x" and score: "score \<noteq> NaN"
  defines "t \<equiv> \<lparr>zm_Member = member, zm_Score = score\<rparr>"
  defines "r \<equiv> go_Search (length xs) (\<lambda>i. at_or_after member score (xs ! i))"
  shows "r \<le> length xs" and "\<forall>x \<in> set (take r xs). zlt x t" and "\<forall>x \<in> set (drop r xs). \<not> zlt x t"
proof -
  have ge: "at_or_after member score (xs ! i) \<longleftrightarrow> \<not> zlt (xs ! i) t" if "i < length xs" for i
    unfolding t_def using that nn score by (intro at_or_after_zlt) auto
  have mono: "at_or_after member score (xs ! b)"
    if that: "a \<le> b" "b < length xs" "at_or_after member score (xs ! a)" for a b
  proof (cases "a = b")
    case True
    with that show ?thesis by simp
  next
    case False
    then have "zlt (xs ! a) (xs ! b)" using sorted that by (simp add: sorted_wrt_iff_nth_less)
    moreover have "\<not> zlt (xs ! a) t" using that ge [of a] by simp
    ultimately have "\<not> zlt (xs ! b) t" using zlt_trans by blast
    with ge [OF that(2)] show ?thesis by simp
  qed
  then have "\<forall>a b. a \<le> b \<and> b < length xs \<and> at_or_after member score (xs ! a)
      \<longrightarrow> at_or_after member score (xs ! b)" by blast
  note S = go_Search_spec [OF this]
  show "r \<le> length xs" unfolding r_def using S(1) by blast
  show "\<forall>x \<in> set (take r xs). zlt x t"
  proof
    fix x assume "x \<in> set (take r xs)"
    then obtain k where "k < r" "k < length xs" "x = xs ! k" by (auto simp: in_set_conv_nth)
    then show "zlt x t" using S(2) [of k] ge unfolding r_def by blast
  qed
  show "\<forall>x \<in> set (drop r xs). \<not> zlt x t"
  proof
    fix x assume "x \<in> set (drop r xs)"
    then obtain k where k: "k < length xs - r" "x = drop r xs ! k" by (auto simp: in_set_conv_nth)
    then have "r + k < length xs" "x = xs ! (r + k)" by simp_all
    then show "\<not> zlt x t" using S(3) [of "r + k"] ge unfolding r_def by simp
  qed
qed

lemma insertSorted_sorted:
  assumes "sorted_wrt zlt (z_sorted z)" and "\<forall>x \<in> set (z_sorted z). no_nan x" and "score \<noteq> NaN"
    and "\<lparr>zm_Member = member, zm_Score = score\<rparr> \<notin> set (z_sorted z)"
  shows "sorted_wrt zlt (z_sorted (insertSorted member score z))"
    and "set (z_sorted (insertSorted member score z))
      = insert \<lparr>zm_Member = member, zm_Score = score\<rparr> (set (z_sorted z))"
proof -
  let ?xs = "z_sorted z" and ?t = "\<lparr>zm_Member = member, zm_Score = score\<rparr>"
  let ?r = "go_Search (length ?xs) (\<lambda>i. at_or_after member score (?xs ! i))"
  note S = search_split [OF assms(1,2,3), of member]
  have z: "z_sorted (insertSorted member score z) = take ?r ?xs @ [?t] @ drop ?r ?xs"
    by (simp add: insertSorted_def Let_def)
  have after: "zlt ?t x" if "x \<in> set (drop ?r ?xs)" for x
  proof -
    have "x \<in> set ?xs" using that by (meson in_set_dropD)
    then have "x \<noteq> ?t" "no_nan x" using assms(2,4) by auto
    moreover have "\<not> zlt x ?t" using S(3) that by blast
    ultimately show ?thesis using zlt_linear [of x ?t] assms(3) by (auto simp: no_nan_def)
  qed
  have "sorted_wrt zlt (take ?r ?xs @ drop ?r ?xs)" using assms(1) by simp
  then have "sorted_wrt zlt (take ?r ?xs)" "sorted_wrt zlt (drop ?r ?xs)"
    "\<forall>x \<in> set (take ?r ?xs). \<forall>y \<in> set (drop ?r ?xs). zlt x y"
    unfolding sorted_wrt_append by blast+
  then show "sorted_wrt zlt (z_sorted (insertSorted member score z))"
    unfolding z using S(2) after by (auto simp: sorted_wrt_append)
  have "set ?xs = set (take ?r ?xs) \<union> set (drop ?r ?xs)" by (metis append_take_drop_id set_append)
  then show "set (z_sorted (insertSorted member score z)) = insert ?t (set ?xs)"
    unfolding z by auto
qed

lemma removeSorted_sorted:
  assumes "sorted_wrt zlt (z_sorted z)" and "\<forall>x \<in> set (z_sorted z). no_nan x"
    and t: "\<lparr>zm_Member = member, zm_Score = score\<rparr> \<in> set (z_sorted z)"
  shows "sorted_wrt zlt (z_sorted (removeSorted member score z))"
    and "set (z_sorted (removeSorted member score z))
      = set (z_sorted z) - {\<lparr>zm_Member = member, zm_Score = score\<rparr>}"
proof -
  let ?xs = "z_sorted z" and ?t = "\<lparr>zm_Member = member, zm_Score = score\<rparr>"
  let ?r = "go_Search (length ?xs) (\<lambda>i. at_or_after member score (?xs ! i))"
  have score: "score \<noteq> NaN" using assms(2) t by (auto simp: no_nan_def)
  note S = search_split [OF assms(1,2) score, of member]
  obtain ys where xs: "?xs = take ?r ?xs @ ?t # ys" and drop: "drop ?r ?xs = ?t # ys"
  proof -
    have "?t \<in> set (drop ?r ?xs)"
      using t S(2) by (metis Un_iff append_take_drop_id set_append zlt_irrefl)
    then obtain d ds where d: "drop ?r ?xs = d # ds" by (cases "drop ?r ?xs") auto
    have "sorted_wrt zlt (drop ?r ?xs)" using assms(1) by (simp add: sorted_wrt_drop)
    then have "d = ?t \<or> zlt d ?t" using d \<open>?t \<in> set (drop ?r ?xs)\<close> by auto
    moreover have "\<not> zlt d ?t" using S(3) d by simp
    ultimately have "d = ?t" by blast
    then show thesis using that [of ds] d by (metis append_take_drop_id)
  qed
  have rl: "?r < length ?xs" using drop by (metis drop_all linorder_not_le list.distinct(1))
  have at: "?xs ! ?r = ?t" using drop rl by (metis Cons_nth_drop_Suc list.inject)
  have ys: "drop (?r + 1) ?xs = ys" using drop rl by (metis Cons_nth_drop_Suc Suc_eq_plus1 list.inject)
  have z: "z_sorted (removeSorted member score z) = take ?r ?xs @ ys"
    using rl at ys by (simp add: removeSorted_def Let_def)
  have s: "sorted_wrt zlt (take ?r ?xs @ ?t # ys)" using assms(1) xs by simp
  then show "sorted_wrt zlt (z_sorted (removeSorted member score z))"
    unfolding z by (simp add: sorted_wrt_append)
  have "?t \<notin> set (take ?r ?xs)" "?t \<notin> set ys"
    using s zlt_irrefl by (auto simp: sorted_wrt_append)
  moreover have "set ?xs = set (take ?r ?xs) \<union> insert ?t (set ys)"
    by (metis xs set_append list.simps(15))
  ultimately show "set (z_sorted (removeSorted member score z)) = set ?xs - {?t}"
    unfolding z by auto
qed

section \<open>Operations\<close>

fun zadd_body :: "(string, f64) gomap \<Rightarrow> int \<Rightarrow> dbxZSet \<Rightarrow> dbxZSet \<times> int" where
  "zadd_body [] added z = (z, added)"
| "zadd_body ((member, score) # ms) added z =
     (let (z1, n) = (case map_of (z_scores z) member of
                       Some old \<Rightarrow> (removeSorted member old z, added)
                     | None \<Rightarrow> (z, added + 1));
          z2 = z1\<lparr>z_scores := AList.update member score (z_scores z1)\<rparr>
      in zadd_body ms n (insertSorted member score z2))"

definition ZAdd :: "int \<Rightarrow> kvstore \<Rightarrow> string \<Rightarrow> (string, f64) gomap \<Rightarrow> kvstore \<times> int res" where
  "ZAdd now kv key ms =
     zset_modify now kv key (\<lambda>z. let (z', n) = zadd_body ms 0 z in (z', Ok n))"

fun zrem_body :: "string list \<Rightarrow> int \<Rightarrow> dbxZSet \<Rightarrow> dbxZSet \<times> int" where
  "zrem_body [] removed z = (z, removed)"
| "zrem_body (member # ms) removed z =
     (case map_of (z_scores z) member of
        Some score \<Rightarrow>
          zrem_body ms (removed + 1)
            (removeSorted member score (z\<lparr>z_scores := AList.delete member (z_scores z)\<rparr>))
      | None \<Rightarrow> zrem_body ms removed z)"

definition ZRem :: "int \<Rightarrow> kvstore \<Rightarrow> string \<Rightarrow> string list \<Rightarrow> kvstore \<times> int res" where
  "ZRem now kv key ms =
     zset_modify now kv key (\<lambda>z. let (z', n) = zrem_body ms 0 z in (z', Ok n))"

definition ZScore :: "int \<Rightarrow> kvstore \<Rightarrow> string \<Rightarrow> string \<Rightarrow> (f64 \<times> bool) res" where
  "ZScore now kv key member =
     bind_res (zset_read now kv key) (\<lambda>z. Ok (case z of
        None \<Rightarrow> (Fin 0, False)
      | Some z \<Rightarrow> (case map_of (z_scores z) member of None \<Rightarrow> (Fin 0, False) | Some s \<Rightarrow> (s, True))))"

fun index_of :: "string \<Rightarrow> zsetMember list \<Rightarrow> nat option" where
  "index_of member [] = None"
| "index_of member (x # xs) =
     (if zm_Member x = member then Some 0 else map_option Suc (index_of member xs))"

definition ZRank :: "int \<Rightarrow> kvstore \<Rightarrow> string \<Rightarrow> string \<Rightarrow> (int \<times> bool) res" where
  "ZRank now kv key member =
     bind_res (zset_read now kv key) (\<lambda>z. Ok (case z of
        None \<Rightarrow> (0, False)
      | Some z \<Rightarrow> (case index_of member (z_sorted z) of None \<Rightarrow> (0, False) | Some i \<Rightarrow> (int i, True))))"

definition ZRevRank :: "int \<Rightarrow> kvstore \<Rightarrow> string \<Rightarrow> string \<Rightarrow> (int \<times> bool) res" where
  "ZRevRank now kv key member =
     bind_res (ZRank now kv key member) (\<lambda>(rank, ok).
       if \<not> ok then Ok (0, ok)
       else (case zset_read now kv key of
               Ok (Some z) \<Rightarrow> Ok (int (length (z_sorted z)) - 1 - rank, True)
             | _ \<Rightarrow> Panic))"

definition ZRange :: "int \<Rightarrow> kvstore \<Rightarrow> string \<Rightarrow> int \<Rightarrow> int \<Rightarrow> zsetMember list res" where
  "ZRange now kv key start stop =
     bind_res (zset_read now kv key) (\<lambda>z. Ok (case z of
        None \<Rightarrow> []
      | Some z \<Rightarrow>
          let n = int (length (z_sorted z)); s = norm_start n start; e = norm_end n stop
          in if s > e then [] else subslice (z_sorted z) (nat s) (nat (e + 1))))"

definition ZRangeByScore :: "int \<Rightarrow> kvstore \<Rightarrow> string \<Rightarrow> f64 \<Rightarrow> f64 \<Rightarrow> zsetMember list res" where
  "ZRangeByScore now kv key lo hi =
     bind_res (zset_read now kv key) (\<lambda>z. Ok (case z of
        None \<Rightarrow> []
      | Some z \<Rightarrow> filter (\<lambda>m. f_le lo (zm_Score m) \<and> f_le (zm_Score m) hi) (z_sorted z)))"

definition ZCard :: "int \<Rightarrow> kvstore \<Rightarrow> string \<Rightarrow> int res" where
  "ZCard now kv key =
     bind_res (zset_read now kv key)
       (\<lambda>z. Ok (case z of None \<Rightarrow> 0 | Some z \<Rightarrow> int (length (z_scores z))))"

definition zincrby_body :: "string \<Rightarrow> f64 \<Rightarrow> dbxZSet \<Rightarrow> dbxZSet \<times> f64 res" where
  "zincrby_body member delta z =
     (let old = map_of (z_scores z) member;
          z1 = (case old of Some s \<Rightarrow> removeSorted member s z | None \<Rightarrow> z);
          score = f_add (case old of Some s \<Rightarrow> s | None \<Rightarrow> Fin 0) delta;
          z2 = z1\<lparr>z_scores := AList.update member score (z_scores z1)\<rparr>
      in (insertSorted member score z2, Ok score))"

definition ZIncrBy :: "int \<Rightarrow> kvstore \<Rightarrow> string \<Rightarrow> string \<Rightarrow> f64 \<Rightarrow> kvstore \<times> f64 res" where
  "ZIncrBy now kv key member delta = zset_modify now kv key (zincrby_body member delta)"

definition ZCount :: "int \<Rightarrow> kvstore \<Rightarrow> string \<Rightarrow> f64 \<Rightarrow> f64 \<Rightarrow> int res" where
  "ZCount now kv key lo hi =
     bind_res (ZRangeByScore now kv key lo hi) (\<lambda>ms. Ok (int (length ms)))"

section \<open>The representation invariant\<close>

definition zset_ok :: "dbxZSet \<Rightarrow> bool" where
  "zset_ok z \<longleftrightarrow> wf_map (z_scores z) \<and> sorted_wrt zlt (z_sorted z) \<and> (\<forall>x \<in> set (z_sorted z). no_nan x)
     \<and> (\<lambda>x. (zm_Member x, zm_Score x)) ` set (z_sorted z) = set (z_scores z)"

lemma mk_member [simp]: "\<lparr>zm_Member = zm_Member x, zm_Score = zm_Score x\<rparr> = x"
  by (rule zsetMember.equality) simp_all

lemma zset_ok_mem:
  assumes "zset_ok z"
  shows "\<lparr>zm_Member = m, zm_Score = s\<rparr> \<in> set (z_sorted z) \<longleftrightarrow> map_of (z_scores z) m = Some s"
proof -
  have "map_of (z_scores z) m = Some s \<longleftrightarrow> (m, s) \<in> (\<lambda>x. (zm_Member x, zm_Score x)) ` set (z_sorted z)"
    using assms by (simp add: zset_ok_def map_of_iff_mem)
  also have "\<dots> \<longleftrightarrow> \<lparr>zm_Member = m, zm_Score = s\<rparr> \<in> set (z_sorted z)"
    by (force simp: image_iff)
  finally show ?thesis by simp
qed

lemma sorted_sel [simp]:
  "z_scores (insertSorted m s z) = z_scores z" "z_scores (removeSorted m s z) = z_scores z"
  "z_sorted (insertSorted m s (z\<lparr>z_scores := sc\<rparr>)) = z_sorted (insertSorted m s z)"
  "z_sorted (removeSorted m s (z\<lparr>z_scores := sc\<rparr>)) = z_sorted (removeSorted m s z)"
  by (simp_all add: insertSorted_def removeSorted_def Let_def)

text \<open>The pairs of a representation, given what is in the slice.\<close>

lemma zset_okI:
  assumes "wf_map (z_scores z)" and "sorted_wrt zlt (z_sorted z)" and "\<forall>x \<in> set (z_sorted z). no_nan x"
    and "\<And>m s. \<lparr>zm_Member = m, zm_Score = s\<rparr> \<in> set (z_sorted z) \<longleftrightarrow> map_of (z_scores z) m = Some s"
  shows "zset_ok z"
proof -
  have "(m, s) \<in> (\<lambda>x. (zm_Member x, zm_Score x)) ` set (z_sorted z) \<longleftrightarrow> (m, s) \<in> set (z_scores z)" for m s
  proof -
    have "(m, s) \<in> (\<lambda>x. (zm_Member x, zm_Score x)) ` set (z_sorted z)
        \<longleftrightarrow> \<lparr>zm_Member = m, zm_Score = s\<rparr> \<in> set (z_sorted z)" by (force simp: image_iff)
    with assms(1,4) show ?thesis by (simp add: map_of_iff_mem)
  qed
  then have "(\<lambda>x. (zm_Member x, zm_Score x)) ` set (z_sorted z) = set (z_scores z)" by auto
  with assms(1-3) show ?thesis by (simp add: zset_ok_def)
qed

lemma zset_remove_ok:
  assumes ok: "zset_ok z" and old: "map_of (z_scores z) m = Some s"
  shows "zset_ok (removeSorted m s (z\<lparr>z_scores := AList.delete m (z_scores z)\<rparr>))"
proof -
  have t: "\<lparr>zm_Member = m, zm_Score = s\<rparr> \<in> set (z_sorted z)" using zset_ok_mem [OF ok] old by simp
  have p: "sorted_wrt zlt (z_sorted z)" "\<forall>x \<in> set (z_sorted z). no_nan x" "wf_map (z_scores z)"
    using ok by (auto simp: zset_ok_def)
  note R = removeSorted_sorted [OF p(1,2) t]
  show ?thesis
    by (rule zset_okI) (use p R zset_ok_mem [OF ok] old in auto)
qed

text \<open>Putting a score, as \<^verbatim>\<open>ZAdd\<close> and \<^verbatim>\<open>ZIncrBy\<close> do: take the old pair out of the slice, store the score, put
  the new pair in.\<close>

definition zput :: "string \<Rightarrow> f64 \<Rightarrow> dbxZSet \<Rightarrow> dbxZSet" where
  "zput m s z =
     (let z1 = (case map_of (z_scores z) m of Some old \<Rightarrow> removeSorted m old z | None \<Rightarrow> z)
      in insertSorted m s (z1\<lparr>z_scores := AList.update m s (z_scores z1)\<rparr>))"

lemma zput_ok:
  assumes ok: "zset_ok z" and s: "s \<noteq> NaN"
  shows "zset_ok (zput m s z)" and "z_scores (zput m s z) = AList.update m s (z_scores z)"
proof -
  let ?z1 = "case map_of (z_scores z) m of Some old \<Rightarrow> removeSorted m old z | None \<Rightarrow> z"
  have p: "sorted_wrt zlt (z_sorted z)" "\<forall>x \<in> set (z_sorted z). no_nan x" "wf_map (z_scores z)"
    using ok by (auto simp: zset_ok_def)
  have z1: "sorted_wrt zlt (z_sorted ?z1)" "\<forall>x \<in> set (z_sorted ?z1). no_nan x"
    "\<And>m' s'. \<lparr>zm_Member = m', zm_Score = s'\<rparr> \<in> set (z_sorted ?z1)
      \<longleftrightarrow> m' \<noteq> m \<and> map_of (z_scores z) m' = Some s'"
  proof -
    have "sorted_wrt zlt (z_sorted ?z1) \<and> (\<forall>x \<in> set (z_sorted ?z1). no_nan x)
      \<and> (\<forall>m' s'. \<lparr>zm_Member = m', zm_Score = s'\<rparr> \<in> set (z_sorted ?z1)
        \<longleftrightarrow> m' \<noteq> m \<and> map_of (z_scores z) m' = Some s')"
    proof (cases "map_of (z_scores z) m")
      case None
      with p zset_ok_mem [OF ok] show ?thesis by auto
    next
      case (Some old)
      then have t: "\<lparr>zm_Member = m, zm_Score = old\<rparr> \<in> set (z_sorted z)" using zset_ok_mem [OF ok] by simp
      from removeSorted_sorted [OF p(1,2) t] Some p(2) zset_ok_mem [OF ok] show ?thesis by auto
    qed
    then show "sorted_wrt zlt (z_sorted ?z1)" "\<forall>x \<in> set (z_sorted ?z1). no_nan x"
      "\<And>m' s'. \<lparr>zm_Member = m', zm_Score = s'\<rparr> \<in> set (z_sorted ?z1)
        \<longleftrightarrow> m' \<noteq> m \<and> map_of (z_scores z) m' = Some s'" by blast+
  qed
  have sc: "z_scores ?z1 = z_scores z" by (simp split: option.splits)
  show scores: "z_scores (zput m s z) = AList.update m s (z_scores z)" by (simp add: zput_def Let_def sc)
  have new: "\<lparr>zm_Member = m, zm_Score = s\<rparr> \<notin> set (z_sorted ?z1)" using z1(3) by simp
  note I = insertSorted_sorted [OF z1(1,2) s new]
  have srt: "z_sorted (zput m s z) = z_sorted (insertSorted m s ?z1)" by (simp add: zput_def Let_def)
  show "zset_ok (zput m s z)"
  proof (rule zset_okI, unfold scores srt)
    show "wf_map (AList.update m s (z_scores z))" using p(3) by simp
    show "sorted_wrt zlt (z_sorted (insertSorted m s ?z1))" by (rule I(1))
    show "\<forall>x \<in> set (z_sorted (insertSorted m s ?z1)). no_nan x"
      using I(2) z1(2) s by (simp add: no_nan_def)
    show "\<lparr>zm_Member = m', zm_Score = s'\<rparr> \<in> set (z_sorted (insertSorted m s ?z1))
        \<longleftrightarrow> map_of (AList.update m s (z_scores z)) m' = Some s'" for m' s'
      unfolding I(2) using z1(3) by auto
  qed
qed

lemma zadd_body_step:
  "zadd_body ((m, s) # ms) n z = zadd_body ms (if map_of (z_scores z) m = None then n + 1 else n) (zput m s z)"
  by (simp add: zput_def Let_def split: option.splits)

lemma zadd_body_ok:
  "zset_ok z \<Longrightarrow> \<forall>p \<in> set ms. snd p \<noteq> NaN \<Longrightarrow>
     zset_ok (fst (zadd_body ms n z)) \<and> map_of (z_scores (fst (zadd_body ms n z))) = map_of (z_scores z) ++ map_of (rev ms)
     \<and> snd (zadd_body ms n z) - n = int (length (z_scores (fst (zadd_body ms n z)))) - int (length (z_scores z))"
proof (induction ms arbitrary: n z)
  case Nil
  then show ?case by simp
next
  case (Cons p ms)
  obtain m s where p: "p = (m, s)" by (cases p)
  have s: "s \<noteq> NaN" using Cons.prems p by simp
  note P = zput_ok [OF Cons.prems(1) s, of m]
  have len: "int (length (AList.update m s (z_scores z)))
      = int (length (z_scores z)) + (if map_of (z_scores z) m = None then 1 else 0)"
    using length_update_new [of "z_scores z" m s] length_update_old [of "z_scores z" m _ s]
    by (cases "map_of (z_scores z) m") auto
  have up: "map_of (AList.update m s (z_scores z)) = (map_of (z_scores z))(m \<mapsto> s)" by (auto simp: fun_eq_iff)
  let ?n = "if map_of (z_scores z) m = None then n + 1 else n"
  have "zset_ok (fst (zadd_body ms ?n (zput m s z)))
     \<and> map_of (z_scores (fst (zadd_body ms ?n (zput m s z)))) = map_of (z_scores (zput m s z)) ++ map_of (rev ms)
     \<and> snd (zadd_body ms ?n (zput m s z)) - ?n
       = int (length (z_scores (fst (zadd_body ms ?n (zput m s z))))) - int (length (z_scores (zput m s z)))"
    using Cons.prems by (intro Cons.IH P(1)) simp
  then show ?case
    unfolding p zadd_body_step using P(2) len up
    by (auto simp: map_add_def fun_eq_iff split: option.splits if_splits)
qed

lemma zrem_body_ok:
  "zset_ok z \<Longrightarrow> zset_ok (fst (zrem_body ms n z))
     \<and> map_of (z_scores (fst (zrem_body ms n z))) = map_of (z_scores z) |` (- set ms)"
proof (induction ms n z rule: zrem_body.induct)
  case (1 removed z)
  then show ?case by simp
next
  case (2 member ms removed z)
  show ?case
  proof (cases "map_of (z_scores z) member")
    case None
    with 2 show ?thesis by (auto simp: restrict_map_def fun_eq_iff)
  next
    case (Some score)
    with 2(2) [OF Some] zset_remove_ok [OF 2(3) Some] show ?thesis
      by (auto simp: restrict_map_def fun_eq_iff)
  qed
qed

section \<open>On the keyspace\<close>

lemma zput_scores: "z_scores (zput m s z) = AList.update m s (z_scores z)"
  by (simp add: zput_def Let_def split: option.splits)

lemma wf_zset_ops:
  "wf_zset z \<Longrightarrow> wf_zset (fst (zadd_body ms n z))"
  "wf_zset z \<Longrightarrow> wf_zset (fst (zrem_body ks n z))"
  "wf_zset z \<Longrightarrow> wf_zset (fst (zincrby_body m d z))"
proof -
  show "wf_zset z \<Longrightarrow> wf_zset (fst (zadd_body ms n z))"
  proof (induction ms arbitrary: n z)
    case (Cons p ms)
    obtain m s where p: "p = (m, s)" by (cases p)
    have "wf_zset (zput m s z)" using Cons.prems by (simp add: wf_zset_def zput_scores)
    then show ?case unfolding p zadd_body_step by (rule Cons.IH)
  qed simp
  show "wf_zset z \<Longrightarrow> wf_zset (fst (zrem_body ks n z))"
    by (induction ks n z rule: zrem_body.induct) (auto simp: wf_zset_def split: option.splits)
  show "wf_zset z \<Longrightarrow> wf_zset (fst (zincrby_body m d z))"
    by (simp add: zincrby_body_def wf_zset_def Let_def split: option.splits)
qed

lemma zincrby_zput:
  "zincrby_body m d z = (let s = f_add (case map_of (z_scores z) m of Some s \<Rightarrow> s | None \<Rightarrow> Fin 0) d
     in (zput m s z, Ok s))"
  by (simp add: zincrby_body_def zput_def Let_def)

lemma zset_run:
  assumes "store_inv kv" and "zset_at now kv key = Some z" and "wf_zset (fst (body z))"
  shows "zset_at now (fst (zset_modify now kv key body)) key = Some (fst (body z))"
    and "snd (zset_modify now kv key body) = snd (body z)"
    and "store_inv (fst (zset_modify now kv key body))"
  using zset_store.modify_run [where kv = kv and now = now and key = key and x = z and body = body] assms
  by simp_all

text \<open>
  C15. Sorted sets stay sorted. \<^verbatim>\<open>ZADD\<close> with scores that are not NaN, and \<^verbatim>\<open>ZREM\<close>, keep the slice strictly
  ordered by score and then member and in step with the score map; \<^verbatim>\<open>ZADD\<close> overrides exactly the given
  members and replies how many were new, \<^verbatim>\<open>ZREM\<close> removes exactly the given members.
\<close>

theorem zset_add_rem:
  assumes inv: "store_inv kv" and z: "zset_at now kv key = Some z" and ok: "zset_ok z"
    and nn: "\<forall>p \<in> set ms. snd p \<noteq> NaN"
  shows "(\<exists>z'. zset_at now (fst (ZAdd now kv key ms)) key = Some z' \<and> zset_ok z'
        \<and> map_of (z_scores z') = map_of (z_scores z) ++ map_of (rev ms)
        \<and> snd (ZAdd now kv key ms) = Ok (int (length (z_scores z')) - int (length (z_scores z))))
    \<and> (\<exists>z'. zset_at now (fst (ZRem now kv key ks)) key = Some z' \<and> zset_ok z'
        \<and> map_of (z_scores z') = map_of (z_scores z) |` (- set ks))"
proof -
  have wf: "wf_zset z" by (rule zset_store.content_wf [OF inv z])
  note A = zadd_body_ok [OF ok nn, of 0] and R = zrem_body_ok [OF ok, of ks 0]
  let ?a = "\<lambda>z. let (z', n) = zadd_body ms 0 z in (z', Ok n :: int res)"
  let ?r = "\<lambda>z. let (z', n) = zrem_body ks 0 z in (z', Ok n :: int res)"
  have a: "fst (?a z) = fst (zadd_body ms 0 z)" "snd (?a z) = Ok (snd (zadd_body ms 0 z))"
    and r: "fst (?r z) = fst (zrem_body ks 0 z)" by (simp_all add: case_prod_unfold Let_def)
  have "wf_zset (fst (?a z))" "wf_zset (fst (?r z))"
    unfolding a r using wf by (auto intro: wf_zset_ops)
  note za = zset_run [of kv now key z ?a, OF inv z this(1)] and zr = zset_run [of kv now key z ?r, OF inv z this(2)]
  from za(1,2) zr(1) A R show ?thesis unfolding a r by (auto simp: ZAdd_def ZRem_def)
qed

theorem zset_add_rem_witness:
  "snd (ZAdd 1 (New 2) ''z'' [(''b'', Fin 2), (''a'', Fin 1)]) = Ok 2"
proof -
  have z: "zset_at 1 (New 2) ''z'' = Some empty_zset" by (simp add: content_def kv_Get_def kv_find_New)
  have ok: "zset_ok empty_zset" by (simp add: zset_ok_def)
  obtain z' where z': "zset_ok z'" "map_of (z_scores z') = map_of (rev [(''b'', Fin 2), (''a'', Fin 1)])"
    "snd (ZAdd 1 (New 2) ''z'' [(''b'', Fin 2), (''a'', Fin 1)]) = Ok (int (length (z_scores z')))"
    using zset_add_rem [OF store_inv_New z ok, of "[(''b'', Fin 2), (''a'', Fin 1)]" "[]"] by auto
  have "dom (map_of (z_scores z')) = {''a'', ''b''}" unfolding z'(2) by auto
  moreover have "length (z_scores z') = card (dom (map_of (z_scores z')))"
    using z'(1) by (simp add: length_map_card zset_ok_def)
  ultimately show ?thesis using z'(3) by simp
qed

text \<open>
  \<^verbatim>\<open>ZINCRBY\<close> stores the rounded sum of the old score (zero for a new member) and the increment, replies
  it, and keeps the sorted set in order, unless that sum is NaN.
\<close>

lemma zset_incrby:
  assumes inv: "store_inv kv" and z: "zset_at now kv key = Some z" and ok: "zset_ok z"
    and nn: "f_add (case map_of (z_scores z) m of Some s \<Rightarrow> s | None \<Rightarrow> Fin 0) d \<noteq> NaN"
  shows "\<exists>z' s. s = f_add (case map_of (z_scores z) m of Some s \<Rightarrow> s | None \<Rightarrow> Fin 0) d
    \<and> snd (ZIncrBy now kv key m d) = Ok s
    \<and> zset_at now (fst (ZIncrBy now kv key m d)) key = Some z' \<and> zset_ok z'
    \<and> map_of (z_scores z') = (map_of (z_scores z))(m \<mapsto> s)"
proof -
  let ?s = "f_add (case map_of (z_scores z) m of Some s \<Rightarrow> s | None \<Rightarrow> Fin 0) d"
  have b: "zincrby_body m d z = (zput m ?s z, Ok ?s)" by (simp add: zincrby_zput Let_def)
  have "wf_zset (fst (zincrby_body m d z))"
    using zset_store.content_wf [OF inv z] by (rule wf_zset_ops)
  note r = zset_run [of kv now key z "zincrby_body m d", OF inv z this]
  have "map_of (AList.update m ?s (z_scores z)) = (map_of (z_scores z))(m \<mapsto> ?s)" by (auto simp: fun_eq_iff)
  with r zput_ok [OF ok nn, of m] show ?thesis by (auto simp: ZIncrBy_def b)
qed

subsection \<open>Ranks and ranges\<close>

lemma index_of_Some:
  "index_of m xs = Some i \<longleftrightarrow> i < length xs \<and> zm_Member (xs ! i) = m \<and> (\<forall>j < i. zm_Member (xs ! j) \<noteq> m)"
proof (induction xs arbitrary: i)
  case Nil
  then show ?case by simp
next
  case (Cons x xs)
  show ?case by (cases i) (auto simp: Cons.IH nth_Cons less_Suc_eq_0_disj split: nat.splits)
qed

lemma index_of_None: "index_of m xs = None \<longleftrightarrow> m \<notin> zm_Member ` set xs"
  by (induction xs) auto

lemma zset_members_distinct:
  assumes "zset_ok z"
  shows "distinct (map zm_Member (z_sorted z))"
proof -
  have "x = y" if "x \<in> set (z_sorted z)" "y \<in> set (z_sorted z)" "zm_Member x = zm_Member y" for x y
  proof -
    have "map_of (z_scores z) (zm_Member x) = Some (zm_Score x)"
      using that(1) zset_ok_mem [OF assms, of "zm_Member x" "zm_Score x"] by (simp only: mk_member)
    moreover have "map_of (z_scores z) (zm_Member y) = Some (zm_Score y)"
      using that(2) zset_ok_mem [OF assms, of "zm_Member y" "zm_Score y"] by (simp only: mk_member)
    ultimately show ?thesis using that(3) by (intro zsetMember.equality) simp_all
  qed
  then have "inj_on zm_Member (set (z_sorted z))" by (auto simp: inj_on_def)
  moreover have "sorted_wrt zlt xs \<Longrightarrow> distinct xs" for xs
    by (induction xs) auto
  then have "distinct (z_sorted z)" using assms by (simp add: zset_ok_def)
  ultimately show ?thesis by (simp add: distinct_map)
qed

lemma zset_length:
  assumes "zset_ok z"
  shows "length (z_sorted z) = length (z_scores z)"
proof -
  have "length (z_sorted z) = card (zm_Member ` set (z_sorted z))"
    using zset_members_distinct [OF assms] by (metis distinct_card length_map list.set_map)
  also have "zm_Member ` set (z_sorted z) = fst ` set (z_scores z)"
    using assms by (simp add: zset_ok_def image_image [symmetric] flip: image_comp) (metis (no_types, lifting) fst_conv image_cong image_image)
  also have "card (fst ` set (z_scores z)) = length (z_scores z)"
    using assms by (metis distinct_card length_map list.set_map wf_map_def zset_ok_def)
  finally show ?thesis .
qed

lemma zset_read_live:
  "store_inv kv \<Longrightarrow> zset_at now kv key = Some z \<Longrightarrow> kv_Exists now kv key \<Longrightarrow> zset_read now kv key = Ok (Some z)"
  by (simp add: zset_store.getReadOnly_content)

text \<open>
  C27. Ranks and score ranges of a sorted set in order. A member has a rank exactly when it has a score;
  the member at its rank in \<^verbatim>\<open>ZRANGE 0 -1\<close> is itself, with its score; the reverse rank counts from the other
  end; members with greater rank are later in the order; and \<^verbatim>\<open>ZRANGEBYSCORE\<close> returns exactly the members
  with a score between the bounds, in rank order.
\<close>

theorem zset_ranks:
  assumes inv: "store_inv kv" and z: "zset_at now kv key = Some z" and ex: "kv_Exists now kv key"
    and ok: "zset_ok z"
  shows "\<exists>xs. ZRange now kv key 0 (-1) = Ok xs \<and> sorted_wrt zlt xs
    \<and> (\<forall>m. case map_of (z_scores z) m of
          None \<Rightarrow> ZRank now kv key m = Ok (0, False) \<and> ZRevRank now kv key m = Ok (0, False)
        | Some s \<Rightarrow> (\<exists>i < length xs. xs ! i = \<lparr>zm_Member = m, zm_Score = s\<rparr>
            \<and> ZRank now kv key m = Ok (int i, True)
            \<and> ZRevRank now kv key m = Ok (int (length xs) - 1 - int i, True)))
    \<and> ZCard now kv key = Ok (int (length xs))
    \<and> ZRangeByScore now kv key lo hi
        = Ok (filter (\<lambda>x. f_le lo (zm_Score x) \<and> f_le (zm_Score x) hi) xs)"
proof -
  let ?xs = "z_sorted z"
  note rd = zset_read_live [OF inv z ex]
  have range: "ZRange now kv key 0 (-1) = Ok ?xs"
  proof -
    have "ZRange now kv key 0 (-1) = Ok (range_of ?xs 0 (-1))" by (simp add: ZRange_def rd range_of_def Let_def)
    then show ?thesis by simp
  qed
  have rank: "case map_of (z_scores z) m of
          None \<Rightarrow> ZRank now kv key m = Ok (0, False) \<and> ZRevRank now kv key m = Ok (0, False)
        | Some s \<Rightarrow> (\<exists>i < length ?xs. ?xs ! i = \<lparr>zm_Member = m, zm_Score = s\<rparr>
            \<and> ZRank now kv key m = Ok (int i, True)
            \<and> ZRevRank now kv key m = Ok (int (length ?xs) - 1 - int i, True))" for m
  proof (cases "map_of (z_scores z) m")
    case None
    then have "m \<notin> zm_Member ` set ?xs"
      using zset_ok_mem [OF ok, of m] by (metis imageE mk_member option.distinct(1))
    then have "index_of m ?xs = None" by (simp add: index_of_None)
    with None show ?thesis by (simp add: ZRank_def ZRevRank_def rd)
  next
    case (Some s)
    then have "\<lparr>zm_Member = m, zm_Score = s\<rparr> \<in> set ?xs" using zset_ok_mem [OF ok] by simp
    then obtain i where i: "i < length ?xs" "?xs ! i = \<lparr>zm_Member = m, zm_Score = s\<rparr>"
      by (auto simp: in_set_conv_nth)
    have "zm_Member (?xs ! j) \<noteq> m" if "j < i" for j
      using zset_members_distinct [OF ok] i that
      by (auto simp: distinct_conv_nth) (metis less_trans nat_neq_iff zsetMember.select_convs(1))
    then have "index_of m ?xs = Some i" using i by (simp add: index_of_Some)
    with i Some show ?thesis by (auto simp: ZRank_def ZRevRank_def rd)
  qed
  show ?thesis
    using range rank ok zset_length [OF ok]
    by (intro exI [of _ ?xs]) (simp add: ZRangeByScore_def ZCard_def rd zset_ok_def)
qed

theorem zset_ranks_witness:
  "\<exists>kv. \<exists>xs. ZRange 1 kv ''z'' 0 (-1) = Ok xs \<and> length xs = 1 \<and> ZRank 1 kv ''z'' ''a'' = Ok (0, True)"
proof -
  let ?kv = "fst (ZAdd 1 (New 2) ''z'' [(''a'', Fin 1)])"
  have z0: "zset_at 1 (New 2) ''z'' = Some empty_zset" by (simp add: content_def kv_Get_def kv_find_New)
  let ?b = "\<lambda>z. let (z', n) = zadd_body [(''a'', Fin 1)] 0 z in (z', Ok n :: int res)"
  have b: "fst (?b empty_zset) = \<lparr>z_scores = [(''a'', Fin 1)], z_sorted = [\<lparr>zm_Member = ''a'', zm_Score = Fin 1\<rparr>]\<rparr>"
    by code_simp
  have "wf_zset (fst (?b empty_zset))" unfolding b by (simp add: wf_zset_def wf_map_def)
  note r = zset_run [of "New 2" 1 "''z''" empty_zset ?b, OF store_inv_New z0 this]
  let ?z = "\<lparr>z_scores = [(''a'', Fin 1)], z_sorted = [\<lparr>zm_Member = ''a'', zm_Score = Fin 1\<rparr>]\<rparr>"
  have z: "zset_at 1 ?kv ''z'' = Some ?z" and inv: "store_inv ?kv" using r(1,3) unfolding b by (simp_all add: ZAdd_def)
  have ex: "kv_Exists 1 ?kv ''z''" using z by (auto simp: content_def kv_Exists_def split: option.splits)
  have ok: "zset_ok ?z" by (simp add: zset_ok_def wf_map_def no_nan_def)
  obtain xs where xs: "ZRange 1 ?kv ''z'' 0 (-1) = Ok xs" "ZCard 1 ?kv ''z'' = Ok (int (length xs))"
    "\<forall>m. case map_of (z_scores ?z) m of
          None \<Rightarrow> ZRank 1 ?kv ''z'' m = Ok (0, False) \<and> ZRevRank 1 ?kv ''z'' m = Ok (0, False)
        | Some s \<Rightarrow> (\<exists>i < length xs. xs ! i = \<lparr>zm_Member = m, zm_Score = s\<rparr>
            \<and> ZRank 1 ?kv ''z'' m = Ok (int i, True)
            \<and> ZRevRank 1 ?kv ''z'' m = Ok (int (length xs) - 1 - int i, True))"
    using zset_ranks [OF inv z ex ok, of NInf PInf] by blast
  have "\<exists>i < length xs. ZRank 1 ?kv ''z'' ''a'' = Ok (int i, True)"
    using xs(3) [rule_format, of "''a''"] by auto
  moreover have "ZCard 1 ?kv ''z'' = Ok 1" using zset_read_live [OF inv z ex] by (simp add: ZCard_def)
  ultimately show ?thesis using xs(1,2) by (intro exI [of _ ?kv]) auto
qed

subsection \<open>NaN scores break the order\<close>

text \<open>A member added with a NaN score is not found again when it is updated: the slice then holds it
  twice, under two scores, while the score map holds it once.\<close>

lemma zset_nan_duplicates:
  "z_sorted (fst (zadd_body [(''a'', Fin 0)] 0 (fst (zadd_body [(''a'', NaN)] 0
     (fst (zadd_body [(''b'', Fin 1)] 0 empty_zset))))))
   = [\<lparr>zm_Member = ''b'', zm_Score = Fin 1\<rparr>, \<lparr>zm_Member = ''a'', zm_Score = NaN\<rparr>,
      \<lparr>zm_Member = ''a'', zm_Score = Fin 0\<rparr>]"
  by code_simp

end
