(* ===== verification/Encryption.thy ===== *)
theory Encryption
  imports Prelude
begin

text \<open>
  AES-256-GCM at rest, \<^verbatim>\<open>src/internal/security/encryption.go\<close>. The cipher itself is the pair of arguments
  \<open>gcm_seal\<close> and \<open>gcm_open\<close> (key, nonce, text); the nonce that \<^verbatim>\<open>crypto/rand\<close> delivers is an argument of
  \<open>Encrypt\<close>. \<open>gcm_spec\<close> is the documented contract of an AEAD: opening what was sealed with the same key and
  nonce gives the plaintext back, and sealing adds a 16 byte tag.
\<close>

type_synonym gcm_seal = "bytes \<Rightarrow> bytes \<Rightarrow> bytes \<Rightarrow> bytes"
type_synonym gcm_open = "bytes \<Rightarrow> bytes \<Rightarrow> bytes \<Rightarrow> bytes option"

record encryptor =
  enc_key :: bytes

definition NewEncryptor :: "bytes \<Rightarrow> encryptor option" where
  "NewEncryptor key = (if length key \<noteq> 32 then None else Some \<lparr>enc_key = key\<rparr>)"

text \<open>\<^verbatim>\<open>aes.NewCipher\<close> accepts keys of 16, 24 and 32 bytes.\<close>

definition NewCipher_ok :: "bytes \<Rightarrow> bool" where
  "NewCipher_ok key \<longleftrightarrow> length key \<in> {16, 24, 32}"

definition Encrypt :: "gcm_seal \<Rightarrow> encryptor \<Rightarrow> bytes \<Rightarrow> bytes \<Rightarrow> bytes option" where
  "Encrypt gcm_seal e nonce plaintext =
     (if \<not> NewCipher_ok (enc_key e) then None
      else Some (nonce @ gcm_seal (enc_key e) nonce plaintext))"

definition Decrypt :: "gcm_open \<Rightarrow> encryptor \<Rightarrow> bytes \<Rightarrow> bytes option" where
  "Decrypt gcm_open e ciphertext =
     (if \<not> NewCipher_ok (enc_key e) then None
      else if length ciphertext < 12 then None
      else gcm_open (enc_key e) (take 12 ciphertext) (drop 12 ciphertext))"

definition gcm_spec :: "gcm_seal \<Rightarrow> gcm_open \<Rightarrow> bool" where
  "gcm_spec gcm_seal gcm_open \<longleftrightarrow>
     (\<forall>k n p. length n = 12 \<longrightarrow> gcm_open k n (gcm_seal k n p) = Some p \<and> length (gcm_seal k n p) = length p + 16)"

lemma NewEncryptor_ok: "NewEncryptor key = Some e \<Longrightarrow> NewCipher_ok (enc_key e)"
  by (auto simp: NewEncryptor_def NewCipher_ok_def split: if_splits)

lemma Encrypt_cases:
  assumes "gcm_spec gcm_seal gcm_open" and "length nonce = 12" and "Encrypt gcm_seal e nonce p = Some c"
  shows "Decrypt gcm_open e c = Some p" and "length c = length p + 28"
  using assms by (auto simp: gcm_spec_def Encrypt_def Decrypt_def split: if_splits)

text \<open>A cipher with the contract, for concrete evaluations: the text followed by an empty tag.\<close>

definition plain_seal :: gcm_seal where
  "plain_seal k n p = p @ replicate 16 (CHR ''t'')"

definition plain_open :: gcm_open where
  "plain_open k n c = Some (take (length c - 16) c)"

lemma plain_gcm [simp]: "gcm_spec plain_seal plain_open"
  by (simp add: gcm_spec_def plain_seal_def plain_open_def)

end
