(* ===== verification/WAL.thy ===== *)
theory WAL
  imports ByteCodec Encryption
begin

text \<open>
  The write-ahead log format of \<^verbatim>\<open>src/internal/persistence/wal.go\<close>: records of effects, their frames
  (length, version, sequence, timestamp, effects, CRC), the scanner that reads a segment back and stops at
  a torn tail, and the repair of the active segment at start-up.
  The scanner's argument \<open>dec\<close> is \<open>None\<close> for a plain log and otherwise the encryptor's \<open>Decrypt\<close>.
\<close>

section \<open>Records and frames\<close>

record walEffect =
  we_Type :: nat
  we_Key :: string
  we_Value :: slice
  we_ExpiresAt :: int

record walRecord =
  wr_Type :: nat
  wr_Key :: string
  wr_Value :: slice
  wr_TTLNano :: int
  wr_Timestamp :: int
  wr_Sequence :: "64 word"
  wr_Effects :: "walEffect list"

definition RecordSet :: nat where "RecordSet = 1"
definition RecordDelete :: nat where "RecordDelete = 2"
definition RecordExpire :: nat where "RecordExpire = 3"
definition RecordVAdd :: nat where "RecordVAdd = 4"
definition RecordVAddBatch :: nat where "RecordVAddBatch = 5"
definition RecordVTombstone :: nat where "RecordVTombstone = 6"
definition RecordDeleteIndex :: nat where "RecordDeleteIndex = 7"
definition RecordVMigrateStart :: nat where "RecordVMigrateStart = 8"
definition RecordVMigrateAdd :: nat where "RecordVMigrateAdd = 9"
definition RecordVMigrateSwap :: nat where "RecordVMigrateSwap = 10"
definition RecordVMigrateCancel :: nat where "RecordVMigrateCancel = 11"

definition walV2Magic :: bytes where
  "walV2Magic = ''DBXWAL2'' @ [char_of (10 :: nat)]"

definition walEncMagic :: bytes where
  "walEncMagic = ''DBXWALe2''"

definition maxWALFrameSize :: nat where "maxWALFrameSize = 67108864"

definition record_effects :: "walRecord \<Rightarrow> walEffect list" where
  "record_effects rec =
     (if wr_Effects rec = []
      then [\<lparr>we_Type = wr_Type rec, we_Key = wr_Key rec, we_Value = wr_Value rec,
              we_ExpiresAt = wr_TTLNano rec\<rparr>]
      else wr_Effects rec)"

definition encode_effect :: "walEffect \<Rightarrow> bytes" where
  "encode_effect e =
     char_of (we_Type e) # be_bytes 4 (length (we_Key e)) @ be_bytes 4 (length (sl (we_Value e)))
       @ be_bytes 8 (u64_of (we_ExpiresAt e)) @ we_Key e @ sl (we_Value e)"

definition encode_body :: "walRecord \<Rightarrow> bytes" where
  "encode_body rec =
     char_of (2 :: nat) # be_bytes 8 (unat (wr_Sequence rec)) @ be_bytes 8 (u64_of (wr_Timestamp rec))
       @ be_bytes 4 (length (record_effects rec)) @ concat (map encode_effect (record_effects rec))"

definition encodeRecordPlain :: "walRecord \<Rightarrow> bytes" where
  "encodeRecordPlain rec =
     (let body = encode_body rec
      in be_bytes 4 (length body + 4) @ body @ be_bytes 4 (unat (ChecksumIEEE body)))"

definition encodeRecord :: "gcm_seal \<Rightarrow> encryptor option \<Rightarrow> bytes \<Rightarrow> walRecord \<Rightarrow> bytes option" where
  "encodeRecord gcm_seal enc nonce rec =
     (let plain = encodeRecordPlain rec
      in case enc of
           None \<Rightarrow> Some plain
         | Some e \<Rightarrow> (case Encrypt gcm_seal e nonce (drop 4 plain) of
                        None \<Rightarrow> None
                      | Some sealed \<Rightarrow> Some (be_bytes 4 (length sealed) @ sealed)))"

definition EncodeRecord :: "walRecord \<Rightarrow> bytes" where
  "EncodeRecord rec = encodeRecordPlain rec"

section \<open>Scanning\<close>

datatype walErr =
    WFrameLength | WPayload | WInvalidFrame | WDecrypt | WCRC | WVersion | WTruncHeader
  | WEffectCount | WTruncEffect | WLengths | WTrailing | WHeader | WUnsupported

text \<open>\<^verbatim>\<open>io.ReadFull\<close> of \<open>n\<close> bytes: end of file when nothing is left, an unexpected end when too little is.\<close>

datatype readRes = RFull bytes bytes | REOF | RShort

definition read_full :: "nat \<Rightarrow> bytes \<Rightarrow> readRes" where
  "read_full n b =
     (if n \<le> length b then RFull (take n b) (drop n b) else if b = [] then REOF else RShort)"

fun decode_effects :: "nat \<Rightarrow> bytes \<Rightarrow> walErr + (walEffect list \<times> bytes)" where
  "decode_effects 0 b = Inr ([], b)"
| "decode_effects (Suc n) b =
     (if length b < 17 then Inl WTruncEffect
      else let ty = of_char (b ! 0);
               keyLen = be_val (subslice b 1 5);
               valueLen = be_val (subslice b 5 9);
               expiresAt = i64_of (be_val (subslice b 9 17));
               rest = drop 17 b
           in if keyLen + valueLen > length rest then Inl WLengths
              else let eff = \<lparr>we_Type = ty, we_Key = take keyLen rest,
                              we_Value = nil_append (take valueLen (drop keyLen rest)),
                              we_ExpiresAt = expiresAt\<rparr>
                   in case decode_effects n (drop (keyLen + valueLen) rest) of
                        Inl e \<Rightarrow> Inl e
                      | Inr (es, r) \<Rightarrow> Inr (eff # es, r))"

definition decode_body :: "bytes \<Rightarrow> walErr + walRecord" where
  "decode_body body =
     (if body = [] \<or> of_char (body ! 0) \<noteq> (2 :: nat) then Inl WVersion
      else if 1 + 20 > length body then Inl WTruncHeader
      else let seq = be_val (subslice body 1 9);
               ts = i64_of (be_val (subslice body 9 17));
               effectCount = be_val (subslice body 17 21)
           in if effectCount = 0 \<or> effectCount > 1000000 then Inl WEffectCount
              else case decode_effects effectCount (drop 21 body) of
                     Inl e \<Rightarrow> Inl e
                   | Inr (es, r) \<Rightarrow>
                       if r \<noteq> [] then Inl WTrailing
                       else let f = hd es
                            in Inr \<lparr>wr_Type = we_Type f, wr_Key = we_Key f, wr_Value = we_Value f,
                                    wr_TTLNano = we_ExpiresAt f, wr_Timestamp = ts,
                                    wr_Sequence = of_nat seq, wr_Effects = es\<rparr>)"

text \<open>One frame after its length: decrypt, check the checksum, decode.\<close>

definition decode_frame :: "(bytes \<Rightarrow> bytes option) option \<Rightarrow> bytes \<Rightarrow> walErr + walRecord" where
  "decode_frame dec frame0 =
     (case (case dec of None \<Rightarrow> Inr frame0
            | Some d \<Rightarrow> (case d frame0 of
                           None \<Rightarrow> Inl WDecrypt
                         | Some p \<Rightarrow> if length p < 25 then Inl WInvalidFrame else Inr p)) of
        Inl e \<Rightarrow> Inl e
      | Inr frame \<Rightarrow>
          let body = take (length frame - 4) frame;
              crc = be_val (drop (length frame - 4) frame)
          in if unat (ChecksumIEEE body) \<noteq> crc then Inl WCRC else decode_body body)"

definition min_frame :: "(bytes \<Rightarrow> bytes option) option \<Rightarrow> nat" where
  "min_frame dec = (case dec of None \<Rightarrow> 25 | Some _ \<Rightarrow> 28)"

text \<open>The scan loop: the records it emits and the error it ends with, if any.\<close>

function scan_frames ::
  "bool \<Rightarrow> (bytes \<Rightarrow> bytes option) option \<Rightarrow> bytes \<Rightarrow> walRecord list \<times> walErr option" where
  "scan_frames allowPartialTail dec b =
     (case read_full 4 b of
        REOF \<Rightarrow> ([], None)
      | RShort \<Rightarrow> ([], if allowPartialTail then None else Some WFrameLength)
      | RFull len b1 \<Rightarrow>
          let frameLen = be_val len
          in if frameLen < min_frame dec \<or> frameLen > maxWALFrameSize then ([], Some WInvalidFrame)
             else (case read_full frameLen b1 of
                     REOF \<Rightarrow> ([], Some WPayload)
                   | RShort \<Rightarrow> ([], if allowPartialTail then None else Some WPayload)
                   | RFull frame b2 \<Rightarrow>
                       (case decode_frame dec frame of
                          Inl e \<Rightarrow> ([], Some e)
                        | Inr rec \<Rightarrow>
                            (case scan_frames allowPartialTail dec b2 of (rs, e) \<Rightarrow> (rec # rs, e)))))"
  by pat_completeness auto
termination
  by (relation "measure (\<lambda>(a, d, b). length b)")
    (auto simp: read_full_def split: if_splits)

declare scan_frames.simps [simp del]

definition decodeFrames ::
  "(bytes \<Rightarrow> bytes option) option \<Rightarrow> bool \<Rightarrow> bytes \<Rightarrow> walErr + walRecord list" where
  "decodeFrames dec allowPartialTail b =
     (case scan_frames allowPartialTail dec b of (rs, None) \<Rightarrow> Inr rs | (rs, Some e) \<Rightarrow> Inl e)"

definition DecodeRecord :: "bytes \<Rightarrow> walErr + walRecord" where
  "DecodeRecord data =
     (case decodeFrames None False data of
        Inl e \<Rightarrow> Inl e
      | Inr [r] \<Rightarrow> Inr r
      | Inr _ \<Rightarrow> Inl WTrailing)"

definition walHeader :: "'a option \<Rightarrow> bytes" where
  "walHeader enc = (case enc of None \<Rightarrow> walV2Magic | Some _ \<Rightarrow> walEncMagic)"

definition scanRecordsMode ::
  "bool \<Rightarrow> (bytes \<Rightarrow> bytes option) option \<Rightarrow> bytes \<Rightarrow> walRecord list \<times> walErr option" where
  "scanRecordsMode allowPartialTail dec b =
     (case read_full (length walV2Magic) b of
        RFull header rest \<Rightarrow>
          if header \<noteq> walHeader dec then ([], Some WUnsupported)
          else scan_frames allowPartialTail dec rest
      | _ \<Rightarrow> ([], Some WHeader))"

section \<open>Repairing the active segment\<close>

text \<open>\<^verbatim>\<open>repairWALTail\<close>: how many bytes after the header are valid, or the error that keeps the log closed.\<close>

function repair_frames :: "(bytes \<Rightarrow> bytes option) option \<Rightarrow> nat \<Rightarrow> bytes \<Rightarrow> walErr + nat" where
  "repair_frames dec validOffset b =
     (case read_full 4 b of
        REOF \<Rightarrow> Inr validOffset
      | RShort \<Rightarrow> Inr validOffset
      | RFull len b1 \<Rightarrow>
          let frameLen = be_val len
          in if frameLen < min_frame dec \<or> frameLen > maxWALFrameSize then Inl WInvalidFrame
             else (case read_full frameLen b1 of
                     REOF \<Rightarrow> Inl WPayload
                   | RShort \<Rightarrow> Inr validOffset
                   | RFull frame b2 \<Rightarrow>
                       (case decodeFrames dec False (len @ frame) of
                          Inl e \<Rightarrow> Inl e
                        | Inr _ \<Rightarrow> repair_frames dec (validOffset + 4 + frameLen) b2)))"
  by pat_completeness auto
termination
  by (relation "measure (\<lambda>(d, v, b). length b)")
    (auto simp: read_full_def split: if_splits)

declare repair_frames.simps [simp del]

definition repairWALTail :: "(bytes \<Rightarrow> bytes option) option \<Rightarrow> bytes \<Rightarrow> walErr + bytes" where
  "repairWALTail dec b =
     (case read_full (length walV2Magic) b of
        RFull header rest \<Rightarrow>
          if header \<noteq> walHeader dec then Inl WUnsupported
          else (case repair_frames dec (length header) rest of
                  Inl e \<Rightarrow> Inl e | Inr n \<Rightarrow> Inr (take n b))
      | _ \<Rightarrow> Inl WUnsupported)"

section \<open>Frames decode to what was encoded\<close>

text \<open>What the decoder returns for a record: the nil slice for an empty value, and the first effect's
  fields copied to the record.\<close>

definition norm_effect :: "walEffect \<Rightarrow> walEffect" where
  "norm_effect e = e\<lparr>we_Value := nil_append (sl (we_Value e))\<rparr>"

definition norm_record :: "walRecord \<Rightarrow> walRecord" where
  "norm_record rec =
     (let es = map norm_effect (record_effects rec); f = hd es
      in \<lparr>wr_Type = we_Type f, wr_Key = we_Key f, wr_Value = we_Value f, wr_TTLNano = we_ExpiresAt f,
          wr_Timestamp = wr_Timestamp rec, wr_Sequence = wr_Sequence rec, wr_Effects = es\<rparr>)"

definition effect_ok :: "walEffect \<Rightarrow> bool" where
  "effect_ok e \<longleftrightarrow> we_Type e < 256 \<and> length (we_Key e) < 4294967296
     \<and> length (sl (we_Value e)) < 4294967296 \<and> in_i64 (we_ExpiresAt e)"

text \<open>The limits of the format: 32 bytes for the checksum and, in an encrypted log, the nonce and the tag.\<close>

definition record_ok :: "walRecord \<Rightarrow> bool" where
  "record_ok rec \<longleftrightarrow> (\<forall>e \<in> set (record_effects rec). effect_ok e) \<and> in_i64 (wr_Timestamp rec)
     \<and> length (record_effects rec) \<le> 1000000 \<and> length (encode_body rec) + 32 \<le> maxWALFrameSize"

lemma be_4: "n < 4294967296 \<Longrightarrow> be_val (be_bytes 4 n) = n"
  by (rule be_val_be_bytes) simp

lemma be_i64: "in_i64 v \<Longrightarrow> i64_of (be_val (be_bytes 8 (u64_of v))) = v"
  using be_val_be_bytes [OF u64_of_bound] i64_of_u64_of by simp

lemma be_word64: "of_nat (be_val (be_bytes 8 (unat (w :: 64 word)))) = w"
proof -
  have "unat w < 256 ^ 8" using unsigned_less [of w] by simp
  from be_val_be_bytes [OF this] show ?thesis by simp
qed

lemma be_word32: "be_val (be_bytes 4 (unat (w :: 32 word))) = unat w"
  using unsigned_less [of w, where ?'a = nat] by (intro be_4) simp

lemma decode_encode_effects:
  "\<forall>e \<in> set es. effect_ok e \<Longrightarrow>
     decode_effects (length es) (concat (map encode_effect es) @ r) = Inr (map norm_effect es, r)"
proof (induction es)
  case Nil
  then show ?case by simp
next
  case (Cons e es)
  have ok: "we_Type e < 256" "length (we_Key e) < 4294967296" "length (sl (we_Value e)) < 4294967296"
    "in_i64 (we_ExpiresAt e)" using Cons.prems by (auto simp: effect_ok_def)
  define t where "t = concat (map encode_effect es) @ r"
  define u where "u = we_Key e @ sl (we_Value e) @ t"
  define b where "b = encode_effect e @ t"
  have b': "b = char_of (we_Type e) # be_bytes 4 (length (we_Key e)) @ be_bytes 4 (length (sl (we_Value e)))
      @ be_bytes 8 (u64_of (we_ExpiresAt e)) @ u"
    by (simp add: b_def u_def encode_effect_def)
  have facts: "\<not> length b < 17" "of_char (b ! 0) = we_Type e"
    "subslice b (Suc 0) 5 = be_bytes 4 (length (we_Key e))"
    "subslice b 5 9 = be_bytes 4 (length (sl (we_Value e)))"
    "subslice b 9 17 = be_bytes 8 (u64_of (we_ExpiresAt e))" "drop 17 b = u"
    using ok(1) unfolding b' by (simp_all add: subslice_def drop_Cons' take_Cons')
  have v: "be_val (be_bytes 4 (length (we_Key e))) = length (we_Key e)"
    "be_val (be_bytes 4 (length (sl (we_Value e)))) = length (sl (we_Value e))"
    "i64_of (be_val (be_bytes 8 (u64_of (we_ExpiresAt e)))) = we_ExpiresAt e"
    using ok by (simp_all add: be_4 be_i64)
  have u: "length u = length (we_Key e) + length (sl (we_Value e)) + length t"
    "take (length (we_Key e)) u = we_Key e"
    "take (length (sl (we_Value e))) (drop (length (we_Key e)) u) = sl (we_Value e)"
    "drop (length (we_Key e) + length (sl (we_Value e))) u = t"
    by (simp_all add: u_def)
  have IH: "decode_effects (length es) t = Inr (map norm_effect es, r)"
    using Cons by (simp add: t_def)
  have "decode_effects (Suc (length es)) b = Inr (map norm_effect (e # es), r)"
    by (simp add: facts v u IH Let_def norm_effect_def)
  then show ?case by (simp add: b_def t_def)
qed

text \<open>The body of a record within the limits of the format decodes to the record.\<close>

lemma record_effects_ne [simp]: "record_effects rec \<noteq> []"
  by (simp add: record_effects_def)

lemma length_body: "25 \<le> length (encode_body rec) + 4"
  by (simp add: encode_body_def)

lemma decode_encode_body:
  assumes ok: "record_ok rec"
  shows "decode_body (encode_body rec) = Inr (norm_record rec)"
proof -
  let ?es = "record_effects rec"
  let ?h = "be_bytes 8 (unat (wr_Sequence rec)) @ be_bytes 8 (u64_of (wr_Timestamp rec))
      @ be_bytes 4 (length ?es)"
  let ?b = "encode_body rec" and ?t = "concat (map encode_effect ?es)"
  have b: "?b = char_of (2 :: nat) # ?h @ ?t" by (simp add: encode_body_def)
  have s1: "subslice ?b (Suc 0) 9 = be_bytes 8 (unat (wr_Sequence rec))"
    and s2: "subslice ?b 9 17 = be_bytes 8 (u64_of (wr_Timestamp rec))"
    and s3: "subslice ?b 17 21 = be_bytes 4 (length ?es)"
    and rest: "drop 21 ?b = ?t"
    unfolding b by (simp_all add: subslice_def drop_Cons' take_Cons')
  have len: "\<not> 21 > length ?b" and v: "of_char (?b ! 0) = (2 :: nat)" and ne: "?b \<noteq> []"
    unfolding b by simp_all
  have n: "be_val (be_bytes 4 (length ?es)) = length ?es" "0 < length ?es" "length ?es \<le> 1000000"
    using ok by (simp_all add: record_ok_def be_4)
  have ts: "i64_of (be_val (be_bytes 8 (u64_of (wr_Timestamp rec)))) = wr_Timestamp rec"
    using ok by (simp add: record_ok_def be_i64)
  have es: "decode_effects (length ?es) ?t = Inr (map norm_effect ?es, [])"
    using decode_encode_effects [of ?es "[]"] ok by (simp add: record_ok_def)
  show ?thesis
    using n len ne v
    by (simp add: decode_body_def s1 s2 s3 rest ts es Let_def norm_record_def be_word64)
qed

text \<open>The frame after its length prefix: body and checksum.\<close>

definition frame_of :: "walRecord \<Rightarrow> bytes" where
  "frame_of rec = encode_body rec @ be_bytes 4 (unat (ChecksumIEEE (encode_body rec)))"

lemma encodeRecordPlain_frame:
  "encodeRecordPlain rec = be_bytes 4 (length (frame_of rec)) @ frame_of rec"
  by (simp add: encodeRecordPlain_def frame_of_def Let_def)

lemma length_frame_of: "length (frame_of rec) = length (encode_body rec) + 4"
  by (simp add: frame_of_def)

lemma decode_frame_of: "record_ok rec \<Longrightarrow> decode_frame None (frame_of rec) = Inr (norm_record rec)"
  by (simp add: decode_frame_def frame_of_def be_word32 decode_encode_body)

section \<open>Segments\<close>

text \<open>A complete frame of the log that decodes to \<open>r\<close>.\<close>

definition is_frame :: "(bytes \<Rightarrow> bytes option) option \<Rightarrow> walRecord \<Rightarrow> bytes \<Rightarrow> bool" where
  "is_frame dec r f \<longleftrightarrow>
     (\<exists>p. f = be_bytes 4 (length p) @ p \<and> min_frame dec \<le> length p \<and> length p \<le> maxWALFrameSize
        \<and> decode_frame dec p = Inr r)"

abbreviation wal_dec :: "gcm_open \<Rightarrow> encryptor option \<Rightarrow> (bytes \<Rightarrow> bytes option) option" where
  "wal_dec gcm_open enc \<equiv> map_option (Decrypt gcm_open) enc"

lemma encodeRecord_is_frame:
  assumes gcm: "gcm_spec gcm_seal gcm_open" and n: "length nonce = 12"
    and f: "encodeRecord gcm_seal enc nonce rec = Some f" and ok: "record_ok rec"
  shows "is_frame (wal_dec gcm_open enc) (norm_record rec) f"
proof (cases enc)
  case None
  have "min_frame None \<le> length (frame_of rec)" "length (frame_of rec) \<le> maxWALFrameSize"
    using ok length_body [of rec] by (simp_all add: min_frame_def length_frame_of record_ok_def)
  then show ?thesis
    using None f ok decode_frame_of [OF ok]
    by (auto simp: encodeRecord_def is_frame_def encodeRecordPlain_frame)
next
  case (Some e)
  then obtain c where c: "Encrypt gcm_seal e nonce (frame_of rec) = Some c" "f = be_bytes 4 (length c) @ c"
    using f by (auto simp: encodeRecord_def encodeRecordPlain_frame Let_def split: option.splits)
  have d: "Decrypt gcm_open e c = Some (frame_of rec)" "length c = length (frame_of rec) + 28"
    using Encrypt_cases [OF gcm n c(1)] by simp_all
  have l: "25 \<le> length (frame_of rec)" using length_body [of rec] by (simp add: length_frame_of)
  have "decode_frame (Some (Decrypt gcm_open e)) c = decode_frame None (frame_of rec)"
    using d l by (simp add: decode_frame_def)
  then show ?thesis
    using Some c d l ok decode_frame_of [OF ok]
    by (auto simp: is_frame_def min_frame_def record_ok_def length_frame_of)
qed

lemma be_4_frame: "n \<le> maxWALFrameSize \<Longrightarrow> be_val (be_bytes 4 n) = n"
  by (rule be_4) (simp add: maxWALFrameSize_def)

lemma read_full_append [simp]: "length x = n \<Longrightarrow> read_full n (x @ y) = RFull x y"
  by (simp add: read_full_def)

lemma scan_frame_Cons:
  assumes "is_frame dec r f"
  shows "scan_frames a dec (f @ b) = (case scan_frames a dec b of (rs, e) \<Rightarrow> (r # rs, e))"
proof -
  obtain p where p: "f = be_bytes 4 (length p) @ p" "min_frame dec \<le> length p"
    "length p \<le> maxWALFrameSize" "decode_frame dec p = Inr r" using assms by (auto simp: is_frame_def)
  show ?thesis
    using p by (subst scan_frames.simps) (simp add: be_4_frame Let_def)
qed

lemma scan_frames_append:
  "list_all2 (is_frame dec) rs fs \<Longrightarrow>
     scan_frames a dec (concat fs @ b) = (case scan_frames a dec b of (rs', e) \<Rightarrow> (rs @ rs', e))"
proof (induction rs fs rule: list_all2_induct)
  case Nil
  then show ?case by simp
next
  case (Cons r rs f fs)
  then show ?case by (simp add: scan_frame_Cons split: prod.splits)
qed

lemma scan_frames_Nil [simp]: "scan_frames a dec [] = ([], None)"
  by (subst scan_frames.simps) (simp add: read_full_def)

lemma repair_frames_Nil [simp]: "repair_frames dec n [] = Inr n"
  by (subst repair_frames.simps) (simp add: read_full_def)

lemma decodeFrames_one: "is_frame dec r f \<Longrightarrow> decodeFrames dec a f = Inr [r]"
  using scan_frame_Cons [of dec r f a "[]"] by (simp add: decodeFrames_def)

lemma repair_frame_Cons:
  assumes f: "is_frame dec r f"
  shows "repair_frames dec n (f @ b) = repair_frames dec (n + length f) b"
proof -
  obtain p where p: "f = be_bytes 4 (length p) @ p" "min_frame dec \<le> length p"
    "length p \<le> maxWALFrameSize" using f by (auto simp: is_frame_def)
  have "decodeFrames dec False (be_bytes 4 (length p) @ p) = Inr [r]"
    using decodeFrames_one [OF f] p(1) by simp
  then show ?thesis
    using p by (subst repair_frames.simps) (simp add: be_4_frame Let_def add.assoc)
qed

lemma repair_frames_append:
  "list_all2 (is_frame dec) rs fs \<Longrightarrow>
     repair_frames dec n (concat fs @ b) = repair_frames dec (n + length (concat fs)) b"
  by (induction rs fs arbitrary: n rule: list_all2_induct)
    (simp_all add: repair_frame_Cons add.assoc)

lemma walHeader_map: "walHeader (map_option f enc) = walHeader enc"
  by (cases enc) (simp_all add: walHeader_def)

lemma length_walHeader [simp]: "length (walHeader dec) = length walV2Magic"
  by (simp add: walHeader_def walV2Magic_def walEncMagic_def split: option.split)

lemma scanRecordsMode_header: "scanRecordsMode a dec (walHeader dec @ b) = scan_frames a dec b"
  by (simp add: scanRecordsMode_def)

lemma repairWALTail_header:
  "repairWALTail dec (walHeader dec @ b) =
     (case repair_frames dec (length walV2Magic) b of
        Inl e \<Rightarrow> Inl e | Inr n \<Rightarrow> Inr (take n (walHeader dec @ b)))"
  by (simp add: repairWALTail_def)

subsection \<open>A write cut short\<close>

text \<open>What a crash in the middle of a frame leaves of it: the first \<open>n\<close> bytes.\<close>

lemma read_torn: "4 < n \<Longrightarrow> n < 4 + length p \<Longrightarrow> read_full (length p) (take (n - 4) p) = RShort"
  by (cases p) (auto simp: read_full_def)

lemma scan_torn:
  assumes f: "is_frame dec r f" and n: "n < length f" "n \<noteq> 4"
  shows "scan_frames True dec (take n f) = ([], None)"
proof -
  obtain p where p: "f = be_bytes 4 (length p) @ p" "min_frame dec \<le> length p"
    "length p \<le> maxWALFrameSize" using f by (auto simp: is_frame_def)
  show ?thesis
  proof (cases "n < 4")
    case True
    then show ?thesis using p(1) by (subst scan_frames.simps) (simp add: read_full_def)
  next
    case False
    then have t: "take n f = be_bytes 4 (length p) @ take (n - 4) p" using p(1) by simp
    have s: "read_full (length p) (take (n - 4) p) = RShort"
      using False n p(1) by (intro read_torn) simp_all
    show ?thesis
      unfolding t using p by (subst scan_frames.simps) (simp add: be_4_frame Let_def s)
  qed
qed

lemma repair_torn:
  assumes f: "is_frame dec r f" and n: "n < length f" "n \<noteq> 4"
  shows "repair_frames dec k (take n f) = Inr k"
proof -
  obtain p where p: "f = be_bytes 4 (length p) @ p" "min_frame dec \<le> length p"
    "length p \<le> maxWALFrameSize" using f by (auto simp: is_frame_def)
  show ?thesis
  proof (cases "n < 4")
    case True
    then show ?thesis using p(1) by (subst repair_frames.simps) (simp add: read_full_def)
  next
    case False
    then have t: "take n f = be_bytes 4 (length p) @ take (n - 4) p" using p(1) by simp
    have s: "read_full (length p) (take (n - 4) p) = RShort"
      using False n p(1) by (intro read_torn) simp_all
    show ?thesis
      unfolding t using p by (subst repair_frames.simps) (simp add: be_4_frame Let_def s)
  qed
qed

lemma torn_after_length:
  assumes f: "is_frame dec r f"
  shows "scan_frames True dec (take 4 f) = ([], Some WPayload)"
    and "repair_frames dec k (take 4 f) = Inl WPayload"
proof -
  obtain p where p: "f = be_bytes 4 (length p) @ p" "min_frame dec \<le> length p"
    "length p \<le> maxWALFrameSize" using f by (auto simp: is_frame_def)
  have t: "take 4 f = be_bytes 4 (length p) @ []" using p(1) by simp
  have "0 < min_frame dec" by (simp add: min_frame_def split: option.split)
  then have s: "read_full (length p) [] = REOF" using p(2) by (cases p) (simp_all add: read_full_def)
  show "scan_frames True dec (take 4 f) = ([], Some WPayload)"
    unfolding t using p
    by (subst scan_frames.simps) (simp only: read_full_append length_be_bytes, simp add: be_4_frame Let_def s)
  show "repair_frames dec k (take 4 f) = Inl WPayload"
    unfolding t using p
    by (subst repair_frames.simps) (simp only: read_full_append length_be_bytes, simp add: be_4_frame Let_def s)
qed

subsection \<open>Damaged bytes\<close>

lemma be_val_inj: "length a = length b \<Longrightarrow> be_val a = be_val b \<Longrightarrow> a = b"
  by (metis be_bytes_be_val)

lemma decode_frame_damaged:
  assumes i: "i < length (frame_of rec)" and b: "b \<noteq> frame_of rec ! i"
  shows "decode_frame None ((frame_of rec)[i := b]) = Inl WCRC"
proof -
  let ?body = "encode_body rec" and ?crc = "be_bytes 4 (unat (ChecksumIEEE (encode_body rec)))"
  show ?thesis
  proof (cases "i < length ?body")
    case True
    have "ChecksumIEEE (?body[i := b]) \<noteq> ChecksumIEEE ?body"
      using True b by (intro ChecksumIEEE_list_update) (simp_all add: frame_of_def nth_append)
    then show ?thesis
      using True by (simp add: decode_frame_def frame_of_def list_update_append be_word32 Let_def word_unat_eq_iff)
  next
    case False
    let ?j = "i - length ?body"
    have j: "?j < 4" "?crc ! ?j \<noteq> b" using False i b by (auto simp: frame_of_def nth_append)
    then have "?crc[?j := b] \<noteq> ?crc" by (metis length_be_bytes nth_list_update_eq)
    then have "be_val (?crc[?j := b]) \<noteq> be_val ?crc" using be_val_inj [of "?crc[?j := b]" ?crc] by auto
    then show ?thesis
      using False by (simp add: decode_frame_def frame_of_def list_update_append be_word32 Let_def)
  qed
qed

lemma scan_damaged:
  assumes ok: "record_ok rec" and i: "i < length (frame_of rec)" "b \<noteq> frame_of rec ! i"
  shows "scan_frames a None (be_bytes 4 (length (frame_of rec)) @ (frame_of rec)[i := b] @ rest) = ([], Some WCRC)"
proof -
  have l: "25 \<le> length (frame_of rec)" "length (frame_of rec) \<le> maxWALFrameSize"
    using ok length_body [of rec] by (simp_all add: length_frame_of record_ok_def)
  then show ?thesis
    by (subst scan_frames.simps)
      (simp add: be_4_frame Let_def min_frame_def decode_frame_damaged [OF i])
qed

section \<open>Properties of the log format\<close>

text \<open>The frames that the writer appends for a list of records, each with its nonce.\<close>

definition log_frames :: "gcm_seal \<Rightarrow> encryptor option \<Rightarrow> (bytes \<times> walRecord) list \<Rightarrow> bytes list \<Rightarrow> bool" where
  "log_frames gcm_seal enc recs fs \<longleftrightarrow>
     list_all2 (\<lambda>(nonce, rec) f. length nonce = 12 \<and> record_ok rec
       \<and> encodeRecord gcm_seal enc nonce rec = Some f) recs fs"

lemma log_frames_is_frame:
  assumes "gcm_spec gcm_seal gcm_open" and "log_frames gcm_seal enc recs fs"
  shows "list_all2 (is_frame (wal_dec gcm_open enc)) (map (norm_record \<circ> snd) recs) fs"
  using assms(2) unfolding log_frames_def list_all2_map1
  by (rule list_all2_mono) (auto intro: encodeRecord_is_frame [OF assms(1)])

definition sample_rec :: walRecord where
  "sample_rec = \<lparr>wr_Type = 0, wr_Key = [], wr_Value = None, wr_TTLNano = 0, wr_Timestamp = 5, wr_Sequence = 1,
     wr_Effects = [\<lparr>we_Type = 1, we_Key = ''k'', we_Value = Some ''v'', we_ExpiresAt = 0\<rparr>,
                   \<lparr>we_Type = 2, we_Key = ''j'', we_Value = None, we_ExpiresAt = 0\<rparr>]\<rparr>"

lemma sample_rec_ok [simp]: "record_ok sample_rec"
  by (simp add: record_ok_def sample_rec_def record_effects_def effect_ok_def in_i64_def min_int64_def
      max_int64_def encode_body_def encode_effect_def maxWALFrameSize_def)

lemma sample_log:
  "log_frames plain_seal None [(replicate 12 CHR ''n'', sample_rec)] [encodeRecordPlain sample_rec]"
  by (simp add: log_frames_def encodeRecord_def)

text \<open>C11. A log segment, plain or encrypted, that holds complete frames of records within the format's
  limits reads back to exactly these records in order (an empty value comes back as the nil slice, and the
  first effect is copied to the record's own fields), and the repair at start-up leaves it as it is.\<close>

theorem wal_segment_roundtrip:
  assumes "gcm_spec gcm_seal gcm_open" and "log_frames gcm_seal enc recs fs"
  shows "scanRecordsMode a (wal_dec gcm_open enc) (walHeader (wal_dec gcm_open enc) @ concat fs)
           = (map (norm_record \<circ> snd) recs, None)
       \<and> repairWALTail (wal_dec gcm_open enc) (walHeader (wal_dec gcm_open enc) @ concat fs)
           = Inr (walHeader (wal_dec gcm_open enc) @ concat fs)"
proof
  let ?dec = "wal_dec gcm_open enc"
  note fr = log_frames_is_frame [OF assms]
  show "scanRecordsMode a ?dec (walHeader ?dec @ concat fs) = (map (norm_record \<circ> snd) recs, None)"
    using scan_frames_append [OF fr, of a "[]"] by (simp add: scanRecordsMode_header)
  show "repairWALTail ?dec (walHeader ?dec @ concat fs) = Inr (walHeader ?dec @ concat fs)"
    using repair_frames_append [OF fr, of _ "[]"] by (simp add: repairWALTail_header)
qed

theorem wal_segment_roundtrip_witness:
  "scanRecordsMode False None (walV2Magic @ encodeRecordPlain sample_rec) = ([norm_record sample_rec], None)"
  using wal_segment_roundtrip [OF plain_gcm sample_log, of False] by (simp add: walHeader_def)

text \<open>C10. A crash while a frame is being appended leaves its first \<open>n\<close> bytes. Every earlier record is still
  read, the torn frame is dropped without an error and the repair truncates the segment to the complete
  frames, unless the cut falls exactly behind the four length bytes: then reading ends with an error and the
  repair refuses the segment, so the log does not open.\<close>

theorem wal_torn_tail:
  assumes "gcm_spec gcm_seal gcm_open" and "log_frames gcm_seal enc recs fs"
    and "log_frames gcm_seal enc [last_rec] [f]" and "n < length f"
  defines "dec \<equiv> wal_dec gcm_open enc"
  shows "scanRecordsMode True dec (walHeader dec @ concat fs @ take n f)
           = (map (norm_record \<circ> snd) recs, if n = 4 then Some WPayload else None)
       \<and> repairWALTail dec (walHeader dec @ concat fs @ take n f)
           = (if n = 4 then Inl WPayload else Inr (walHeader dec @ concat fs))"
proof -
  note fr = log_frames_is_frame [OF assms(1,2), folded dec_def]
  have f: "is_frame dec (norm_record (snd last_rec)) f"
    using log_frames_is_frame [OF assms(1,3)] by (simp add: dec_def)
  have s: "scan_frames True dec (take n f) = ([], if n = 4 then Some WPayload else None)"
    using scan_torn [OF f assms(4)] torn_after_length [OF f] by simp
  have r: "repair_frames dec k (take n f) = (if n = 4 then Inl WPayload else Inr k)" for k
    using repair_torn [OF f assms(4)] torn_after_length [OF f] by simp
  show ?thesis
    by (simp add: scanRecordsMode_header repairWALTail_header scan_frames_append [OF fr]
        repair_frames_append [OF fr] s r)
qed

theorem wal_torn_tail_witness:
  "repairWALTail None (walV2Magic @ encodeRecordPlain sample_rec @ take 9 (encodeRecordPlain sample_rec))
     = Inr (walV2Magic @ encodeRecordPlain sample_rec)
   \<and> repairWALTail None (walV2Magic @ take 4 (encodeRecordPlain sample_rec)) = Inl WPayload"
proof -
  have l: "25 < length (encodeRecordPlain sample_rec)"
    using length_body [of sample_rec] by (simp add: encodeRecordPlain_frame length_frame_of)
  have nil: "log_frames plain_seal None [] []" by (simp add: log_frames_def)
  show ?thesis
    using wal_torn_tail [OF plain_gcm sample_log sample_log, of 9] l
      wal_torn_tail [OF plain_gcm nil sample_log, of 4]
    by (simp add: walHeader_def)
qed

text \<open>C17. Damage to any one byte of a plain frame behind its length, wherever it stands in the log, is detected:
  the records before it are read and the scan ends with a checksum error, never with a wrong record.\<close>

theorem wal_corruption_detected:
  assumes "log_frames gcm_seal None recs fs" and "record_ok rec"
    and "4 \<le> i" and "i < length (encodeRecordPlain rec)" and "b \<noteq> encodeRecordPlain rec ! i"
  shows "scanRecordsMode a None (walV2Magic @ concat fs @ (encodeRecordPlain rec)[i := b] @ rest)
           = (map (norm_record \<circ> snd) recs, Some WCRC)"
proof -
  have "log_frames plain_seal None recs fs"
    using assms(1) by (simp add: log_frames_def encodeRecord_def)
  then have fr: "list_all2 (is_frame None) (map (norm_record \<circ> snd) recs) fs"
    using log_frames_is_frame [OF plain_gcm, where enc = None] by simp
  have "(encodeRecordPlain rec)[i := b] = be_bytes 4 (length (frame_of rec)) @ (frame_of rec)[i - 4 := b]"
    using assms(3) by (simp add: encodeRecordPlain_frame list_update_append)
  moreover have "i - 4 < length (frame_of rec)" "b \<noteq> frame_of rec ! (i - 4)"
    using assms(3-5) by (simp_all add: encodeRecordPlain_frame nth_append)
  ultimately have "scan_frames a None ((encodeRecordPlain rec)[i := b] @ rest) = ([], Some WCRC)"
    using scan_damaged [OF assms(2)] by simp
  then show ?thesis
    using scanRecordsMode_header [of a None "concat fs @ (encodeRecordPlain rec)[i := b] @ rest"]
    by (simp add: walHeader_def scan_frames_append [OF fr])
qed

theorem wal_corruption_detected_witness:
  "scanRecordsMode True None (walV2Magic @ encodeRecordPlain sample_rec @ (encodeRecordPlain sample_rec)[4 := CHR ''x''])
     = ([norm_record sample_rec], Some WCRC)"
proof -
  have "25 < length (encodeRecordPlain sample_rec)"
    using length_body [of sample_rec] by (simp add: encodeRecordPlain_frame length_frame_of)
  moreover have "CHR ''x'' \<noteq> encodeRecordPlain sample_rec ! 4"
    by (simp add: encodeRecordPlain_frame frame_of_def nth_append encode_body_def char_of_def)
  ultimately show ?thesis
    using wal_corruption_detected [OF sample_log sample_rec_ok, of 4 "CHR ''x''" True "[]"] by simp
qed

end
