(* ===== verification/WALPayload.thy ===== *)
theory WALPayload
  imports WAL
begin

text \<open>
  The payloads of vector records, \<^verbatim>\<open>src/internal/persistence/wal.go\<close>: one vector, a batch, the start of a
  migration. A \<^verbatim>\<open>float32\<close> is its 32 bits (\<^verbatim>\<open>math.Float32bits\<close> and its inverse are the identity here).
  Bounds checks of Go slices look at the capacity, so the batch decoder has the bytes behind the payload
  in the same array, \<open>spare\<close>, as an argument.
\<close>

type_synonym f32 = "32 word"

section \<open>One vector\<close>

definition EncodeVAddPayload :: "string \<Rightarrow> f32 list \<Rightarrow> bytes" where
  "EncodeVAddPayload docID vec =
     be_bytes 4 (length docID) @ docID @ concat (map (\<lambda>v. be_bytes 4 (unat v)) vec)"

fun be_floats :: "nat \<Rightarrow> bytes \<Rightarrow> f32 list" where
  "be_floats 0 b = []"
| "be_floats (Suc n) b = of_nat (be_val (take 4 b)) # be_floats n (drop 4 b)"

definition DecodeVAddPayload :: "bytes \<Rightarrow> (string \<times> f32 list option) res" where
  "DecodeVAddPayload data =
     (if length data < 4 then Ok ([], None)
      else let docLen = be_val (take 4 data)
           in if length data < 4 + docLen then Ok ([], None)
              else let end' = (4 + docLen) mod 4294967296;
                       off = 4 + docLen
                   in if end' < 4 then Panic
                      else Ok (subslice data 4 end', Some (be_floats ((length data - off) div 4) (drop off data))))"

section \<open>A batch\<close>

definition encode_item :: "nat \<Rightarrow> string \<times> f32 list \<Rightarrow> bytes" where
  "encode_item dim it =
     le_bytes 4 (length (fst it)) @ fst it @ concat (map (\<lambda>v. le_bytes 4 (unat v)) (take dim (snd it)))"

text \<open>\<^verbatim>\<open>vecs[i]\<close> and \<^verbatim>\<open>vec[j]\<close> are out of range when there are fewer vectors than ids or fewer
  components than the dimension.\<close>

definition EncodeVAddBatchPayload :: "nat \<Rightarrow> string list \<Rightarrow> f32 list list \<Rightarrow> bytes res" where
  "EncodeVAddBatchPayload dim ids vecs =
     (if length vecs < length ids \<or> (\<exists>v \<in> set (take (length ids) vecs). length v < dim) then Panic
      else Ok (le_bytes 4 dim @ le_bytes 4 (length ids) @ concat (map (encode_item dim) (zip ids vecs))))"

fun dec_floats :: "nat \<Rightarrow> bytes \<Rightarrow> (f32 list \<times> bytes) option" where
  "dec_floats 0 b = Some ([], b)"
| "dec_floats (Suc n) b =
     (if length b < 4 then None
      else case dec_floats n (drop 4 b) of
             None \<Rightarrow> None
           | Some (vs, r) \<Rightarrow> Some (of_nat (le_val (take 4 b)) # vs, r))"

definition decode_item :: "nat \<Rightarrow> bytes \<Rightarrow> ((string \<times> f32 list) \<times> bytes) option" where
  "decode_item dim b =
     (if length b < 4 then None
      else let idLen = le_val (take 4 b); b1 = drop 4 b
           in if length b1 < idLen then None
              else case dec_floats dim (drop idLen b1) of
                     None \<Rightarrow> None
                   | Some (vs, r) \<Rightarrow> Some ((take idLen b1, vs), r))"

definition DecodeVAddBatchPayload :: "bytes \<Rightarrow> bytes \<Rightarrow> (nat \<times> string list \<times> f32 list list) res" where
  "DecodeVAddBatchPayload spare data =
     (if length data < 8 then Ok (0, [], [])
      else let dim = le_val (take 4 data);
               numVectors = le_val (subslice data 4 8)
           in case dec_seq (decode_item dim) numVectors (drop 8 (data @ spare)) of
                None \<Rightarrow> Panic
              | Some (its, _) \<Rightarrow> Ok (dim, map fst its, map snd its))"

section \<open>The start of a migration\<close>

definition EncodeVMigrateStartPayload :: "int \<Rightarrow> string \<Rightarrow> bytes" where
  "EncodeVMigrateStartPayload dim encoding =
     be_bytes 4 (nat (dim mod 4294967296)) @ be_bytes 4 (length encoding) @ encoding"

definition DecodeVMigrateStartPayload :: "bytes \<Rightarrow> (int \<times> string) option" where
  "DecodeVMigrateStartPayload data =
     (if length data < 8 then None
      else let dim = be_val (take 4 data); encLen = be_val (subslice data 4 8)
           in if dim = 0 \<or> length data < 8 + encLen then None
              else Some (int dim, subslice data 8 (8 + encLen)))"

section \<open>Round trips\<close>

lemma unat_lt_256_4: "unat (w :: 32 word) < 256 ^ 4"
  using unsigned_less [of w, where ?'a = nat] by simp

lemma be_floats_encode:
  "be_floats (length vec) (concat (map (\<lambda>v. be_bytes 4 (unat v)) vec)) = vec"
  by (induction vec) (simp_all add: be_word32)

lemma length_concat_4: "(\<And>v. length (f v) = 4) \<Longrightarrow> length (concat (map f vec)) = 4 * length vec"
  by (induction vec) simp_all

lemma VAdd_roundtrip:
  assumes "4 + length docID < 4294967296"
  shows "DecodeVAddPayload (EncodeVAddPayload docID vec) = Ok (docID, Some vec)"
  using assms
  by (simp add: DecodeVAddPayload_def EncodeVAddPayload_def be_4 Let_def subslice_def length_concat_4
      be_floats_encode)

lemma dec_floats_encode:
  "dec_floats (length vs) (concat (map (\<lambda>v. le_bytes 4 (unat v)) vs) @ r) = Some (vs, r)"
  by (induction vs) (simp_all add: le_val_le_bytes [OF unat_lt_256_4])

interpretation batch_item: codec "encode_item dim" "decode_item dim"
  "\<lambda>it. length (fst it) < 4294967296 \<and> length (snd it) = dim" for dim
proof
  fix it :: "string \<times> f32 list" and rest
  assume ok: "length (fst it) < 4294967296 \<and> length (snd it) = dim"
  then have "le_val (le_bytes 4 (length (fst it))) = length (fst it)"
    by (intro le_val_le_bytes) simp
  then show "decode_item dim (encode_item dim it @ rest) = Some (it, rest)"
    using ok dec_floats_encode [of "snd it" rest]
    by (simp add: decode_item_def encode_item_def Let_def)
qed

lemma VAddBatch_roundtrip:
  assumes n: "length vecs = length ids" "length ids < 4294967296" "dim < 4294967296"
    and ids: "\<forall>i \<in> set ids. length i < 4294967296" and vecs: "\<forall>v \<in> set vecs. length v = dim"
  shows "bind_res (EncodeVAddBatchPayload dim ids vecs) (DecodeVAddBatchPayload spare) = Ok (dim, ids, vecs)"
proof -
  let ?its = "zip ids vecs" and ?b = "concat (map (encode_item dim) (zip ids vecs))"
  have e: "EncodeVAddBatchPayload dim ids vecs = Ok (le_bytes 4 dim @ le_bytes 4 (length ids) @ ?b)"
    using n vecs by (auto simp: EncodeVAddBatchPayload_def)
  have ok: "\<forall>it \<in> set ?its. length (fst it) < 4294967296 \<and> length (snd it) = dim"
    using ids vecs by (auto dest: set_zip_leftD set_zip_rightD)
  have d: "le_val (le_bytes 4 dim) = dim" "le_val (le_bytes 4 (length ids)) = length ids"
    using n by (simp_all add: le_val_le_bytes)
  have "dec_seq (decode_item dim) (length ids) (?b @ spare) = Some (?its, spare)"
    using batch_item.dec_seq_enc [OF ok, of spare] n(1) by simp
  then show ?thesis
    using n(1) by (simp add: e DecodeVAddBatchPayload_def Let_def subslice_def d)
qed

lemma VMigrate_roundtrip:
  assumes "0 < dim" "dim < 4294967296" "length encoding < 4294967296"
  shows "DecodeVMigrateStartPayload (EncodeVMigrateStartPayload dim encoding) = Some (dim, encoding)"
  using assms
  by (simp add: DecodeVMigrateStartPayload_def EncodeVMigrateStartPayload_def be_4 Let_def subslice_def
      nat_less_iff)

text \<open>
  C20. The payloads of vector records decode to what was encoded: a document id with its vector, a batch in which
  every vector has the batch's dimension, and the dimension and encoding of a migration.
\<close>

theorem vector_payload_roundtrip:
  assumes "4 + length docID < 4294967296"
    and "length vecs = length ids" and "length ids < 4294967296" and "dim < 4294967296"
    and "\<forall>i \<in> set ids. length i < 4294967296" and "\<forall>v \<in> set vecs. length v = dim"
    and "0 < mdim" and "mdim < 4294967296" and "length encoding < 4294967296"
  shows "DecodeVAddPayload (EncodeVAddPayload docID vec) = Ok (docID, Some vec)
       \<and> bind_res (EncodeVAddBatchPayload dim ids vecs) (DecodeVAddBatchPayload spare) = Ok (dim, ids, vecs)
       \<and> DecodeVMigrateStartPayload (EncodeVMigrateStartPayload mdim encoding) = Some (mdim, encoding)"
  using VAdd_roundtrip [OF assms(1)] VAddBatch_roundtrip [OF assms(2-6)] VMigrate_roundtrip [OF assms(7-9)]
  by blast

theorem vector_payload_roundtrip_witness:
  "bind_res (EncodeVAddBatchPayload 2 [''a'', ''bc''] [[1, 2], [3, 4]]) (DecodeVAddBatchPayload [])
     = Ok (2, [''a'', ''bc''], [[1, 2], [3, 4]])"
  using vector_payload_roundtrip [of "''d''" "[[1, 2], [3, 4]]" "[''a'', ''bc'']" 2 3 "''int8''" "[]" "[]"]
  by simp

end
