(* ===== verification/WALStore.thy ===== *)
theory WALStore
  imports WAL
begin

text \<open>
  The write-ahead log as a running component, \<^verbatim>\<open>src/internal/persistence/wal.go\<close> and \<^verbatim>\<open>compaction.go\<close>: a directory
  of segment files, the buffered writer in front of the active segment, the sequence counter, and the
  operations open, write, sync, rotate, scan, compact. The record queue between \<^verbatim>\<open>Write\<close> and the flusher
  goroutine is first-in first-out and \<^verbatim>\<open>Write\<close> waits for its record, so a write is one step here. An I/O
  error is an argument of the step (\<open>io\<close>: how many buffered bytes reached the file before it).
\<close>

section \<open>State\<close>

record wal =
  w_files :: "(string, bytes) gomap"
  w_buf :: bytes
  w_syncMode :: string
  w_seq :: "64 word"
  w_size :: int
  w_maxSize :: int
  w_failed :: bool
  w_enc :: "encryptor option"

definition HasSuffix :: "string \<Rightarrow> string \<Rightarrow> bool" where
  "HasSuffix s p \<longleftrightarrow> HasPrefix (rev s) (rev p)"

definition TrimPrefix :: "string \<Rightarrow> string \<Rightarrow> string" where
  "TrimPrefix s p = (if HasPrefix s p then drop (length p) s else s)"

definition TrimSuffix :: "string \<Rightarrow> string \<Rightarrow> string" where
  "TrimSuffix s p = (if HasSuffix s p then take (length s - length p) s else s)"

definition active :: string where "active = ''wal.log''"

definition is_archive :: "string \<Rightarrow> bool" where
  "is_archive name \<longleftrightarrow> HasPrefix name ''wal-'' \<and> HasSuffix name ''.log''"

text \<open>\<^verbatim>\<open>fmt.Sprintf("wal-%020d.log", seq)\<close>.\<close>

definition pad20 :: "nat \<Rightarrow> string" where
  "pad20 n = replicate (20 - length (fmt_nat n)) CHR ''0'' @ fmt_nat n"

definition archive_name :: "64 word \<Rightarrow> string" where
  "archive_name seq = ''wal-'' @ pad20 (unat seq) @ ''.log''"

definition w_file :: "wal \<Rightarrow> bytes" where
  "w_file w = (case map_of (w_files w) active of None \<Rightarrow> [] | Some b \<Rightarrow> b)"

definition w_append :: "wal \<Rightarrow> bytes \<Rightarrow> wal" where
  "w_append w b = w\<lparr>w_files := AList.update active (w_file w @ b) (w_files w)\<rparr>"

section \<open>Scanning the directory\<close>

fun scan_paths ::
  "(bytes \<Rightarrow> bytes option) option \<Rightarrow> (string, bytes) gomap \<Rightarrow> string list \<Rightarrow> walRecord list \<times> walErr option" where
  "scan_paths dec files [] = ([], None)"
| "scan_paths dec files (p # ps) =
     (case scanRecordsMode (p = active) dec (case map_of files p of None \<Rightarrow> [] | Some b \<Rightarrow> b) of
        (rs, Some e) \<Rightarrow> (rs, Some e)
      | (rs, None) \<Rightarrow> (case scan_paths dec files ps of (rs', e) \<Rightarrow> (rs @ rs', e)))"

definition segment_paths :: "(string, bytes) gomap \<Rightarrow> string list" where
  "segment_paths files = sort (filter (\<lambda>n. n = active \<or> is_archive n) (map fst files))"

definition scanSegments ::
  "(bytes \<Rightarrow> bytes option) option \<Rightarrow> (string, bytes) gomap \<Rightarrow> walRecord list \<times> walErr option" where
  "scanSegments dec files = scan_paths dec files (segment_paths files)"

definition read_dir ::
  "(bytes \<Rightarrow> bytes option) option \<Rightarrow> (string, bytes) gomap \<Rightarrow> walErr + walRecord list" where
  "read_dir dec files =
     (case scanSegments dec files of
        (rs, None) \<Rightarrow> Inr (sort_key wr_Sequence rs) | (rs, Some e) \<Rightarrow> Inl e)"

definition w_ReadAll :: "gcm_open \<Rightarrow> wal \<Rightarrow> walErr + walRecord list" where
  "w_ReadAll gcm_open w = read_dir (wal_dec gcm_open (w_enc w)) (w_files w)"

text \<open>One record reduced to its effects on a key.\<close>

definition restrict_key :: "string \<Rightarrow> walRecord \<Rightarrow> walRecord option" where
  "restrict_key key rec =
     (case filter (\<lambda>e. we_Key e = key) (wr_Effects rec) of
        [] \<Rightarrow> None
      | e # es \<Rightarrow> Some (rec\<lparr>wr_Effects := e # es, wr_Type := we_Type e, wr_Key := we_Key e, wr_Value := we_Value e,
                           wr_TTLNano := we_ExpiresAt e\<rparr>))"

definition w_ReadKeyHistory :: "gcm_open \<Rightarrow> wal \<Rightarrow> string \<Rightarrow> int \<Rightarrow> walErr + walRecord list" where
  "w_ReadKeyHistory gcm_open w key until =
     (case scanSegments (wal_dec gcm_open (w_enc w)) (w_files w) of (rs, err) \<Rightarrow>
        let pre = takeWhile (\<lambda>r. wr_Timestamp r \<le> until) rs;
            matched = sort_key wr_Sequence (List.map_filter (restrict_key key) pre)
        in case drop (length pre) rs of
             r # _ \<Rightarrow> Inr (takeWhile (\<lambda>m. wr_Sequence m < wr_Sequence r) matched)
           | [] \<Rightarrow> (case err of
                      Some e \<Rightarrow> Inl e
                    | None \<Rightarrow> Inr (takeWhile (\<lambda>m. wr_Sequence m < - 1) matched)))"

section \<open>Opening\<close>

definition OpenWALEncrypted ::
  "gcm_open \<Rightarrow> string \<Rightarrow> int \<Rightarrow> encryptor option \<Rightarrow> (string, bytes) gomap \<Rightarrow> walErr + wal" where
  "OpenWALEncrypted gcm_open syncMode maxSizeMB enc files =
     (let dec = wal_dec gcm_open enc;
          old = (case map_of files active of None \<Rightarrow> [] | Some b \<Rightarrow> b);
          opened = (if old = [] then Inr (walHeader dec) else repairWALTail dec old)
      in case opened of
           Inl e \<Rightarrow> Inl e
         | Inr content \<Rightarrow>
             let files' = AList.update active content files;
                 w = \<lparr>w_files = files', w_buf = [], w_syncMode = syncMode, w_seq = 0,
                      w_size = (if old = [] then int (length content) else int (length old)),
                      w_maxSize = maxSizeMB * 1024 * 1024, w_failed = False, w_enc = enc\<rparr>
             in case w_ReadAll gcm_open w of
                  Inl e \<Rightarrow> Inl e
                | Inr rs \<Rightarrow> Inr (w\<lparr>w_seq := foldl (\<lambda>s r. if wr_Sequence r > s then wr_Sequence r else s) 0 rs\<rparr>))"

section \<open>Writing\<close>

text \<open>\<^verbatim>\<open>bufio.Writer.Write\<close> with a buffer of \<open>sz\<close> bytes: what goes to the file, and the buffer afterwards.\<close>

definition bufio_write :: "nat \<Rightarrow> bytes \<Rightarrow> bytes \<Rightarrow> bytes \<times> bytes" where
  "bufio_write sz buf p =
     (if length p \<le> sz - length buf then ([], buf @ p)
      else if buf = [] then (p, [])
      else let k = sz - length buf; q = drop k p
           in if length q \<le> sz then (buf @ take k p, q) else (buf @ take k p @ q, []))"

definition fill_effects :: "walRecord \<Rightarrow> walEffect list" where
  "fill_effects rec =
     (if wr_Effects rec \<noteq> [] then wr_Effects rec
      else let e0 = wr_TTLNano rec;
               e1 = (if e0 > 0 \<and> wr_Type rec \<noteq> RecordExpire then i64 (wr_Timestamp rec + e0) else e0);
               e2 = (if wr_Type rec = RecordExpire \<and> e1 > 0 \<and> e1 < wr_Timestamp rec
                     then i64 (wr_Timestamp rec + e1) else e1)
           in [\<lparr>we_Type = wr_Type rec, we_Key = wr_Key rec, we_Value = nil_append (sl (wr_Value rec)),
                we_ExpiresAt = e2\<rparr>])"

definition stamp :: "int \<Rightarrow> 64 word \<Rightarrow> walRecord \<Rightarrow> walRecord" where
  "stamp now seq rec =
     (let r = rec\<lparr>wr_Sequence := seq, wr_Timestamp := now\<rparr> in r\<lparr>wr_Effects := fill_effects r\<rparr>)"

text \<open>Flush and sync; \<open>io = Some n\<close> is a failure after \<open>n\<close> bytes of the buffer reached the file.\<close>

definition w_Sync :: "nat option \<Rightarrow> wal \<Rightarrow> wal \<times> bool" where
  "w_Sync io w =
     (case io of
        None \<Rightarrow> ((w_append w (w_buf w))\<lparr>w_buf := []\<rparr>, True)
      | Some n \<Rightarrow> ((w_append w (take n (w_buf w)))\<lparr>w_buf := drop n (w_buf w), w_failed := True\<rparr>, False))"

text \<open>The flusher's step for one record.\<close>

definition flush_record ::
  "gcm_seal \<Rightarrow> bytes \<Rightarrow> nat option \<Rightarrow> wal \<Rightarrow> walRecord \<Rightarrow> wal \<times> bool" where
  "flush_record gcm_seal nonce io w rec =
     (case encodeRecord gcm_seal (w_enc w) nonce rec of
        None \<Rightarrow> (w, False)
      | Some data \<Rightarrow>
          (case bufio_write 65536 (w_buf w) data of (out, buf) \<Rightarrow>
             let w1 = (w_append w out)\<lparr>w_buf := buf, w_size := w_size w + int (length data)\<rparr>
             in if w_syncMode w = ''always'' then w_Sync io w1 else (w1, True)))"

definition w_Write ::
  "gcm_seal \<Rightarrow> bytes \<Rightarrow> nat option \<Rightarrow> int \<Rightarrow> wal \<Rightarrow> walRecord \<Rightarrow> wal \<times> walRecord \<times> bool" where
  "w_Write gcm_seal nonce io now w rec =
     (if w_failed w then (w, rec, False)
      else let seq = w_seq w + 1; rec' = stamp now seq rec
           in case flush_record gcm_seal nonce io (w\<lparr>w_seq := seq\<rparr>) rec' of (w', ok) \<Rightarrow> (w', rec', ok))"

definition empty_record :: walRecord where
  "empty_record = \<lparr>wr_Type = 0, wr_Key = [], wr_Value = None, wr_TTLNano = 0, wr_Timestamp = 0,
     wr_Sequence = 0, wr_Effects = []\<rparr>"

definition w_WriteTransaction ::
  "gcm_seal \<Rightarrow> bytes \<Rightarrow> nat option \<Rightarrow> int \<Rightarrow> wal \<Rightarrow> walEffect list \<Rightarrow> wal \<times> (64 word \<times> bool)" where
  "w_WriteTransaction gcm_seal nonce io now w effects =
     (if effects = [] then (w, (w_seq w, True))
      else case w_Write gcm_seal nonce io now w (empty_record\<lparr>wr_Effects := map norm_effect effects\<rparr>) of
             (w', rec, ok) \<Rightarrow> (w', (wr_Sequence rec, ok)))"

text \<open>The flusher's ticker in \<^verbatim>\<open>everysec\<close> mode, when a second has passed since the last sync.\<close>

definition w_tick :: "nat option \<Rightarrow> wal \<Rightarrow> wal" where
  "w_tick io w = (if w_syncMode w = ''everysec'' then fst (w_Sync io w) else w)"

section \<open>Rotation and compaction\<close>

definition w_Rotate :: "wal \<Rightarrow> wal \<times> bool" where
  "w_Rotate w =
     (if w_failed w then (w, False)
      else let w1 = fst (w_Sync None w);
               old = w_file w1;
               files = AList.update active (walHeader (w_enc w))
                         (AList.update (archive_name (w_seq w)) old (AList.delete active (w_files w1)))
           in (w1\<lparr>w_files := files, w_size := int (length walV2Magic)\<rparr>, True))"

definition NeedsRotation :: "wal \<Rightarrow> bool" where
  "NeedsRotation w \<longleftrightarrow> w_maxSize w > 0 \<and> w_size w \<ge> w_maxSize w"

definition covered_by :: "64 word \<Rightarrow> string \<Rightarrow> bool" where
  "covered_by checkpointSequence name \<longleftrightarrow>
     is_archive name \<and>
     (case ParseUint (TrimSuffix (TrimPrefix name ''wal-'') ''.log'') of
        Inl _ \<Rightarrow> False
      | Inr segmentMax \<Rightarrow> segmentMax \<le> unat checkpointSequence)"

definition CompactThrough :: "64 word \<Rightarrow> (string, bytes) gomap \<Rightarrow> (string, bytes) gomap \<times> nat" where
  "CompactThrough checkpointSequence files =
     (filter (\<lambda>(n, _). \<not> covered_by checkpointSequence n) files,
      length (filter (\<lambda>(n, _). covered_by checkpointSequence n) files))"

definition Compact :: "(string, bytes) gomap \<Rightarrow> (string, bytes) gomap \<times> nat" where
  "Compact files = CompactThrough (- 1) files"

definition w_Compact :: "64 word \<Rightarrow> wal \<Rightarrow> wal" where
  "w_Compact seq w = w\<lparr>w_files := fst (CompactThrough seq (w_files w))\<rparr>"

text \<open>What a crash leaves on disk: some of the buffered bytes may have been written.\<close>

definition crash :: "nat \<Rightarrow> wal \<Rightarrow> (string, bytes) gomap" where
  "crash n w = w_files (w_append w (take n (w_buf w)))"

section \<open>Segment names sort by sequence\<close>

lemma dec_val_Cons: "dec_val 0 (c # cs) = digit_val c * 10 ^ length cs + dec_val 0 cs"
proof -
  have "dec_val s cs = s * 10 ^ length cs + dec_val 0 cs" for s
  proof (induction cs arbitrary: s)
    case Nil
    then show ?case by (simp add: dec_val_def)
  next
    case (Cons d cs)
    have "dec_val s (d # cs) = dec_val (s * 10 + digit_val d) cs" for s by (simp add: dec_val_def)
    then show ?case using Cons.IH [of "s * 10 + digit_val d"] Cons.IH [of "digit_val d"]
      by (simp add: algebra_simps)
  qed
  from this [of "digit_val c"] show ?thesis by (simp add: dec_val_def)
qed

lemma dec_val_Nil [simp]: "dec_val 0 [] = 0"
  by (simp add: dec_val_def)

lemma digit_val_less: "is_digit c \<Longrightarrow> digit_val c < 10"
  by (auto simp: is_digit_def digit_val_def)

lemma dec_val_bound: "\<forall>c \<in> set cs. is_digit c \<Longrightarrow> dec_val 0 cs < 10 ^ length cs"
proof (induction cs)
  case Nil
  then show ?case by simp
next
  case (Cons c cs)
  then have "digit_val c \<le> 9" "dec_val 0 cs < 10 ^ length cs" using digit_val_less [of c] by auto
  moreover from this(1) have "digit_val c * 10 ^ length cs \<le> 9 * 10 ^ length cs" by (rule mult_le_mono1)
  ultimately have "digit_val c * 10 ^ length cs + dec_val 0 cs < 9 * 10 ^ length cs + 10 ^ length cs" by linarith
  then show ?case by (simp add: dec_val_Cons)
qed

lemma digit_less_iff: "is_digit c \<Longrightarrow> is_digit d \<Longrightarrow> c < d \<longleftrightarrow> digit_val c < digit_val d"
  by (auto simp: is_digit_def digit_val_def less_char_def)

lemma digit_eq_iff: "is_digit c \<Longrightarrow> is_digit d \<Longrightarrow> c = d \<longleftrightarrow> digit_val c = digit_val d"
  using digit_less_iff [of c d] digit_less_iff [of d c] by (metis less_irrefl neqE)

lemma less_scaled:
  assumes "(a :: nat) < b" and "x < m"
  shows "a * m + x < b * m + y"
proof -
  have "Suc a * m \<le> b * m" using assms(1) by (intro mult_le_mono1) simp
  then show ?thesis using assms(2) by simp
qed

lemma digits_less_iff:
  assumes "length a = length b" "\<forall>c \<in> set a. is_digit c" "\<forall>c \<in> set b. is_digit c"
  shows "a < b \<longleftrightarrow> dec_val 0 a < dec_val 0 b"
  using assms
proof (induction a b rule: list_induct2)
  case Nil
  then show ?case by simp
next
  case (Cons c cs d ds)
  have b: "dec_val 0 cs < 10 ^ length ds" "dec_val 0 ds < 10 ^ length ds"
    using Cons.prems Cons.hyps dec_val_bound [of cs] dec_val_bound [of ds] by auto
  have d: "is_digit c" "is_digit d" using Cons.prems by auto
  have IH: "cs < ds \<longleftrightarrow> dec_val 0 cs < dec_val 0 ds" using Cons by auto
  consider "digit_val c < digit_val d" | "digit_val c = digit_val d" | "digit_val d < digit_val c" by linarith
  then show ?case
  proof cases
    case 1
    then show ?thesis
      using d b less_scaled [OF 1 b(1)] Cons.hyps by (simp add: digit_less_iff dec_val_Cons)
  next
    case 2
    then have "c = d" using d by (simp add: digit_eq_iff)
    then show ?thesis using IH Cons.hyps by (simp add: dec_val_Cons)
  next
    case 3
    then have "\<not> c < d" "c \<noteq> d" using d by (auto simp: digit_less_iff)
    then show ?thesis
      using less_scaled [OF 3 b(2), of "dec_val 0 cs"] Cons.hyps by (auto simp: dec_val_Cons)
  qed
qed

lemma dec_val_zeros: "dec_val 0 (replicate k (CHR ''0'') @ cs) = dec_val 0 cs"
  by (induction k) (simp_all add: dec_val_Cons digit_val_def)

lemma pad20:
  assumes "n < 10 ^ 20"
  shows "length (pad20 n) = 20" "dec_val 0 (pad20 n) = n" "\<forall>c \<in> set (pad20 n). is_digit c"
proof -
  have "n < 10 ^ Suc 19" using assms by simp
  from length_fmt_nat [OF this] show "length (pad20 n) = 20" by (simp add: pad20_def)
  show "dec_val 0 (pad20 n) = n" by (simp add: pad20_def dec_val_zeros dec_val_fmt_nat)
  show "\<forall>c \<in> set (pad20 n). is_digit c"
    using fmt_nat_digits [of n] by (auto simp: pad20_def is_digit_def)
qed

lemma unat_lt_pad: "unat (q :: 64 word) < 10 ^ 20"
  using unsigned_less [of q, where ?'a = nat] by simp

lemma list_less_append: "(a @ x < a @ y) \<longleftrightarrow> (x < (y :: string))"
  by (induction a) simp_all

lemma same_length_less_append:
  "length a = length b \<Longrightarrow> (a @ x < b @ (x :: string)) \<longleftrightarrow> a < b"
  by (induction a b rule: list_induct2) auto

lemma archive_name_less: "archive_name p < archive_name q \<longleftrightarrow> p < q"
proof -
  note P = pad20 [OF unat_lt_pad [of p]] and Q = pad20 [OF unat_lt_pad [of q]]
  have "archive_name p < archive_name q \<longleftrightarrow> pad20 (unat p) < pad20 (unat q)"
    using P(1) Q(1) by (simp add: archive_name_def same_length_less_append)
  also have "\<dots> \<longleftrightarrow> unat p < unat q" using P Q by (subst digits_less_iff) simp_all
  finally show ?thesis by (simp add: word_less_nat_alt)
qed

lemma archive_name_inj: "archive_name p = archive_name q \<longleftrightarrow> p = q"
  using archive_name_less [of p q] archive_name_less [of q p] by (metis less_irrefl neqE)

lemma archive_name_active: "archive_name q < active" "archive_name q \<noteq> active"
  by (simp_all add: archive_name_def active_def less_char_def)

lemma HasSuffix_append [simp]: "HasSuffix (a @ b) b"
  by (simp add: HasSuffix_def HasPrefix_def)

lemma is_archive_name [simp]: "is_archive (archive_name q)"
proof -
  have "HasSuffix ((''wal-'' @ pad20 (unat q)) @ ''.log'') ''.log''" by (rule HasSuffix_append)
  then show ?thesis by (simp add: is_archive_def archive_name_def HasPrefix_def)
qed

lemma not_archive_active [simp]: "\<not> is_archive active"
  by (simp add: is_archive_def active_def HasPrefix_def)

lemma covered_by_archive: "covered_by c (archive_name q) \<longleftrightarrow> q \<le> c"
proof -
  note Q = pad20 [OF unat_lt_pad [of q]]
  have p: "ParseUint (pad20 (unat q)) = Inr (unat q)"
  proof -
    have "pad20 (unat q) \<noteq> []" using Q(1) by auto
    moreover have "unat q < 18446744073709551616" using unsigned_less [of q, where ?'a = nat] by simp
    ultimately show ?thesis
      using parse_digits_dec_val [OF Q(3), of 0] Q(2) by (simp add: ParseUint_def)
  qed
  have "HasSuffix (pad20 (unat q) @ ''.log'') ''.log''" by (rule HasSuffix_append)
  then have "TrimSuffix (TrimPrefix (archive_name q) ''wal-'') ''.log'' = pad20 (unat q)"
    by (simp add: archive_name_def TrimPrefix_def TrimSuffix_def HasPrefix_def)
  then show ?thesis by (simp add: covered_by_def p word_le_nat_alt)
qed

end
