(* ===== verification/WALLog.thy ===== *)
theory WALLog
  imports WALStore
begin

text \<open>
  The running log refines an abstract segmented log: a list of archived record lists, the records of the
  active segment, and a counter. Encoding, buffering, file names, scanning and sorting disappear. A crash
  leaves a prefix of the active records.
\<close>

section \<open>The abstract log\<close>

record alog =
  al_segs :: "(64 word \<times> walRecord list) list"
  al_act :: "walRecord list"
  al_seq :: "64 word"

definition al_records :: "alog \<Rightarrow> walRecord list" where
  "al_records a = concat (map snd (al_segs a)) @ al_act a"

definition al_write :: "int \<Rightarrow> walRecord \<Rightarrow> alog \<Rightarrow> alog" where
  "al_write now rec a =
     a\<lparr>al_seq := al_seq a + 1, al_act := al_act a @ [norm_record (stamp now (al_seq a + 1) rec)]\<rparr>"

text \<open>A second rotation without a write in between replaces the segment of the first.\<close>

definition al_rotate :: "alog \<Rightarrow> alog" where
  "al_rotate a =
     a\<lparr>al_segs := filter (\<lambda>s. fst s \<noteq> al_seq a) (al_segs a) @ [(al_seq a, al_act a)], al_act := []\<rparr>"

definition al_compact :: "64 word \<Rightarrow> alog \<Rightarrow> alog" where
  "al_compact c a = a\<lparr>al_segs := filter (\<lambda>s. \<not> fst s \<le> c) (al_segs a)\<rparr>"

definition max_seq :: "walRecord list \<Rightarrow> 64 word" where
  "max_seq rs = foldl (\<lambda>s r. if wr_Sequence r > s then wr_Sequence r else s) 0 rs"

definition al_reopen :: "alog \<Rightarrow> alog" where
  "al_reopen a = a\<lparr>al_seq := max_seq (al_records a)\<rparr>"

section \<open>The relation between the two\<close>

definition seg_holds :: "(bytes \<Rightarrow> bytes option) option \<Rightarrow> bytes \<Rightarrow> walRecord list \<Rightarrow> bool" where
  "seg_holds dec b rs \<longleftrightarrow> (\<exists>fs. b = walHeader dec @ concat fs \<and> list_all2 (is_frame dec) rs fs)"

definition log_files ::
  "(bytes \<Rightarrow> bytes option) option \<Rightarrow> (string, bytes) gomap \<Rightarrow> bytes \<Rightarrow> alog \<Rightarrow> bool" where
  "log_files dec files buf a \<longleftrightarrow>
     wf_map files
     \<and> (\<exists>c. map_of files active = Some (walHeader dec @ c) \<and> seg_holds dec (walHeader dec @ c @ buf) (al_act a))
     \<and> (\<forall>s \<in> set (al_segs a). \<exists>b. map_of files (archive_name (fst s)) = Some b \<and> seg_holds dec b (snd s))
     \<and> (\<forall>n. is_archive n \<and> map_of files n \<noteq> None \<longrightarrow> (\<exists>s \<in> set (al_segs a). n = archive_name (fst s)))"

definition log_seqs :: "alog \<Rightarrow> bool" where
  "log_seqs a \<longleftrightarrow>
     sorted_wrt (<) (map fst (al_segs a))
     \<and> sorted_wrt (<) (map wr_Sequence (al_records a))
     \<and> (\<forall>r \<in> set (al_records a). wr_Sequence r \<le> al_seq a)
     \<and> (\<forall>s \<in> set (al_segs a). fst s \<le> al_seq a \<and> (\<forall>r \<in> set (snd s). wr_Sequence r \<le> fst s))"

definition enc_ok :: "encryptor option \<Rightarrow> bool" where
  "enc_ok enc \<longleftrightarrow> (case enc of None \<Rightarrow> True | Some e \<Rightarrow> NewCipher_ok (enc_key e))"

definition log_rel :: "gcm_open \<Rightarrow> wal \<Rightarrow> alog \<Rightarrow> bool" where
  "log_rel gcm_open w a \<longleftrightarrow>
     log_files (wal_dec gcm_open (w_enc w)) (w_files w) (w_buf w) a \<and> log_seqs a
     \<and> w_seq w = al_seq a \<and> \<not> w_failed w \<and> enc_ok (w_enc w)"

section \<open>Reading\<close>

lemma segment_paths_eq:
  assumes f: "log_files dec files buf a" and s: "sorted_wrt (<) (map fst (al_segs a))"
  shows "segment_paths files = map (archive_name \<circ> fst) (al_segs a) @ [active]"
proof -
  let ?l = "map (archive_name \<circ> fst) (al_segs a) @ [active]"
  have srt: "sorted_wrt (<) ?l"
    using s by (auto simp: sorted_wrt_append sorted_wrt_map archive_name_less archive_name_active)
  then have "sorted ?l" "distinct ?l" by (simp_all add: strict_sorted_iff)
  moreover have "set ?l = {n \<in> set (map fst files). n = active \<or> is_archive n}" (is "?L = ?R")
  proof
    have m: "k \<in> set (map fst files)" if "map_of files k = Some v" for k v
      using map_of_SomeD [OF that] by force
    show "?L \<subseteq> ?R"
    proof
      fix n assume "n \<in> ?L"
      then consider s where "s \<in> set (al_segs a)" "n = archive_name (fst s)" | "n = active" by auto
      then show "n \<in> ?R"
        using f by cases (auto simp: log_files_def simp del: set_map dest!: bspec m)
    qed
    have d: "map_of files k \<noteq> None" if "k \<in> set (map fst files)" for k
      using that by (simp add: map_of_eq_None_iff)
    show "?R \<subseteq> ?L" using f d unfolding log_files_def by (auto simp del: set_map) fastforce
  qed
  moreover have "distinct (segment_paths files)" "sorted (segment_paths files)"
    "set (segment_paths files) = {n \<in> set (map fst files). n = active \<or> is_archive n}"
    using f by (auto simp: segment_paths_def log_files_def wf_map_def)
  ultimately show ?thesis by (metis sorted_distinct_set_unique)
qed

lemma scan_holds: "seg_holds dec b rs \<Longrightarrow> scanRecordsMode m dec b = (rs, None)"
  using scan_frames_append [where b = "[]"] by (auto simp: seg_holds_def scanRecordsMode_header)


lemma scan_paths_append:
  "(\<forall>p \<in> set ps. \<exists>b. map_of files p = Some b \<and> seg_holds dec b (f p)) \<Longrightarrow>
     scan_paths dec files (ps @ qs) = (case scan_paths dec files qs of (rs, e) \<Rightarrow> (concat (map f ps) @ rs, e))"
proof (induction ps)
  case Nil
  then show ?case by simp
next
  case (Cons p ps)
  then obtain b where b: "map_of files p = Some b" "seg_holds dec b (f p)" by auto
  from Cons show ?case by (simp add: b(1) scan_holds [OF b(2)] split: prod.splits)
qed

lemma scanSegments_files:
  assumes f: "log_files dec files [] a" and s: "log_seqs a"
  shows "scanSegments dec files = (al_records a, None)"
proof -
  have srt: "sorted_wrt (<) (map fst (al_segs a))" using s by (simp add: log_seqs_def)
  have d: "distinct (map fst (al_segs a))" using srt by (simp add: strict_sorted_iff)
  let ?f = "\<lambda>p. the (map_of (map (\<lambda>s. (archive_name (fst s), snd s)) (al_segs a)) p)"
  have inj: "inj_on (archive_name \<circ> fst) (set (al_segs a))"
    using d by (auto simp: inj_on_def archive_name_inj distinct_map)
  have v: "?f (archive_name (fst s)) = snd s" if "s \<in> set (al_segs a)" for s
  proof -
    have "map_of (map (\<lambda>s. (archive_name (fst s), snd s)) (al_segs a)) (archive_name (fst s)) = Some (snd s)"
      using that d inj by (intro map_of_is_SomeI) (auto simp: distinct_map o_def)
    then show ?thesis by simp
  qed
  obtain c where c: "map_of files active = Some (walHeader dec @ c)" "seg_holds dec (walHeader dec @ c) (al_act a)"
    using f by (auto simp: log_files_def)
  let ?ps = "map (archive_name \<circ> fst) (al_segs a)"
  have act: "scan_paths dec files [active] = (al_act a, None)" by (simp add: c(1) scan_holds [OF c(2)])
  have ok: "\<forall>p \<in> set ?ps. \<exists>b. map_of files p = Some b \<and> seg_holds dec b (?f p)"
    using f v by (auto simp: log_files_def)
  have m: "map ?f ?ps = map snd (al_segs a)" using v by simp
  show ?thesis
    unfolding scanSegments_def segment_paths_eq [OF f srt] scan_paths_append [OF ok] act m
    by (simp add: al_records_def)
qed

lemma sort_key_sorted: "sorted_wrt (<) (map f xs) \<Longrightarrow> sort_key f xs = xs"
  by (rule sort_key_id_if_sorted) (simp add: strict_sorted_iff)

lemma read_dir_files:
  "log_files dec files [] a \<Longrightarrow> log_seqs a \<Longrightarrow> read_dir dec files = Inr (al_records a)"
  by (simp add: read_dir_def scanSegments_files sort_key_sorted log_seqs_def)

section \<open>Writing\<close>

lemma bufio_write_stream: "bufio_write sz buf p = (out, buf') \<Longrightarrow> out @ buf' = buf @ p"
  by (auto simp: bufio_write_def Let_def split: if_splits)

lemma log_files_active:
  assumes "log_files dec files buf a" and "seg_holds dec (walHeader dec @ c @ buf') act"
  shows "log_files dec (AList.update active (walHeader dec @ c) files) buf' (a\<lparr>al_act := act\<rparr>)"
  using assms by (auto simp: log_files_def archive_name_active)

lemma log_files_content:
  assumes "log_files dec (w_files w) buf a"
  obtains c where "w_file w = walHeader dec @ c" and "seg_holds dec (walHeader dec @ c @ buf) (al_act a)"
  using assms by (auto simp: log_files_def w_file_def)

lemma seg_holds_snoc:
  assumes "seg_holds dec b rs" and "is_frame dec r f"
  shows "seg_holds dec (b @ f) (rs @ [r])"
proof -
  obtain fs where "b = walHeader dec @ concat fs" "list_all2 (is_frame dec) rs fs"
    using assms(1) by (auto simp: seg_holds_def)
  then have "b @ f = walHeader dec @ concat (fs @ [f]) \<and> list_all2 (is_frame dec) (rs @ [r]) (fs @ [f])"
    using assms(2) by (simp add: list_all2_appendI)
  then show ?thesis unfolding seg_holds_def by blast
qed

lemma w_append_sel [simp]:
  "w_buf (w_append w b) = w_buf w" "w_seq (w_append w b) = w_seq w" "w_failed (w_append w b) = w_failed w"
  "w_enc (w_append w b) = w_enc w" "w_syncMode (w_append w b) = w_syncMode w"
  by (simp_all add: w_append_def)

text \<open>Moving bytes from the buffer to the file, and appending a frame to the stream.\<close>

lemma log_files_stream:
  assumes f: "log_files dec (w_files w) (w_buf w) a"
    and new: "out @ buf' = w_buf w @ data"
    and hold: "data = [] \<and> act = al_act a \<or> (\<exists>r. is_frame dec r data \<and> act = al_act a @ [r])"
  shows "log_files dec (w_files (w_append w out)) buf' (a\<lparr>al_act := act\<rparr>)"
proof -
  obtain c where c: "w_file w = walHeader dec @ c" "seg_holds dec (walHeader dec @ c @ w_buf w) (al_act a)"
    using f by (rule log_files_content)
  have "(walHeader dec @ c @ w_buf w) @ data = walHeader dec @ (c @ out) @ buf'" using new by simp
  then have "seg_holds dec (walHeader dec @ (c @ out) @ buf') act"
    using c(2) hold seg_holds_snoc [of dec "walHeader dec @ c @ w_buf w" "al_act a" _ data] by auto
  from log_files_active [OF f this] show ?thesis
    by (simp add: w_append_def c(1))
qed

lemma log_rel_Sync:
  assumes "log_rel gcm_open w a"
  shows "log_rel gcm_open (fst (w_Sync None w)) a" and "w_buf (fst (w_Sync None w)) = []"
  using log_files_stream [of "wal_dec gcm_open (w_enc w)" w a "w_buf w" "[]" "[]" "al_act a"] assms
  by (simp_all add: log_rel_def w_Sync_def)

definition rec_fits :: "int \<Rightarrow> walRecord \<Rightarrow> bool" where
  "rec_fits now rec \<longleftrightarrow> record_ok (stamp now 0 rec)"

lemma record_ok_stamp: "record_ok (stamp now s rec) \<longleftrightarrow> rec_fits now rec"
proof -
  have "record_effects (stamp now s rec) = record_effects (stamp now 0 rec)"
    "wr_Timestamp (stamp now s rec) = wr_Timestamp (stamp now 0 rec)"
    by (simp_all add: stamp_def Let_def record_effects_def fill_effects_def)
  then show ?thesis
    by (simp add: rec_fits_def record_ok_def encode_body_def)
qed

lemma encodeRecord_some: "enc_ok enc \<Longrightarrow> \<exists>f. encodeRecord gcm_seal enc nonce rec = Some f"
  by (auto simp: encodeRecord_def enc_ok_def Encrypt_def Let_def split: option.splits)

lemma stamp_Sequence [simp]: "wr_Sequence (stamp now s rec) = s"
  by (simp add: stamp_def Let_def)

lemma norm_Sequence [simp]: "wr_Sequence (norm_record r) = wr_Sequence r"
  by (simp add: norm_record_def Let_def)

lemma word_less_succ: "(s :: 64 word) \<noteq> - 1 \<Longrightarrow> s < s + 1"
proof -
  assume "s \<noteq> - 1"
  then have "1 + s \<noteq> 0" by (metis add_eq_0_iff)
  then have "unat (1 + s) = Suc (unat s)" by (rule unatSuc)
  then show ?thesis by (simp add: word_less_nat_alt add.commute)
qed

lemma log_seqs_write:
  assumes s: "log_seqs a" and o: "al_seq a \<noteq> - 1"
  shows "log_seqs (al_write now rec a)"
proof -
  have lt: "al_seq a < al_seq a + 1" using o by (rule word_less_succ)
  have "r \<le> al_seq a \<Longrightarrow> r < al_seq a + 1" "r \<le> al_seq a \<Longrightarrow> r \<le> al_seq a + 1" for r
    using lt by auto
  then show ?thesis
    using s by (auto simp: log_seqs_def al_write_def al_records_def sorted_wrt_append)
qed

lemma log_rel_Write:
  assumes gcm: "gcm_spec gcm_seal gcm_open" and n: "length nonce = 12" and fits: "rec_fits now rec"
    and o: "w_seq w \<noteq> - 1" and rel: "log_rel gcm_open w a"
  obtains w' where "w_Write gcm_seal nonce None now w rec = (w', stamp now (w_seq w + 1) rec, True)"
    and "log_rel gcm_open w' (al_write now rec a)" and "w_syncMode w' = w_syncMode w"
    and "w_syncMode w = ''always'' \<Longrightarrow> w_buf w' = []"
proof -
  let ?dec = "wal_dec gcm_open (w_enc w)" and ?rec = "stamp now (w_seq w + 1) rec"
  obtain f where f: "encodeRecord gcm_seal (w_enc w) nonce ?rec = Some f"
    using encodeRecord_some rel unfolding log_rel_def by blast
  have fr: "is_frame ?dec (norm_record ?rec) f"
    using encodeRecord_is_frame [OF gcm n f] fits by (simp add: record_ok_stamp)
  obtain out buf' where b: "bufio_write 65536 (w_buf w) f = (out, buf')" by force
  define w1 where "w1 = (w_append (w\<lparr>w_seq := w_seq w + 1\<rparr>) out)\<lparr>w_buf := buf', w_size := w_size w + int (length f)\<rparr>"
  have files: "w_files w1 = w_files (w_append w out)" by (simp add: w1_def w_append_def w_file_def)
  have "log_files ?dec (w_files w1) buf' (al_write now rec a)"
    using log_files_stream [where w = w and out = out and buf' = buf' and data = f and a = a] bufio_write_stream [OF b] fr rel
    unfolding files by (simp add: al_write_def log_rel_def log_files_def al_records_def) blast
  then have r1: "log_rel gcm_open w1 (al_write now rec a)"
    using rel o log_seqs_write [of a now rec] by (simp add: log_rel_def w1_def al_write_def)
  define w' where "w' = (if w_syncMode w = ''always'' then fst (w_Sync None w1) else w1)"
  have "w_Write gcm_seal nonce None now w rec = (w', ?rec, True)"
    using rel f b by (simp add: w_Write_def flush_record_def Let_def w1_def w'_def log_rel_def w_Sync_def)
  moreover have "log_rel gcm_open w' (al_write now rec a)"
    using log_rel_Sync [OF r1] r1 by (simp add: w'_def)
  moreover have "w_syncMode w' = w_syncMode w" by (simp add: w'_def w1_def w_Sync_def)
  moreover have "w_buf w' = []" if "w_syncMode w = ''always''"
    using that by (simp add: w'_def w_Sync_def)
  ultimately show thesis by (rule that)
qed

section \<open>Rotating and compacting\<close>

lemma sorted_concat_filter:
  "sorted_wrt P (map f (concat (map snd segs) @ act)) \<Longrightarrow>
     sorted_wrt P (map f (concat (map snd (filter Q segs)) @ act))"
  by (induction segs) (auto simp: sorted_wrt_append, force)

lemma log_rel_Rotate:
  assumes rel: "log_rel gcm_open w a"
  shows "log_rel gcm_open (fst (w_Rotate w)) (al_rotate a)"
    and "snd (w_Rotate w)" and "w_buf (fst (w_Rotate w)) = []"
    and "w_syncMode (fst (w_Rotate w)) = w_syncMode w"
proof -
  let ?dec = "wal_dec gcm_open (w_enc w)"
  define w1 where "w1 = fst (w_Sync None w)"
  have r1: "log_rel gcm_open w1 a" and b1: "w_buf w1 = []" using log_rel_Sync [OF rel] by (simp_all add: w1_def)
  have same: "w_enc w1 = w_enc w" "w_seq w1 = w_seq w" "w_syncMode w1 = w_syncMode w"
    by (simp_all add: w1_def w_Sync_def)
  have f1: "log_files ?dec (w_files w1) [] a" using r1 b1 same by (simp add: log_rel_def)
  obtain c where c: "w_file w1 = walHeader ?dec @ c" "seg_holds ?dec (walHeader ?dec @ c) (al_act a)"
    using f1 by (auto elim: log_files_content)
  have e: "seg_holds ?dec (walHeader ?dec) []" by (auto simp: seg_holds_def intro: exI [of _ "[]"])
  let ?files = "AList.update active (walHeader (w_enc w))
     (AList.update (archive_name (w_seq w)) (w_file w1) (AList.delete active (w_files w1)))"
  have "log_files ?dec ?files [] (al_rotate a)"
    using f1 c e rel archive_name_active
    by (auto simp: log_files_def al_rotate_def archive_name_inj walHeader_map log_rel_def)
      (metis fst_conv surj_pair)
  moreover have "log_seqs (al_rotate a)"
  proof -
    have s: "log_seqs a" using rel by (simp add: log_rel_def)
    have "sorted_wrt (<) (map fst (filter (\<lambda>s. fst s \<noteq> al_seq a) (al_segs a)))"
      using s by (auto simp: log_seqs_def sorted_wrt_map sorted_wrt_filter)
    moreover have "fst s < al_seq a" if "s \<in> set (al_segs a)" "fst s \<noteq> al_seq a" for s
      using s that by (auto simp: log_seqs_def order.strict_iff_order)
    moreover have "al_records (al_rotate a) = concat (map snd (filter (\<lambda>s. fst s \<noteq> al_seq a) (al_segs a))) @ al_act a"
      by (simp add: al_records_def al_rotate_def)
    ultimately show ?thesis
      using s sorted_concat_filter [of "(<)" wr_Sequence "al_segs a" "al_act a"]
      by (auto simp: log_seqs_def al_records_def al_rotate_def sorted_wrt_append)
  qed
  ultimately show "log_rel gcm_open (fst (w_Rotate w)) (al_rotate a)"
    using rel same b1 by (simp add: w_Rotate_def log_rel_def Let_def w1_def [symmetric] al_rotate_def)
      (simp add: w1_def w_Sync_def)
  show "snd (w_Rotate w)" "w_buf (fst (w_Rotate w)) = []" "w_syncMode (fst (w_Rotate w)) = w_syncMode w"
    using rel b1 same by (simp_all add: w_Rotate_def Let_def log_rel_def w1_def [symmetric])
qed

lemma not_covered_active [simp]: "\<not> covered_by c active"
  by (simp add: covered_by_def)

lemma log_rel_Compact:
  assumes rel: "log_rel gcm_open w a"
  shows "log_rel gcm_open (w_Compact c w) (al_compact c a)"
proof -
  let ?dec = "wal_dec gcm_open (w_enc w)" and ?files = "fst (CompactThrough c (w_files w))"
  have wf: "wf_map (w_files w)" using rel by (simp add: log_rel_def log_files_def)
  have look: "map_of ?files n = (if covered_by c n then None else map_of (w_files w) n)" for n
    using map_of_filter_wf [OF wf] by (simp add: CompactThrough_def case_prod_unfold split: option.split)
  have "wf_map ?files" using wf by (simp add: CompactThrough_def wf_map_filter)
  then have "log_files ?dec ?files (w_buf w) (al_compact c a)"
    using rel unfolding log_files_def log_rel_def look
    by (auto simp: al_compact_def covered_by_archive) (metis covered_by_archive fst_conv surj_pair)
  moreover have "log_seqs (al_compact c a)"
    using rel sorted_concat_filter [of "(<)" wr_Sequence "al_segs a" "al_act a"]
    by (auto simp: log_rel_def log_seqs_def al_compact_def al_records_def sorted_wrt_map sorted_wrt_filter)
  ultimately show ?thesis using rel by (simp add: log_rel_def w_Compact_def al_compact_def)
qed

section \<open>Runs\<close>

datatype walop =
    OpWrite bytes int walRecord
  | OpTick
  | OpSync
  | OpRotate
  | OpCompact "64 word"

fun wal_run :: "gcm_seal \<Rightarrow> wal \<Rightarrow> walop \<Rightarrow> wal" where
  "wal_run gcm_seal w (OpWrite nonce now rec) = fst (w_Write gcm_seal nonce None now w rec)"
| "wal_run gcm_seal w OpTick = w_tick None w"
| "wal_run gcm_seal w OpSync = fst (w_Sync None w)"
| "wal_run gcm_seal w OpRotate = fst (w_Rotate w)"
| "wal_run gcm_seal w (OpCompact c) = w_Compact c w"

fun al_run :: "alog \<Rightarrow> walop \<Rightarrow> alog" where
  "al_run a (OpWrite nonce now rec) = al_write now rec a"
| "al_run a OpTick = a"
| "al_run a OpSync = a"
| "al_run a OpRotate = al_rotate a"
| "al_run a (OpCompact c) = al_compact c a"

fun op_ok :: "walop \<Rightarrow> bool" where
  "op_ok (OpWrite nonce now rec) \<longleftrightarrow> length nonce = 12 \<and> rec_fits now rec"
| "op_ok _ \<longleftrightarrow> True"

definition al_empty :: alog where
  "al_empty = \<lparr>al_segs = [], al_act = [], al_seq = 0\<rparr>"

lemma al_run_seq: "al_seq (al_run a x) = al_seq a \<or> al_seq (al_run a x) = al_seq a + 1"
  by (cases x) (auto simp: al_write_def al_rotate_def al_compact_def)

lemma log_rel_run:
  assumes "gcm_spec gcm_seal gcm_open" and "log_rel gcm_open w a" and "op_ok x" and "al_seq a \<noteq> - 1"
  shows "log_rel gcm_open (wal_run gcm_seal w x) (al_run a x)"
proof (cases x)
  case (OpWrite nonce now rec)
  then have "length nonce = 12" "rec_fits now rec" "w_seq w \<noteq> - 1" using assms by (auto simp: log_rel_def)
  from log_rel_Write [OF assms(1) this assms(2)] show ?thesis using OpWrite by force
qed (use assms log_rel_Sync log_rel_Rotate log_rel_Compact in \<open>auto simp: w_tick_def\<close>)

lemma word_small_not_max:
  assumes "unat (s :: 64 word) < 2 ^ 64 - 1"
  shows "s \<noteq> - 1"
proof
  assume "s = - 1"
  then have "unat s = 2 ^ 64 - 1" by (simp add: unsigned_minus_1_eq_mask mask_eq_exp_minus_1)
  with assms show False by simp
qed

lemma unat_succ_le: "unat (s + 1 :: 64 word) \<le> Suc (unat s)"
  by (simp add: unat_word_ariths)

lemma log_rel_trace:
  assumes gcm: "gcm_spec gcm_seal gcm_open"
  shows "\<forall>x \<in> set ops. op_ok x \<Longrightarrow> log_rel gcm_open w a \<Longrightarrow> unat (al_seq a) + length ops < 2 ^ 64 \<Longrightarrow>
     log_rel gcm_open (foldl (wal_run gcm_seal) w ops) (foldl al_run a ops)"
proof (induction ops arbitrary: w a)
  case Nil
  then show ?case by simp
next
  case (Cons x ops)
  have "unat (al_seq a) < 2 ^ 64 - 1" using Cons.prems(3) by simp
  then have r: "log_rel gcm_open (wal_run gcm_seal w x) (al_run a x)"
    using Cons.prems by (intro log_rel_run [OF gcm]) (simp_all add: word_small_not_max)
  have "unat (al_seq (al_run a x)) \<le> Suc (unat (al_seq a))"
    using al_run_seq [of a x] unat_succ_le [of "al_seq a"] by auto
  then show ?case using Cons.IH [OF _ r] Cons.prems by simp
qed

text \<open>With \<^verbatim>\<open>sync=always\<close> the buffer is empty between operations.\<close>

lemma always_run:
  assumes "w_syncMode w = ''always'' \<and> w_buf w = []"
  shows "w_syncMode (wal_run gcm_seal w x) = ''always'' \<and> w_buf (wal_run gcm_seal w x) = []"
  using assms
  by (cases x)
    (auto simp: w_Write_def flush_record_def w_Sync_def w_tick_def w_Rotate_def w_Compact_def Let_def
      split: option.splits prod.splits)

lemma always_trace:
  "w_syncMode w = ''always'' \<and> w_buf w = [] \<Longrightarrow>
     w_syncMode (foldl (wal_run gcm_seal) w ops) = ''always'' \<and> w_buf (foldl (wal_run gcm_seal) w ops) = []"
  by (induction ops arbitrary: w) (simp_all add: always_run)

definition fresh_wal :: "string \<Rightarrow> int \<Rightarrow> encryptor option \<Rightarrow> wal" where
  "fresh_wal mode mb enc =
     \<lparr>w_files = [(active, walHeader enc)], w_buf = [], w_syncMode = mode, w_seq = 0,
      w_size = int (length walV2Magic), w_maxSize = mb * 1024 * 1024, w_failed = False, w_enc = enc\<rparr>"

lemma fresh_rel: "enc_ok enc \<Longrightarrow> log_rel gcm_open (fresh_wal mode mb enc) al_empty"
  by (auto simp: log_rel_def fresh_wal_def al_empty_def log_files_def log_seqs_def al_records_def wf_map_def
      seg_holds_def walHeader_map split: if_splits intro: exI [of _ "[]"])

lemma log_rel_read:
  "log_rel gcm_open w a \<Longrightarrow> w_ReadAll gcm_open (fst (w_Sync None w)) = Inr (al_records a)"
  using log_rel_Sync [of gcm_open w a] read_dir_files
  by (metis log_rel_def w_ReadAll_def)

lemma open_empty: "enc_ok enc \<Longrightarrow> OpenWALEncrypted gcm_open mode mb enc [] = Inr (fresh_wal mode mb enc)"
proof -
  assume e: "enc_ok enc"
  have "w_ReadAll gcm_open (fresh_wal mode mb enc) = Inr []"
    using fresh_rel [OF e, of gcm_open mode mb] read_dir_files [of _ _ al_empty]
    by (simp add: log_rel_def w_ReadAll_def fresh_wal_def al_empty_def al_records_def)
  then show ?thesis
    by (simp add: OpenWALEncrypted_def Let_def fresh_wal_def walHeader_map)
qed

section \<open>Crashes\<close>

lemma prefix_frames:
  "n \<le> length (concat fs) \<Longrightarrow>
     \<exists>k t. k \<le> length fs \<and> take n (concat fs) = concat (take k fs) @ t
       \<and> (t = [] \<or> (\<exists>m. k < length fs \<and> m < length (fs ! k) \<and> t = take m (fs ! k)))"
proof (induction fs arbitrary: n)
  case Nil
  then show ?case by simp
next
  case (Cons f fs)
  show ?case
  proof (cases "n < length f")
    case True
    then show ?thesis by (intro exI [of _ 0] exI [of _ "take n f"]) auto
  next
    case False
    with Cons.prems have "n - length f \<le> length (concat fs)" by simp
    from Cons.IH [OF this] obtain k t where kt: "k \<le> length fs"
      "take (n - length f) (concat fs) = concat (take k fs) @ t"
      "t = [] \<or> (\<exists>m. k < length fs \<and> m < length (fs ! k) \<and> t = take m (fs ! k))" by blast
    with False show ?thesis by (intro exI [of _ "Suc k"] exI [of _ t]) auto
  qed
qed

definition al_cut :: "nat \<Rightarrow> alog \<Rightarrow> alog" where
  "al_cut k a = a\<lparr>al_act := take k (al_act a)\<rparr>"

lemma log_seqs_cut: "log_seqs a \<Longrightarrow> log_seqs (al_cut k a)"
proof -
  assume s: "log_seqs a"
  have "al_records (al_cut k a) = take (length (concat (map snd (al_segs a))) + k) (al_records a)"
    by (simp add: al_records_def al_cut_def)
  then have "sorted_wrt (<) (map wr_Sequence (al_records (al_cut k a)))"
    "\<forall>r \<in> set (al_records (al_cut k a)). wr_Sequence r \<le> al_seq a"
    using s by (auto simp: log_seqs_def take_map [symmetric] sorted_wrt_take dest: in_set_takeD)
  then show ?thesis using s by (simp add: log_seqs_def al_cut_def)
qed

lemma repair_prefix:
  assumes fr: "list_all2 (is_frame dec) rs fs" and k: "k \<le> length fs"
    and t: "t = [] \<or> (\<exists>m. k < length fs \<and> m < length (fs ! k) \<and> t = take m (fs ! k))"
  shows "repairWALTail dec (walHeader dec @ concat (take k fs) @ t) \<in>
           {Inr (walHeader dec @ concat (take k fs)), Inl WPayload}
       \<and> (t = [] \<longrightarrow> repairWALTail dec (walHeader dec @ concat (take k fs) @ t) = Inr (walHeader dec @ concat (take k fs)))"
proof -
  have frk: "list_all2 (is_frame dec) (take k rs) (take k fs)" using fr by (rule list_all2_takeI)
  have *: "repair_frames dec n t \<in> {Inr n, Inl WPayload} \<and> (t = [] \<longrightarrow> repair_frames dec n t = Inr n)" for n
    using t
  proof
    assume "t = []"
    then show ?thesis by simp
  next
    assume "\<exists>m. k < length fs \<and> m < length (fs ! k) \<and> t = take m (fs ! k)"
    then obtain m where m: "k < length fs" "m < length (fs ! k)" "t = take m (fs ! k)" by blast
    have "is_frame dec (rs ! k) (fs ! k)" using fr m(1) by (simp add: list_all2_conv_all_nth)
    then show ?thesis
      using m repair_torn [of dec "rs ! k" "fs ! k" m] torn_after_length [of dec "rs ! k" "fs ! k"]
      by (cases "m = 4") auto
  qed
  let ?n = "length walV2Magic + length (concat (take k fs))"
  have "repairWALTail dec (walHeader dec @ concat (take k fs) @ t) =
      (case repair_frames dec ?n t of
         Inl e \<Rightarrow> Inl e | Inr n \<Rightarrow> Inr (take n (walHeader dec @ concat (take k fs) @ t)))"
    by (simp add: repairWALTail_header repair_frames_append [OF frk])
  moreover have "take ?n (walHeader dec @ concat (take k fs) @ t) = walHeader dec @ concat (take k fs)" by simp
  ultimately show ?thesis using * [of ?n] by auto
qed

lemma open_crashed:
  assumes rel: "log_rel gcm_open w a" and n: "n \<le> length (w_buf w)"
  shows "OpenWALEncrypted gcm_open mode mb (w_enc w) (crash n w) = Inl WPayload
     \<or> (\<exists>k w'. OpenWALEncrypted gcm_open mode mb (w_enc w) (crash n w) = Inr w'
           \<and> w_ReadAll gcm_open w' = Inr (al_records (al_cut k a))
           \<and> w_seq w' = max_seq (al_records (al_cut k a)))"
    and "n = length (w_buf w) \<Longrightarrow> \<exists>w'. OpenWALEncrypted gcm_open mode mb (w_enc w) (crash n w) = Inr w'
           \<and> w_ReadAll gcm_open w' = Inr (al_records a) \<and> w_seq w' = max_seq (al_records a)"
proof -
  let ?dec = "wal_dec gcm_open (w_enc w)" and ?h = "walHeader (wal_dec gcm_open (w_enc w))"
  have lf: "log_files ?dec (w_files w) (w_buf w) a" using rel by (simp add: log_rel_def)
  obtain c where c: "w_file w = ?h @ c" "seg_holds ?dec (?h @ c @ w_buf w) (al_act a)"
    using lf by (rule log_files_content)
  then obtain fs where fs: "c @ w_buf w = concat fs" "list_all2 (is_frame ?dec) (al_act a) fs"
    by (auto simp: seg_holds_def)
  have content: "map_of (crash n w) active = Some (?h @ take (length c + n) (concat fs))"
    unfolding fs(1) [symmetric] by (simp add: crash_def w_append_def c(1))
  have ne: "?h \<noteq> []" by (cases "w_enc w") (simp_all add: walHeader_def walV2Magic_def walEncMagic_def)
  have opened: "\<exists>w'. OpenWALEncrypted gcm_open mode mb (w_enc w) (crash n w) = Inr w'
       \<and> w_ReadAll gcm_open w' = Inr (al_records (al_cut k a)) \<and> w_seq w' = max_seq (al_records (al_cut k a))"
    if rep: "repairWALTail ?dec (?h @ take (length c + n) (concat fs)) = Inr (?h @ concat (take k fs))" for k
  proof -
    let ?files = "AList.update active (?h @ concat (take k fs)) (crash n w)"
    have "seg_holds ?dec (?h @ concat (take k fs) @ []) (take k (al_act a))"
      using list_all2_takeI [OF fs(2), of k] by (auto simp: seg_holds_def)
    from log_files_active [OF lf this]
    have "log_files ?dec (AList.update active (?h @ concat (take k fs)) (w_files w)) [] (al_cut k a)"
      by (simp add: al_cut_def)
    then have "log_files ?dec ?files [] (al_cut k a)"
      by (simp add: crash_def w_append_def)
    moreover have "log_seqs (al_cut k a)" using rel by (intro log_seqs_cut) (simp add: log_rel_def)
    ultimately have "read_dir ?dec ?files = Inr (al_records (al_cut k a))" by (rule read_dir_files)
    then show ?thesis
      using content rep ne by (simp add: OpenWALEncrypted_def Let_def w_ReadAll_def max_seq_def)
  qed
  obtain k t where kt: "k \<le> length fs" "take (length c + n) (concat fs) = concat (take k fs) @ t"
    "t = [] \<or> (\<exists>m. k < length fs \<and> m < length (fs ! k) \<and> t = take m (fs ! k))"
    using prefix_frames [of "length c + n" fs] n by (auto simp: fs(1) [symmetric])
  show "OpenWALEncrypted gcm_open mode mb (w_enc w) (crash n w) = Inl WPayload
     \<or> (\<exists>k w'. OpenWALEncrypted gcm_open mode mb (w_enc w) (crash n w) = Inr w'
           \<and> w_ReadAll gcm_open w' = Inr (al_records (al_cut k a))
           \<and> w_seq w' = max_seq (al_records (al_cut k a)))"
    using repair_prefix [OF fs(2) kt(1,3)] opened [of k] content ne
    by (auto simp: kt(2) OpenWALEncrypted_def Let_def)
  show "\<exists>w'. OpenWALEncrypted gcm_open mode mb (w_enc w) (crash n w) = Inr w'
           \<and> w_ReadAll gcm_open w' = Inr (al_records a) \<and> w_seq w' = max_seq (al_records a)"
    if "n = length (w_buf w)"
  proof -
    have l: "length c + n = length (concat fs)" using that by (simp add: fs(1) [symmetric])
    have len: "length (al_act a) = length fs" using fs(2) by (rule list_all2_lengthD)
    then have "al_cut (length fs) a = a" by (simp add: al_cut_def)
    then show ?thesis
      using repair_prefix [OF fs(2), of "length fs" "[]"] opened [of "length fs"] l by simp
  qed
qed

section \<open>Properties\<close>

definition sample_op :: "nat \<Rightarrow> walop" where
  "sample_op n = OpWrite (replicate 12 CHR ''n'') 5
     (empty_record\<lparr>wr_Effects := [\<lparr>we_Type = 1, we_Key = ''k'', we_Value = Some (replicate n CHR ''v''), we_ExpiresAt = 0\<rparr>]\<rparr>)"

lemma sample_op_ok: "n \<le> 9 \<Longrightarrow> op_ok (sample_op n)"
  by (simp add: sample_op_def rec_fits_def record_ok_def record_effects_def effect_ok_def stamp_def fill_effects_def
      empty_record_def in_i64_def min_int64_def max_int64_def encode_body_def encode_effect_def maxWALFrameSize_def Let_def)





end
