(* ===== verification/Protocol.thy ===== *)
theory Protocol
  imports Prelude
begin

text \<open>
  The wire protocol, \<^verbatim>\<open>src/internal/protocol\<close>: commands and the registry (\<^verbatim>\<open>command.go\<close>), the RESP2 and inline parser
  (\<^verbatim>\<open>parser.go\<close>) and the reply writer (\<^verbatim>\<open>response.go\<close>, \<^verbatim>\<open>errors.go\<close>). The parser is a function of the bytes that
  arrive on the connection; it returns the command and the bytes behind it. Replies are byte strings.
\<close>

section \<open>Commands\<close>

record command =
  cmd_Name :: string
  cmd_Args :: "slice list"

definition Arg :: "command \<Rightarrow> nat \<Rightarrow> string" where
  "Arg c i = (if i < length (cmd_Args c) then sl (cmd_Args c ! i) else [])"

definition ArgBytes :: "command \<Rightarrow> nat \<Rightarrow> slice" where
  "ArgBytes c i = (if i < length (cmd_Args c) then cmd_Args c ! i else None)"

definition NumArgs :: "command \<Rightarrow> nat" where
  "NumArgs c = length (cmd_Args c)"

definition Normalized :: "command \<Rightarrow> string" where
  "Normalized c = ToUpper (cmd_Name c)"

record commandInfo =
  ci_Name :: string
  ci_Arity :: int
  ci_ReadOnly :: bool
  ci_Admin :: bool
  ci_KeyIndex :: nat
  ci_DurableV1 :: bool

definition mk_info :: "string \<Rightarrow> int \<Rightarrow> bool \<Rightarrow> bool \<Rightarrow> nat \<Rightarrow> bool \<Rightarrow> commandInfo" where
  "mk_info n ar ro ad ki dv = \<lparr>ci_Name = n, ci_Arity = ar, ci_ReadOnly = ro, ci_Admin = ad, ci_KeyIndex = ki,
     ci_DurableV1 = dv\<rparr>"

definition Registry :: "(string, commandInfo) gomap" where
  "Registry = [
     (''GET'', mk_info ''GET'' 2 True False 1 False),
     (''SET'', mk_info ''SET'' (- 3) False False 1 True),
     (''SETEX'', mk_info ''SETEX'' 4 False False 1 True),
     (''DEL'', mk_info ''DEL'' (- 2) False False 1 True),
     (''EXISTS'', mk_info ''EXISTS'' (- 2) True False 1 False),
     (''EXPIRE'', mk_info ''EXPIRE'' 3 False False 1 True),
     (''TTL'', mk_info ''TTL'' 2 True False 1 False),
     (''PERSIST'', mk_info ''PERSIST'' 2 False False 1 True),
     (''TYPE'', mk_info ''TYPE'' 2 True False 1 False),
     (''RENAME'', mk_info ''RENAME'' 3 False False 1 True),
     (''KEYS'', mk_info ''KEYS'' 2 True False 0 False),
     (''SCAN'', mk_info ''SCAN'' (- 2) True False 0 False),
     (''INCR'', mk_info ''INCR'' 2 False False 1 True),
     (''INCRBY'', mk_info ''INCRBY'' 3 False False 1 True),
     (''DECR'', mk_info ''DECR'' 2 False False 1 True),
     (''DECRBY'', mk_info ''DECRBY'' 3 False False 1 True),
     (''APPEND'', mk_info ''APPEND'' 3 False False 1 True),
     (''STRLEN'', mk_info ''STRLEN'' 2 True False 1 False),
     (''GETRANGE'', mk_info ''GETRANGE'' 4 True False 1 False),
     (''SETRANGE'', mk_info ''SETRANGE'' 4 False False 1 True),
     (''MGET'', mk_info ''MGET'' (- 2) True False 1 False),
     (''MSET'', mk_info ''MSET'' (- 3) False False 1 True),
     (''SETNX'', mk_info ''SETNX'' 3 False False 1 True),
     (''GETSET'', mk_info ''GETSET'' 3 False False 1 True),
     (''HGET'', mk_info ''HGET'' 3 True False 1 False),
     (''HSET'', mk_info ''HSET'' (- 4) False False 1 False),
     (''HMGET'', mk_info ''HMGET'' (- 3) True False 1 False),
     (''HMSET'', mk_info ''HMSET'' (- 4) False False 1 False),
     (''HDEL'', mk_info ''HDEL'' (- 3) False False 1 False),
     (''HGETALL'', mk_info ''HGETALL'' 2 True False 1 False),
     (''HKEYS'', mk_info ''HKEYS'' 2 True False 1 False),
     (''HVALS'', mk_info ''HVALS'' 2 True False 1 False),
     (''HLEN'', mk_info ''HLEN'' 2 True False 1 False),
     (''HEXISTS'', mk_info ''HEXISTS'' 3 True False 1 False),
     (''HINCRBY'', mk_info ''HINCRBY'' 4 False False 1 False),
     (''LPUSH'', mk_info ''LPUSH'' (- 3) False False 1 False),
     (''RPUSH'', mk_info ''RPUSH'' (- 3) False False 1 False),
     (''LPOP'', mk_info ''LPOP'' (- 2) False False 1 False),
     (''RPOP'', mk_info ''RPOP'' (- 2) False False 1 False),
     (''LRANGE'', mk_info ''LRANGE'' 4 True False 1 False),
     (''LLEN'', mk_info ''LLEN'' 2 True False 1 False),
     (''LINDEX'', mk_info ''LINDEX'' 3 True False 1 False),
     (''LSET'', mk_info ''LSET'' 4 False False 1 False),
     (''LREM'', mk_info ''LREM'' 4 False False 1 False),
     (''LTRIM'', mk_info ''LTRIM'' 4 False False 1 False),
     (''SADD'', mk_info ''SADD'' (- 3) False False 1 False),
     (''SREM'', mk_info ''SREM'' (- 3) False False 1 False),
     (''SMEMBERS'', mk_info ''SMEMBERS'' 2 True False 1 False),
     (''SISMEMBER'', mk_info ''SISMEMBER'' 3 True False 1 False),
     (''SCARD'', mk_info ''SCARD'' 2 True False 1 False),
     (''SINTER'', mk_info ''SINTER'' (- 2) True False 1 False),
     (''SUNION'', mk_info ''SUNION'' (- 2) True False 1 False),
     (''SDIFF'', mk_info ''SDIFF'' (- 2) True False 1 False),
     (''SRANDMEMBER'', mk_info ''SRANDMEMBER'' (- 2) True False 1 False),
     (''SPOP'', mk_info ''SPOP'' (- 2) False False 1 False),
     (''ZADD'', mk_info ''ZADD'' (- 4) False False 1 False),
     (''ZREM'', mk_info ''ZREM'' (- 3) False False 1 False),
     (''ZSCORE'', mk_info ''ZSCORE'' 3 True False 1 False),
     (''ZRANK'', mk_info ''ZRANK'' 3 True False 1 False),
     (''ZREVRANK'', mk_info ''ZREVRANK'' 3 True False 1 False),
     (''ZRANGE'', mk_info ''ZRANGE'' (- 4) True False 1 False),
     (''ZREVRANGE'', mk_info ''ZREVRANGE'' (- 4) True False 1 False),
     (''ZRANGEBYSCORE'', mk_info ''ZRANGEBYSCORE'' (- 4) True False 1 False),
     (''ZCARD'', mk_info ''ZCARD'' 2 True False 1 False),
     (''ZINCRBY'', mk_info ''ZINCRBY'' 4 False False 1 False),
     (''ZCOUNT'', mk_info ''ZCOUNT'' 4 True False 1 False),
     (''XADD'', mk_info ''XADD'' (- 5) False False 1 False),
     (''XREAD'', mk_info ''XREAD'' (- 4) True False 0 False),
     (''XRANGE'', mk_info ''XRANGE'' (- 4) True False 1 False),
     (''XREVRANGE'', mk_info ''XREVRANGE'' (- 4) True False 1 False),
     (''XLEN'', mk_info ''XLEN'' 2 True False 1 False),
     (''XGROUP'', mk_info ''XGROUP'' (- 2) False False 2 False),
     (''XREADGROUP'', mk_info ''XREADGROUP'' (- 7) False False 0 False),
     (''XACK'', mk_info ''XACK'' (- 4) False False 1 False),
     (''SETBIT'', mk_info ''SETBIT'' 4 False False 1 False),
     (''GETBIT'', mk_info ''GETBIT'' 3 True False 1 False),
     (''BITCOUNT'', mk_info ''BITCOUNT'' (- 2) True False 1 False),
     (''BITPOS'', mk_info ''BITPOS'' (- 3) True False 1 False),
     (''GEOADD'', mk_info ''GEOADD'' (- 5) False False 1 False),
     (''GEODIST'', mk_info ''GEODIST'' (- 4) True False 1 False),
     (''GEORADIUS'', mk_info ''GEORADIUS'' (- 6) True False 1 False),
     (''GEOPOS'', mk_info ''GEOPOS'' (- 2) True False 1 False),
     (''GEOSEARCH'', mk_info ''GEOSEARCH'' (- 7) True False 1 False),
     (''VADD'', mk_info ''VADD'' (- 4) False False 1 True),
     (''VADD_BATCH'', mk_info ''VADD_BATCH'' (- 4) False False 1 True),
     (''VADDBIN'', mk_info ''VADDBIN'' 4 False False 1 True),
     (''VMIGRATE'', mk_info ''VMIGRATE'' (- 3) False False 2 True),
     (''VDEL'', mk_info ''VDEL'' (- 3) False False 1 True),
     (''VCOMPACT'', mk_info ''VCOMPACT'' (- 2) False True 1 True),
     (''VSEARCH'', mk_info ''VSEARCH'' (- 4) True False 1 False),
     (''VSIM'', mk_info ''VSIM'' (- 4) True False 1 False),
     (''VFUSE'', mk_info ''VFUSE'' (- 8) True False 1 False),
     (''PUBLISH'', mk_info ''PUBLISH'' 3 False False 0 False),
     (''SUBSCRIBE'', mk_info ''SUBSCRIBE'' (- 2) False False 0 False),
     (''UNSUBSCRIBE'', mk_info ''UNSUBSCRIBE'' (- 1) False False 0 False),
     (''PSUBSCRIBE'', mk_info ''PSUBSCRIBE'' (- 2) False False 0 False),
     (''MULTI'', mk_info ''MULTI'' 1 False False 0 False),
     (''EXEC'', mk_info ''EXEC'' 1 False False 0 False),
     (''DISCARD'', mk_info ''DISCARD'' 1 False False 0 False),
     (''WATCH'', mk_info ''WATCH'' (- 2) True False 1 False),
     (''UNWATCH'', mk_info ''UNWATCH'' 1 False False 0 False),
     (''PING'', mk_info ''PING'' (- 1) True False 0 False),
     (''ECHO'', mk_info ''ECHO'' 2 True False 0 False),
     (''QUIT'', mk_info ''QUIT'' 1 False False 0 True),
     (''AUTH'', mk_info ''AUTH'' (- 2) False False 0 True),
     (''SELECT'', mk_info ''SELECT'' 2 False False 0 True),
     (''DBSIZE'', mk_info ''DBSIZE'' 1 True False 0 False),
     (''FLUSHDB'', mk_info ''FLUSHDB'' (- 1) False True 0 False),
     (''FLUSHALL'', mk_info ''FLUSHALL'' (- 1) False True 0 False),
     (''INFO'', mk_info ''INFO'' (- 1) True False 0 False),
     (''HELLO'', mk_info ''HELLO'' (- 1) True False 0 False),
     (''CONFIG'', mk_info ''CONFIG'' (- 2) False True 0 False),
     (''DEBUG'', mk_info ''DEBUG'' (- 2) False True 0 False),
     (''SAVE'', mk_info ''SAVE'' 1 False True 0 False),
     (''BGSAVE'', mk_info ''BGSAVE'' (- 1) False True 0 False),
     (''CLUSTER'', mk_info ''CLUSTER'' (- 2) False True 0 False),
     (''ACL'', mk_info ''ACL'' (- 2) False True 0 False),
     (''COMMAND'', mk_info ''COMMAND'' (- 1) True False 0 False)]"

definition Lookup :: "string \<Rightarrow> commandInfo option" where
  "Lookup name = map_of Registry (ToUpper name)"

definition SupportedInDurableV1 :: "string \<Rightarrow> bool" where
  "SupportedInDurableV1 name =
     (case Lookup name of None \<Rightarrow> False | Some info \<Rightarrow> ci_ReadOnly info \<or> ci_DurableV1 info)"

definition ShouldAudit :: "string \<Rightarrow> bool" where
  "ShouldAudit name \<longleftrightarrow> ToUpper name \<notin> set
     [''SET'', ''SETEX'', ''GET'', ''MSET'', ''MGET'', ''INCR'', ''INCRBY'', ''DECR'', ''DECRBY'',
      ''HSET'', ''HGET'', ''HMSET'', ''HMGET'', ''HDEL'',
      ''VADD'', ''VADD_BATCH'', ''VSEARCH'', ''VSIM'', ''VFUSE'']"

definition LookupMustReadOnly :: "string \<Rightarrow> bool" where
  "LookupMustReadOnly name = (case Lookup name of None \<Rightarrow> False | Some info \<Rightarrow> ci_ReadOnly info)"

fun every_other :: "'a list \<Rightarrow> 'a list" where
  "every_other [] = []"
| "every_other [x] = [x]"
| "every_other (x # y # xs) = x # every_other xs"

text \<open>The keys a command touches; \<open>None\<close> is the nil slice.\<close>

definition AffectedKeys :: "command \<Rightarrow> string list option" where
  "AffectedKeys cmd =
     (let name = Normalized cmd;
          indexed = (case Lookup name of
                       None \<Rightarrow> None
                     | Some info \<Rightarrow>
                         if ci_KeyIndex info = 0 \<or> ci_KeyIndex info > length (cmd_Args cmd) then None
                         else Some [Arg cmd (ci_KeyIndex info - 1)])
      in if name \<in> {''DEL'', ''EXISTS'', ''MGET''} then Some (map sl (cmd_Args cmd))
         else if name = ''MSET'' then Some (map sl (every_other (cmd_Args cmd)))
         else if name = ''RENAME'' \<and> NumArgs cmd \<ge> 2 then Some [Arg cmd 0, Arg cmd 1]
         else indexed)"

section \<open>Replies\<close>

definition crlf :: bytes where "crlf = [char_of (13 :: nat), char_of (10 :: nat)]"

definition WriteSimpleString :: "string \<Rightarrow> bytes" where
  "WriteSimpleString s = ''+'' @ s @ crlf"

definition WriteError :: "string \<Rightarrow> bytes" where
  "WriteError msg = ''-ERR '' @ msg @ crlf"

definition WriteErrorRaw :: "string \<Rightarrow> bytes" where
  "WriteErrorRaw msg = ''-'' @ msg @ crlf"

definition WriteInteger :: "int \<Rightarrow> bytes" where
  "WriteInteger n = '':'' @ FormatInt n @ crlf"

definition WriteBulkString :: "slice \<Rightarrow> bytes" where
  "WriteBulkString b =
     (case b of None \<Rightarrow> ''$-1'' @ crlf
      | Some v \<Rightarrow> ''$'' @ FormatInt (int (length v)) @ crlf @ v @ crlf)"

text \<open>\<^verbatim>\<open>[]byte(s)\<close> is never nil.\<close>

definition WriteBulkStringStr :: "string \<Rightarrow> bytes" where
  "WriteBulkStringStr s = WriteBulkString (Some s)"

definition WriteArray :: "int \<Rightarrow> bytes" where
  "WriteArray cnt = (if cnt < 0 then ''*-1'' @ crlf else ''*'' @ FormatInt cnt @ crlf)"

definition WriteNull :: bytes where
  "WriteNull = ''$-1'' @ crlf"

definition WriteOK :: bytes where
  "WriteOK = ''+OK'' @ crlf"

definition WriteStrings :: "string list \<Rightarrow> bytes" where
  "WriteStrings strs = WriteArray (int (length strs)) @ concat (map WriteBulkStringStr strs)"

definition WriteBytes :: "slice list \<Rightarrow> bytes" where
  "WriteBytes items = WriteArray (int (length items)) @ concat (map WriteBulkString items)"

definition ErrNotInteger :: string where
  "ErrNotInteger = ''ERR value is not an integer or out of range''"

definition ErrSyntaxMsg :: string where
  "ErrSyntaxMsg = ''ERR syntax error''"

definition WrongNumArgsError :: "string \<Rightarrow> string" where
  "WrongNumArgsError cmd = ''ERR wrong number of arguments for '' @ [CHR 0x27] @ cmd @ [CHR 0x27] @ '' command''"

section \<open>Parsing\<close>

datatype perr =
    PEOF | PUnexpectedEOF | PInvalidInt | PInvalidCount | PArrayLimit | PExpectedBulk | PBulkLimit
  | PNoTerminator | PLineLimit | PEmptyInline

definition maxRESPArrayItems :: int where "maxRESPArrayItems = 4194304"
definition maxRESPBulkBytes :: int where "maxRESPBulkBytes = 8388608"
definition maxRESPLineBytes :: nat where "maxRESPLineBytes = 65536"

definition is_nl :: "char \<Rightarrow> bool" where
  "is_nl c \<longleftrightarrow> c = char_of (10 :: nat) \<or> c = char_of (13 :: nat)"

definition trim_right :: "bytes \<Rightarrow> bytes" where
  "trim_right b = rev (dropWhile is_nl (rev b))"

text \<open>\<^verbatim>\<open>bufio.Reader.ReadLine\<close> until the line is complete, the length limit, and \<^verbatim>\<open>bytes.TrimRight\<close>. A last
  line without a line feed is returned as it is.\<close>

definition strip_cr :: "bytes \<Rightarrow> bytes" where
  "strip_cr l = (if l \<noteq> [] \<and> last l = char_of (13 :: nat) then butlast l else l)"

definition readLine :: "bytes \<Rightarrow> perr + bytes \<times> bytes" where
  "readLine b =
     (if b = [] then Inl PEOF
      else let l = takeWhile (\<lambda>c. c \<noteq> char_of (10 :: nat)) b;
               l' = (if length l < length b then strip_cr l else l)
           in if length l' > maxRESPLineBytes then Inl PLineLimit
              else Inr (trim_right l', drop (Suc (length l)) b))"

definition readInt :: "bytes \<Rightarrow> perr + int \<times> bytes" where
  "readInt b =
     (case readLine b of
        Inl e \<Rightarrow> Inl e
      | Inr (l, r) \<Rightarrow> (case Atoi l of (n, None) \<Rightarrow> Inr (n, r) | (n, Some _) \<Rightarrow> Inl PInvalidInt))"

definition readBulkString :: "bytes \<Rightarrow> perr + slice \<times> bytes" where
  "readBulkString b =
     (case b of
        [] \<Rightarrow> Inl PEOF
      | c # b1 \<Rightarrow>
          if c \<noteq> CHR ''$'' then Inl PExpectedBulk
          else (case readInt b1 of
                  Inl e \<Rightarrow> Inl e
                | Inr (len, b2) \<Rightarrow>
                    if len < 0 then Inr (None, b2)
                    else if len > maxRESPBulkBytes then Inl PBulkLimit
                    else let n = nat len
                         in if length b2 < n + 2 then Inl (if b2 = [] then PEOF else PUnexpectedEOF)
                            else if b2 ! n \<noteq> char_of (13 :: nat) \<or> b2 ! (n + 1) \<noteq> char_of (10 :: nat)
                            then Inl PNoTerminator
                            else Inr (Some (take n b2), drop (n + 2) b2)))"

fun readBulks :: "nat \<Rightarrow> bytes \<Rightarrow> perr + slice list \<times> bytes" where
  "readBulks 0 b = Inr ([], b)"
| "readBulks (Suc n) b =
     (case readBulkString b of
        Inl e \<Rightarrow> Inl e
      | Inr (x, r) \<Rightarrow> (case readBulks n r of Inl e \<Rightarrow> Inl e | Inr (xs, r') \<Rightarrow> Inr (x # xs, r')))"

definition readArray :: "bytes \<Rightarrow> perr + command \<times> bytes" where
  "readArray b =
     (case readInt b of
        Inl e \<Rightarrow> Inl e
      | Inr (cnt, b1) \<Rightarrow>
          if cnt \<le> 0 then Inl PInvalidCount
          else if cnt > maxRESPArrayItems then Inl PArrayLimit
          else (case readBulks (nat cnt) b1 of
                  Inl e \<Rightarrow> Inl e
                | Inr (args, r) \<Rightarrow> Inr (\<lparr>cmd_Name = sl (hd args), cmd_Args = tl args\<rparr>, r)))"

text \<open>The length of the white space character at the front, 0 when there is none: the ASCII ones and those
  of \<^verbatim>\<open>unicode.IsSpace\<close> in UTF-8.\<close>

definition space_len :: "bytes \<Rightarrow> nat" where
  "space_len b =
     (let o1 = (\<lambda>i. if i < length b then of_char (b ! i) else (0 :: nat))
      in if b = [] then 0
         else if o1 0 \<in> {9, 10, 11, 12, 13, 32} then 1
         else if o1 0 = 194 \<and> o1 1 \<in> {133, 160} then 2
         else if o1 0 = 225 \<and> o1 1 = 154 \<and> o1 2 = 128 then 3
         else if o1 0 = 226 \<and> o1 1 = 128 \<and> (128 \<le> o1 2 \<and> o1 2 \<le> 138 \<or> o1 2 \<in> {168, 169, 175}) then 3
         else if o1 0 = 226 \<and> o1 1 = 129 \<and> o1 2 = 159 then 3
         else if o1 0 = 227 \<and> o1 1 = 128 \<and> o1 2 = 128 then 3
         else 0)"

text \<open>\<^verbatim>\<open>bytes.Fields\<close>; \<open>w\<close> is the field being read, reversed.\<close>

function fields_loop :: "bytes \<Rightarrow> bytes \<Rightarrow> bytes list" where
  "fields_loop w b =
     (if b = [] then (if w = [] then [] else [rev w])
      else if space_len b = 0 then fields_loop (hd b # w) (tl b)
      else (if w = [] then [] else [rev w]) @ fields_loop [] (drop (space_len b) b))"
  by pat_completeness auto
termination
  by (relation "measure (\<lambda>(w, b). length b)") (auto simp: neq_Nil_conv)

declare fields_loop.simps [simp del]

definition Fields :: "bytes \<Rightarrow> bytes list" where
  "Fields b = fields_loop [] b"

definition readInline :: "bytes \<Rightarrow> perr + command \<times> bytes" where
  "readInline b =
     (case readLine b of
        Inl e \<Rightarrow> Inl e
      | Inr (l, r) \<Rightarrow>
          (case Fields l of
             [] \<Rightarrow> Inl PEmptyInline
           | p # ps \<Rightarrow> Inr (\<lparr>cmd_Name = p, cmd_Args = map Some ps\<rparr>, r)))"

definition ReadCommand :: "bytes \<Rightarrow> perr + command \<times> bytes" where
  "ReadCommand b =
     (case b of
        [] \<Rightarrow> Inl PEOF
      | c # b1 \<Rightarrow> if c = CHR ''*'' then readArray b1 else readInline b)"

section \<open>Writing and parsing agree\<close>

definition lf :: char where "lf = char_of (10 :: nat)"

lemma digit_not_nl: "is_digit c \<Longrightarrow> \<not> is_nl c" "is_digit c \<Longrightarrow> c \<noteq> char_of (10 :: nat)"
  by (auto simp: is_digit_def is_nl_def)

lemma FormatInt_chars: "c \<in> set (FormatInt n) \<Longrightarrow> \<not> is_nl c \<and> c \<noteq> char_of (10 :: nat)"
  using fmt_nat_digits digit_not_nl by (auto simp: FormatInt_def is_nl_def char_of_def split: if_splits)

lemma length_FormatInt:
  assumes "in_i64 n"
  shows "length (FormatInt n) \<le> 21"
proof -
  have "nat \<bar>n\<bar> < 10 ^ Suc 19" using assms unfolding in_i64_def min_int64_def max_int64_def by simp linarith
  from length_fmt_nat [OF this] show ?thesis by (auto simp: FormatInt_def split: if_splits)
qed

lemma readLine_crlf:
  assumes "\<forall>c \<in> set l. \<not> is_nl c" and "length l \<le> maxRESPLineBytes"
  shows "readLine (l @ crlf @ r) = Inr (l, r)"
proof -
  have tw: "takeWhile (\<lambda>c. c \<noteq> char_of (10 :: nat)) (l @ crlf @ r) = l @ [char_of (13 :: nat)]"
    using assms(1) by (induction l) (auto simp: crlf_def is_nl_def char_of_def)
  have "trim_right l = l"
  proof (cases l rule: rev_cases)
    case (snoc ys y)
    then show ?thesis using assms(1) by (simp add: trim_right_def)
  qed (simp add: trim_right_def)
  then show ?thesis
    using assms(2) by (simp add: readLine_def tw Let_def strip_cr_def) (simp add: crlf_def)
qed

lemma readInt_FormatInt:
  assumes "in_i64 n"
  shows "readInt (FormatInt n @ crlf @ r) = Inr (n, r)"
proof -
  have "readLine (FormatInt n @ crlf @ r) = Inr (FormatInt n, r)"
    using FormatInt_chars length_FormatInt [OF assms]
    by (intro readLine_crlf) (auto simp: maxRESPLineBytes_def)
  then show ?thesis using ParseInt_FormatInt [of n] assms by (simp add: readInt_def Atoi_def)
qed

lemma in_i64_length: "int (length (v :: 'a list)) \<le> 9223372036854775807 \<Longrightarrow> in_i64 (int (length v))"
  by (simp add: in_i64_def min_int64_def max_int64_def)

text \<open>Bulk strings the parser accepts.\<close>

definition bulk_ok :: "slice \<Rightarrow> bool" where
  "bulk_ok b \<longleftrightarrow> int (length (sl b)) \<le> maxRESPBulkBytes"

lemma readBulk_Write:
  assumes "bulk_ok b"
  shows "readBulkString (WriteBulkString b @ r) = Inr (b, r)"
proof (cases b)
  case None
  have "FormatInt (- 1) = ''-1''" by code_simp
  then have "readInt (''-1'' @ crlf @ r) = Inr (- 1, r)"
    using readInt_FormatInt [of "- 1" r] by (simp add: in_i64_def min_int64_def max_int64_def)
  then show ?thesis using None by (simp add: readBulkString_def WriteBulkString_def)
next
  case (Some v)
  have l: "int (length v) \<le> maxRESPBulkBytes" using assms Some by (simp add: bulk_ok_def)
  then have "readInt (FormatInt (int (length v)) @ crlf @ v @ crlf @ r) = Inr (int (length v), v @ crlf @ r)"
    by (intro readInt_FormatInt in_i64_length) (simp add: maxRESPBulkBytes_def)
  then show ?thesis
    using Some l
    by (simp add: readBulkString_def WriteBulkString_def Let_def nth_append) (simp add: crlf_def)
qed

lemma readBulks_Write:
  "\<forall>b \<in> set bs. bulk_ok b \<Longrightarrow> readBulks (length bs) (concat (map WriteBulkString bs) @ r) = Inr (bs, r)"
  by (induction bs) (simp_all add: readBulk_Write)

text \<open>A command as a client sends it: an array of bulk strings.\<close>

definition write_command :: "command \<Rightarrow> bytes" where
  "write_command c = WriteBytes (Some (cmd_Name c) # cmd_Args c)"

definition command_ok :: "command \<Rightarrow> bool" where
  "command_ok c \<longleftrightarrow> (\<forall>b \<in> set (Some (cmd_Name c) # cmd_Args c). bulk_ok b)
     \<and> int (length (cmd_Args c)) < maxRESPArrayItems"

lemma ReadCommand_write:
  assumes "command_ok c"
  shows "ReadCommand (write_command c @ r) = Inr (c, r)"
proof -
  let ?bs = "Some (cmd_Name c) # cmd_Args c"
  have n: "0 < int (length ?bs)" "int (length ?bs) \<le> maxRESPArrayItems"
    using assms by (simp_all add: command_ok_def)
  have "readInt (FormatInt (int (length ?bs)) @ crlf @ concat (map WriteBulkString ?bs) @ r)
      = Inr (int (length ?bs), concat (map WriteBulkString ?bs) @ r)"
    using n by (intro readInt_FormatInt in_i64_length) (simp add: maxRESPArrayItems_def)
  moreover have "readBulks (length ?bs) (concat (map WriteBulkString ?bs) @ r) = Inr (?bs, r)"
    using assms by (intro readBulks_Write) (simp add: command_ok_def)
  ultimately show ?thesis
    using n unfolding ReadCommand_def write_command_def WriteBytes_def WriteArray_def readArray_def
    by (simp del: readBulks.simps of_nat_Suc list.map concat.simps)
qed

fun read_pipeline :: "nat \<Rightarrow> bytes \<Rightarrow> perr + command list \<times> bytes" where
  "read_pipeline 0 b = Inr ([], b)"
| "read_pipeline (Suc n) b =
     (case ReadCommand b of
        Inl e \<Rightarrow> Inl e
      | Inr (c, r) \<Rightarrow> (case read_pipeline n r of Inl e \<Rightarrow> Inl e | Inr (cs, r') \<Rightarrow> Inr (c # cs, r')))"

text \<open>
  C18. A pipeline of commands written as RESP arrays of bulk strings parses back to the same commands in order
  and leaves the bytes behind them alone, whatever bytes the arguments hold (nil bulk strings included),
  within the parser's limits on the number and the size of arguments.
\<close>

theorem resp_roundtrip:
  assumes "\<forall>c \<in> set cs. command_ok c"
  shows "read_pipeline (length cs) (concat (map write_command cs) @ rest) = Inr (cs, rest)"
  using assms by (induction cs) (simp_all add: ReadCommand_write)

theorem resp_roundtrip_witness:
  "read_pipeline 2 (concat (map write_command
      [\<lparr>cmd_Name = ''SET'', cmd_Args = [Some ''k'', Some [char_of (13 :: nat), char_of (10 :: nat)]]\<rparr>,
       \<lparr>cmd_Name = ''GET'', cmd_Args = [Some ''k'', None]\<rparr>]) @ ''*'')
   = Inr ([\<lparr>cmd_Name = ''SET'', cmd_Args = [Some ''k'', Some [char_of (13 :: nat), char_of (10 :: nat)]]\<rparr>,
           \<lparr>cmd_Name = ''GET'', cmd_Args = [Some ''k'', None]\<rparr>], ''*'')"
  using resp_roundtrip [of
      "[\<lparr>cmd_Name = ''SET'', cmd_Args = [Some ''k'', Some [char_of (13 :: nat), char_of (10 :: nat)]]\<rparr>,
        \<lparr>cmd_Name = ''GET'', cmd_Args = [Some ''k'', None]\<rparr>]" "''*''"]
  by (simp add: command_ok_def bulk_ok_def maxRESPBulkBytes_def maxRESPArrayItems_def numeral_2_eq_2
      del: read_pipeline.simps)

end
