(* ===== verification/Envelope.thy ===== *)
theory Envelope
  imports Encryption
begin

text \<open>
  Envelope encryption of a tenant directory, \<^verbatim>\<open>src/internal/isolation/envelope.go\<close>: the data key wrapped under
  the orchestrator's key, and sealed files. A directory is a map from file names to contents; the random
  bytes of \<^verbatim>\<open>crypto/rand\<close> (key and nonce) are arguments.
\<close>

datatype env_err = ErrKEKMissing | ErrBadWrap | ErrRead | ErrKeyLength | ErrCipher

definition WrappedDEKName :: string where "WrappedDEKName = ''.dbx-key.wrap''"

definition sealedMagic :: bytes where "sealedMagic = ''DBXENC1'' @ [char_of (10 :: nat)]"

definition dekSize :: nat where "dekSize = 32"

text \<open>\<^verbatim>\<open>hex.DecodeString\<close>.\<close>

definition hex_val :: "char \<Rightarrow> nat option" where
  "hex_val c =
     (let n = of_char c :: nat
      in if 48 \<le> n \<and> n \<le> 57 then Some (n - 48)
         else if 97 \<le> n \<and> n \<le> 102 then Some (n - 87)
         else if 65 \<le> n \<and> n \<le> 70 then Some (n - 55) else None)"

fun hex_decode :: "string \<Rightarrow> bytes option" where
  "hex_decode [] = Some []"
| "hex_decode [c] = None"
| "hex_decode (c # d # cs) =
     (case (hex_val c, hex_val d, hex_decode cs) of
        (Some a, Some b, Some r) \<Rightarrow> Some (char_of (a * 16 + b) # r)
      | _ \<Rightarrow> None)"

definition LoadKEK :: "string \<Rightarrow> env_err + bytes" where
  "LoadKEK raw =
     (if raw = [] then Inl ErrKEKMissing
      else case hex_decode raw of
             None \<Rightarrow> Inl ErrKEKMissing
           | Some key \<Rightarrow> if length key \<noteq> dekSize then Inl ErrKEKMissing else Inr key)"

definition WrapDEK ::
  "gcm_seal \<Rightarrow> bytes \<Rightarrow> (string, bytes) gomap \<Rightarrow> bytes \<Rightarrow> bytes \<Rightarrow> env_err + (string, bytes) gomap" where
  "WrapDEK gcm_seal nonce dir kek dek =
     (case NewEncryptor kek of
        None \<Rightarrow> Inl ErrKeyLength
      | Some enc \<Rightarrow>
          (case Encrypt gcm_seal enc nonce dek of
             None \<Rightarrow> Inl ErrCipher
           | Some wrapped \<Rightarrow> Inr (AList.update WrappedDEKName wrapped dir)))"

definition UnwrapDEK :: "gcm_open \<Rightarrow> (string, bytes) gomap \<Rightarrow> bytes \<Rightarrow> env_err + bytes" where
  "UnwrapDEK gcm_open dir kek =
     (case NewEncryptor kek of
        None \<Rightarrow> Inl ErrKeyLength
      | Some enc \<Rightarrow>
          (case map_of dir WrappedDEKName of
             None \<Rightarrow> Inl ErrRead
           | Some wrapped \<Rightarrow>
               (case Decrypt gcm_open enc wrapped of
                  None \<Rightarrow> Inl ErrBadWrap
                | Some dek \<Rightarrow> if length dek \<noteq> dekSize then Inl ErrBadWrap else Inr dek)))"

definition EnsureDEK ::
  "gcm_seal \<Rightarrow> gcm_open \<Rightarrow> bytes \<Rightarrow> bytes \<Rightarrow> (string, bytes) gomap \<Rightarrow> bytes
     \<Rightarrow> env_err + (string, bytes) gomap \<times> bytes" where
  "EnsureDEK gcm_seal gcm_open rnd nonce dir kek =
     (if map_of dir WrappedDEKName \<noteq> None
      then (case UnwrapDEK gcm_open dir kek of Inl e \<Rightarrow> Inl e | Inr dek \<Rightarrow> Inr (dir, dek))
      else let dek = rnd
           in case WrapDEK gcm_seal nonce dir kek dek of Inl e \<Rightarrow> Inl e | Inr dir' \<Rightarrow> Inr (dir', dek))"

definition ShredDEK :: "(string, bytes) gomap \<Rightarrow> (string, bytes) gomap" where
  "ShredDEK dir = AList.delete WrappedDEKName dir"

definition Seal :: "gcm_seal \<Rightarrow> encryptor option \<Rightarrow> bytes \<Rightarrow> bytes \<Rightarrow> bytes option" where
  "Seal gcm_seal enc nonce plaintext =
     (case enc of
        None \<Rightarrow> Some plaintext
      | Some e \<Rightarrow> (case Encrypt gcm_seal e nonce plaintext of
                     None \<Rightarrow> None | Some ct \<Rightarrow> Some (sealedMagic @ ct)))"

definition OpenSealed :: "gcm_open \<Rightarrow> encryptor option \<Rightarrow> bytes \<Rightarrow> bytes option" where
  "OpenSealed gcm_open enc data =
     (case enc of
        None \<Rightarrow> Some data
      | Some e \<Rightarrow>
          if length data \<ge> length sealedMagic \<and> take (length sealedMagic) data = sealedMagic
          then Decrypt gcm_open e (drop (length sealedMagic) data)
          else Some data)"

lemma OpenSealed_Seal:
  assumes "gcm_spec gcm_seal gcm_open" and "length nonce = 12" and "Seal gcm_seal enc nonce p = Some d"
  shows "OpenSealed gcm_open enc d = Some p"
  using assms Encrypt_cases(1) [OF assms(1,2)]
  by (auto simp: Seal_def OpenSealed_def split: option.splits)

lemma UnwrapDEK_Wrap:
  assumes "gcm_spec gcm_seal gcm_open" and "length nonce = 12" and "length dek = 32"
    and "WrapDEK gcm_seal nonce dir kek dek = Inr dir'"
  shows "UnwrapDEK gcm_open dir' kek = Inr dek"
  using assms Encrypt_cases(1) [OF assms(1,2)]
  by (auto simp: WrapDEK_def UnwrapDEK_def dekSize_def split: option.splits)

text \<open>
  C19. A tenant's data key is created once: the first call wraps the random key it draws under the orchestrator's key, every later call
  with the same key returns that data key and leaves the directory alone, files sealed with it open to
  what was sealed, and after shredding no call can unwrap it any more.
\<close>

theorem envelope_key_stable:
  assumes "gcm_spec gcm_seal gcm_open" and "length nonce = 12" and "length rnd = 32" and "length kek = 32"
    and "map_of dir WrappedDEKName = None" and "length nonce' = 12"
  shows "\<exists>dir'. EnsureDEK gcm_seal gcm_open rnd nonce dir kek = Inr (dir', rnd)
       \<and> (\<forall>rnd' n'. EnsureDEK gcm_seal gcm_open rnd' n' dir' kek = Inr (dir', rnd))
       \<and> (\<forall>enc p. NewEncryptor rnd = Some enc \<longrightarrow>
            (\<exists>d. Seal gcm_seal (Some enc) nonce' p = Some d \<and> OpenSealed gcm_open (Some enc) d = Some p))
       \<and> UnwrapDEK gcm_open (ShredDEK dir') kek = Inl ErrRead"
proof -
  obtain dir' where d: "WrapDEK gcm_seal nonce dir kek rnd = Inr dir'"
    using assms(4) by (auto simp: WrapDEK_def NewEncryptor_def Encrypt_def NewCipher_ok_def)
  have u: "UnwrapDEK gcm_open dir' kek = Inr rnd" by (rule UnwrapDEK_Wrap [OF assms(1-3) d])
  have "map_of dir' WrappedDEKName \<noteq> None" using d by (auto simp: WrapDEK_def split: option.splits)
  moreover have "EnsureDEK gcm_seal gcm_open rnd nonce dir kek = Inr (dir', rnd)"
    using assms(5) d by (simp add: EnsureDEK_def)
  moreover have "\<exists>d. Seal gcm_seal (Some enc) nonce' p = Some d \<and> OpenSealed gcm_open (Some enc) d = Some p"
    if "NewEncryptor rnd = Some enc" for enc p
    using NewEncryptor_ok [OF that] OpenSealed_Seal [OF assms(1,6)]
    by (simp add: Seal_def Encrypt_def)
  moreover have "UnwrapDEK gcm_open (ShredDEK dir') kek = Inl ErrRead"
    using assms(4) by (simp add: UnwrapDEK_def ShredDEK_def NewEncryptor_def)
  ultimately show ?thesis using u by (auto simp: EnsureDEK_def)
qed

theorem envelope_key_stable_witness:
  "\<exists>dir'. EnsureDEK plain_seal plain_open (replicate 32 CHR ''d'') (replicate 12 CHR ''n'') [] (replicate 32 CHR ''k'')
      = Inr (dir', replicate 32 CHR ''d'') \<and> UnwrapDEK plain_open (ShredDEK dir') (replicate 32 CHR ''k'') = Inl ErrRead"
  using envelope_key_stable [OF plain_gcm, of "replicate 12 CHR ''n''" "replicate 32 CHR ''d''" "replicate 32 CHR ''k''" "[]"
      "replicate 12 CHR ''m''"]
  by auto

end
