(* ===== verification/Recovery.thy ===== *)
theory Recovery
  imports WALLog WALPayload Envelope StringStore KVScan
begin

text \<open>
  Checkpoints and crash recovery, \<^verbatim>\<open>src/internal/persistence/snapshot.go\<close> and \<^verbatim>\<open>recovery.go\<close>. The vector store is reached
  through the record \<open>vecops\<close> of the operations recovery calls; its state \<open>'v\<close> travels next to the key-value
  store. \<^verbatim>\<open>encoding/gob\<close> is the pair \<open>gob_enc\<close>, \<open>gob_dec\<close>. All clock readings of one recovery are the same
  instant \<open>now\<close>.
\<close>

section \<open>The vector store as its clients see it\<close>

type_synonym 'v est = "kvstore \<times> 'v"

record indexSeal =
  is_Key :: string
  is_Dim :: int
  is_Count :: int
  is_MetaHash :: bytes

text \<open>The operations of \<^verbatim>\<open>engine.VectorStore\<close> that recovery and the executor call. Each returns the new
  state (vector indexes live in the key-value store, so both may change) and its result, or the text of
  its error.\<close>

record 'v vecops =
  vo_VAdd :: "string \<Rightarrow> string \<Rightarrow> f32 list \<Rightarrow> 'v est \<Rightarrow> 'v est \<times> (string + unit)"
  vo_VAddBatch :: "string \<Rightarrow> nat \<Rightarrow> string list \<Rightarrow> f32 list list \<Rightarrow> 'v est \<Rightarrow> 'v est \<times> (string + unit)"
  vo_VDel :: "string \<Rightarrow> string \<Rightarrow> 'v est \<Rightarrow> 'v est \<times> (string + bool)"
  vo_StartMigration :: "string \<Rightarrow> int \<Rightarrow> string \<Rightarrow> 'v est \<Rightarrow> 'v est \<times> (string + unit)"
  vo_InsertShadowVector :: "string \<Rightarrow> string \<Rightarrow> f32 list \<Rightarrow> 'v est \<Rightarrow> 'v est \<times> (string + unit)"
  vo_SwapMigration :: "string \<Rightarrow> 'v est \<Rightarrow> 'v est \<times> (string + unit)"
  vo_CancelMigration :: "string \<Rightarrow> 'v est \<Rightarrow> 'v est \<times> (string + unit)"
  vo_ReopenPersisted :: "'v est \<Rightarrow> 'v est \<times> (string + unit)"
  vo_VerifySeals :: "indexSeal list \<Rightarrow> 'v est \<Rightarrow> bool"
  vo_ValidateAdd :: "string \<Rightarrow> string \<Rightarrow> f32 list \<Rightarrow> 'v est \<Rightarrow> string option"
  vo_ValidateAddBatch :: "string \<Rightarrow> nat \<Rightarrow> string list \<Rightarrow> f32 list list \<Rightarrow> 'v est \<Rightarrow> string option"
  vo_MigrationActive :: "string \<Rightarrow> 'v est \<Rightarrow> bool"
  vo_ValidateSwapMigration :: "string \<Rightarrow> 'v est \<Rightarrow> string option"
  vo_HasLiveVector :: "string \<Rightarrow> string \<Rightarrow> 'v est \<Rightarrow> string + bool"
  vo_TombstoneRatio :: "string \<Rightarrow> 'v est \<Rightarrow> string + f64"
  vo_VCompact :: "string \<Rightarrow> 'v est \<Rightarrow> 'v est \<times> (string + int)"
  vo_MemoryUsage :: "'v est \<Rightarrow> int"
  vo_FlushDurable :: "'v est \<Rightarrow> 'v est \<times> (string + unit)"
  vo_IndexSeals :: "'v est \<Rightarrow> indexSeal list"

section \<open>Checkpoints\<close>

record snapshotHeader =
  sh_Version :: int
  sh_Timestamp :: int
  sh_KeyCount :: int
  sh_Sequence :: "64 word"
  sh_VectorSeals :: "indexSeal list"

record wireEntry =
  we_value :: gvalue
  we_type :: dataType
  we_expires :: int

definition toWireEntry :: "entry \<Rightarrow> wireEntry" where
  "toWireEntry e =
     \<lparr>we_value = (if e_type e = TypeVector then VNil else e_value e), we_type = e_type e, we_expires = e_expires e\<rparr>"

type_synonym image = "snapshotHeader \<times> (string, wireEntry) gomap"
type_synonym gob_enc = "image \<Rightarrow> bytes option"
type_synonym gob_dec = "bytes \<Rightarrow> image option"

text \<open>A snapshot directory: the files with their modification times, and the \<^verbatim>\<open>CURRENT\<close> pointer among them.\<close>

type_synonym snapdir = "(string, bytes \<times> int) gomap"

definition currentName :: string where "currentName = ''CURRENT''"

definition snapshot_name :: "int \<Rightarrow> string" where
  "snapshot_name now = ''snapshot-'' @ FormatInt now @ ''.rdb''"

definition checkpoint_image :: "int \<Rightarrow> kvstore \<Rightarrow> 64 word \<Rightarrow> indexSeal list \<Rightarrow> image" where
  "checkpoint_image now kv sequence seals =
     (let wire = map (\<lambda>(k, e). (k, toWireEntry e)) (kv_Snapshot now kv)
      in (\<lparr>sh_Version = 2, sh_Timestamp = now, sh_KeyCount = int (length wire), sh_Sequence = sequence,
           sh_VectorSeals = seals\<rparr>, wire))"

definition SaveCheckpoint ::
  "gob_enc \<Rightarrow> gcm_seal \<Rightarrow> encryptor option \<Rightarrow> bytes \<Rightarrow> int \<Rightarrow> snapdir \<Rightarrow> kvstore \<Rightarrow> 64 word \<Rightarrow> indexSeal list
     \<Rightarrow> snapdir \<times> string option" where
  "SaveCheckpoint gob_enc gcm_seal enc nonce now dir kv sequence seals =
     (case gob_enc (checkpoint_image now kv sequence seals) of
        None \<Rightarrow> (dir, None)
      | Some payload \<Rightarrow>
          (case Seal gcm_seal enc nonce payload of
             None \<Rightarrow> (dir, None)
           | Some data \<Rightarrow>
               let filename = snapshot_name now;
                   dir1 = AList.update filename (data, now) dir;
                   dir2 = AList.update currentName (filename @ [char_of (10 :: nat)], now) dir1
               in (dir2, Some filename)))"

text \<open>\<^verbatim>\<open>strings.TrimSpace\<close> on ASCII text.\<close>

definition is_space :: "char \<Rightarrow> bool" where
  "is_space c \<longleftrightarrow> (of_char c :: nat) \<in> {9, 10, 11, 12, 13, 32}"

definition TrimSpace :: "string \<Rightarrow> string" where
  "TrimSpace s = rev (dropWhile is_space (rev (dropWhile is_space s)))"

fun latest_rdb :: "snapdir \<Rightarrow> string \<Rightarrow> int \<Rightarrow> string" where
  "latest_rdb [] latest t = latest"
| "latest_rdb ((n, (b, m)) # r) latest t =
     (if HasSuffix n ''.rdb'' \<and> m > t then latest_rdb r n m else latest_rdb r latest t)"

definition Latest :: "snapdir \<Rightarrow> string" where
  "Latest dir =
     (let fallback = latest_rdb (sort_key fst dir) [] 0
      in case map_of dir currentName of
           None \<Rightarrow> fallback
         | Some (data, _) \<Rightarrow>
             let name = TrimSpace data
             in if name \<noteq> [] \<and> CHR ''/'' \<notin> set name \<and> CHR 0x5C \<notin> set name \<and> map_of dir name \<noteq> None
                then name else fallback)"

definition load_entry :: "int \<Rightarrow> kvstore \<Rightarrow> string \<times> wireEntry \<Rightarrow> kvstore" where
  "load_entry now kv = (\<lambda>(k, we).
     let remaining = (if we_expires we > 0 then i64 (we_expires we - now) else 0)
     in if we_expires we > 0 \<and> remaining \<le> 0 then kv
        else kv_Set now kv k (we_value we) (we_type we) remaining)"

datatype recErr =
    RLoad | RVersion | RReadWAL walErr | RReopen | RSeals | RInvalid | RVector | RUnsupported | RCrash

definition LoadWithHeader ::
  "gob_dec \<Rightarrow> gcm_open \<Rightarrow> encryptor option \<Rightarrow> int \<Rightarrow> snapdir \<Rightarrow> kvstore \<Rightarrow> string \<Rightarrow> kvstore \<times> (recErr + snapshotHeader)" where
  "LoadWithHeader gob_dec gcm_open enc now dir kv path =
     (case map_of dir path of
        None \<Rightarrow> (kv, Inl RLoad)
      | Some (file, _) \<Rightarrow>
          (case OpenSealed gcm_open enc file of
             None \<Rightarrow> (kv, Inl RLoad)
           | Some data \<Rightarrow>
               (case gob_dec data of
                  None \<Rightarrow> (kv, Inl RLoad)
                | Some (hdr, wire) \<Rightarrow>
                    if sh_Version hdr \<noteq> 2 then (kv, Inl RVersion)
                    else (foldl (load_entry now) kv wire, Inr hdr))))"

section \<open>Replay\<close>

definition expandEffects :: "walRecord \<Rightarrow> walEffect list" where
  "expandEffects rec =
     (if wr_Effects rec \<noteq> [] then wr_Effects rec
      else [\<lparr>we_Type = wr_Type rec, we_Key = wr_Key rec, we_Value = wr_Value rec, we_ExpiresAt = wr_TTLNano rec\<rparr>])"

definition with_vec :: "'v vecops option \<Rightarrow> 'v est \<Rightarrow> ('v vecops \<Rightarrow> 'v est \<times> recErr option) \<Rightarrow> 'v est \<times> recErr option" where
  "with_vec vops st f = (case vops of None \<Rightarrow> (st, None) | Some v \<Rightarrow> f v)"

definition vec_result :: "'v est \<times> (string + 'r) \<Rightarrow> 'v est \<times> recErr option" where
  "vec_result r = (fst r, case snd r of Inr _ \<Rightarrow> None | Inl _ \<Rightarrow> Some RVector)"

text \<open>The effects on the key-value store; \<open>None\<close> when the effect is not one of them.\<close>

definition apply_kv_effect :: "int \<Rightarrow> walEffect \<Rightarrow> kvstore \<Rightarrow> kvstore option" where
  "apply_kv_effect now eff kv =
     (let key = we_Key eff; remaining = i64 (we_ExpiresAt eff - now)
      in if we_Type eff = RecordSet then
           (if we_ExpiresAt eff > 0 \<and> remaining \<le> 0 then Some (fst (kv_Delete kv [key]))
            else Some (kv_Set now kv key (VBytes (we_Value eff)) TypeString
                         (if we_ExpiresAt eff > 0 then remaining else 0)))
         else if we_Type eff = RecordDelete \<or> we_Type eff = RecordDeleteIndex then Some (fst (kv_Delete kv [key]))
         else if we_Type eff = RecordExpire then
           (if we_ExpiresAt eff \<le> 0 then Some (fst (kv_Persist now kv key))
            else if remaining \<le> 0 then Some (fst (kv_Delete kv [key]))
            else Some (fst (kv_Expire now now kv key (max 1 (go_div remaining second)))))
         else None)"

definition applyRecoveredEffect ::
  "'v vecops option \<Rightarrow> int \<Rightarrow> walEffect \<Rightarrow> 'v est \<Rightarrow> 'v est \<times> recErr option" where
  "applyRecoveredEffect vops now eff st =
     (case apply_kv_effect now eff (fst st) of
        Some kv \<Rightarrow> ((kv, snd st), None)
      | None \<Rightarrow>
          let key = we_Key eff; val = sl (we_Value eff)
          in if we_Type eff = RecordVAdd then with_vec vops st (\<lambda>v.
               case DecodeVAddPayload val of
                 Ok (docID, Some vec) \<Rightarrow>
                   if docID = [] \<or> vec = [] then (st, Some RInvalid) else vec_result (vo_VAdd v key docID vec st)
               | Ok (docID, None) \<Rightarrow> (st, Some RInvalid)
               | _ \<Rightarrow> (st, Some RCrash))
             else if we_Type eff = RecordVAddBatch then with_vec vops st (\<lambda>v.
               case DecodeVAddBatchPayload [] val of
                 Ok (d, ids, vecs) \<Rightarrow>
                   if d = 0 \<or> ids = [] \<or> length ids \<noteq> length vecs then (st, Some RInvalid)
                   else vec_result (vo_VAddBatch v key d ids vecs st)
               | _ \<Rightarrow> (st, Some RCrash))
             else if we_Type eff = RecordVTombstone then with_vec vops st (\<lambda>v. vec_result (vo_VDel v key val st))
             else if we_Type eff = RecordVMigrateStart then with_vec vops st (\<lambda>v.
               case DecodeVMigrateStartPayload val of
                 None \<Rightarrow> (st, Some RInvalid)
               | Some (d, enc) \<Rightarrow> vec_result (vo_StartMigration v key d enc st))
             else if we_Type eff = RecordVMigrateAdd then with_vec vops st (\<lambda>v.
               case DecodeVAddPayload val of
                 Ok (docID, Some vec) \<Rightarrow>
                   if docID = [] \<or> vec = [] then (st, Some RInvalid)
                   else vec_result (vo_InsertShadowVector v key docID vec st)
               | Ok (docID, None) \<Rightarrow> (st, Some RInvalid)
               | _ \<Rightarrow> (st, Some RCrash))
             else if we_Type eff = RecordVMigrateSwap then with_vec vops st (\<lambda>v. vec_result (vo_SwapMigration v key st))
             else if we_Type eff = RecordVMigrateCancel then
               with_vec vops st (\<lambda>v. vec_result (vo_CancelMigration v key st))
             else (st, Some RUnsupported))"

fun replay_effects :: "'v vecops option \<Rightarrow> int \<Rightarrow> walEffect list \<Rightarrow> 'v est \<Rightarrow> 'v est \<times> recErr option" where
  "replay_effects vops now [] st = (st, None)"
| "replay_effects vops now (e # es) st =
     (case applyRecoveredEffect vops now e st of
        (st', None) \<Rightarrow> replay_effects vops now es st'
      | (st', Some err) \<Rightarrow> (st', Some err))"

definition after_checkpoint :: "64 word \<Rightarrow> walRecord list \<Rightarrow> walEffect list" where
  "after_checkpoint c records = concat (map expandEffects (filter (\<lambda>r. \<not> wr_Sequence r \<le> c) records))"

definition Recover ::
  "gob_dec \<Rightarrow> gcm_open \<Rightarrow> encryptor option \<Rightarrow> 'v vecops option \<Rightarrow> int \<Rightarrow> snapdir \<Rightarrow> wal \<Rightarrow> 'v est \<Rightarrow> 'v est \<times> recErr option" where
  "Recover gob_dec gcm_open enc vops now dir w st =
     (let snap = Latest dir;
          loaded = (if snap = [] then (fst st, Inr (0, []))
                    else case LoadWithHeader gob_dec gcm_open enc now dir (fst st) snap of
                           (kv, Inl e) \<Rightarrow> (kv, Inl e)
                         | (kv, Inr hdr) \<Rightarrow> (kv, Inr (sh_Sequence hdr, sh_VectorSeals hdr)))
      in case loaded of
           (kv, Inl e) \<Rightarrow> ((kv, snd st), Some e)
         | (kv, Inr (c, seals)) \<Rightarrow>
             (case w_ReadAll gcm_open w of
                Inl e \<Rightarrow> ((kv, snd st), Some (RReadWAL e))
              | Inr records \<Rightarrow>
                  let effects = after_checkpoint c records;
                      swapped = map we_Key (filter (\<lambda>e. we_Type e = RecordVMigrateSwap) effects);
                      seals' = filter (\<lambda>s. is_Key s \<notin> set swapped) seals;
                      st1 = (kv, snd st)
                  in case vops of
                       None \<Rightarrow> replay_effects vops now effects st1
                     | Some v \<Rightarrow>
                         (case vo_ReopenPersisted v st1 of
                            (st2, Inl _) \<Rightarrow> (st2, Some RReopen)
                          | (st2, Inr _) \<Rightarrow>
                              if \<not> vo_VerifySeals v seals' st2 then (st2, Some RSeals)
                              else replay_effects vops now effects st2)))"

end
