(* ===== verification/Locks.thy ===== *)
theory Locks
  imports Prelude
begin

text \<open>
  The lock manager of \<^verbatim>\<open>src/internal/transaction/lock_manager.go\<close>. The table maps a key to its
  \<^verbatim>\<open>sync.RWMutex\<close>, kept as the writer and the readers that hold it. An acquisition is a step that is
  enabled when the mutex is free, so a blocked goroutine is one whose step is not enabled. Goroutines
  that take their keys with \<^verbatim>\<open>LockMulti\<close> are a step relation over which it is shown that they cannot
  deadlock, because \<^verbatim>\<open>sortedUnique\<close> orders the keys.
\<close>

section \<open>Sorting the keys\<close>

text \<open>The first loop of \<^verbatim>\<open>sortedUnique\<close> keeps the first occurrence of each key.\<close>

fun unique_keys :: "string list \<Rightarrow> string list \<Rightarrow> string list" where
  "unique_keys [] result = result"
| "unique_keys (k # ks) result = unique_keys ks (if k \<in> set result then result else result @ [k])"

text \<open>The inner loop of the sort: the smallest element seen moves to the front position \<open>x\<close>, and each
  exchange leaves the old front element where the smaller one was.\<close>

fun sort_inner :: "string \<Rightarrow> string list \<Rightarrow> string \<times> string list" where
  "sort_inner x [] = (x, [])"
| "sort_inner x (y # ys) =
     (if x > y then case sort_inner y ys of (m, r) \<Rightarrow> (m, x # r)
      else case sort_inner x ys of (m, r) \<Rightarrow> (m, y # r))"

lemma length_sort_inner [simp]: "length (snd (sort_inner x ys)) = length ys"
  by (induction x ys rule: sort_inner.induct) (auto split: prod.splits)

function sort_outer :: "string list \<Rightarrow> string list" where
  "sort_outer [] = []"
| "sort_outer (x # xs) = (case sort_inner x xs of (m, r) \<Rightarrow> m # sort_outer r)"
  by pat_completeness auto
termination
proof (relation "measure length")
  fix x xs m and r :: "string list"
  assume "(m, r) = sort_inner x xs"
  then have "r = snd (sort_inner x xs)" by (metis snd_conv)
  then show "(r, x # xs) \<in> measure length" by simp
qed simp

definition sortedUnique :: "string list \<Rightarrow> string list" where
  "sortedUnique keys = sort_outer (unique_keys keys [])"

lemma mset_sort_inner: "mset (fst (sort_inner x ys) # snd (sort_inner x ys)) = mset (x # ys)"
  by (induction x ys rule: sort_inner.induct) (auto split: prod.splits)

lemma sort_inner_least: "\<forall>y \<in> set (x # ys). fst (sort_inner x ys) \<le> y"
  by (induction x ys rule: sort_inner.induct) (auto split: prod.splits)

lemma mset_sort_outer: "mset (sort_outer xs) = mset xs"
proof (induction xs rule: sort_outer.induct)
  case (2 x xs)
  obtain m r where s: "sort_inner x xs = (m, r)" by force
  show ?case using 2 [OF s [symmetric]] mset_sort_inner [of x xs] by (simp add: s)
qed simp

lemma sorted_sort_outer: "sorted (sort_outer xs)"
proof (induction xs rule: sort_outer.induct)
  case (2 x xs)
  obtain m r where s: "sort_inner x xs = (m, r)" by force
  have "set (m # r) = set (x # xs)" using mset_sort_inner [of x xs] by (metis fst_conv s set_mset_mset snd_conv)
  then have "\<forall>y \<in> set r. m \<le> y" using sort_inner_least [of x xs] by (auto simp: s)
  moreover have "set (sort_outer r) = set r" using mset_sort_outer by (metis set_mset_mset)
  ultimately show ?case using 2 [OF s [symmetric]] by (simp add: s)
qed simp

lemma unique_keys_set: "set (unique_keys ks result) = set ks \<union> set result"
  by (induction ks result rule: unique_keys.induct) auto

lemma unique_keys_distinct: "distinct result \<Longrightarrow> distinct (unique_keys ks result)"
  by (induction ks result rule: unique_keys.induct) auto

lemma sortedUnique_set: "set (sortedUnique keys) = set keys"
proof -
  have "set (sortedUnique keys) = set (unique_keys keys [])"
    unfolding sortedUnique_def using mset_sort_outer by (metis set_mset_mset)
  then show ?thesis by (simp add: unique_keys_set)
qed

lemma sortedUnique_strict: "sorted_wrt (<) (sortedUnique keys)"
proof -
  have "distinct (sortedUnique keys)"
    unfolding sortedUnique_def
    using mset_eq_imp_distinct_iff [OF mset_sort_outer] unique_keys_distinct by simp
  then show ?thesis using sorted_sort_outer by (simp add: sortedUnique_def strict_sorted_iff)
qed

section \<open>The lock table\<close>

record keyLock =
  kl_writer :: "nat option"
  kl_readers :: "nat list"

type_synonym lockTable = "(string, keyLock) gomap"

definition getLock :: "string \<Rightarrow> lockTable \<Rightarrow> lockTable \<times> keyLock" where
  "getLock key lm =
     (case map_of lm key of
        Some l \<Rightarrow> (lm, l)
      | None \<Rightarrow> let l = \<lparr>kl_writer = None, kl_readers = []\<rparr> in (AList.update key l lm, l))"

text \<open>\<open>None\<close>: the goroutine \<open>c\<close> blocks.\<close>

definition Lock :: "nat \<Rightarrow> string \<Rightarrow> lockTable \<Rightarrow> lockTable option" where
  "Lock c key lm =
     (case getLock key lm of (lm', l) \<Rightarrow>
        if kl_writer l = None \<and> kl_readers l = [] then Some (AList.update key (l\<lparr>kl_writer := Some c\<rparr>) lm') else None)"

definition RLock :: "nat \<Rightarrow> string \<Rightarrow> lockTable \<Rightarrow> lockTable option" where
  "RLock c key lm =
     (case getLock key lm of (lm', l) \<Rightarrow>
        if kl_writer l = None then Some (AList.update key (l\<lparr>kl_readers := c # kl_readers l\<rparr>) lm') else None)"

text \<open>Releasing an unlocked mutex is a run-time error, here \<open>None\<close>.\<close>

definition Unlock :: "string \<Rightarrow> lockTable \<Rightarrow> lockTable option" where
  "Unlock key lm =
     (case getLock key lm of (lm', l) \<Rightarrow>
        if kl_writer l = None then None else Some (AList.update key (l\<lparr>kl_writer := None\<rparr>) lm'))"

definition RUnlock :: "nat \<Rightarrow> string \<Rightarrow> lockTable \<Rightarrow> lockTable option" where
  "RUnlock c key lm =
     (case getLock key lm of (lm', l) \<Rightarrow>
        if c \<in> set (kl_readers l) then Some (AList.update key (l\<lparr>kl_readers := remove1 c (kl_readers l)\<rparr>) lm') else None)"

section \<open>Goroutines that lock several keys\<close>

text \<open>A goroutine inside \<^verbatim>\<open>LockMulti\<close>: the keys still to lock, the keys it holds, and whether it has
  started its release function.\<close>

record locker =
  lk_todo :: "string list"
  lk_held :: "string list"
  lk_release :: bool

type_synonym lstate = "lockTable \<times> (nat \<Rightarrow> locker)"

definition start_locker :: "string list \<Rightarrow> locker" where
  "start_locker keys = \<lparr>lk_todo = sortedUnique keys, lk_held = [], lk_release = False\<rparr>"

definition finished :: "locker \<Rightarrow> bool" where
  "finished l \<longleftrightarrow> lk_todo l = [] \<and> lk_held l = [] \<and> lk_release l"

inductive lock_step :: "lstate \<Rightarrow> lstate \<Rightarrow> bool" where
  acquire: "\<lbrakk> \<not> lk_release (ls c); lk_todo (ls c) = k # ks; Lock c k lm = Some lm' \<rbrakk> \<Longrightarrow>
     lock_step (lm, ls) (lm', ls(c := (ls c)\<lparr>lk_todo := ks, lk_held := lk_held (ls c) @ [k]\<rparr>))"
| return: "\<lbrakk> \<not> lk_release (ls c); lk_todo (ls c) = [] \<rbrakk> \<Longrightarrow>
     lock_step (lm, ls) (lm, ls(c := (ls c)\<lparr>lk_release := True\<rparr>))"
| release: "\<lbrakk> lk_release (ls c); lk_held (ls c) = ks @ [k]; Unlock k lm = Some lm' \<rbrakk> \<Longrightarrow>
     lock_step (lm, ls) (lm', ls(c := (ls c)\<lparr>lk_held := ks\<rparr>))"

inductive_cases lock_stepE: "lock_step (lm, ls) s'"

section \<open>No deadlock\<close>

definition owner :: "lockTable \<Rightarrow> string \<Rightarrow> nat option" where
  "owner lm k = (case map_of lm k of None \<Rightarrow> None | Some l \<Rightarrow> kl_writer l)"

definition no_readers :: "lockTable \<Rightarrow> bool" where
  "no_readers lm \<longleftrightarrow> (\<forall>k l. map_of lm k = Some l \<longrightarrow> kl_readers l = [])"

lemma Lock_free:
  assumes "no_readers lm"
  shows "owner lm k = None \<Longrightarrow> \<exists>lm'. Lock c k lm = Some lm'"
  using assms by (auto simp: Lock_def getLock_def owner_def no_readers_def Let_def split: option.splits)

lemma Lock_facts:
  assumes "Lock c k lm = Some lm'" and "no_readers lm"
  shows "owner lm k = None \<and> owner lm' = (owner lm)(k := Some c) \<and> no_readers lm'"
  using assms
  by (auto simp: Lock_def getLock_def owner_def no_readers_def fun_eq_iff Let_def split: option.splits if_splits)

lemma Unlock_facts:
  assumes "Unlock k lm = Some lm'" and "no_readers lm"
  shows "owner lm' = (owner lm)(k := None) \<and> no_readers lm'"
  using assms
  by (auto simp: Unlock_def getLock_def owner_def no_readers_def fun_eq_iff Let_def split: option.splits if_splits)

lemma Unlock_owned: "owner lm k = Some c \<Longrightarrow> \<exists>lm'. Unlock k lm = Some lm'"
  by (auto simp: Unlock_def getLock_def owner_def split: option.splits)

text \<open>The mutexes are held by exactly the goroutines that think so, and each goroutine locks upwards.\<close>

definition lock_inv :: "lstate \<Rightarrow> bool" where
  "lock_inv s \<longleftrightarrow> (case s of (lm, ls) \<Rightarrow>
     no_readers lm
   \<and> (\<forall>c k. owner lm k = Some c \<longleftrightarrow> k \<in> set (lk_held (ls c)))
   \<and> (\<forall>c. distinct (lk_held (ls c)))
   \<and> (\<forall>c. \<not> lk_release (ls c) \<longrightarrow> sorted_wrt (<) (lk_held (ls c) @ lk_todo (ls c)))
   \<and> (\<forall>c. lk_release (ls c) \<longrightarrow> lk_todo (ls c) = []))"

text \<open>The goroutines \<open>cs\<close> enter \<^verbatim>\<open>LockMulti\<close> with their keys; nobody else takes part.\<close>

definition lock_init :: "nat list \<Rightarrow> (nat \<Rightarrow> string list) \<Rightarrow> lstate" where
  "lock_init cs req =
     ([], \<lambda>c. if c \<in> set cs then start_locker (req c) else \<lparr>lk_todo = [], lk_held = [], lk_release = True\<rparr>)"

lemma lock_inv_init: "lock_inv (lock_init cs req)"
  by (auto simp: lock_inv_def lock_init_def start_locker_def owner_def no_readers_def sortedUnique_strict)

lemma lock_inv_step: "lock_step s s' \<Longrightarrow> lock_inv s \<Longrightarrow> lock_inv s'"
proof (induction rule: lock_step.induct)
  case (acquire ls c k ks lm lm')
  then have "no_readers lm" by (simp add: lock_inv_def)
  note f = Lock_facts [OF acquire(3) this]
  have own: "owner lm x = Some d \<longleftrightarrow> x \<in> set (lk_held (ls d))" for x d
    using acquire.prems by (simp add: lock_inv_def)
  have "k \<notin> set (lk_held (ls d))" for d using own [of k d] f by simp
  moreover have "sorted_wrt (<) (lk_held (ls c) @ k # ks)" using acquire by (fastforce simp: lock_inv_def)
  ultimately show ?case using acquire.prems f own acquire(1,2) by (auto simp: lock_inv_def)
next
  case (return ls c lm)
  then show ?case by (auto simp: lock_inv_def)
next
  case (release ls c ks k lm lm')
  then have "no_readers lm" by (simp add: lock_inv_def)
  note f = Unlock_facts [OF release(3) this]
  have own: "owner lm x = Some d \<longleftrightarrow> x \<in> set (lk_held (ls d))" for x d
    using release.prems by (simp add: lock_inv_def)
  have only: "k \<in> set (lk_held (ls d)) \<Longrightarrow> d = c" for d
    using own [of k d] own [of k c] release(2) by simp
  have "distinct (lk_held (ls c))" using release.prems by (simp add: lock_inv_def)
  then have "distinct (ks @ [k])" by (simp only: release(2))
  then show ?case using release.prems f own only release(1,2) by (auto simp: lock_inv_def)
qed

text \<open>Among the goroutines waiting for a key, the one that waits for the greatest key can go on.\<close>

lemma lock_progress:
  assumes inv: "lock_inv (lm, ls)" and fin: "finite C" and out: "\<forall>c. c \<notin> C \<longrightarrow> finished (ls c)"
    and some: "\<exists>c \<in> C. \<not> finished (ls c)"
  shows "\<exists>s'. lock_step (lm, ls) s'"
proof (rule ccontr)
  assume stuck: "\<nexists>s'. lock_step (lm, ls) s'"
  have own: "owner lm x = Some d \<longleftrightarrow> x \<in> set (lk_held (ls d))" for x d using inv by (simp add: lock_inv_def)
  have nr: "no_readers lm" using inv by (simp add: lock_inv_def)
  have rel: "finished (ls c)" if "lk_release (ls c)" for c
  proof (rule ccontr)
    assume "\<not> finished (ls c)"
    moreover have "lk_todo (ls c) = []" using inv that by (simp add: lock_inv_def)
    ultimately have "lk_held (ls c) \<noteq> []" using that by (simp add: finished_def)
    then obtain ks k where h: "lk_held (ls c) = ks @ [k]" by (metis rev_exhaust)
    then have "owner lm k = Some c" using own [of k c] by simp
    then obtain lm' where "Unlock k lm = Some lm'" using Unlock_owned by blast
    then show False using lock_step.release [of ls c ks k lm, OF that h] stuck by blast
  qed
  have wait: "\<not> lk_release (ls c) \<and> lk_todo (ls c) \<noteq> [] \<and> owner lm (hd (lk_todo (ls c))) \<noteq> None"
    if "\<not> finished (ls c)" for c
  proof -
    have r: "\<not> lk_release (ls c)" using rel that by blast
    have t: "lk_todo (ls c) \<noteq> []" using lock_step.return [of ls c lm, OF r] stuck by blast
    then obtain k ks where k: "lk_todo (ls c) = k # ks" by (cases "lk_todo (ls c)") auto
    have "owner lm k \<noteq> None" using Lock_free [OF nr] lock_step.acquire [of ls c k ks lm, OF r k] stuck by blast
    with r t k show ?thesis by simp
  qed
  let ?W = "{c \<in> C. \<not> finished (ls c)}"
  let ?K = "(\<lambda>c. hd (lk_todo (ls c))) ` ?W"
  have K: "finite ?K" "?K \<noteq> {}" using fin some by auto
  obtain c where c: "c \<in> ?W" and m: "hd (lk_todo (ls c)) = Max ?K" using Max_in [OF K] by auto
  have max: "\<forall>d \<in> ?W. hd (lk_todo (ls d)) \<le> hd (lk_todo (ls c))"
    unfolding m using K(1) by (auto intro!: Max_ge)
  let ?k = "hd (lk_todo (ls c))"
  obtain d where d: "?k \<in> set (lk_held (ls d))" using wait c own by fastforce
  then have "\<not> finished (ls d)" by (auto simp: finished_def)
  then have dW: "d \<in> ?W" and dw: "\<not> lk_release (ls d)" "lk_todo (ls d) \<noteq> []" using wait out by auto
  then have "sorted_wrt (<) (lk_held (ls d) @ lk_todo (ls d))" using inv by (simp add: lock_inv_def)
  then have "?k < hd (lk_todo (ls d))" using d dw by (simp add: sorted_wrt_append)
  with max dW show False by force
qed

text \<open>Every step brings its goroutine closer to its end.\<close>

definition work :: "locker \<Rightarrow> nat" where
  "work l = 2 * length (lk_todo l) + length (lk_held l) + (if lk_release l then 0 else 1)"

definition total_work :: "nat list \<Rightarrow> (nat \<Rightarrow> locker) \<Rightarrow> nat" where
  "total_work cs ls = (\<Sum>c \<in> set cs. work (ls c))"

lemma work_update:
  assumes "c \<in> set cs" and "work l < work (ls c)"
  shows "total_work cs (ls(c := l)) < total_work cs ls"
  unfolding total_work_def using assms by (intro sum_strict_mono_ex1) auto

definition others_done :: "nat list \<Rightarrow> (nat \<Rightarrow> locker) \<Rightarrow> bool" where
  "others_done cs ls \<longleftrightarrow> (\<forall>c. c \<notin> set cs \<longrightarrow> finished (ls c))"

lemma others_done_update: "c \<in> set cs \<Longrightarrow> others_done cs ls \<Longrightarrow> others_done cs (ls(c := l))"
  by (auto simp: others_done_def)

lemma lock_step_work:
  "lock_step s s' \<Longrightarrow> others_done cs (snd s) \<Longrightarrow> others_done cs (snd s') \<and> total_work cs (snd s') < total_work cs (snd s)"
proof (induction rule: lock_step.induct)
  case (acquire ls c k ks lm lm')
  then have c: "c \<in> set cs" by (auto simp: others_done_def finished_def)
  have "work ((ls c)\<lparr>lk_todo := ks, lk_held := lk_held (ls c) @ [k]\<rparr>) < work (ls c)"
    using acquire by (simp add: work_def)
  from work_update [OF c, of _ ls, OF this] show ?case
    using others_done_update [OF c] acquire.prems by (simp del: fun_upd_apply)
next
  case (return ls c lm)
  then have c: "c \<in> set cs" by (auto simp: others_done_def finished_def)
  have "work ((ls c)\<lparr>lk_release := True\<rparr>) < work (ls c)" using return by (simp add: work_def)
  from work_update [OF c, of _ ls, OF this] show ?case
    using others_done_update [OF c] return.prems by (simp del: fun_upd_apply)
next
  case (release ls c ks k lm lm')
  then have c: "c \<in> set cs" by (auto simp: others_done_def finished_def)
  have "work ((ls c)\<lparr>lk_held := ks\<rparr>) < work (ls c)" using release by (simp add: work_def)
  from work_update [OF c, of _ ls, OF this] show ?case
    using others_done_update [OF c] release.prems by (simp del: fun_upd_apply)
qed

lemma lock_run:
  "(lock_step ^^ n) (lock_init cs req) s \<Longrightarrow>
     lock_inv s \<and> others_done cs (snd s) \<and> n + total_work cs (snd s) \<le> total_work cs (snd (lock_init cs req))"
proof (induction n arbitrary: s)
  case 0
  then show ?case using lock_inv_init by (auto simp: others_done_def lock_init_def finished_def)
next
  case (Suc n)
  then obtain s1 where s1: "(lock_step ^^ n) (lock_init cs req) s1" "lock_step s1 s" by auto
  show ?case using Suc.IH [OF s1(1)] lock_inv_step [OF s1(2)] lock_step_work [OF s1(2), of cs] by auto
qed

text \<open>C30. \<^verbatim>\<open>LockMulti\<close> cannot deadlock. Whatever keys a set of goroutines ask for and in whatever order their
  steps interleave, after any number of steps no key is locked by two of them, and either another step
  is possible or all of them have locked and released their keys and every mutex is free. The number of
  steps is bounded by the work of the requests, so the second case is always reached.\<close>

theorem lock_multi_deadlock_free:
  assumes "(lock_step ^^ n) (lock_init cs req) (lm, ls)"
  shows "n \<le> (\<Sum>c \<in> set cs. 2 * card (set (req c)) + 1)
    \<and> (\<forall>c d k. k \<in> set (lk_held (ls c)) \<and> k \<in> set (lk_held (ls d)) \<longrightarrow> c = d)
    \<and> ((\<exists>s'. lock_step (lm, ls) s') \<or> (\<forall>c. finished (ls c)) \<and> (\<forall>k. owner lm k = None))"
proof -
  note r = lock_run [OF assms]
  have own: "owner lm x = Some d \<longleftrightarrow> x \<in> set (lk_held (ls d))" for x d using r by (simp add: lock_inv_def)
  have "length (sortedUnique ks) = card (set ks)" for ks
    using sortedUnique_strict [of ks] sortedUnique_set [of ks]
    by (metis distinct_card strict_sorted_iff)
  then have "total_work cs (snd (lock_init cs req)) = (\<Sum>c \<in> set cs. 2 * card (set (req c)) + 1)"
    by (simp add: total_work_def lock_init_def start_locker_def work_def)
  then have n: "n \<le> (\<Sum>c \<in> set cs. 2 * card (set (req c)) + 1)" using r by simp
  have excl: "\<forall>c d k. k \<in> set (lk_held (ls c)) \<and> k \<in> set (lk_held (ls d)) \<longrightarrow> c = d"
    using own by (metis option.inject)
  have "(\<exists>s'. lock_step (lm, ls) s') \<or> (\<forall>c. finished (ls c)) \<and> (\<forall>k. owner lm k = None)"
  proof (cases "\<exists>c \<in> set cs. \<not> finished (ls c)")
    case True
    then show ?thesis using lock_progress [of lm ls "set cs"] r by (auto simp: others_done_def)
  next
    case False
    then have f: "\<forall>c. finished (ls c)" using r by (auto simp: others_done_def)
    then have "owner lm k = None" for k using own [of k] by (cases "owner lm k") (auto simp: finished_def)
    with f show ?thesis by blast
  qed
  with n excl show ?thesis by blast
qed

lemma lock_multi_deadlock_free_witness:
  "\<exists>s. (lock_step ^^ 0) (lock_init [1, 2] (\<lambda>c. if c = 1 then [''b'', ''a''] else [''a'', ''b''])) s
     \<and> (\<exists>s'. lock_step s s')"
proof -
  let ?req = "\<lambda>c :: nat. if c = 1 then [''b'', ''a''] else [''a'', ''b'']"
  obtain lm ls where s: "lock_init [1, 2] ?req = (lm, ls)" by force
  have 0: "(lock_step ^^ 0) (lock_init [1, 2] ?req) (lm, ls)" unfolding s by simp
  note t = lock_multi_deadlock_free [OF 0]
  have "\<not> finished (ls 1)" using s by (auto simp: lock_init_def start_locker_def finished_def)
  with t have "\<exists>s'. lock_step (lm, ls) s'" by blast
  with 0 show ?thesis by blast
qed

end
