(* ===== verification/Transaction.thy ===== *)
theory Transaction
  imports KVTrace Protocol
begin

text \<open>
  The transaction package, \<^verbatim>\<open>src/internal/transaction\<close>: multi-version storage (\<^verbatim>\<open>mvcc.go\<close>,
  \<^verbatim>\<open>isolation.go\<close>), watched keys (\<^verbatim>\<open>watch.go\<close>), the MULTI queues (\<^verbatim>\<open>multi.go\<close>), two-phase commit
  (\<^verbatim>\<open>2pc.go\<close>) and the rollback log (\<^verbatim>\<open>rollback.go\<close>). Each method holds the mutex of its object, so it is
  one state transition. The results of the callbacks of the two-phase commit, and the order in which its
  goroutines finish, are arguments.
\<close>

section \<open>Versions\<close>

type_synonym version = "64 word"

record versionedValue =
  vv_Value :: gvalue
  vv_Version :: version
  vv_Timestamp :: int
  vv_Deleted :: bool

record mvccStore =
  mv_history :: "(string, versionedValue list) gomap"
  mv_current :: version
  mv_max :: nat

definition NewMVCCStore :: "int \<Rightarrow> mvccStore" where
  "NewMVCCStore maxVersions =
     \<lparr>mv_history = [], mv_current = 0, mv_max = nat (if maxVersions \<le> 0 then 64 else maxVersions)\<rparr>"

definition CurrentVersion :: "mvccStore \<Rightarrow> version" where
  "CurrentVersion m = mv_current m"

definition NextVersion :: "mvccStore \<Rightarrow> mvccStore \<times> version" where
  "NextVersion m = (let v = mv_current m + 1 in (m\<lparr>mv_current := v\<rparr>, v))"

definition hist :: "mvccStore \<Rightarrow> string \<Rightarrow> versionedValue list" where
  "hist m key = (case map_of (mv_history m) key of None \<Rightarrow> [] | Some h \<Rightarrow> h)"

definition mv_Write :: "int \<Rightarrow> mvccStore \<Rightarrow> string \<Rightarrow> gvalue \<Rightarrow> bool \<Rightarrow> mvccStore \<times> version" where
  "mv_Write now m key val del =
     (let (m1, v) = NextVersion m;
          h = hist m1 key @ [\<lparr>vv_Value = val, vv_Version = v, vv_Timestamp = now, vv_Deleted = del\<rparr>];
          h' = (if length h > mv_max m1 then drop (length h - mv_max m1) h else h)
      in (m1\<lparr>mv_history := AList.update key h' (mv_history m1)\<rparr>, v))"

definition ReadAt :: "mvccStore \<Rightarrow> string \<Rightarrow> version \<Rightarrow> versionedValue option" where
  "ReadAt m key snapshotVersion = find (\<lambda>vv. vv_Version vv \<le> snapshotVersion) (rev (hist m key))"

definition ReadLatest :: "mvccStore \<Rightarrow> string \<Rightarrow> versionedValue option" where
  "ReadLatest m key = ReadAt m key (CurrentVersion m)"

definition HistoryAt :: "mvccStore \<Rightarrow> string \<Rightarrow> version \<Rightarrow> versionedValue list" where
  "HistoryAt m key snapshotVersion = filter (\<lambda>vv. vv_Version vv \<le> snapshotVersion) (hist m key)"

definition GC :: "mvccStore \<Rightarrow> version \<Rightarrow> mvccStore" where
  "GC m minVersion =
     m\<lparr>mv_history := filter (\<lambda>(k, h). h \<noteq> [])
        (map (\<lambda>(k, h). (k, filter (\<lambda>vv. vv_Version vv \<ge> minVersion) h)) (mv_history m))\<rparr>"

text \<open>\<^verbatim>\<open>IsolationEnforcer\<close>.\<close>

definition ReadAtSnapshot :: "mvccStore \<Rightarrow> string \<Rightarrow> version \<Rightarrow> versionedValue option" where
  "ReadAtSnapshot = ReadAt"

definition iso_Snapshot :: "mvccStore \<Rightarrow> version" where
  "iso_Snapshot m = CurrentVersion m"

section \<open>Watched keys\<close>

type_synonym watchSet = "(64 word, (string, version) gomap) gomap"

definition Watch :: "watchSet \<Rightarrow> 64 word \<Rightarrow> string list \<Rightarrow> version \<Rightarrow> watchSet" where
  "Watch w clientID keys v =
     (let old = (case map_of w clientID of None \<Rightarrow> [] | Some m \<Rightarrow> m)
      in AList.update clientID (foldl (\<lambda>m k. AList.update k v m) old keys) w)"

definition Unwatch :: "watchSet \<Rightarrow> 64 word \<Rightarrow> watchSet" where
  "Unwatch w clientID = AList.delete clientID w"

definition IsDirty :: "watchSet \<Rightarrow> 64 word \<Rightarrow> mvccStore \<Rightarrow> bool" where
  "IsDirty w clientID mvcc =
     (case map_of w clientID of
        None \<Rightarrow> False
      | Some ks \<Rightarrow> \<exists>(key, watchedAt) \<in> set ks.
          (case ReadLatest mvcc key of None \<Rightarrow> False | Some vv \<Rightarrow> vv_Version vv > watchedAt))"

definition NotifyWrite :: "watchSet \<Rightarrow> string \<Rightarrow> version \<Rightarrow> 64 word list" where
  "NotifyWrite w key currentVersion =
     map fst (filter (\<lambda>(c, ks). case map_of ks key of None \<Rightarrow> False | Some v \<Rightarrow> currentVersion > v) w)"

section \<open>MULTI\<close>

datatype txState = TxStateNone | TxStateOpen | TxStateError

record transaction =
  tx_State :: txState
  tx_Queue :: "command list"
  tx_Error :: string

type_synonym multiManager = "(64 word, transaction) gomap"

definition tx_Begin :: "multiManager \<Rightarrow> 64 word \<Rightarrow> multiManager \<times> string option" where
  "tx_Begin m clientID =
     (case map_of m clientID of
        Some tx \<Rightarrow> if tx_State tx = TxStateOpen then (m, Some ''ERR MULTI calls can not be nested'')
                   else (AList.update clientID \<lparr>tx_State = TxStateOpen, tx_Queue = [], tx_Error = []\<rparr> m, None)
      | None \<Rightarrow> (AList.update clientID \<lparr>tx_State = TxStateOpen, tx_Queue = [], tx_Error = []\<rparr> m, None))"

definition IsActive :: "multiManager \<Rightarrow> 64 word \<Rightarrow> bool" where
  "IsActive m clientID = (case map_of m clientID of None \<Rightarrow> False | Some tx \<Rightarrow> tx_State tx = TxStateOpen)"

definition tx_Enqueue :: "multiManager \<Rightarrow> 64 word \<Rightarrow> command \<Rightarrow> multiManager" where
  "tx_Enqueue m clientID cmd =
     (case map_of m clientID of
        None \<Rightarrow> m
      | Some tx \<Rightarrow> AList.update clientID (tx\<lparr>tx_Queue := tx_Queue tx @ [cmd]\<rparr>) m)"

definition SetError :: "multiManager \<Rightarrow> 64 word \<Rightarrow> string \<Rightarrow> multiManager" where
  "SetError m clientID err =
     (case map_of m clientID of
        None \<Rightarrow> m
      | Some tx \<Rightarrow> AList.update clientID (tx\<lparr>tx_State := TxStateError, tx_Error := err\<rparr>) m)"

definition tx_Exec :: "multiManager \<Rightarrow> 64 word \<Rightarrow> multiManager \<times> (string + command list)" where
  "tx_Exec m clientID =
     (case map_of m clientID of
        None \<Rightarrow> (m, Inl ''ERR EXEC without MULTI'')
      | Some tx \<Rightarrow> (AList.delete clientID m,
                   if tx_State tx = TxStateError then Inl (tx_Error tx) else Inr (tx_Queue tx)))"

definition Discard :: "multiManager \<Rightarrow> 64 word \<Rightarrow> multiManager \<times> string option" where
  "Discard m clientID =
     (if map_of m clientID = None then (m, Some ''ERR DISCARD without MULTI'')
      else (AList.delete clientID m, None))"

section \<open>Two-phase commit\<close>

datatype twoPCState = TwoPCPrepared | TwoPCCommitted | TwoPCAborted

record twoPCTransaction =
  tp_State :: twoPCState
  tp_Shards :: "string list"
  tp_prepareAck :: "(string, bool) gomap"

type_synonym coordinator = "(string, twoPCTransaction) gomap"

definition tp_Begin :: "coordinator \<Rightarrow> string \<Rightarrow> string list \<Rightarrow> coordinator \<times> bool" where
  "tp_Begin c txID shards =
     (if map_of c txID \<noteq> None then (c, False)
      else (AList.update txID \<lparr>tp_State = TwoPCPrepared, tp_Shards = shards, tp_prepareAck = []\<rparr> c, True))"

text \<open>\<open>finish\<close> is the order in which the goroutines, one per shard, end; \<open>answer\<close> is the result of the
  callback (\<open>None\<close>: no error). The error returned is the first one sent.\<close>

definition Prepare ::
  "coordinator \<Rightarrow> string \<Rightarrow> (string \<Rightarrow> 'e option) \<Rightarrow> string list \<Rightarrow> coordinator \<times> (unit + 'e) option" where
  "Prepare c txID answer finish =
     (case map_of c txID of
        None \<Rightarrow> (c, Some (Inl ()))
      | Some tx \<Rightarrow>
          (AList.update txID (tx\<lparr>tp_prepareAck :=
             foldl (\<lambda>a s. if answer s = None then AList.update s True a else a) (tp_prepareAck tx) finish\<rparr>) c,
           (case List.map_filter answer finish of [] \<Rightarrow> None | e # _ \<Rightarrow> Some (Inr e))))"

definition broadcast ::
  "coordinator \<Rightarrow> string \<Rightarrow> (string \<Rightarrow> 'e option) \<Rightarrow> string list \<Rightarrow> twoPCState \<Rightarrow> coordinator \<times> (unit + 'e) option" where
  "broadcast c txID answer finish final =
     (case map_of c txID of
        None \<Rightarrow> (c, Some (Inl ()))
      | Some tx \<Rightarrow>
          (AList.update txID (tx\<lparr>tp_State := final\<rparr>) c,
           (case List.map_filter answer finish of [] \<Rightarrow> None | e # _ \<Rightarrow> Some (Inr e))))"

definition tp_Commit ::
  "coordinator \<Rightarrow> string \<Rightarrow> (string \<Rightarrow> 'e option) \<Rightarrow> string list \<Rightarrow> coordinator \<times> (unit + 'e) option" where
  "tp_Commit c txID answer finish = broadcast c txID answer finish TwoPCCommitted"

definition tp_Abort ::
  "coordinator \<Rightarrow> string \<Rightarrow> (string \<Rightarrow> 'e option) \<Rightarrow> string list \<Rightarrow> coordinator \<times> (unit + 'e) option" where
  "tp_Abort c txID answer finish = broadcast c txID answer finish TwoPCAborted"

section \<open>Rollback log\<close>

record rollbackEntry =
  rb_Key :: string
  rb_OldValue :: gvalue
  rb_Existed :: bool

type_synonym rollbackLog = "rollbackEntry list"

definition rb_Record :: "rollbackLog \<Rightarrow> string \<Rightarrow> entry option \<Rightarrow> rollbackLog" where
  "rb_Record r key e =
     r @ [case e of
            Some e \<Rightarrow> \<lparr>rb_Key = key, rb_OldValue = e_value e, rb_Existed = True\<rparr>
          | None \<Rightarrow> \<lparr>rb_Key = key, rb_OldValue = VNil, rb_Existed = False\<rparr>]"

definition Rollback :: "rollbackLog \<Rightarrow> kvstore \<Rightarrow> rollbackLog \<times> kvstore" where
  "Rollback r kv = ([], foldl (\<lambda>kv e. if \<not> rb_Existed e then fst (kv_Delete kv [rb_Key e]) else kv) kv (rev r))"

definition rb_Clear :: "rollbackLog \<Rightarrow> rollbackLog" where
  "rb_Clear r = []"

section \<open>Snapshot reads and watched keys\<close>

definition keep :: "nat \<Rightarrow> 'a list \<Rightarrow> 'a list" where
  "keep n xs = drop (length xs - n) xs"

lemma keep_append: "keep n (keep n xs @ ys) = keep n (xs @ ys)"
  by (cases "length xs \<le> n") (simp_all add: keep_def add.commute)

lemma length_keep [simp]: "length (keep n xs) = min n (length xs)"
  by (simp add: keep_def)

lemma keep_id: "length xs \<le> n \<Longrightarrow> keep n xs = xs"
  by (simp add: keep_def)

lemma set_keep: "set (keep n xs) \<subseteq> set xs"
  by (simp add: keep_def set_drop_subset)

lemma keep_tail: "length ys \<le> n \<Longrightarrow> keep n (xs @ ys) = keep (n - length ys) xs @ ys"
  by (simp add: keep_def)

lemma last_keep: "0 < n \<Longrightarrow> xs \<noteq> [] \<Longrightarrow> keep n xs \<noteq> [] \<and> last (keep n xs) = last xs"
  using diff_less [of n "length xs"] by (cases "length xs") (auto simp: keep_def last_drop)

definition mv_inv :: "mvccStore \<Rightarrow> bool" where
  "mv_inv m \<longleftrightarrow> wf_map (mv_history m) \<and> 0 < mv_max m
     \<and> (\<forall>k. length (hist m k) \<le> mv_max m \<and> (\<forall>vv \<in> set (hist m k). vv_Version vv \<le> mv_current m))"

type_synonym mvwrite = "int \<times> string \<times> gvalue \<times> bool"

definition mv_writes :: "mvccStore \<Rightarrow> mvwrite list \<Rightarrow> mvccStore" where
  "mv_writes m ws = foldl (\<lambda>m (now, k, v, d). fst (mv_Write now m k v d)) m ws"

definition writes_on :: "string \<Rightarrow> mvwrite list \<Rightarrow> nat" where
  "writes_on k ws = length (filter (\<lambda>w. fst (snd w) = k) ws)"

lemma mv_inv_New: "mv_inv (NewMVCCStore n)"
  by (simp add: mv_inv_def NewMVCCStore_def hist_def)

lemma word_next: "unat (c :: 64 word) + 1 < 2 ^ 64 \<Longrightarrow> c < c + 1 \<and> unat (c + 1) = unat c + 1"
proof -
  assume "unat c + 1 < 2 ^ 64"
  then have "unat (c + 1) = unat c + 1" by (simp add: unat_word_ariths unat_1)
  then show ?thesis by (simp add: word_less_nat_alt)
qed

lemma mv_Write_facts:
  fixes now key v d
  assumes "mv_inv m" and "unat (mv_current m) + 1 < 2 ^ 64"
  defines "m' \<equiv> fst (mv_Write now m key v d)"
  shows "mv_inv m' \<and> mv_max m' = mv_max m \<and> mv_current m < mv_current m' \<and> unat (mv_current m') = unat (mv_current m) + 1
    \<and> (\<exists>x. vv_Version x = mv_current m' \<and> hist m' = (hist m)(key := keep (mv_max m) (hist m key @ [x])))"
proof -
  let ?v = "mv_current m + 1"
  let ?x = "\<lparr>vv_Value = v, vv_Version = ?v, vv_Timestamp = now, vv_Deleted = d\<rparr>"
  have h: "hist m' = (hist m)(key := keep (mv_max m) (hist m key @ [?x]))" and c: "mv_current m' = ?v"
    and x: "mv_max m' = mv_max m" and w: "wf_map (mv_history m')"
    using assms(1) by (auto simp: m'_def mv_Write_def NextVersion_def Let_def hist_def keep_def fun_eq_iff mv_inv_def)
  note n = word_next [OF assms(2)]
  have "\<forall>k. \<forall>vv \<in> set (hist m k). vv_Version vv \<le> ?v" using assms(1) n by (fastforce simp: mv_inv_def)
  then have "mv_inv m'" using assms(1) w set_keep [of "mv_max m" "hist m key @ [?x]"]
    by (auto simp: mv_inv_def h c x)
  moreover have "\<exists>x. vv_Version x = mv_current m' \<and> hist m' = (hist m)(key := keep (mv_max m) (hist m key @ [x]))"
    using h c by (intro exI [of _ ?x]) simp
  ultimately show ?thesis using c x n by simp
qed

lemma mv_writes_facts:
  assumes "mv_inv m" and "unat (mv_current m) + length ws < 2 ^ 64"
  shows "mv_inv (mv_writes m ws) \<and> mv_max (mv_writes m ws) = mv_max m
    \<and> mv_current m \<le> mv_current (mv_writes m ws)
    \<and> (\<exists>news. length news = writes_on k ws \<and> (\<forall>x \<in> set news. mv_current m < vv_Version x)
         \<and> hist (mv_writes m ws) k = keep (mv_max m) (hist m k @ news))"
  using assms
proof (induction ws arbitrary: m)
  case Nil
  then show ?case by (auto simp: mv_writes_def writes_on_def mv_inv_def keep_id intro!: exI [of _ "[]"])
next
  case (Cons w ws)
  obtain now key v d where w: "w = (now, key, v, d)" by (cases w)
  let ?m = "fst (mv_Write now m key v d)"
  have s: "mv_writes m (w # ws) = mv_writes ?m ws" by (simp add: mv_writes_def w)
  from Cons.prems have "unat (mv_current m) + 1 < 2 ^ 64" by simp
  note f = mv_Write_facts [OF Cons.prems(1) this, of now key v d]
  then obtain x where x: "vv_Version x = mv_current ?m" "hist ?m = (hist m)(key := keep (mv_max m) (hist m key @ [x]))"
    by blast
  from f Cons.prems have "unat (mv_current ?m) + length ws < 2 ^ 64" by simp
  note g = Cons.IH [OF _ this]
  from f g obtain news where news: "length news = writes_on k ws" "\<forall>y \<in> set news. mv_current ?m < vv_Version y"
      "hist (mv_writes ?m ws) k = keep (mv_max m) (hist ?m k @ news)" by auto
  have lt: "mv_current m < mv_current ?m" using f by blast
  then have all: "\<forall>y \<in> set news. mv_current m < vv_Version y" using news(2) by force
  have "\<exists>ns. length ns = writes_on k (w # ws) \<and> (\<forall>y \<in> set ns. mv_current m < vv_Version y)
         \<and> hist (mv_writes ?m ws) k = keep (mv_max m) (hist m k @ ns)"
  proof (cases "k = key")
    case True
    then show ?thesis using news all x lt keep_append [of "mv_max m" "hist m k @ [x]" news]
      by (intro exI [of _ "x # news"]) (auto simp: w writes_on_def)
  next
    case False
    then show ?thesis using news all x by (intro exI [of _ news]) (auto simp: w writes_on_def)
  qed
  moreover have "mv_current m \<le> mv_current (mv_writes ?m ws)" using f g by force
  ultimately show ?case using f g by (simp add: s)
qed

lemma find_rev_skip:
  "\<forall>x \<in> set ys. \<not> P x \<Longrightarrow> find P (rev (xs @ ys)) = find P (rev xs)"
proof -
  assume "\<forall>x \<in> set ys. \<not> P x"
  then have "find P (rev ys) = None" by (simp add: find_None_iff)
  moreover have "find P (as @ bs) = (case find P as of None \<Rightarrow> find P bs | Some a \<Rightarrow> Some a)" for as bs
    by (induction as) auto
  ultimately show ?thesis by simp
qed

lemma find_rev_last: "xs \<noteq> [] \<Longrightarrow> P (last xs) \<Longrightarrow> find P (rev xs) = Some (last xs)"
  by (cases xs rule: rev_cases) auto

lemma mv_inv_last: "mv_inv m \<Longrightarrow> hist m k \<noteq> [] \<Longrightarrow> vv_Version (last (hist m k)) \<le> mv_current m"
  using last_in_set [of "hist m k"] unfolding mv_inv_def by blast

lemma ReadAt_current:
  assumes "mv_inv m"
  shows "ReadAt m k (mv_current m) = (if hist m k = [] then None else Some (last (hist m k)))"
  using mv_inv_last [OF assms] find_rev_last [of "hist m k" "\<lambda>vv. vv_Version vv \<le> mv_current m"]
  by (simp add: ReadAt_def)



text \<open>Garbage collection below the version of the newest value forgets it: a later read finds nothing.\<close>

lemma gc_drops_current_value:
  assumes "mv_inv m" and "hist m k \<noteq> []" and "mv_current m < minVersion"
  shows "ReadLatest m k \<noteq> None \<and> ReadLatest (GC m minVersion) k = None"
proof -
  have none: "filter (\<lambda>vv. vv_Version vv \<ge> minVersion) (hist m k) = []"
    using assms(1,3) by (fastforce simp: mv_inv_def filter_empty_conv)
  have "map_of (filter (\<lambda>(k, h). h \<noteq> []) (map (\<lambda>(k, h). (k, f h)) xs)) k = Some h \<Longrightarrow>
      \<exists>h0. (k, h0) \<in> set xs \<and> h = f h0 \<and> h \<noteq> []" for xs h and f :: "versionedValue list \<Rightarrow> versionedValue list"
    by (auto dest!: map_of_SomeD)
  moreover have "(k, h0) \<in> set (mv_history m) \<Longrightarrow> hist m k = h0" for h0
    using assms(1) by (simp add: mv_inv_def hist_def flip: map_of_iff_mem)
  ultimately have "hist (GC m minVersion) k = []"
    using none unfolding GC_def hist_def by (fastforce split: option.splits)
  then show ?thesis using assms ReadAt_current [OF assms(1), of k]
    by (simp add: ReadLatest_def CurrentVersion_def ReadAt_def)
qed

section \<open>Queues of commands\<close>

definition enqueue_all :: "multiManager \<Rightarrow> 64 word \<Rightarrow> command list \<Rightarrow> multiManager" where
  "enqueue_all m c cmds = foldl (\<lambda>m cmd. tx_Enqueue m c cmd) m cmds"

lemma enqueue_all_tx:
  "map_of m c = Some tx \<Longrightarrow> map_of (enqueue_all m c cmds) =
     (map_of m)(c \<mapsto> tx\<lparr>tx_Queue := tx_Queue tx @ cmds\<rparr>)"
proof (induction cmds arbitrary: m tx)
  case (Cons cmd cmds)
  then have "map_of (tx_Enqueue m c cmd) = (map_of m)(c \<mapsto> tx\<lparr>tx_Queue := tx_Queue tx @ [cmd]\<rparr>)"
    by (simp add: tx_Enqueue_def update_conv')
  moreover from this have "map_of (tx_Enqueue m c cmd) c = Some (tx\<lparr>tx_Queue := tx_Queue tx @ [cmd]\<rparr>)" by simp
  ultimately have "map_of (enqueue_all (tx_Enqueue m c cmd) c cmds) =
      (map_of m)(c \<mapsto> tx\<lparr>tx_Queue := tx_Queue tx @ cmd # cmds\<rparr>)"
    using Cons.IH [of "tx_Enqueue m c cmd"] by (auto simp: fun_eq_iff)
  then show ?case by (simp add: enqueue_all_def)
qed (auto simp: enqueue_all_def)

text \<open>MULTI blocks. After \<^verbatim>\<open>MULTI\<close> the client is in a transaction and a second \<^verbatim>\<open>MULTI\<close> is refused; the
  commands it queues come back from \<^verbatim>\<open>EXEC\<close> in the order they were queued and the block is closed, as it
  is by \<^verbatim>\<open>DISCARD\<close>. An error set on the block makes \<^verbatim>\<open>EXEC\<close> answer that error. None of this touches the
  transaction of another client.\<close>

lemma multi_queue:
  assumes "\<not> IsActive m c"
  shows "\<exists>m1. tx_Begin m c = (m1, None) \<and> IsActive m1 c
    \<and> tx_Begin m1 c = (m1, Some ''ERR MULTI calls can not be nested'')
    \<and> snd (tx_Exec (enqueue_all m1 c cmds) c) = Inr cmds
    \<and> \<not> IsActive (fst (tx_Exec (enqueue_all m1 c cmds) c)) c
    \<and> snd (tx_Exec (SetError (enqueue_all m1 c cmds) c err) c) = Inl err
    \<and> snd (Discard (enqueue_all m1 c cmds) c) = None
    \<and> \<not> IsActive (fst (Discard (enqueue_all m1 c cmds) c)) c
    \<and> (\<forall>d. d \<noteq> c \<longrightarrow> map_of (fst (tx_Exec (enqueue_all m1 c cmds) c)) d = map_of m d
                  \<and> map_of (fst (Discard (enqueue_all m1 c cmds) c)) d = map_of m d)"
proof -
  let ?tx = "\<lparr>tx_State = TxStateOpen, tx_Queue = [], tx_Error = []\<rparr>"
  let ?m = "AList.update c ?tx m"
  have b: "tx_Begin m c = (?m, None)"
    using assms by (auto simp: tx_Begin_def IsActive_def split: option.splits)
  have q: "map_of (enqueue_all ?m c cmds) = (map_of m)(c \<mapsto> ?tx\<lparr>tx_Queue := cmds\<rparr>)"
    using enqueue_all_tx [of ?m c ?tx cmds] by (simp add: update_conv')
  show ?thesis
    using b by (intro exI [of _ ?m]) (auto simp: tx_Begin_def IsActive_def tx_Exec_def Discard_def SetError_def q)
qed

section \<open>Two-phase commit\<close>

text \<open>\<^verbatim>\<open>Commit\<close> does not look at the acknowledgements: it answers success when every shard applies the
  commit, also when the prepare phase failed or never ran.\<close>

lemma commit_without_prepare:
  "(let c = fst (tp_Begin [] ''t'' [''a'', ''b'']);
        (c', r) = Prepare c ''t'' (\<lambda>s. if s = ''a'' then Some ''down'' else None) [''a'', ''b'']
    in r = Some (Inr ''down'') \<and> snd (tp_Commit c' ''t'' (\<lambda>s. None :: string option) [''a'', ''b'']) = None)"
  by (simp add: tp_Begin_def Prepare_def tp_Commit_def broadcast_def map_filter_def)

text \<open>A rollback deletes the keys that did not exist, but never writes an old value back.\<close>

lemma rollback_keeps_new_value:
  "snd (Rollback (rb_Record [] k (Some e)) kv) = kv"
  by (simp add: Rollback_def rb_Record_def)

end
