(* ===== verification/PubSub.thy ===== *)
theory PubSub
  imports Prelude
begin

text \<open>
  The publish/subscribe broker of \<^verbatim>\<open>src/internal/events/pubsub.go\<close>. A subscriber is an object that the
  channel lists and the table by id point to; here the table holds the object and the lists hold ids. Its
  Go channel is the buffer of messages not yet received, with the capacity 256 it is made with.
\<close>

record subscriber =
  sub_Channel :: string
  sub_Ch :: "slice list"

record pubSub =
  ps_channels :: "(string, 64 word list) gomap"
  ps_subsByID :: "(64 word, subscriber) gomap"
  ps_nextSubID :: "64 word"

definition chan_cap :: nat where "chan_cap = 256"

definition NewPubSub :: pubSub where
  "NewPubSub = \<lparr>ps_channels = [], ps_subsByID = [], ps_nextSubID = 0\<rparr>"

definition subs_of :: "pubSub \<Rightarrow> string \<Rightarrow> 64 word list" where
  "subs_of p ch = (case map_of (ps_channels p) ch of None \<Rightarrow> [] | Some s \<Rightarrow> s)"

definition subscribe_one :: "pubSub \<Rightarrow> string \<Rightarrow> pubSub \<times> 64 word" where
  "subscribe_one p ch =
     (let i = ps_nextSubID p + 1
      in (p\<lparr>ps_nextSubID := i, ps_channels := AList.update ch (subs_of p ch @ [i]) (ps_channels p),
            ps_subsByID := AList.update i \<lparr>sub_Channel = ch, sub_Ch = []\<rparr> (ps_subsByID p)\<rparr>, i))"

fun Subscribe :: "pubSub \<Rightarrow> string list \<Rightarrow> pubSub \<times> 64 word list" where
  "Subscribe p [] = (p, [])"
| "Subscribe p (ch # chs) =
     (case subscribe_one p ch of (p1, i) \<Rightarrow> case Subscribe p1 chs of (p2, is) \<Rightarrow> (p2, i # is))"

definition Unsubscribe :: "pubSub \<Rightarrow> 64 word \<Rightarrow> pubSub" where
  "Unsubscribe p subID =
     (case map_of (ps_subsByID p) subID of
        None \<Rightarrow> p
      | Some sub \<Rightarrow>
          let rest = filter (\<lambda>s. s \<noteq> subID) (subs_of p (sub_Channel sub))
          in p\<lparr>ps_subsByID := AList.delete subID (ps_subsByID p),
               ps_channels := (if rest = [] then AList.delete (sub_Channel sub) (ps_channels p)
                               else AList.update (sub_Channel sub) rest (ps_channels p))\<rparr>)"

text \<open>The sending loop of \<^verbatim>\<open>Publish\<close> over the subscribers it has copied. It runs without the lock: a
  subscriber closed meanwhile has left the table, and sending on its closed channel panics.\<close>

fun send_all :: "pubSub \<Rightarrow> slice \<Rightarrow> 64 word list \<Rightarrow> int \<Rightarrow> (pubSub \<times> int) option" where
  "send_all p msg [] cnt = Some (p, cnt)"
| "send_all p msg (i # is) cnt =
     (case map_of (ps_subsByID p) i of
        None \<Rightarrow> None
      | Some sub \<Rightarrow>
          if length (sub_Ch sub) < chan_cap
          then send_all (p\<lparr>ps_subsByID := AList.update i (sub\<lparr>sub_Ch := sub_Ch sub @ [msg]\<rparr>) (ps_subsByID p)\<rparr>) msg is (cnt + 1)
          else send_all p msg is cnt)"

definition Publish :: "pubSub \<Rightarrow> string \<Rightarrow> slice \<Rightarrow> (pubSub \<times> int) option" where
  "Publish p channel msg = send_all p msg (subs_of p channel) 0"

definition ChannelCount :: "pubSub \<Rightarrow> nat" where
  "ChannelCount p = length (ps_channels p)"

definition SubscriberCount :: "pubSub \<Rightarrow> string \<Rightarrow> nat" where
  "SubscriberCount p channel = length (subs_of p channel)"

definition Channels :: "pubSub \<Rightarrow> string list" where
  "Channels p = map fst (ps_channels p)"

section \<open>Invariant\<close>

definition ps_inv :: "pubSub \<Rightarrow> bool" where
  "ps_inv p \<longleftrightarrow> wf_map (ps_channels p) \<and> wf_map (ps_subsByID p)
     \<and> (\<forall>ch. distinct (subs_of p ch))
     \<and> (\<forall>ch i. i \<in> set (subs_of p ch) \<longleftrightarrow> (\<exists>s. map_of (ps_subsByID p) i = Some s \<and> sub_Channel s = ch))
     \<and> (\<forall>ch s. map_of (ps_channels p) ch = Some s \<longrightarrow> s \<noteq> [])
     \<and> (\<forall>i s. map_of (ps_subsByID p) i = Some s \<longrightarrow> i \<le> ps_nextSubID p \<and> length (sub_Ch s) \<le> chan_cap)"

lemma ps_inv_New: "ps_inv NewPubSub"
  by (simp add: ps_inv_def NewPubSub_def subs_of_def)

lemma subscribe_one_inv:
  assumes "ps_inv p" and "unat (ps_nextSubID p) + 1 < 2 ^ 64" and "subscribe_one p ch = (p', i)"
  shows "ps_inv p' \<and> ps_nextSubID p' = ps_nextSubID p + 1 \<and> i = ps_nextSubID p + 1
    \<and> unat (ps_nextSubID p') = unat (ps_nextSubID p) + 1
    \<and> map_of (ps_subsByID p) i = None
    \<and> map_of (ps_subsByID p') = (map_of (ps_subsByID p))(i \<mapsto> \<lparr>sub_Channel = ch, sub_Ch = []\<rparr>)
    \<and> subs_of p' = (subs_of p)(ch := subs_of p ch @ [i])"
proof -
  have n: "unat (ps_nextSubID p + 1) = unat (ps_nextSubID p) + 1"
    using assms(2) by (simp add: unat_word_ariths unat_1)
  then have lt: "ps_nextSubID p < ps_nextSubID p + 1" by (simp add: word_less_nat_alt)
  have i: "i = ps_nextSubID p + 1" and next': "ps_nextSubID p' = ps_nextSubID p + 1"
    and tab: "map_of (ps_subsByID p') = (map_of (ps_subsByID p))(i \<mapsto> \<lparr>sub_Channel = ch, sub_Ch = []\<rparr>)"
    and subs: "subs_of p' = (subs_of p)(ch := subs_of p ch @ [i])"
    and wf: "wf_map (ps_channels p')" "wf_map (ps_subsByID p')"
    and ne: "map_of (ps_channels p') = (map_of (ps_channels p))(ch \<mapsto> subs_of p ch @ [i])"
    using assms(1,3) by (auto simp: subscribe_one_def Let_def subs_of_def fun_eq_iff ps_inv_def update_conv')
  have fresh: "map_of (ps_subsByID p) i = None"
    using assms(1) lt by (cases "map_of (ps_subsByID p) i") (force simp: ps_inv_def i)+
  have old: "\<forall>j s. map_of (ps_subsByID p) j = Some s \<longrightarrow> j \<le> ps_nextSubID p + 1"
    using assms(1) lt by (force simp: ps_inv_def)
  have nin: "i \<notin> set (subs_of p c)" for c using assms(1) fresh by (auto simp: ps_inv_def)
  have ids: "j \<in> set (subs_of p' c) \<longleftrightarrow> (\<exists>s. map_of (ps_subsByID p') j = Some s \<and> sub_Channel s = c)" for c j
    using assms(1) fresh nin by (auto simp: subs tab ps_inv_def)
  have "ps_inv p'"
    using assms(1) wf nin ids old unfolding ps_inv_def by (auto simp: subs tab ne next' i)
  then show ?thesis using i next' n fresh tab subs by simp
qed

lemma Unsubscribe_inv:
  assumes "ps_inv p"
  shows "ps_inv (Unsubscribe p i) \<and> map_of (ps_subsByID (Unsubscribe p i)) = (map_of (ps_subsByID p))(i := None)
    \<and> (\<forall>ch. subs_of (Unsubscribe p i) ch = filter (\<lambda>s. s \<noteq> i) (subs_of p ch))"
proof (cases "map_of (ps_subsByID p) i")
  case None
  then have "\<forall>ch. i \<notin> set (subs_of p ch)" using assms by (auto simp: ps_inv_def)
  then have "\<forall>ch. filter (\<lambda>s. s \<noteq> i) (subs_of p ch) = subs_of p ch" by (auto simp: filter_id_conv)
  then show ?thesis using None assms by (auto simp: Unsubscribe_def)
next
  case (Some sub)
  let ?p = "Unsubscribe p i"
  have wf: "wf_map (ps_channels p)" using assms by (simp add: ps_inv_def)
  have other: "c \<noteq> sub_Channel sub \<Longrightarrow> i \<notin> set (subs_of p c)" for c
    using assms Some by (auto simp: ps_inv_def)
  have id: "c \<noteq> sub_Channel sub \<Longrightarrow> filter (\<lambda>s. s \<noteq> i) (subs_of p c) = subs_of p c" for c
    using other [of c] by (auto simp: filter_id_conv)
  have subs: "subs_of ?p c = filter (\<lambda>s. s \<noteq> i) (subs_of p c)" for c
  proof (cases "c = sub_Channel sub")
    case True
    then show ?thesis using Some wf by (simp add: Unsubscribe_def Let_def subs_of_def)
  next
    case False
    have "subs_of ?p c = subs_of p c" using Some wf False by (simp add: Unsubscribe_def Let_def subs_of_def)
    then show ?thesis using id [OF False] by simp
  qed
  have tab: "map_of (ps_subsByID ?p) = (map_of (ps_subsByID p))(i := None)"
    using Some assms by (auto simp: Unsubscribe_def Let_def ps_inv_def fun_eq_iff)
  have wf': "wf_map (ps_channels ?p)" "wf_map (ps_subsByID ?p)" and nx: "ps_nextSubID ?p = ps_nextSubID p"
    using Some assms by (auto simp: Unsubscribe_def Let_def ps_inv_def)
  have ne: "map_of (ps_channels ?p) c = Some s \<Longrightarrow> s \<noteq> []" for c s
    using Some assms by (auto simp: Unsubscribe_def Let_def ps_inv_def split: if_splits)
  have ids: "j \<in> set (subs_of ?p c) \<longleftrightarrow> (\<exists>s. map_of (ps_subsByID ?p) j = Some s \<and> sub_Channel s = c)" for c j
    using assms by (auto simp: subs tab ps_inv_def)
  have "ps_inv ?p" using assms wf' ne ids unfolding ps_inv_def by (auto simp: subs tab nx)
  then show ?thesis using subs tab by blast
qed

definition has_room :: "pubSub \<Rightarrow> 64 word \<Rightarrow> bool" where
  "has_room p i \<longleftrightarrow> (case map_of (ps_subsByID p) i of None \<Rightarrow> False | Some s \<Rightarrow> length (sub_Ch s) < chan_cap)"

lemma send_all_facts:
  assumes "distinct is" and "\<forall>i \<in> set is. map_of (ps_subsByID p) i \<noteq> None"
  shows "\<exists>p'. send_all p msg is cnt = Some (p', cnt + int (length (filter (has_room p) is)))
    \<and> ps_channels p' = ps_channels p \<and> ps_nextSubID p' = ps_nextSubID p
    \<and> (wf_map (ps_subsByID p) \<longrightarrow> wf_map (ps_subsByID p'))
    \<and> (\<forall>j. map_of (ps_subsByID p') j =
         (if j \<in> set is \<and> has_room p j
          then map_option (\<lambda>s. s\<lparr>sub_Ch := sub_Ch s @ [msg]\<rparr>) (map_of (ps_subsByID p) j)
          else map_of (ps_subsByID p) j))"
  using assms
proof (induction "is" arbitrary: p cnt)
  case Nil
  then show ?case by (intro exI [of _ p]) simp
next
  case (Cons i "is")
  then obtain sub where sub: "map_of (ps_subsByID p) i = Some sub" by auto
  show ?case
  proof (cases "length (sub_Ch sub) < chan_cap")
    case True
    let ?p = "p\<lparr>ps_subsByID := AList.update i (sub\<lparr>sub_Ch := sub_Ch sub @ [msg]\<rparr>) (ps_subsByID p)\<rparr>"
    have pre: "distinct is" "\<forall>j \<in> set is. map_of (ps_subsByID ?p) j \<noteq> None" using Cons.prems by auto
    have room: "j \<noteq> i \<Longrightarrow> has_room ?p j = has_room p j" for j by (simp add: has_room_def)
    have ni: "i \<notin> set is" using Cons.prems by simp
    have flt: "filter (has_room ?p) is = filter (has_room p) is"
    proof (rule filter_cong [OF refl])
      fix x assume "x \<in> set is"
      then show "has_room ?p x = has_room p x" using ni by (intro room) auto
    qed
    have hi: "has_room p i" using True sub by (simp add: has_room_def)
    from Cons.IH [OF pre, of "cnt + 1"] obtain p' where
      "send_all ?p msg is (cnt + 1) = Some (p', cnt + 1 + int (length (filter (has_room p) is)))"
      "ps_channels p' = ps_channels p" "ps_nextSubID p' = ps_nextSubID p"
      "wf_map (ps_subsByID ?p) \<longrightarrow> wf_map (ps_subsByID p')"
      "\<forall>j. map_of (ps_subsByID p') j =
         (if j \<in> set is \<and> has_room ?p j
          then map_option (\<lambda>s. s\<lparr>sub_Ch := sub_Ch s @ [msg]\<rparr>) (map_of (ps_subsByID ?p) j)
          else map_of (ps_subsByID ?p) j)" by (auto simp: flt)
    then show ?thesis using sub True ni room hi by (intro exI [of _ p']) auto
  next
    case False
    then have "\<not> has_room p i" using sub by (simp add: has_room_def)
    then show ?thesis using Cons.IH [of p cnt] Cons.prems sub False by fastforce
  qed
qed

text \<open>C32. Publish. Every subscriber of the channel whose buffer has room receives the message once, at
  the end of its buffer, and no one else receives anything; the answer is the number of those
  subscribers. The broker invariant (each subscriber listed under its channel and nowhere else, no
  empty channel, buffers within their capacity) is kept by subscribing, unsubscribing and publishing.\<close>

theorem pubsub_publish:
  assumes "ps_inv p"
  shows "\<exists>p'. Publish p ch msg = Some (p', int (length (filter (has_room p) (subs_of p ch)))) \<and> ps_inv p'
    \<and> (\<forall>i s. map_of (ps_subsByID p) i = Some s \<longrightarrow>
         (\<exists>s'. map_of (ps_subsByID p') i = Some s' \<and> sub_Channel s' = sub_Channel s
            \<and> sub_Ch s' = (if sub_Channel s = ch \<and> length (sub_Ch s) < chan_cap then sub_Ch s @ [msg] else sub_Ch s)))
    \<and> ps_inv (Unsubscribe p i)
    \<and> (unat (ps_nextSubID p) + 1 < 2 ^ 64 \<longrightarrow> ps_inv (fst (subscribe_one p ch)))"
proof -
  have d: "distinct (subs_of p ch)" "\<forall>i \<in> set (subs_of p ch). map_of (ps_subsByID p) i \<noteq> None"
    using assms by (auto simp: ps_inv_def)
  have mem: "i \<in> set (subs_of p c) \<longleftrightarrow> (\<exists>s. map_of (ps_subsByID p) i = Some s \<and> sub_Channel s = c)" for i c
    using assms by (simp add: ps_inv_def)
  obtain p' where p': "Publish p ch msg = Some (p', int (length (filter (has_room p) (subs_of p ch))))"
    and same: "ps_channels p' = ps_channels p" "ps_nextSubID p' = ps_nextSubID p" "wf_map (ps_subsByID p')"
    and tab: "\<forall>j. map_of (ps_subsByID p') j =
         (if j \<in> set (subs_of p ch) \<and> has_room p j
          then map_option (\<lambda>s. s\<lparr>sub_Ch := sub_Ch s @ [msg]\<rparr>) (map_of (ps_subsByID p) j)
          else map_of (ps_subsByID p) j)"
    using send_all_facts [OF d, of msg 0] assms by (auto simp: Publish_def ps_inv_def)
  have subs: "subs_of p' = subs_of p" by (simp add: subs_of_def same fun_eq_iff)
  have len: "map_of (ps_subsByID p') i = Some s \<Longrightarrow> i \<le> ps_nextSubID p \<and> length (sub_Ch s) \<le> chan_cap" for i s
    using assms tab by (auto simp: ps_inv_def has_room_def split: if_splits option.splits)
  have ids: "j \<in> set (subs_of p' c) \<longleftrightarrow> (\<exists>s. map_of (ps_subsByID p') j = Some s \<and> sub_Channel s = c)" for c j
    using mem [of j c] tab by (auto simp: subs split: if_splits)
  have inv: "ps_inv p'" using assms same len ids unfolding ps_inv_def by (auto simp: subs)
  have deliver: "\<exists>s'. map_of (ps_subsByID p') i = Some s' \<and> sub_Channel s' = sub_Channel s
      \<and> sub_Ch s' = (if sub_Channel s = ch \<and> length (sub_Ch s) < chan_cap then sub_Ch s @ [msg] else sub_Ch s)"
    if "map_of (ps_subsByID p) i = Some s" for i s
    using that tab mem [of i ch] by (auto simp: has_room_def)
  have "unat (ps_nextSubID p) + 1 < 2 ^ 64 \<longrightarrow> ps_inv (fst (subscribe_one p ch))"
    using subscribe_one_inv [OF assms] by (metis prod.collapse)
  with p' inv deliver Unsubscribe_inv [OF assms, of i] show ?thesis by blast
qed

lemma pubsub_publish_witness:
  "ps_inv (fst (subscribe_one NewPubSub ''news''))
   \<and> (\<exists>p'. Publish (fst (subscribe_one NewPubSub ''news'')) ''news'' (Some ''hi'') = Some (p', 1))"
proof -
  let ?p = "fst (subscribe_one NewPubSub ''news'')"
  have u: "unat (ps_nextSubID NewPubSub) + 1 < 2 ^ 64" by (simp add: NewPubSub_def)
  have inv: "ps_inv ?p" using subscribe_one_inv [OF ps_inv_New u, of "''news''" ?p] by (metis prod.collapse)
  have f: "filter (has_room ?p) (subs_of ?p ''news'') = [1]"
    by (simp add: subscribe_one_def NewPubSub_def subs_of_def has_room_def Let_def chan_cap_def)
  obtain p' where "Publish ?p ''news'' (Some ''hi'') = Some (p', int (length (filter (has_room ?p) (subs_of ?p ''news''))))"
    using pubsub_publish [OF inv, of "''news''" "Some ''hi''"] by blast
  then show ?thesis using inv unfolding f by simp
qed

text \<open>The subscribers are copied before the lock is released: one that unsubscribes in between is sent
  to after its channel is closed.\<close>

lemma publish_race_panics:
  assumes "ps_inv p" and "i \<in> set (subs_of p ch)"
  shows "send_all (Unsubscribe p i) msg (subs_of p ch) 0 = None"
proof -
  have gone: "map_of (ps_subsByID (Unsubscribe p i)) i = None" using Unsubscribe_inv [OF assms(1)] by simp
  have "i \<in> set is \<Longrightarrow> map_of (ps_subsByID q) i = None \<Longrightarrow> send_all q msg is n = None" for q "is" n
  proof (induction "is" arbitrary: q n)
    case (Cons j "is")
    show ?case
    proof (cases "map_of (ps_subsByID q) j")
      case (Some sub)
      with Cons.prems have "j \<noteq> i" by auto
      then show ?thesis using Cons by (simp add: Some)
    qed simp
  qed simp
  with gone assms(2) show ?thesis by blast
qed

end
