(* ===== verification/Executor.thy ===== *)
theory Executor
  imports Recovery Transaction PubSub
begin

text \<open>
  The executor's state and its durable write path, from \<^verbatim>\<open>src/internal/query/executor.go\<close>: the log record
  a mutation is turned into before it is applied, the memory quota, replicated records, and
  checkpoints. The error texts are those of \<^verbatim>\<open>src/internal/util/errors.go\<close>. One command sees one clock
  reading, \<open>ev_now\<close>; everything else the environment decides about a command is in the record \<open>env\<close>.
\<close>

section \<open>Error texts\<close>

definition dbx_error :: "int \<Rightarrow> string \<Rightarrow> string" where
  "dbx_error code msg = ''DBX['' @ FormatInt code @ '']: '' @ msg"

fun err_text :: "gerr \<Rightarrow> string" where
  "err_text ErrNotFound = dbx_error 1 ''key not found''"
| "err_text ErrWrongType = dbx_error 2 ''WRONGTYPE operation against a key holding the wrong kind of value''"
| "err_text ErrOutOfRange = dbx_error 3 ''value is not an integer or out of range''"
| "err_text ErrSyntax = dbx_error 4 ''syntax error''"
| "err_text ErrIndexRange = dbx_error 3 ''index out of range''"
| "err_text (ErrMsg m) = m"

section \<open>State\<close>

record 'v executor =
  ex_kv :: kvstore
  ex_vec :: 'v
  ex_wal :: "wal option"
  ex_multi :: multiManager
  ex_watch :: watchSet
  ex_mvcc :: mvccStore
  ex_pubsub :: pubSub
  ex_suppressWAL :: bool
  ex_maxMemory :: int
  ex_accounted :: int
  ex_readOnly :: bool
  ex_ready :: bool

text \<open>What Raft answers to a write, when the executor has a Raft node with more than one voter:
  not the leader, a failed proposal, or a committed entry.\<close>

datatype raftOutcome = RaftLocal | RaftNotLeader | RaftFailed string | RaftCommitted

text \<open>The environment of one command: the clock, the disk (\<open>Some n\<close> fails after \<open>n\<close> bytes) with the text
  of its error, the nonce for the record of each sequence number, the shuffle of \<^verbatim>\<open>math/rand\<close>, the
  conversions of \<^verbatim>\<open>strconv\<close> for floats, and Raft.\<close>

record env =
  ev_now :: int
  ev_io :: "nat option"
  ev_ioText :: string
  ev_seal :: gcm_seal
  ev_nonce :: "64 word \<Rightarrow> bytes"
  ev_shuffle :: "string list \<Rightarrow> string list"
  ev_parseFloat :: "string \<Rightarrow> f64"
  ev_formatFloat :: "f64 \<Rightarrow> string"
  ev_parseFloat32 :: "string \<Rightarrow> f32 option"
  ev_raft :: raftOutcome

definition est :: "'v executor \<Rightarrow> 'v est" where
  "est ex = (ex_kv ex, ex_vec ex)"

definition set_est :: "'v executor \<Rightarrow> 'v est \<Rightarrow> 'v executor" where
  "set_est ex st = ex\<lparr>ex_kv := fst st, ex_vec := snd st\<rparr>"

definition writeWAL :: "env \<Rightarrow> 'v executor \<Rightarrow> walRecord \<Rightarrow> 'v executor \<times> bool" where
  "writeWAL ev ex rec =
     (case ex_wal ex of
        None \<Rightarrow> (ex, True)
      | Some w \<Rightarrow>
          if ex_suppressWAL ex then (ex, True)
          else case w_Write (ev_seal ev) (ev_nonce ev (w_seq w + 1)) (ev_io ev) (ev_now ev) w rec of
                 (w', _, ok) \<Rightarrow> (ex\<lparr>ex_wal := Some w'\<rparr>, ok))"

section \<open>Memory\<close>

definition measureMemoryUsage :: "'v vecops \<Rightarrow> int \<Rightarrow> 'v executor \<Rightarrow> int" where
  "measureMemoryUsage v now ex = kv_MemoryUsage now (ex_kv ex) + vo_MemoryUsage v (est ex)"

definition SetMemoryLimit :: "'v vecops \<Rightarrow> int \<Rightarrow> 'v executor \<Rightarrow> int \<Rightarrow> 'v executor" where
  "SetMemoryLimit v now ex limit =
     (let ex' = ex\<lparr>ex_maxMemory := limit\<rparr> in ex'\<lparr>ex_accounted := measureMemoryUsage v now ex'\<rparr>)"

text \<open>The last effect on each key decides; the loop over the map only adds and subtracts.\<close>

definition final_effects :: "walEffect list \<Rightarrow> (string, walEffect) gomap" where
  "final_effects effects =
     foldl (\<lambda>m e. if we_Type e = RecordSet \<or> we_Type e = RecordDelete then AList.update (we_Key e) e m else m) [] effects"

definition effect_delta :: "int \<Rightarrow> kvstore \<Rightarrow> string \<times> walEffect \<Rightarrow> int" where
  "effect_delta now kv = (\<lambda>(key, eff).
     (case kv_Get now kv key of
        None \<Rightarrow> 0
      | Some e \<Rightarrow> - int (length key + 96)
          - (if e_type e = TypeString then (case as_bytes (e_value e) of Some v \<Rightarrow> int (length (sl v)) | None \<Rightarrow> 0) else 0))
     + (if we_Type eff = RecordSet then int (length key + length (sl (we_Value eff)) + 96) else 0))"

definition effectsFitQuota :: "int \<Rightarrow> 'v executor \<Rightarrow> walEffect list \<Rightarrow> bool \<times> int" where
  "effectsFitQuota now ex effects =
     (let projected = ex_accounted ex + sum_list (map (effect_delta now (ex_kv ex)) (final_effects effects))
      in (ex_maxMemory ex \<le> 0 \<or> projected \<le> ex_maxMemory ex, projected))"

section \<open>Effects of a mutation\<close>

text \<open>\<^verbatim>\<open>stringState\<close>: value, deadline, whether the key exists, and whether it holds a string or nothing.\<close>

definition stringState :: "int \<Rightarrow> kvstore \<Rightarrow> string \<Rightarrow> slice \<times> int \<times> bool \<times> bool" where
  "stringState now kv key =
     (case kv_Get now kv key of
        None \<Rightarrow> (None, 0, False, True)
      | Some e \<Rightarrow>
          if e_type e \<noteq> TypeString then (None, 0, True, False)
          else case as_bytes (e_value e) of
                 None \<Rightarrow> (None, 0, True, False)
               | Some v \<Rightarrow> (nil_append (sl v), e_expires e, True, True))"

definition put_effect :: "string \<Rightarrow> slice \<Rightarrow> int \<Rightarrow> walEffect" where
  "put_effect key val expiresAt =
     \<lparr>we_Type = RecordSet, we_Key = key, we_Value = val, we_ExpiresAt = expiresAt\<rparr>"

definition del_effect :: "string \<Rightarrow> walEffect" where
  "del_effect key = \<lparr>we_Type = RecordDelete, we_Key = key, we_Value = None, we_ExpiresAt = 0\<rparr>"

definition copy :: "slice \<Rightarrow> slice" where
  "copy v = nil_append (sl v)"

definition eff_SET :: "int \<Rightarrow> kvstore \<Rightarrow> command \<Rightarrow> walEffect list" where
  "eff_SET now kv cmd =
     (if NumArgs cmd < 2 then []
      else case ParseSetArgs (tl (cmd_Args cmd)) of
             Ok (val, ttlSec, nx, xx) \<Rightarrow>
               (case stringState now kv (Arg cmd 0) of (_, _, exists, valid) \<Rightarrow>
                  if \<not> valid \<or> (nx \<and> exists) \<or> (xx \<and> \<not> exists) then []
                  else [put_effect (Arg cmd 0) (copy val) (if ttlSec > 0 then i64 (now + i64 (ttlSec * second)) else 0)])
           | _ \<Rightarrow> [])"

definition eff_SETEX :: "int \<Rightarrow> command \<Rightarrow> walEffect list" where
  "eff_SETEX now cmd =
     (if NumArgs cmd < 3 then []
      else case ParseInt (Arg cmd 1) of
             (_, Some _) \<Rightarrow> []
           | (seconds, None) \<Rightarrow>
               if seconds \<le> 0 then []
               else [put_effect (Arg cmd 0) (copy (ArgBytes cmd 2)) (i64 (now + i64 (seconds * second)))])"

definition eff_SETNX :: "int \<Rightarrow> kvstore \<Rightarrow> command \<Rightarrow> walEffect list" where
  "eff_SETNX now kv cmd =
     (if NumArgs cmd < 2 then []
      else case stringState now kv (Arg cmd 0) of (_, _, exists, valid) \<Rightarrow>
             if \<not> valid \<or> exists then [] else [put_effect (Arg cmd 0) (copy (ArgBytes cmd 1)) 0])"

definition eff_GETSET :: "int \<Rightarrow> kvstore \<Rightarrow> command \<Rightarrow> walEffect list" where
  "eff_GETSET now kv cmd =
     (if NumArgs cmd < 2 then []
      else case stringState now kv (Arg cmd 0) of (_, _, _, valid) \<Rightarrow>
             if \<not> valid then [] else [put_effect (Arg cmd 0) (copy (ArgBytes cmd 1)) 0])"

fun mset_effects :: "slice list \<Rightarrow> walEffect list" where
  "mset_effects (k # v # r) = put_effect (sl k) (copy v) 0 # mset_effects r"
| "mset_effects _ = []"

definition eff_MSET :: "command \<Rightarrow> walEffect list" where
  "eff_MSET cmd = (if NumArgs cmd < 2 \<or> odd (NumArgs cmd) then [] else mset_effects (cmd_Args cmd))"

definition eff_DEL :: "int \<Rightarrow> kvstore \<Rightarrow> command \<Rightarrow> walEffect list" where
  "eff_DEL now kv cmd = map del_effect (filter (kv_Exists now kv) (map sl (cmd_Args cmd)))"

definition eff_EXPIRE :: "int \<Rightarrow> kvstore \<Rightarrow> command \<Rightarrow> walEffect list" where
  "eff_EXPIRE now kv cmd =
     (if NumArgs cmd < 2 then []
      else case ParseInt (Arg cmd 1) of
             (_, Some _) \<Rightarrow> []
           | (seconds, None) \<Rightarrow>
               if \<not> kv_Exists now kv (Arg cmd 0) then []
               else [\<lparr>we_Type = RecordExpire, we_Key = Arg cmd 0, we_Value = None,
                      we_ExpiresAt = i64 (now + i64 (seconds * second))\<rparr>])"

definition eff_PERSIST :: "int \<Rightarrow> kvstore \<Rightarrow> command \<Rightarrow> walEffect list" where
  "eff_PERSIST now kv cmd =
     (case kv_Get now kv (Arg cmd 0) of
        None \<Rightarrow> []
      | Some e \<Rightarrow> if e_expires e = 0 then []
                  else [\<lparr>we_Type = RecordExpire, we_Key = Arg cmd 0, we_Value = None, we_ExpiresAt = 0\<rparr>])"

definition eff_RENAME :: "int \<Rightarrow> kvstore \<Rightarrow> command \<Rightarrow> walEffect list" where
  "eff_RENAME now kv cmd =
     (if NumArgs cmd < 2 then []
      else case stringState now kv (Arg cmd 0) of (val, expiresAt, exists, valid) \<Rightarrow>
             if \<not> exists \<or> \<not> valid then []
             else [put_effect (Arg cmd 1) val expiresAt, del_effect (Arg cmd 0)])"

definition eff_INCR :: "int \<Rightarrow> kvstore \<Rightarrow> command \<Rightarrow> walEffect list" where
  "eff_INCR now kv cmd =
     (case stringState now kv (Arg cmd 0) of (val, expiresAt, exists, valid) \<Rightarrow>
        if \<not> valid then []
        else case (if exists then ParseInt (sl val) else (0, None)) of
               (_, Some _) \<Rightarrow> []
             | (current, None) \<Rightarrow>
                 let name = Normalized cmd
                 in if name = ''INCRBY'' \<or> name = ''DECRBY''
                    then (case ParseInt (Arg cmd 1) of
                            (_, Some _) \<Rightarrow> []
                          | (by, None) \<Rightarrow>
                              [put_effect (Arg cmd 0)
                                 (Some (FormatInt (i64 (current + (if name = ''DECRBY'' then i64 (- by) else by))))) expiresAt])
                    else [put_effect (Arg cmd 0)
                            (Some (FormatInt (i64 (current + (if name = ''DECR'' then -1 else 1))))) expiresAt])"

definition eff_APPEND :: "int \<Rightarrow> kvstore \<Rightarrow> command \<Rightarrow> walEffect list" where
  "eff_APPEND now kv cmd =
     (if NumArgs cmd < 2 then []
      else case stringState now kv (Arg cmd 0) of (val, expiresAt, _, valid) \<Rightarrow>
             if \<not> valid then [] else [put_effect (Arg cmd 0) (go_append val (ArgBytes cmd 1)) expiresAt])"

definition prepareDurableEffects :: "int \<Rightarrow> kvstore \<Rightarrow> command \<Rightarrow> walEffect list \<times> bool" where
  "prepareDurableEffects now kv cmd =
     (let name = Normalized cmd
      in if name = ''SET'' then (eff_SET now kv cmd, True)
         else if name = ''SETEX'' then (eff_SETEX now cmd, True)
         else if name = ''SETNX'' then (eff_SETNX now kv cmd, True)
         else if name = ''GETSET'' then (eff_GETSET now kv cmd, True)
         else if name = ''MSET'' then (eff_MSET cmd, True)
         else if name = ''DEL'' then (eff_DEL now kv cmd, True)
         else if name = ''EXPIRE'' then (eff_EXPIRE now kv cmd, True)
         else if name = ''PERSIST'' then (eff_PERSIST now kv cmd, True)
         else if name = ''RENAME'' then (eff_RENAME now kv cmd, True)
         else if name \<in> {''INCR'', ''INCRBY'', ''DECR'', ''DECRBY''} then (eff_INCR now kv cmd, True)
         else if name = ''APPEND'' then (eff_APPEND now kv cmd, True)
         else ([], False))"

section \<open>Replicated records\<close>

text \<open>\<open>None\<close> is success; a panic of a decoder is \<open>Some (Inr ())\<close>, an error \<open>Some (Inl text)\<close>.\<close>

type_synonym 'v apply_result = "'v est \<times> (string + unit) option"

definition vec_apply :: "'v est \<times> (string + 'r) \<Rightarrow> 'v apply_result" where
  "vec_apply r = (fst r, case snd r of Inl e \<Rightarrow> Some (Inl e) | Inr _ \<Rightarrow> None)"

definition apply_vadd ::
  "(string \<Rightarrow> string \<Rightarrow> f32 list \<Rightarrow> 'v est \<Rightarrow> 'v est \<times> (string + unit)) \<Rightarrow> string \<Rightarrow> slice \<Rightarrow> 'v est \<Rightarrow> 'v apply_result" where
  "apply_vadd f key val st =
     (case DecodeVAddPayload (sl val) of
        Ok (i, v) \<Rightarrow> vec_apply (f key i (case v of Some v \<Rightarrow> v | None \<Rightarrow> []) st)
      | Err e \<Rightarrow> (st, Some (Inl (err_text e)))
      | Panic \<Rightarrow> (st, Some (Inr ())))"

definition apply_vector ::
  "'v vecops \<Rightarrow> nat \<Rightarrow> string \<Rightarrow> slice \<Rightarrow> 'v est \<Rightarrow> 'v apply_result option" where
  "apply_vector v ty key val st =
     (if ty = RecordVAdd then Some (apply_vadd (vo_VAdd v) key val st)
      else if ty = RecordVAddBatch then
        Some (case DecodeVAddBatchPayload [] (sl val) of
                Ok (d, ids, vecs) \<Rightarrow> vec_apply (vo_VAddBatch v key d ids vecs st)
              | Err e \<Rightarrow> (st, Some (Inl (err_text e)))
              | Panic \<Rightarrow> (st, Some (Inr ())))
      else if ty = RecordVTombstone then Some (vec_apply (vo_VDel v key (sl val) st))
      else if ty = RecordVMigrateStart then
        Some (case DecodeVMigrateStartPayload (sl val) of
                None \<Rightarrow> (st, Some (Inl ''invalid migrate start payload''))
              | Some (d, enc) \<Rightarrow> vec_apply (vo_StartMigration v key d enc st))
      else if ty = RecordVMigrateAdd then Some (apply_vadd (vo_InsertShadowVector v) key val st)
      else if ty = RecordVMigrateSwap then Some (vec_apply (vo_SwapMigration v key st))
      else if ty = RecordVMigrateCancel then Some (vec_apply (vo_CancelMigration v key st))
      else None)"

text \<open>\<^verbatim>\<open>%q\<close> on a printable key.\<close>

definition not_found_text :: "string \<Rightarrow> string" where
  "not_found_text key = ''replication: key '' @ [CHR 0x22] @ key @ [CHR 0x22] @ '' not found for expire''"

definition applyReplicatedEffect :: "'v vecops \<Rightarrow> int \<Rightarrow> walEffect \<Rightarrow> 'v est \<Rightarrow> 'v apply_result" where
  "applyReplicatedEffect v now eff st =
     (let key = we_Key eff; kv = fst st; remaining = i64 (we_ExpiresAt eff - now); ok = (\<lambda>kv'. ((kv', snd st), None))
      in if we_Type eff = RecordSet then
           (if we_ExpiresAt eff > 0 \<and> remaining \<le> 0 then ok (fst (kv_Delete kv [key]))
            else ok (kv_Set now kv key (VBytes (we_Value eff)) TypeString (if we_ExpiresAt eff > 0 then remaining else 0)))
         else if we_Type eff = RecordDelete \<or> we_Type eff = RecordDeleteIndex then ok (fst (kv_Delete kv [key]))
         else if we_Type eff = RecordExpire then
           (if we_ExpiresAt eff \<le> 0 then ok (fst (kv_Persist now kv key))
            else if remaining \<le> 0 then ok (fst (kv_Delete kv [key]))
            else case kv_Expire now now kv key (max 1 (go_div remaining second)) of
                   (kv', found) \<Rightarrow> ((kv', snd st), if found then None else Some (Inl (not_found_text key))))
         else case apply_vector v (we_Type eff) key (we_Value eff) st of
                Some r \<Rightarrow> r
              | None \<Rightarrow> (st, Some (Inl (''replication: unsupported WAL effect type '' @ FormatInt (int (we_Type eff))))))"

fun apply_effects :: "'v vecops \<Rightarrow> int \<Rightarrow> walEffect list \<Rightarrow> 'v est \<Rightarrow> 'v apply_result" where
  "apply_effects v now [] st = (st, None)"
| "apply_effects v now (e # es) st =
     (case applyReplicatedEffect v now e st of
        (st', None) \<Rightarrow> apply_effects v now es st'
      | (st', Some err) \<Rightarrow> (st', Some err))"

text \<open>A record without an effect list is in the old single-effect form. The migration records return
  before the memory is measured again.\<close>

definition apply_plain :: "'v vecops \<Rightarrow> int \<Rightarrow> walRecord \<Rightarrow> 'v est \<Rightarrow> 'v apply_result" where
  "apply_plain v now rec st =
     (let key = wr_Key rec; kv = fst st
      in if wr_Type rec = RecordSet then
           ((kv_Set now kv key (VBytes (wr_Value rec)) TypeString (wr_TTLNano rec), snd st), None)
         else if wr_Type rec = RecordDelete then ((fst (kv_Delete kv [key]), snd st), None)
         else if wr_Type rec = RecordExpire then
           (if wr_TTLNano rec > 0
            then case kv_Expire now now kv key (go_div (wr_TTLNano rec) second) of
                   (kv', found) \<Rightarrow> ((kv', snd st), if found then None else Some (Inl (not_found_text key)))
            else (st, None))
         else case apply_vector v (wr_Type rec) key (wr_Value rec) st of
                Some r \<Rightarrow> r
              | None \<Rightarrow> (st, Some (Inl (''replication: unsupported WAL record type '' @ FormatInt (int (wr_Type rec))))))"

definition ApplyWALRecord ::
  "'v vecops \<Rightarrow> int \<Rightarrow> 'v executor \<Rightarrow> walRecord option \<Rightarrow> 'v executor \<times> (string + unit) option" where
  "ApplyWALRecord v now ex rec =
     (case rec of
        None \<Rightarrow> (ex, Some (Inl ''replication: nil WAL record''))
      | Some rec \<Rightarrow>
          let plain = wr_Effects rec = [];
              (st, err) = (if plain then apply_plain v now rec (est ex) else apply_effects v now (wr_Effects rec) (est ex));
              ex' = set_est ex st
          in if err \<noteq> None then (ex', err)
             else if plain \<and> wr_Type rec \<in> {RecordVMigrateStart, RecordVMigrateAdd, RecordVMigrateSwap, RecordVMigrateCancel}
             then (ex', None)
             else (ex'\<lparr>ex_accounted := measureMemoryUsage v now ex'\<rparr>, None))"

section \<open>Checkpoints\<close>

definition saveTenantCheckpoint ::
  "gob_enc \<Rightarrow> 'v vecops option \<Rightarrow> encryptor option \<Rightarrow> env \<Rightarrow> bytes \<Rightarrow> snapdir \<Rightarrow> 'v executor \<Rightarrow> 64 word
     \<Rightarrow> 'v executor \<times> snapdir \<times> string option" where
  "saveTenantCheckpoint gob_enc vops enc ev nonce dir ex sequence =
     (case vops of
        None \<Rightarrow>
          (case SaveCheckpoint gob_enc (ev_seal ev) enc nonce (ev_now ev) dir (ex_kv ex) sequence [] of
             (dir', path) \<Rightarrow> (ex, dir', path))
      | Some v \<Rightarrow>
          (case vo_FlushDurable v (est ex) of
             (st, Inl _) \<Rightarrow> (set_est ex st, dir, None)
           | (st, Inr _) \<Rightarrow>
               (case SaveCheckpoint gob_enc (ev_seal ev) enc nonce (ev_now ev) dir (fst st) sequence (vo_IndexSeals v st) of
                  (dir', path) \<Rightarrow> (set_est ex st, dir', path))))"

text \<open>\<^verbatim>\<open>Checkpoint\<close> under the mutation lock. The path is \<open>None\<close> when one of its steps failed.\<close>

definition Checkpoint ::
  "gob_enc \<Rightarrow> 'v vecops option \<Rightarrow> encryptor option \<Rightarrow> env \<Rightarrow> bytes \<Rightarrow> snapdir \<Rightarrow> 'v executor
     \<Rightarrow> 'v executor \<times> snapdir \<times> string option" where
  "Checkpoint gob_enc vops enc ev nonce dir ex =
     (case ex_wal ex of
        None \<Rightarrow> saveTenantCheckpoint gob_enc vops enc ev nonce dir ex 0
      | Some w \<Rightarrow>
          (case w_Sync (ev_io ev) w of
             (w1, False) \<Rightarrow> (ex\<lparr>ex_wal := Some w1\<rparr>, dir, None)
           | (w1, True) \<Rightarrow>
               let sequence = w_seq w1
               in case saveTenantCheckpoint gob_enc vops enc ev nonce dir (ex\<lparr>ex_wal := Some w1\<rparr>) sequence of
                    (ex2, dir2, None) \<Rightarrow> (ex2, dir2, None)
                  | (ex2, dir2, Some path) \<Rightarrow>
                      (case w_Rotate w1 of
                         (w3, False) \<Rightarrow> (ex2\<lparr>ex_wal := Some w3\<rparr>, dir2, None)
                       | (w3, True) \<Rightarrow> (ex2\<lparr>ex_wal := Some (w_Compact sequence w3)\<rparr>, dir2, Some path))))"

definition WithMaintenanceCheckpoint ::
  "gob_enc \<Rightarrow> 'v vecops option \<Rightarrow> encryptor option \<Rightarrow> env \<Rightarrow> bytes \<Rightarrow> snapdir \<Rightarrow> 'v executor
     \<Rightarrow> (64 word \<Rightarrow> string \<Rightarrow> bool) \<Rightarrow> 'v executor \<times> snapdir \<times> bool" where
  "WithMaintenanceCheckpoint gob_enc vops enc ev nonce dir ex fn =
     (let synced = (case ex_wal ex of
                      None \<Rightarrow> (ex, 0, True)
                    | Some w \<Rightarrow> (case w_Sync (ev_io ev) w of (w1, ok) \<Rightarrow> (ex\<lparr>ex_wal := Some w1\<rparr>, w_seq w1, ok)))
      in case synced of
           (ex1, _, False) \<Rightarrow> (ex1, dir, False)
         | (ex1, sequence, True) \<Rightarrow>
             (case saveTenantCheckpoint gob_enc vops enc ev nonce dir ex1 sequence of
                (ex2, dir2, None) \<Rightarrow> (ex2, dir2, False)
              | (ex2, dir2, Some path) \<Rightarrow> (ex2, dir2, fn sequence path)))"

end
