(* ===== verification/BitmapStore.thy ===== *)
theory BitmapStore
  imports Typed
begin

text \<open>
  The bitmap operations of \<^verbatim>\<open>src/internal/engine/bitmap.go\<close>. A bitmap is a byte slice under the tag
  \<^verbatim>\<open>TypeBitmap\<close>, and a string can be used as one. Offsets are Go \<^verbatim>\<open>int\<close>s: the quotient by eight truncates
  towards zero, so the offsets from -7 to -1 address byte 0 with a shift of 8 or more, and an offset of
  -8 or below indexes out of range.
\<close>

unbundle bit_operations_syntax

section \<open>Operations\<close>

definition byte_of :: "char \<Rightarrow> 8 word" where
  "byte_of c = word_of_nat (of_char c)"

definition of_byte :: "8 word \<Rightarrow> char" where
  "of_byte w = char_of (unat w)"

lemma of_byte_byte_of [simp]: "of_byte (byte_of c) = c"
proof -
  have "(of_char c :: nat) < 2 ^ LENGTH(8)" by simp
  then show ?thesis by (simp add: of_byte_def byte_of_def unat_of_nat take_bit_nat_eq_self)
qed

lemma byte_of_of_byte [simp]: "byte_of (of_byte w) = w"
proof -
  have "unat w < 256" using unsigned_less [of w, where ?'a = nat] by simp
  then show ?thesis by (simp add: of_byte_def byte_of_def)
qed

definition is_bitmap :: "entry \<Rightarrow> bool" where
  "is_bitmap e \<longleftrightarrow> e_type e = TypeBitmap \<or> e_type e = TypeString"

definition getBitmap :: "int \<Rightarrow> kvstore \<Rightarrow> string \<Rightarrow> kvstore \<times> slice res" where
  "getBitmap now kv key =
     (case kv_GetForWrite now kv key of
        (kv1, None) \<Rightarrow> (kv1, Ok None)
      | (kv1, Some e) \<Rightarrow>
          if \<not> is_bitmap e then (kv1, Err ErrWrongType)
          else (kv1, case as_bytes (e_value e) of Some v \<Rightarrow> Ok v | None \<Rightarrow> Err ErrWrongType))"

definition ensureSize :: "bytes \<Rightarrow> int \<Rightarrow> bytes" where
  "ensureSize buf b =
     (let byteIdx = go_div b 8
      in if byteIdx \<ge> int (length buf)
         then buf @ replicate (nat byteIdx + 1 - length buf) (char_of (0 :: nat)) else buf)"

text \<open>The position of a bit inside its byte, \<^verbatim>\<open>7 - (offset % 8)\<close>.\<close>

definition bit_idx :: "int \<Rightarrow> nat" where
  "bit_idx offset = nat (7 - (offset - 8 * go_div offset 8))"

definition get_bit :: "bytes \<Rightarrow> int \<Rightarrow> int" where
  "get_bit buf offset = int (unat (drop_bit (bit_idx offset) (byte_of (buf ! nat (go_div offset 8))) AND 1))"

definition put_bit :: "bytes \<Rightarrow> int \<Rightarrow> int \<Rightarrow> bytes" where
  "put_bit buf offset v =
     (let i = nat (go_div offset 8); m = push_bit (bit_idx offset) (1 :: 8 word); b = byte_of (buf ! i)
      in buf[i := of_byte (if v = 1 then b OR m else b AND NOT m)])"

definition SetBit :: "int \<Rightarrow> kvstore \<Rightarrow> string \<Rightarrow> int \<Rightarrow> int \<Rightarrow> kvstore \<times> int res" where
  "SetBit now kv key offset v =
     (case getBitmap now kv key of
        (kv1, Err e) \<Rightarrow> (kv1, Err e)
      | (kv1, Panic) \<Rightarrow> (kv1, Panic)
      | (kv1, Ok s) \<Rightarrow>
          let buf = ensureSize (sl s) offset
          in if go_div offset 8 < 0 then (kv1, Panic)
             else let buf' = Some (put_bit buf offset v)
                  in (case kv_find kv1 key of
                        None \<Rightarrow> kv_put kv1 key (mkEntry (VBytes buf') TypeBitmap)
                      | Some e \<Rightarrow> kv_put kv1 key (e\<lparr>e_value := VBytes buf'\<rparr>),
                      Ok (get_bit buf offset)))"

text \<open>The guard the readers share: absent, of another type, or the bytes.\<close>

definition read_bitmap :: "int \<Rightarrow> kvstore \<Rightarrow> string \<Rightarrow> (bytes \<Rightarrow> int res) \<Rightarrow> int \<Rightarrow> int res" where
  "read_bitmap now kv key f absent =
     (case kv_Get now kv key of
        None \<Rightarrow> Ok absent
      | Some e \<Rightarrow>
          if \<not> is_bitmap e then Err ErrWrongType
          else case as_bytes (e_value e) of None \<Rightarrow> Panic | Some b \<Rightarrow> f (sl b))"

definition GetBit :: "int \<Rightarrow> kvstore \<Rightarrow> string \<Rightarrow> int \<Rightarrow> int res" where
  "GetBit now kv key offset =
     read_bitmap now kv key (\<lambda>buf.
       if go_div offset 8 \<ge> int (length buf) then Ok 0
       else if go_div offset 8 < 0 then Panic else Ok (get_bit buf offset)) 0"

function popCount :: "8 word \<Rightarrow> int" where
  "popCount b = (if b = 0 then 0 else int (unat (b AND 1)) + popCount (drop_bit 1 b))"
  by auto
termination
proof (relation "measure unat")
  fix b :: "8 word"
  assume "b \<noteq> 0"
  then have "0 < unat b" by (simp add: unat_gt_0)
  then show "(drop_bit 1 b, b) \<in> measure unat" by (simp add: unat_div drop_bit_Suc)
qed simp

declare popCount.simps [simp del]

definition BitCount :: "int \<Rightarrow> kvstore \<Rightarrow> string \<Rightarrow> int \<Rightarrow> int \<Rightarrow> bool \<Rightarrow> int res" where
  "BitCount now kv key start0 end0 rangeSet =
     read_bitmap now kv key (\<lambda>buf.
       let n = int (length buf);
           s0 = (if rangeSet then start0 else 0); e0 = (if rangeSet then end0 else n - 1);
           s1 = (if s0 < 0 then n + s0 else s0); e1 = (if e0 < 0 then n + e0 else e0);
           s = (if s1 < 0 then 0 else s1); e = (if e1 \<ge> n then n - 1 else e1)
       in Ok (sum_list (map (\<lambda>i. popCount (byte_of (buf ! nat i))) [s..e]))) 0"

text \<open>The search of \<^verbatim>\<open>BitPos\<close>: the bits of the bytes from \<open>byteIdx\<close> on, most significant first.\<close>

definition byte_bits :: "char \<Rightarrow> int list" where
  "byte_bits c = map (\<lambda>i. int (unat (drop_bit i (byte_of c) AND 1))) (rev [0..<8])"

fun bit_search :: "int \<Rightarrow> int \<Rightarrow> int list \<Rightarrow> int option" where
  "bit_search v i [] = None"
| "bit_search v i (b # bs) = (if b = v then Some i else bit_search v (i + 1) bs)"

definition BitPos :: "int \<Rightarrow> kvstore \<Rightarrow> string \<Rightarrow> int \<Rightarrow> int res" where
  "BitPos now kv key bitVal =
     read_bitmap now kv key (\<lambda>buf.
       case bit_search bitVal 0 (concat (map byte_bits buf)) of
         Some p \<Rightarrow> Ok p
       | None \<Rightarrow> Ok (if bitVal = 0 then int (length buf) * 8 else -1))
     (if bitVal = 0 then 0 else -1)"

section \<open>Bits\<close>

definition bits :: "bytes \<Rightarrow> nat \<Rightarrow> bool" where
  "bits buf i \<longleftrightarrow> i < 8 * length buf \<and> bit (byte_of (buf ! (i div 8))) (7 - i mod 8)"

lemma go_div_nat [simp]: "go_div (int i) 8 = int (i div 8)"
  by (simp add: go_div_nonneg zdiv_int)

lemma bit_idx_nat [simp]: "bit_idx (int i) = 7 - i mod 8"
proof -
  have "int i - 8 * int (i div 8) = int (i mod 8)" by (simp add: minus_mult_div_eq_mod zdiv_int zmod_int)
  then have "bit_idx (int i) = nat (7 - int (i mod 8))" by (simp add: bit_idx_def)
  then show ?thesis by simp
qed

lemma drop_bit_and_1: "int (unat (drop_bit n (w :: 8 word) AND 1)) = of_bool (bit w n)"
proof -
  have "drop_bit n w AND 1 = of_bool (bit w n)" by (simp add: bit_iff_odd_drop_bit and_one_eq mod_2_eq_odd)
  then show ?thesis by simp
qed

lemma get_bit_nat: "i < 8 * length buf \<Longrightarrow> get_bit buf (int i) = of_bool (bits buf i)"
  unfolding get_bit_def drop_bit_and_1 by (simp add: bits_def)

lemma length_ensureSize: "length (ensureSize buf (int i)) = max (length buf) (i div 8 + 1)"
  by (auto simp: ensureSize_def Let_def)

lemma in_ensureSize: "i < 8 * length (ensureSize buf (int i))"
proof -
  have "i < 8 * (i div 8 + 1)" by presburger
  also have "\<dots> \<le> 8 * max (length buf) (i div 8 + 1)" by (intro mult_le_mono2 max.cobounded2)
  finally show ?thesis unfolding length_ensureSize .
qed

lemma byte_of_0 [simp]: "byte_of (char_of (0 :: nat)) = 0"
  by (simp add: byte_of_def)

lemma bits_ensureSize [simp]: "bits (ensureSize buf (int i)) j = bits buf j"
proof (cases "j < 8 * length (ensureSize buf (int i))")
  case True
  then show ?thesis
    by (auto simp: bits_def ensureSize_def Let_def nth_append less_mult_imp_div_less)
next
  case False
  then have "\<not> j < 8 * length buf" by (simp add: length_ensureSize max_def split: if_splits)
  with False show ?thesis by (simp add: bits_def)
qed

lemma div_mod_8_eq: "(i :: nat) div 8 = j div 8 \<Longrightarrow> 7 - i mod 8 = 7 - j mod 8 \<Longrightarrow> i = j"
proof -
  assume a: "i div 8 = j div 8" and b: "7 - i mod 8 = 7 - j mod 8"
  have "i mod 8 < 8" "j mod 8 < 8" by simp_all
  with b have "i mod 8 = j mod 8" by linarith
  with a show "i = j" by (metis div_mult_mod_eq)
qed

lemma bits_put_bit:
  assumes "i < 8 * length buf"
  shows "bits (put_bit buf (int i) v) j = (if j = i then v = 1 else bits buf j)"
proof -
  have i: "i div 8 < length buf" using assms by auto
  have lt: "7 - j mod 8 < LENGTH(8)" by simp
  show ?thesis
  proof (cases "j div 8 = i div 8")
    case True
    have "7 - i mod 8 = 7 - j mod 8 \<longleftrightarrow> i = j" using div_mod_8_eq [of i j] True by auto
    moreover have "j < 8 * length buf" using True i by linarith
    ultimately show ?thesis using i lt True
      by (auto simp: bits_def put_bit_def Let_def bit_simps)
  next
    case False
    then show ?thesis by (auto simp: bits_def put_bit_def Let_def)
  qed
qed

lemma length_put_bit [simp]: "length (put_bit buf i v) = length buf"
  by (simp add: put_bit_def Let_def)

lemma popCount_sum: "popCount w = (\<Sum>n<8. of_bool (bit w n))"
proof (induction w rule: popCount.induct)
  case (1 b)
  show ?case
  proof (cases "b = 0")
    case True
    then show ?thesis by (simp add: popCount.simps)
  next
    case False
    have top: "\<not> bit b 8" by (auto dest: bit_imp_le_length)
    have "int (unat (b AND 1)) = of_bool (bit b 0)" using drop_bit_and_1 [of 0 b] by simp
    then have "popCount b = of_bool (bit b 0) + (\<Sum>n<8. of_bool (bit b (Suc n)))"
      using 1 [OF False] False by (subst popCount.simps) (simp add: bit_drop_bit_eq del: of_nat_unat)
    also have "\<dots> = (\<Sum>n<Suc 8. of_bool (bit b n))" by (rule sum.lessThan_Suc_shift [symmetric])
    also have "\<dots> = (\<Sum>n<8. of_bool (bit b n))" unfolding sum.lessThan_Suc using top by simp
    finally show ?thesis .
  qed
qed

lemma byte_bits_bit: "byte_bits c = map (\<lambda>i. of_bool (bit (byte_of c) (7 - i))) [0..<8]"
proof -
  have "rev [0..<8] = map (\<lambda>i. 7 - i) [0..<8]" by code_simp
  then show ?thesis unfolding byte_bits_def drop_bit_and_1 by (simp add: comp_def del: upt_rec_numeral)
qed

lemma bits_Cons: "bits (c # buf) i = (if i < 8 then bit (byte_of c) (7 - i) else bits buf (i - 8))"
  by (auto simp: bits_def nth_Cons' le_div_geq le_mod_geq)

lemma map_upt_shift: "map f [n..<n + m] = map (\<lambda>i. f (i + n)) [0..<m]"
  by (rule nth_equalityI) (simp_all add: add.commute)

lemma concat_byte_bits: "concat (map byte_bits buf) = map (\<lambda>i. of_bool (bits buf i)) [0..<8 * length buf]"
proof (induction buf)
  case (Cons c buf)
  have "map (\<lambda>i. of_bool (bits (c # buf) i)) [0..<8 * length (c # buf)] =
      map (\<lambda>i. of_bool (bits (c # buf) i)) [0..<8] @
      map (\<lambda>i. of_bool (bits (c # buf) (i + 8))) [0..<8 * length buf]"
    by (simp add: upt_add_eq_append [of 0 8] map_upt_shift del: upt_rec_numeral)
  also have "\<dots> = byte_bits c @ concat (map byte_bits buf)"
    unfolding Cons.IH byte_bits_bit by (simp add: bits_Cons del: upt_rec_numeral cong: map_cong)
  finally show ?case by simp
qed simp

lemma bit_search_map:
  "bit_search v i (map f [a..<b]) =
     (case find (\<lambda>j. f j = v) [a..<b] of None \<Rightarrow> None | Some j \<Rightarrow> Some (i + int (j - a)))"
proof (induction "b - a" arbitrary: a i)
  case (Suc n)
  then have "a < b" by simp
  then have u: "[a..<b] = a # [Suc a..<b]" by (rule upt_conv_Cons)
  show ?case
  proof (cases "f a = v")
    case False
    have "i + 1 + int (j - Suc a) = i + int (j - a)" if "find (\<lambda>j. f j = v) [Suc a..<b] = Some j" for j
    proof -
      have "Suc a \<le> j" using that by (auto simp: find_Some_iff)
      then show ?thesis by (simp add: of_nat_diff)
    qed
    then show ?thesis using Suc(1) [of "Suc a" "i + 1"] Suc(2) False
      by (auto simp: u split: option.splits)
  qed (simp add: u)
qed simp

lemma popCount_byte: "popCount (byte_of c) = sum_list (byte_bits c)"
proof -
  have "popCount (byte_of c) = (\<Sum>i\<leftarrow>rev [0..<8]. of_bool (bit (byte_of c) i))"
    unfolding popCount_sum sum_list_rev rev_map [symmetric]
    by (simp add: interv_sum_list_conv_sum_set_nat atLeast0LessThan del: upt_rec_numeral)
  then show ?thesis unfolding byte_bits_def drop_bit_and_1 .
qed

lemma sum_bits: "(\<Sum>c\<leftarrow>buf. popCount (byte_of c)) = (\<Sum>i<8 * length buf. of_bool (bits buf i))"
proof -
  have "(\<Sum>c\<leftarrow>buf. popCount (byte_of c)) = sum_list (concat (map byte_bits buf))"
    by (induction buf) (simp_all add: popCount_byte)
  also have "\<dots> = (\<Sum>i<8 * length buf. of_bool (bits buf i))"
    unfolding concat_byte_bits by (simp add: interv_sum_list_conv_sum_set_nat atLeast0LessThan)
  finally show ?thesis .
qed

section \<open>On the store\<close>

text \<open>The bytes a key offers as a bitmap.\<close>

definition bitmap :: "int \<Rightarrow> kvstore \<Rightarrow> string \<Rightarrow> bytes option" where
  "bitmap now kv key =
     (case kv_Get now kv key of
        None \<Rightarrow> Some []
      | Some e \<Rightarrow> if is_bitmap e then map_option sl (as_bytes (e_value e)) else None)"

lemma is_bitmap_bytes:
  assumes "store_inv kv" and "kv_Get now kv key = Some e" and "is_bitmap e"
  shows "\<exists>b. as_bytes (e_value e) = Some b"
proof -
  have "well_typed e" using assms kv_typed_Get by (auto simp: store_inv_def)
  with assms(3) show ?thesis by (auto simp: well_typed_def is_bitmap_def shape_def split: option.splits)
qed

lemma read_bitmap_eq:
  assumes "bitmap now kv key = Some buf" and "f [] = Ok absent"
  shows "read_bitmap now kv key f absent = f buf"
  using assms by (auto simp: read_bitmap_def bitmap_def split: option.splits if_splits)

lemma GetBit_bits: "bitmap now kv key = Some buf \<Longrightarrow> GetBit now kv key (int i) = Ok (of_bool (bits buf i))"
  unfolding GetBit_def
  by (subst read_bitmap_eq) (auto simp: get_bit_nat bits_def)

lemma BitCount_bits:
  assumes "bitmap now kv key = Some buf"
  shows "BitCount now kv key a b False = Ok (\<Sum>i<8 * length buf. of_bool (bits buf i))"
proof -
  have "map (\<lambda>i. popCount (byte_of (buf ! nat i))) [0..int (length buf) - 1] = map (\<lambda>c. popCount (byte_of c)) buf"
    by (rule nth_equalityI) simp_all
  then have "(\<Sum>i\<leftarrow>[0..int (length buf) - 1]. popCount (byte_of (buf ! nat i))) = (\<Sum>i<8 * length buf. of_bool (bits buf i))"
    by (simp add: sum_bits)
  then show ?thesis using assms unfolding BitCount_def
    by (subst read_bitmap_eq) (auto simp: Let_def)
qed

lemma BitPos_bits:
  assumes "bitmap now kv key = Some buf"
  shows "BitPos now kv key v =
    Ok (case find (\<lambda>i. of_bool (bits buf i) = v) [0..<8 * length buf] of
          Some i \<Rightarrow> int i | None \<Rightarrow> if v = 0 then int (8 * length buf) else -1)"
  using assms unfolding BitPos_def concat_byte_bits bit_search_map
  by (subst read_bitmap_eq) (auto split: option.splits)

lemma SetBit_bits:
  assumes inv: "store_inv kv" and b: "bitmap now kv key = Some buf"
  shows "snd (SetBit now kv key (int i) v) = Ok (of_bool (bits buf i))
    \<and> bitmap now (fst (SetBit now kv key (int i) v)) key = Some (put_bit (ensureSize buf (int i)) (int i) v)
    \<and> store_inv (fst (SetBit now kv key (int i) v))
    \<and> (\<forall>k. k \<noteq> key \<longrightarrow> kv_find (fst (SetBit now kv key (int i) v)) k = kv_find kv k)"
proof -
  have k: "kv_inv kv" using inv by (simp add: store_inv_def)
  obtain kv0 where g: "kv_GetForWrite now kv key = (kv0, kv_Get now kv key)"
    using kv_GetForWrite_spec(2) [OF k] by (metis prod.collapse)
  have f: "kv_find kv0 key = kv_Get now kv key" and fr: "\<And>x. x \<noteq> key \<Longrightarrow> kv_find kv0 x = kv_find kv x"
    and inv0: "store_inv kv0"
    using kv_GetForWrite_spec(4,5) [OF k, where now = now and k = key] store_inv_GetForWrite [OF inv, of now key]
    by (simp_all add: g)
  then have k0: "kv_inv kv0" by (simp add: store_inv_def)
  have old: "get_bit (ensureSize buf (int i)) (int i) = of_bool (bits buf i)"
    using get_bit_nat [OF in_ensureSize] by simp
  show ?thesis
  proof (cases "kv_Get now kv key")
    case None
    then have "buf = []" using b by (simp add: bitmap_def)
    with None have s: "SetBit now kv key (int i) v =
        (kv_put kv0 key (mkEntry (VBytes (Some (put_bit (ensureSize buf (int i)) (int i) v))) TypeBitmap),
         Ok (of_bool (bits buf i)))"
      using old by (simp add: SetBit_def getBitmap_def g f Let_def)
    show ?thesis unfolding s using inv0 fr
      by (auto simp: bitmap_def kv_Get_def kv_find_put [OF k0] well_typed_def shape_def is_bitmap_def
          intro!: store_inv_put)
  next
    case (Some e)
    then have live: "\<not> isExpired now e" by (simp add: kv_Get_Some_iff)
    obtain d where e: "is_bitmap e" "as_bytes (e_value e) = Some d" "sl d = buf"
      using b Some by (auto simp: bitmap_def split: if_splits)
    have s: "SetBit now kv key (int i) v =
        (kv_put kv0 key (e\<lparr>e_value := VBytes (Some (put_bit (ensureSize buf (int i)) (int i) v))\<rparr>),
         Ok (of_bool (bits buf i)))"
      using old e Some by (simp add: SetBit_def getBitmap_def g f Let_def)
    show ?thesis unfolding s using inv0 fr live e(1)
      by (auto simp: bitmap_def kv_Get_def kv_find_put [OF k0] well_typed_def shape_def is_bitmap_def
          intro!: store_inv_put)
  qed
qed

text \<open>\<^verbatim>\<open>BitPos\<close> finds the least matching offset.\<close>

lemma BitPos_least:
  assumes b: "bitmap now kv key = Some buf" and v: "v \<in> {0, 1}" and p: "BitPos now kv key v = Ok (int p)"
  shows "GetBit now kv key (int p) = Ok v \<and> (\<forall>j < p. GetBit now kv key (int j) = Ok (1 - v))"
proof (cases "find (\<lambda>i. of_bool (bits buf i) = v) [0..<8 * length buf]")
  case None
  with p BitPos_bits [OF b, of v] have v0: "v = 0" and p: "p = 8 * length buf" by (auto split: if_splits)
  from None v0 have "\<forall>j < 8 * length buf. bits buf j" by (auto simp: find_None_iff)
  then have "\<not> bits buf p" and "\<forall>j < p. bits buf j" by (simp_all add: p bits_def)
  then show ?thesis using v0 by (simp add: GetBit_bits [OF b])
next
  case (Some i)
  with p BitPos_bits [OF b, of v] have p: "p = i" by simp
  from Some have "of_bool (bits buf i) = v" "\<forall>j < i. of_bool (bits buf j) \<noteq> v"
    by (auto simp: find_Some_iff)
  then show ?thesis using v p by (auto simp: GetBit_bits [OF b])
qed

lemma BitPos_none:
  assumes b: "bitmap now kv key = Some buf" and p: "BitPos now kv key 1 = Ok (-1)"
  shows "GetBit now kv key (int j) = Ok 0"
proof -
  have "find (\<lambda>i. of_bool (bits buf i) = (1 :: int)) [0..<8 * length buf] = None"
    using p BitPos_bits [OF b, of 1] by (cases "find (\<lambda>i. of_bool (bits buf i) = (1 :: int)) [0..<8 * length buf]") simp_all
  then have "\<not> bits buf j" by (auto simp: find_None_iff bits_def)
  then show ?thesis by (simp add: GetBit_bits [OF b])
qed

lemma bitmap_exists:
  assumes "store_inv kv" and "\<forall>e. kv_Get now kv key = Some e \<longrightarrow> is_bitmap e"
  obtains buf where "bitmap now kv key = Some buf"
  using assms is_bitmap_bytes [OF assms(1)] by (fastforce simp: bitmap_def split: option.splits)

lemma sum_set_bit:
  fixes f :: "nat \<Rightarrow> int"
  assumes "i < n"
  shows "(\<Sum>j<n. if j = i then c else f j) = (\<Sum>j<n. f j) - f i + c"
  using assms by (simp add: sum.remove [of "{..<n}" i] sum.remove [of "{..<n}" i f])

lemma sum_bits_extend:
  "length buf \<le> m \<Longrightarrow> (\<Sum>j<8 * m. of_bool (bits buf j) :: int) = (\<Sum>j<8 * length buf. of_bool (bits buf j))"
  by (rule sum.mono_neutral_right) (auto simp: bits_def)



text \<open>Negative offsets are not rejected: -7 to -1 answer 0 and leave the bits as they are, anything
  lower panics.\<close>

lemma SetBit_negative:
  assumes "store_inv kv" and "kv_Get now kv key = None"
  shows "offset \<le> - 8 \<Longrightarrow> snd (SetBit now kv key offset v) = Panic"
proof -
  have k: "kv_inv kv" using assms by (simp add: store_inv_def)
  show "offset \<le> - 8 \<Longrightarrow> snd (SetBit now kv key offset v) = Panic"
    using assms(2) kv_GetForWrite_spec(2) [OF k, of now key]
    by (auto simp: SetBit_def getBitmap_def case_prod_unfold Let_def go_div_def split: option.splits)
qed

end
