(* ===== verification/StreamStore.thy ===== *)
theory StreamStore
  imports Typed Protocol
begin

text \<open>
  The stream operations of \<^verbatim>\<open>src/internal/engine/stream.go\<close>: entries with generated or given ids, range
  reads, consumer groups with pending lists, and the argument parser of \<^verbatim>\<open>XADD\<close>. Ids are Go strings and
  are compared as such, byte by byte.
\<close>

abbreviation fresh_stream :: dbxStream where
  "fresh_stream \<equiv> \<lparr>s_entries = [], s_lastID = [], s_groups = []\<rparr>"

abbreviation stream_modify ::
  "int \<Rightarrow> kvstore \<Rightarrow> string \<Rightarrow> (dbxStream \<Rightarrow> dbxStream \<times> 'r res) \<Rightarrow> kvstore \<times> 'r res" where
  "stream_modify \<equiv> modify TypeStream VStream as_stream fresh_stream"

abbreviation stream_read :: "int \<Rightarrow> kvstore \<Rightarrow> string \<Rightarrow> dbxStream option res" where
  "stream_read \<equiv> getReadOnly TypeStream as_stream"

abbreviation stream_at :: "int \<Rightarrow> kvstore \<Rightarrow> string \<Rightarrow> dbxStream option" where
  "stream_at \<equiv> content TypeStream as_stream fresh_stream"

section \<open>Scanning integers\<close>

text \<open>\<^verbatim>\<open>fmt.Sscanf\<close> with the verb \<^verbatim>\<open>%d\<close>: white space other than a newline is skipped, then a sign and
  digits; a number out of range is an error.\<close>

function skip_space :: "bytes \<Rightarrow> bytes option" where
  "skip_space b =
     (case b of
        [] \<Rightarrow> Some []
      | c # cs \<Rightarrow>
          if c = char_of (10 :: nat) \<or> c = char_of (13 :: nat) \<and> cs \<noteq> [] \<and> hd cs = char_of (10 :: nat) then None
          else if space_len b = 0 then Some b else skip_space (drop (space_len b) b))"
  by auto
termination by (relation "measure length") auto

declare skip_space.simps [simp del]

definition scan_int :: "bytes \<Rightarrow> (int \<times> bytes) option" where
  "scan_int b =
     (case skip_space b of
        None \<Rightarrow> None
      | Some s \<Rightarrow>
          let sgn = (case s of c # _ \<Rightarrow> if c = CHR ''+'' \<or> c = CHR ''-'' then [c] else [] | [] \<Rightarrow> []);
              digs = takeWhile is_digit (drop (length sgn) s)
          in if digs = [] then None
             else case ParseInt (sgn @ digs) of
                    (n, None) \<Rightarrow> Some (n, drop (length sgn + length digs) s)
                  | (_, Some _) \<Rightarrow> None)"

text \<open>\<^verbatim>\<open>fmt.Sscanf(last, "%d-%d", &lms, &lseq)\<close>; what is not scanned stays 0.\<close>

definition scan_id :: "string \<Rightarrow> int \<times> int" where
  "scan_id s =
     (case scan_int s of
        None \<Rightarrow> (0, 0)
      | Some (ms, r) \<Rightarrow>
          (case r of
             c # r' \<Rightarrow> if c = CHR ''-'' then (case scan_int r' of None \<Rightarrow> (ms, 0) | Some (sq, _) \<Rightarrow> (ms, sq))
                        else (ms, 0)
           | [] \<Rightarrow> (ms, 0)))"

section \<open>Operations\<close>

definition generateID :: "int \<Rightarrow> string \<Rightarrow> string" where
  "generateID now lastID =
     (let ms = now div 1000000; (lms, lseq) = scan_id lastID
      in if lastID \<noteq> [] \<and> ms = lms then FormatInt ms @ ''-'' @ FormatInt (i64 (lseq + 1))
         else FormatInt ms @ ''-0'')"

definition XAdd ::
  "int \<Rightarrow> kvstore \<Rightarrow> string \<Rightarrow> string \<Rightarrow> (string, string) gomap \<Rightarrow> int \<Rightarrow> kvstore \<times> string res" where
  "XAdd now kv key id0 flds maxLen =
     stream_modify now kv key (\<lambda>st.
       let eid = (if id0 = [] \<or> id0 = ''*'' then generateID now (s_lastID st) else id0);
           es = s_entries st @ [\<lparr>se_ID = eid, se_Fields = flds\<rparr>];
           es' = (if maxLen > 0 \<and> int (length es) > maxLen then drop (length es - nat maxLen) es else es)
       in (st\<lparr>s_entries := es', s_lastID := eid\<rparr>, Ok eid))"

definition in_range :: "string \<Rightarrow> string \<Rightarrow> streamEntry \<Rightarrow> bool" where
  "in_range start stop e \<longleftrightarrow>
     (start = ''-'' \<or> start \<le> se_ID e) \<and> (stop = ''+'' \<or> se_ID e \<le> stop)"

text \<open>A loop that collects what passes a test and stops at \<open>cnt\<close> results when \<open>cnt\<close> is positive.\<close>

definition take_count :: "int \<Rightarrow> 'a list \<Rightarrow> 'a list" where
  "take_count cnt xs = (if cnt > 0 then take (nat cnt) xs else xs)"

definition XRange :: "int \<Rightarrow> kvstore \<Rightarrow> string \<Rightarrow> string \<Rightarrow> string \<Rightarrow> int \<Rightarrow> streamEntry list res" where
  "XRange now kv key start stop cnt =
     bind_res (stream_read now kv key) (\<lambda>st.
       case st of None \<Rightarrow> Ok [] | Some st \<Rightarrow> Ok (take_count cnt (filter (in_range start stop) (s_entries st))))"

fun XRead ::
  "int \<Rightarrow> kvstore \<Rightarrow> string list \<Rightarrow> string list \<Rightarrow> int \<Rightarrow> (string, streamEntry list) gomap
     \<Rightarrow> (string, streamEntry list) gomap res" where
  "XRead now kv [] ids cnt result = Ok result"
| "XRead now kv (key # keys) [] cnt result = Panic"
| "XRead now kv (key # keys) (startID # ids) cnt result =
     bind_res (XRange now kv key startID ''+'' cnt) (\<lambda>es.
       let later = filter (\<lambda>e. se_ID e > startID) es
       in XRead now kv keys ids cnt (if later \<noteq> [] then AList.update key later result else result))"

definition XLen :: "int \<Rightarrow> kvstore \<Rightarrow> string \<Rightarrow> int res" where
  "XLen now kv key =
     bind_res (stream_read now kv key) (\<lambda>st. case st of None \<Rightarrow> Ok 0 | Some st \<Rightarrow> Ok (int (length (s_entries st))))"

definition XGroupCreate :: "int \<Rightarrow> kvstore \<Rightarrow> string \<Rightarrow> string \<Rightarrow> string \<Rightarrow> kvstore \<times> unit res" where
  "XGroupCreate now kv key grp startID =
     stream_modify now kv key (\<lambda>st.
       if map_of (s_groups st) grp \<noteq> None
       then (st, Err (ErrMsg (''BUSYGROUP consumer group '' @ [CHR 0x27] @ grp @ [CHR 0x27] @ '' already exists'')))
       else (st\<lparr>s_groups := AList.update grp
                  \<lparr>g_Name = grp, g_LastID = startID, g_Consumers = [], g_Pending = []\<rparr> (s_groups st)\<rparr>, Ok ()))"

text \<open>The delivery loop: \<open>n\<close> entries are already collected, \<open>cur\<close> is the group's cursor.\<close>

fun deliver :: "int \<Rightarrow> nat \<Rightarrow> string \<Rightarrow> streamEntry list \<Rightarrow> streamEntry list \<times> string" where
  "deliver cnt n cur [] = ([], cur)"
| "deliver cnt n cur (e # es) =
     (if se_ID e > cur then
        (if cnt > 0 \<and> int (Suc n) \<ge> cnt then ([e], se_ID e)
         else case deliver cnt (Suc n) (se_ID e) es of (r, l) \<Rightarrow> (e # r, l))
      else deliver cnt n cur es)"

definition read_group ::
  "string \<Rightarrow> int \<Rightarrow> streamEntry list \<Rightarrow> consumerGroup \<Rightarrow> consumerGroup \<times> streamEntry list" where
  "read_group consumerName cnt es g =
     (let cons = (if map_of (g_Consumers g) consumerName = None
                  then AList.update consumerName \<lparr>c_Name = consumerName, c_Pending = []\<rparr> (g_Consumers g)
                  else g_Consumers g);
          c = the (map_of cons consumerName);
          (r, cur) = deliver cnt 0 (g_LastID g) es
      in (g\<lparr>g_Consumers := AList.update consumerName (c\<lparr>c_Pending := c_Pending c @ r\<rparr>) cons, g_LastID := cur\<rparr>, r))"

definition XReadGroup ::
  "int \<Rightarrow> kvstore \<Rightarrow> string \<Rightarrow> string \<Rightarrow> string \<Rightarrow> string \<Rightarrow> int \<Rightarrow> kvstore \<times> streamEntry list res" where
  "XReadGroup now kv key grp consumerName lastID cnt =
     stream_modify now kv key (\<lambda>st.
       case map_of (s_groups st) grp of
         None \<Rightarrow> (st, Err (ErrMsg (''NOGROUP no such consumer group '' @ [CHR 0x27] @ grp @ [CHR 0x27])))
       | Some g \<Rightarrow>
           let (g', r) = read_group consumerName cnt (s_entries st) g
           in (st\<lparr>s_groups := AList.update grp g' (s_groups st)\<rparr>, Ok r))"

definition ack_group :: "string list \<Rightarrow> consumerGroup \<Rightarrow> consumerGroup \<times> int" where
  "ack_group ids g =
     (g\<lparr>g_Pending := filter (\<lambda>e. se_ID e \<notin> set ids) (g_Pending g),
        g_Consumers := map (\<lambda>(n, c). (n, c\<lparr>c_Pending := filter (\<lambda>e. se_ID e \<notin> set ids) (c_Pending c)\<rparr>)) (g_Consumers g)\<rparr>,
      int (length (filter (\<lambda>e. se_ID e \<in> set ids) (g_Pending g))))"

definition XAck :: "int \<Rightarrow> kvstore \<Rightarrow> string \<Rightarrow> string \<Rightarrow> string list \<Rightarrow> kvstore \<times> int res" where
  "XAck now kv key grp ids =
     stream_modify now kv key (\<lambda>st.
       case map_of (s_groups st) grp of
         None \<Rightarrow> (st, Ok 0)
       | Some g \<Rightarrow> let (g', n) = ack_group ids g
                   in (st\<lparr>s_groups := AList.update grp g' (s_groups st)\<rparr>, Ok n))"

section \<open>Arguments of XADD\<close>

fun field_pairs :: "(string, string) gomap \<Rightarrow> string list \<Rightarrow> (string, string) gomap" where
  "field_pairs m (f # v # r) = field_pairs (AList.update f v m) r"
| "field_pairs m _ = m"

definition ParseStreamFields :: "slice list \<Rightarrow> (string, string) gomap res" where
  "ParseStreamFields args =
     (if odd (length args) then Err (ErrMsg ''odd number of field-value pairs'')
      else Ok (field_pairs [] (map sl args)))"

definition ParseXAddArgs :: "slice list \<Rightarrow> (string \<times> string \<times> (string, string) gomap \<times> int) res" where
  "ParseXAddArgs args =
     (if length args < 4 then Err ErrSyntax
      else let arg = (\<lambda>i. sl (args ! i));
               (idx, maxLen) =
                 (if ToUpper (arg 1) = ''MAXLEN''
                  then let i = (if arg 2 = ''~'' then 3 else 2)
                       in (i + 1, case scan_int (arg i) of Some (n, _) \<Rightarrow> n | None \<Rightarrow> 0)
                  else (1, 0))
           in if idx \<ge> length args then Err ErrSyntax
              else bind_res (ParseStreamFields (drop (idx + 1) args)) (\<lambda>flds. Ok (arg 0, arg idx, flds, maxLen)))"

section \<open>Delivery to consumer groups\<close>

definition ordered :: "streamEntry list \<Rightarrow> bool" where
  "ordered es \<longleftrightarrow> sorted_wrt (\<lambda>a b. se_ID a < se_ID b) es"

definition after :: "string \<Rightarrow> streamEntry list \<Rightarrow> streamEntry list" where
  "after cur es = filter (\<lambda>e. se_ID e > cur) es"

definition cursor :: "string \<Rightarrow> streamEntry list \<Rightarrow> string" where
  "cursor cur r = (if r = [] then cur else se_ID (last r))"

lemma after_all: "\<forall>e \<in> set es. cur < se_ID e \<Longrightarrow> after cur es = es"
  by (simp add: after_def filter_id_conv)

lemma deliver_all:
  assumes "ordered es" and "cnt \<le> 0"
  shows "deliver cnt n cur es = (after cur es, cursor cur (after cur es))"
  using assms
proof (induction es arbitrary: n cur)
  case (Cons e es)
  then have IH: "deliver cnt m c es = (after c es, cursor c (after c es))" for m c
    by (simp add: ordered_def)
  have gt: "\<forall>x \<in> set es. se_ID e < se_ID x" using Cons.prems by (simp add: ordered_def)
  show ?case
  proof (cases "cur < se_ID e")
    case True
    then have "\<forall>x \<in> set es. cur < se_ID x" using gt by force
    then have "after cur es = es" "after (se_ID e) es = es" using gt by (simp_all add: after_all)
    then show ?thesis using True Cons.prems by (simp add: IH after_def cursor_def)
  qed (simp add: IH after_def)
qed (simp add: after_def cursor_def)

lemma deliver_some:
  assumes "ordered es" and "int n < cnt"
  shows "deliver cnt n cur es =
    (take (nat cnt - n) (after cur es), cursor cur (take (nat cnt - n) (after cur es)))"
  using assms
proof (induction es arbitrary: n cur)
  case (Cons e es)
  then have IH: "int m < cnt \<Longrightarrow> deliver cnt m c es =
      (take (nat cnt - m) (after c es), cursor c (take (nat cnt - m) (after c es)))" for m c
    by (simp add: ordered_def)
  have gt: "\<forall>x \<in> set es. se_ID e < se_ID x" using Cons.prems by (simp add: ordered_def)
  show ?case
  proof (cases "cur < se_ID e")
    case True
    then have "\<forall>x \<in> set es. cur < se_ID x" using gt by force
    then have a: "after cur es = es" "after (se_ID e) es = es" using gt by (simp_all add: after_all)
    have k: "nat cnt - n = Suc (nat cnt - Suc n)" using Cons.prems by simp
    show ?thesis
    proof (cases "int (Suc n) \<ge> cnt")
      case True
      with k Cons.prems \<open>cur < se_ID e\<close> show ?thesis by (simp add: after_def cursor_def)
    next
      case False
      then have "int (Suc n) < cnt" by simp
      from IH [OF this, of "se_ID e"] show ?thesis
        using False \<open>cur < se_ID e\<close> a unfolding k by (simp add: after_def cursor_def)
    qed
  next
    case False
    then show ?thesis using IH [OF Cons.prems(2), of cur] by (simp add: after_def)
  qed
qed (simp add: after_def cursor_def)

lemma deliver_take:
  "ordered es \<Longrightarrow> deliver cnt 0 cur es =
     (take_count cnt (after cur es), cursor cur (take_count cnt (after cur es)))"
  using deliver_all [of es cnt 0 cur] deliver_some [of es 0 cnt cur]
  by (cases "cnt > 0") (simp_all add: take_count_def)

text \<open>What is after the cursor is what was not delivered.\<close>

lemma ordered_last:
  assumes "ordered ys" and "ys \<noteq> []" and "a \<in> set ys"
  shows "\<not> se_ID (last ys) < se_ID a"
proof -
  define xs y where "xs = butlast ys" and "y = last ys"
  then have ys: "ys = xs @ [y]" using assms(2) by simp
  have "\<forall>x \<in> set xs. se_ID x < se_ID y" using assms(1) by (simp add: ys ordered_def sorted_wrt_append)
  then show ?thesis using assms(3) by (auto simp: ys dest: less_imp_not_less)
qed

lemma sorted_take_drop:
  assumes "ordered xs" and "k \<noteq> 0" and "xs \<noteq> []"
  shows "after (se_ID (last (take k xs))) xs = drop k xs"
proof -
  have s: "ordered (take k xs @ drop k xs)" using assms(1) by simp
  then have lt: "\<forall>a \<in> set (take k xs). \<forall>b \<in> set (drop k xs). se_ID a < se_ID b"
    by (simp only: ordered_def sorted_wrt_append) blast
  have ne: "take k xs \<noteq> []" using assms by simp
  have "ordered (take k xs)" using s by (simp only: ordered_def sorted_wrt_append)
  then have le: "\<forall>a \<in> set (take k xs). \<not> se_ID (last (take k xs)) < se_ID a"
    using ordered_last [OF _ ne] by blast
  define c where "c = se_ID (last (take k xs))"
  have "after c (take k xs) = []" using le by (simp add: after_def c_def)
  moreover have "after c (drop k xs) = drop k xs"
    using lt last_in_set [OF ne] by (intro after_all) (simp add: c_def)
  moreover have "after c xs = after c (take k xs) @ after c (drop k xs)"
    by (simp add: after_def flip: filter_append)
  ultimately show ?thesis by (simp add: c_def)
qed

lemma after_ordered: "ordered es \<Longrightarrow> ordered (after cur es)"
  by (simp add: ordered_def after_def sorted_wrt_filter)

lemma after_cursor:
  assumes "ordered es"
  shows "take_count cnt (after cur es) @ after (cursor cur (take_count cnt (after cur es))) es = after cur es"
proof -
  let ?a = "after cur es"
  let ?r = "take_count cnt ?a"
  have mono: "after (cursor cur ?r) es = after (cursor cur ?r) ?a"
  proof (cases "?r = []")
    case False
    then have "last ?r \<in> set ?r" by simp
    then have "last ?r \<in> set ?a" by (auto simp: take_count_def dest: in_set_takeD split: if_splits)
    then have "cur < cursor cur ?r" using False by (simp add: cursor_def after_def)
    then show ?thesis by (auto simp: after_def intro!: filter_cong)
  qed (simp add: cursor_def after_def)
  show ?thesis
  proof (cases "cnt > 0 \<and> ?a \<noteq> []")
    case True
    then have "after (se_ID (last (take (nat cnt) ?a))) ?a = drop (nat cnt) ?a"
      using sorted_take_drop [OF after_ordered [OF assms], of "nat cnt" cur] by simp
    with True mono show ?thesis by (simp add: take_count_def cursor_def)
  next
    case False
    have "after (se_ID (last ?a)) ?a = []" if "?a \<noteq> []"
      using sorted_take_drop [OF after_ordered [OF assms], of "length ?a" cur] that by simp
    with False mono show ?thesis by (auto simp: take_count_def cursor_def after_def)
  qed
qed

section \<open>On the store\<close>

lemma wf_stream_group:
  assumes "wf_stream st" and "wf_map (g_Consumers g)"
  shows "wf_stream (st\<lparr>s_groups := AList.update grp g (s_groups st)\<rparr>)"
  using assms set_update_subset [of grp g "s_groups st"]
  by (fastforce simp: wf_stream_def)

lemma wf_stream_entries: "wf_stream st \<Longrightarrow> wf_stream (st\<lparr>s_entries := es, s_lastID := l\<rparr>)"
  by (simp add: wf_stream_def)

lemma read_group_facts:
  assumes "ordered es" and "read_group c cnt es g = (g', r)"
  shows "r = take_count cnt (after (g_LastID g) es) \<and> g_LastID g' = cursor (g_LastID g) r
    \<and> g_Name g' = g_Name g \<and> g_Pending g' = g_Pending g \<and> (wf_map (g_Consumers g) \<longrightarrow> wf_map (g_Consumers g'))
    \<and> (\<exists>cs. map_of (g_Consumers g') c = Some cs
         \<and> c_Pending cs = (case map_of (g_Consumers g) c of None \<Rightarrow> [] | Some c0 \<Rightarrow> c_Pending c0) @ r)"
  using assms by (auto simp: read_group_def deliver_take Let_def split: if_splits)

lemma XReadGroup_run:
  assumes "store_inv kv" and "stream_at now kv key = Some st" and "map_of (s_groups st) grp = Some g"
    and "read_group c cnt (s_entries st) g = (g', r)" and "ordered (s_entries st)"
  shows "snd (XReadGroup now kv key grp c l cnt) = Ok r
    \<and> stream_at now (fst (XReadGroup now kv key grp c l cnt)) key
        = Some (st\<lparr>s_groups := AList.update grp g' (s_groups st)\<rparr>)
    \<and> store_inv (fst (XReadGroup now kv key grp c l cnt))"
proof -
  have st: "wf_stream st" using assms stream_store.content_wf by blast
  then have "wf_map (g_Consumers g)" using assms(3) by (auto simp: wf_stream_def dest: map_of_SomeD)
  then have w: "wf_stream (st\<lparr>s_groups := AList.update grp g' (s_groups st)\<rparr>)"
    using st read_group_facts [OF assms(5,4)] by (intro wf_stream_group) auto
  define body where "body = (\<lambda>st :: dbxStream. case map_of (s_groups st) grp of
         None \<Rightarrow> (st, Err (ErrMsg (''NOGROUP no such consumer group '' @ [CHR 0x27] @ grp @ [CHR 0x27])))
       | Some g \<Rightarrow>
           let (g', r) = read_group c cnt (s_entries st) g
           in (st\<lparr>s_groups := AList.update grp g' (s_groups st)\<rparr>, Ok r))"
  have b: "body st = (st\<lparr>s_groups := AList.update grp g' (s_groups st)\<rparr>, Ok r)"
    using assms(3,4) by (simp add: body_def)
  show ?thesis unfolding XReadGroup_def body_def [symmetric]
    using stream_store.modify_ok [where body = body, OF assms(1,2) b w] by simp
qed

text \<open>C29. Consumer groups. When the ids of a stream increase, a group read answers the first entries
  after the group's cursor (all of them, or the requested number) and puts them on the reading
  consumer's pending list; a following read without a limit, by any consumer, answers exactly the entries
  the first one left. Together they answer every entry after the original cursor once, in order, and a
  third read answers nothing.\<close>

theorem stream_group_delivery:
  assumes "store_inv kv" and "stream_at now kv key = Some st" and "map_of (s_groups st) grp = Some g"
    and "ordered (s_entries st)" and "cnt' \<le> 0"
  shows "\<exists>kv1 kv2 r1 r2 st1 g1 c1.
      XReadGroup now kv key grp c l cnt = (kv1, Ok r1)
    \<and> XReadGroup now kv1 key grp c' l' cnt' = (kv2, Ok r2)
    \<and> r1 = take_count cnt (after (g_LastID g) (s_entries st))
    \<and> r1 @ r2 = after (g_LastID g) (s_entries st)
    \<and> stream_at now kv1 key = Some st1 \<and> s_entries st1 = s_entries st \<and> map_of (s_groups st1) grp = Some g1
    \<and> map_of (g_Consumers g1) c = Some c1
    \<and> c_Pending c1 = (case map_of (g_Consumers g) c of None \<Rightarrow> [] | Some c0 \<Rightarrow> c_Pending c0) @ r1
    \<and> snd (XReadGroup now kv2 key grp c' l' cnt') = Ok [] \<and> store_inv kv2"
proof -
  obtain g1 r1 where g1: "read_group c cnt (s_entries st) g = (g1, r1)" by force
  note f1 = read_group_facts [OF assms(4) g1]
  define st1 where "st1 = st\<lparr>s_groups := AList.update grp g1 (s_groups st)\<rparr>"
  obtain kv1 where x1: "XReadGroup now kv key grp c l cnt = (kv1, Ok r1)"
    and a1: "stream_at now kv1 key = Some st1" and i1: "store_inv kv1"
    using XReadGroup_run [OF assms(1-3) g1 assms(4), of l] st1_def by (metis prod.collapse)
  have m1: "map_of (s_groups st1) grp = Some g1" and e1: "s_entries st1 = s_entries st" by (simp_all add: st1_def)
  obtain g2 r2 where g2: "read_group c' cnt' (s_entries st1) g1 = (g2, r2)" by force
  note f2 = read_group_facts [OF assms(4), of c' cnt' g1 g2 r2, folded e1, OF g2]
  define st2 where "st2 = st1\<lparr>s_groups := AList.update grp g2 (s_groups st1)\<rparr>"
  obtain kv2 where x2: "XReadGroup now kv1 key grp c' l' cnt' = (kv2, Ok r2)"
    and a2: "stream_at now kv2 key = Some st2" and i2: "store_inv kv2"
    using XReadGroup_run [OF i1 a1 m1 g2, of l'] assms(4) e1 st2_def by (metis prod.collapse)
  have m2: "map_of (s_groups st2) grp = Some g2" and e2: "s_entries st2 = s_entries st" by (simp_all add: st2_def e1)
  obtain g3 r3 where g3: "read_group c' cnt' (s_entries st2) g2 = (g3, r3)" by force
  note f3 = read_group_facts [OF assms(4), of c' cnt' g2 g3 r3, folded e2, OF g3]
  have split: "r1 @ r2 = after (g_LastID g) (s_entries st)"
    using f1 f2 assms(5) after_cursor [OF assms(4), of cnt "g_LastID g"] by (simp add: e1 take_count_def)
  have all: "take_count cnt' xs = xs" for xs :: "streamEntry list" using assms(5) by (simp add: take_count_def)
  have "r2 @ r3 = after (g_LastID g1) (s_entries st)"
    using f2 f3 after_cursor [OF assms(4), of cnt' "g_LastID g1"] by (simp add: e1 e2 all)
  with f2 have "r3 = []" by (simp add: e1 all)
  moreover have "snd (XReadGroup now kv2 key grp c' l' cnt') = Ok r3"
    using XReadGroup_run [OF i2 a2 m2 g3, of l'] assms(4) e2 by simp
  ultimately have "snd (XReadGroup now kv2 key grp c' l' cnt') = Ok []" by simp
  with x1 x2 f1 split a1 e1 m1 i2 show ?thesis by blast
qed

definition sample_stream :: dbxStream where
  "sample_stream =
     \<lparr>s_entries = [\<lparr>se_ID = ''1-0'', se_Fields = []\<rparr>, \<lparr>se_ID = ''2-0'', se_Fields = []\<rparr>], s_lastID = ''2-0'',
      s_groups = [(''g'', \<lparr>g_Name = ''g'', g_LastID = ''0'', g_Consumers = [], g_Pending = []\<rparr>)]\<rparr>"

lemma stream_group_delivery_witness:
  "\<exists>kv kv1 kv2 r1 r2. store_inv kv \<and> stream_at 0 kv ''s'' = Some sample_stream
     \<and> XReadGroup 0 kv ''s'' ''g'' ''a'' [] 1 = (kv1, Ok r1) \<and> XReadGroup 0 kv1 ''s'' ''g'' ''b'' [] 0 = (kv2, Ok r2)
     \<and> map se_ID (r1 @ r2) = [''1-0'', ''2-0''] \<and> length r1 = 1"
proof -
  let ?kv = "kv_put (New 4) ''s'' (mkEntry (VStream sample_stream) TypeStream)"
  have inv: "store_inv ?kv"
    by (intro store_inv_put store_inv_New)
      (simp add: well_typed_def shape_def wf_stream_def sample_stream_def wf_map_def)
  have c: "stream_at 0 ?kv ''s'' = Some sample_stream"
    by (simp add: content_def kv_Get_def kv_find_put kv_inv_New)
  have g: "map_of (s_groups sample_stream) ''g'' =
      Some \<lparr>g_Name = ''g'', g_LastID = ''0'', g_Consumers = [], g_Pending = []\<rparr>"
    by (simp add: sample_stream_def)
  have lt: "''0'' < ''1-0''" "''0'' < ''2-0''" "''1-0'' < ''2-0''" by code_simp+
  have o: "ordered (s_entries sample_stream)" using lt by (simp add: sample_stream_def ordered_def)
  have a: "after ''0'' (s_entries sample_stream) = s_entries sample_stream"
    using lt by (simp add: after_def sample_stream_def)
  from stream_group_delivery [OF inv c g o order_refl, of "''a''" "[]" 1 "''b''" "[]"]
  obtain kv1 kv2 r1 r2 where "XReadGroup 0 ?kv ''s'' ''g'' ''a'' [] 1 = (kv1, Ok r1)"
    "XReadGroup 0 kv1 ''s'' ''g'' ''b'' [] 0 = (kv2, Ok r2)"
    "r1 = take_count 1 (s_entries sample_stream)" "r1 @ r2 = s_entries sample_stream"
    by (auto simp: a)
  moreover have "map se_ID (s_entries sample_stream) = [''1-0'', ''2-0'']" and "length (s_entries sample_stream) = 2"
    by (simp_all add: sample_stream_def)
  ultimately show ?thesis using inv c by (intro exI conjI) (auto simp: take_count_def)
qed

text \<open>A group's own pending list is never filled, so acknowledging what was delivered answers 0.\<close>

lemma xack_counts_nothing: "g_Pending g = [] \<Longrightarrow> snd (ack_group ids g) = 0"
  by (simp add: ack_group_def)

text \<open>Ids are compared as strings: the id generated in a later millisecond can be the smaller one.\<close>

lemma generated_ids_not_ordered:
  assumes "fst (scan_id ''9-0'') \<noteq> 10"
  shows "generateID 9000000 [] = ''9-0'' \<and> generateID 10000000 ''9-0'' = ''10-0'' \<and> ''10-0'' < ''9-0''"
proof -
  have f: "FormatInt 9 = ''9''" "FormatInt 10 = ''10''" by code_simp+
  have "''10-0'' < ''9-0''" by code_simp
  then show ?thesis using assms by (simp add: generateID_def Let_def case_prod_unfold f)
qed

end
