(* ===== verification/Commands.thy ===== *)
theory Commands
  imports Executor HashStore ListStore SetStore ZSetStore BitmapStore StreamStore
begin

text \<open>
  The commands of \<^verbatim>\<open>Executor.Dispatch\<close> (\<^verbatim>\<open>src/internal/query/executor.go\<close>) on keys, strings, hashes, lists,
  sets, sorted sets, bitmaps, streams and channels, one definition per command or per group of one-line
  commands. A command maps the executor to its new state, the bytes written to the client and how it
  ended: with no error, with an error for the caller (\<^verbatim>\<open>QUIT\<close>), or with a panic.
\<close>

datatype dend = DOk | DErr | DPanic

type_synonym 'v dres = "'v executor \<times> bytes \<times> dend"

definition reply :: "'v executor \<Rightarrow> bytes \<Rightarrow> 'v dres" where
  "reply ex out = (ex, out, DOk)"

definition err_reply :: "'v executor \<Rightarrow> string \<Rightarrow> 'v dres" where
  "err_reply ex msg = (ex, WriteError msg, DOk)"

definition wrong_args :: "'v executor \<Rightarrow> string \<Rightarrow> 'v dres" where
  "wrong_args ex name = err_reply ex (WrongNumArgsError name)"

text \<open>The answer to a result: \<^verbatim>\<open>if err != nil { return w.WriteError(err.Error()) }\<close>.\<close>

definition on_res :: "'v executor \<Rightarrow> 'a res \<Rightarrow> ('a \<Rightarrow> bytes) \<Rightarrow> 'v dres" where
  "on_res ex r f =
     (case r of Ok x \<Rightarrow> reply ex (f x) | Err e \<Rightarrow> err_reply ex (err_text e) | Panic \<Rightarrow> (ex, [], DPanic))"

definition on_kv :: "'v executor \<Rightarrow> kvstore \<times> 'a res \<Rightarrow> ('a \<Rightarrow> bytes) \<Rightarrow> 'v dres" where
  "on_kv ex p f = on_res (ex\<lparr>ex_kv := fst p\<rparr>) (snd p) f"

definition write_bool :: "bool \<Rightarrow> bytes" where
  "write_bool b = WriteInteger (if b then 1 else 0)"

definition WriteFloat :: "env \<Rightarrow> f64 \<Rightarrow> bytes" where
  "WriteFloat ev f = WriteBulkStringStr (ev_formatFloat ev f)"

definition args_from :: "nat \<Rightarrow> command \<Rightarrow> string list" where
  "args_from i cmd = map sl (drop i (cmd_Args cmd))"

definition int_arg :: "command \<Rightarrow> nat \<Rightarrow> int" where
  "int_arg cmd i = fst (Atoi (Arg cmd i))"

definition wal_failed :: "env \<Rightarrow> 'v executor \<Rightarrow> 'v dres" where
  "wal_failed ev ex = err_reply ex (''ERR WAL write failed: '' @ ev_ioText ev)"

fun log_all :: "env \<Rightarrow> 'v executor \<Rightarrow> walRecord list \<Rightarrow> 'v executor \<times> bool" where
  "log_all ev ex [] = (ex, True)"
| "log_all ev ex (r # rs) = (case writeWAL ev ex r of (ex', True) \<Rightarrow> log_all ev ex' rs | (ex', False) \<Rightarrow> (ex', False))"

definition then_log :: "env \<Rightarrow> 'v executor \<Rightarrow> walRecord list \<Rightarrow> bytes \<Rightarrow> 'v dres" where
  "then_log ev ex rs out =
     (case log_all ev ex rs of (ex', True) \<Rightarrow> reply ex' out | (ex', False) \<Rightarrow> wal_failed ev ex')"

section \<open>Server\<close>

definition cmd_PING :: "'v executor \<Rightarrow> command \<Rightarrow> 'v dres" where
  "cmd_PING ex cmd =
     reply ex (if NumArgs cmd > 0 then WriteBulkStringStr (Arg cmd 0) else WriteSimpleString ''PONG'')"

definition cmd_HELLO :: "'v executor \<Rightarrow> 64 word \<Rightarrow> 'v dres" where
  "cmd_HELLO ex clientID =
     reply ex (WriteArray 14 @ WriteBulkStringStr ''server'' @ WriteBulkStringStr ''dbx''
       @ WriteBulkStringStr ''version'' @ WriteBulkStringStr ''1.3.0'' @ WriteBulkStringStr ''proto'' @ WriteInteger 2
       @ WriteBulkStringStr ''id'' @ WriteInteger (sint clientID) @ WriteBulkStringStr ''mode''
       @ WriteBulkStringStr ''standalone'' @ WriteBulkStringStr ''role'' @ WriteBulkStringStr ''master''
       @ WriteBulkStringStr ''modules'' @ WriteArray 0)"

definition cmd_ECHO :: "'v executor \<Rightarrow> command \<Rightarrow> 'v dres" where
  "cmd_ECHO ex cmd = (if NumArgs cmd < 1 then wrong_args ex ''ECHO'' else reply ex (WriteBulkString (ArgBytes cmd 0)))"

definition dispatch_server :: "env \<Rightarrow> 64 word \<Rightarrow> 'v executor \<Rightarrow> command \<Rightarrow> 'v dres option" where
  "dispatch_server ev clientID ex cmd =
     (let name = Normalized cmd
      in if name = ''PING'' then Some (cmd_PING ex cmd)
         else if name = ''HELLO'' then Some (cmd_HELLO ex clientID)
         else if name = ''ECHO'' then Some (cmd_ECHO ex cmd)
         else if name = ''QUIT'' then Some (ex, WriteSimpleString ''OK'', DErr)
         else if name = ''DBSIZE'' then Some (reply ex (WriteInteger (kv_DBSize (ev_now ev) (ex_kv ex))))
         else if name = ''FLUSHDB'' \<or> name = ''FLUSHALL'' then Some (reply (ex\<lparr>ex_kv := kv_FlushAll (ex_kv ex)\<rparr>) WriteOK)
         else if name = ''COMMAND'' then Some (reply ex (WriteArray 0))
         else None)"

section \<open>Keys\<close>

definition cmd_DEL :: "env \<Rightarrow> 'v executor \<Rightarrow> command \<Rightarrow> 'v dres" where
  "cmd_DEL ev ex cmd =
     (if NumArgs cmd < 1 then wrong_args ex ''DEL''
      else let keys = args_from 0 cmd; (kv, deleted) = kv_Delete (ex_kv ex) keys; ex' = ex\<lparr>ex_kv := kv\<rparr>
           in then_log ev ex'
                (if deleted > 0 then map (\<lambda>k. empty_record\<lparr>wr_Type := RecordDelete, wr_Key := k\<rparr>) keys else [])
                (WriteInteger deleted))"

definition cmd_EXISTS :: "env \<Rightarrow> 'v executor \<Rightarrow> command \<Rightarrow> 'v dres" where
  "cmd_EXISTS ev ex cmd =
     (if NumArgs cmd < 1 then wrong_args ex ''EXISTS''
      else reply ex (WriteInteger (int (length (filter (kv_Exists (ev_now ev) (ex_kv ex)) (args_from 0 cmd))))))"

definition cmd_EXPIRE :: "env \<Rightarrow> 'v executor \<Rightarrow> command \<Rightarrow> 'v dres" where
  "cmd_EXPIRE ev ex cmd =
     (if NumArgs cmd < 2 then wrong_args ex ''EXPIRE''
      else case ParseInt (Arg cmd 1) of
             (_, Some _) \<Rightarrow> err_reply ex ErrNotInteger
           | (sec, None) \<Rightarrow>
               (case kv_Expire (ev_now ev) (ev_now ev) (ex_kv ex) (Arg cmd 0) sec of
                  (kv, found) \<Rightarrow>
                    let ex' = ex\<lparr>ex_kv := kv\<rparr>
                    in if found
                       then then_log ev ex'
                              [empty_record\<lparr>wr_Type := RecordExpire, wr_Key := Arg cmd 0, wr_TTLNano := i64 (sec * 1000000000)\<rparr>]
                              (WriteInteger 1)
                       else reply ex' (WriteInteger 0)))"

definition cmd_RENAME :: "env \<Rightarrow> 'v executor \<Rightarrow> command \<Rightarrow> 'v dres" where
  "cmd_RENAME ev ex cmd =
     (if NumArgs cmd < 2 then wrong_args ex ''RENAME''
      else on_kv ex (kv_Rename (ev_now ev) (ev_now ev) (ev_now ev) (ex_kv ex) (Arg cmd 0) (Arg cmd 1)) (\<lambda>_. WriteOK))"

fun scan_pattern :: "string list \<Rightarrow> string \<Rightarrow> string" where
  "scan_pattern (o1 # v # r) pat = scan_pattern r (if ToUpper o1 = ''MATCH'' then v else pat)"
| "scan_pattern _ pat = pat"

definition cmd_SCAN :: "env \<Rightarrow> 'v executor \<Rightarrow> command \<Rightarrow> 'v dres" where
  "cmd_SCAN ev ex cmd =
     reply ex (WriteArray 2 @ WriteBulkStringStr ''0''
       @ WriteStrings (kv_Keys (ev_now ev) (ex_kv ex) (scan_pattern (args_from 1 cmd) ''*'')))"

definition dispatch_keys :: "env \<Rightarrow> 'v executor \<Rightarrow> command \<Rightarrow> 'v dres option" where
  "dispatch_keys ev ex cmd =
     (let name = Normalized cmd; now = ev_now ev; kv = ex_kv ex
      in if name = ''DEL'' then Some (cmd_DEL ev ex cmd)
         else if name = ''EXISTS'' then Some (cmd_EXISTS ev ex cmd)
         else if name = ''EXPIRE'' then Some (cmd_EXPIRE ev ex cmd)
         else if name = ''TTL'' then
           Some (if NumArgs cmd < 1 then wrong_args ex ''TTL'' else reply ex (WriteInteger (kv_TTL now now kv (Arg cmd 0))))
         else if name = ''PERSIST'' then
           Some (case kv_Persist now kv (Arg cmd 0) of (kv', ok) \<Rightarrow> reply (ex\<lparr>ex_kv := kv'\<rparr>) (write_bool ok))
         else if name = ''TYPE'' then Some (reply ex (WriteSimpleString (type_name (kv_Type now kv (Arg cmd 0)))))
         else if name = ''RENAME'' then Some (cmd_RENAME ev ex cmd)
         else if name = ''KEYS'' then
           Some (reply ex (WriteStrings (kv_Keys now kv (if NumArgs cmd > 0 then Arg cmd 0 else ''*''))))
         else if name = ''SCAN'' then Some (cmd_SCAN ev ex cmd)
         else None)"

section \<open>Strings\<close>

definition set_record :: "string \<Rightarrow> slice \<Rightarrow> int \<Rightarrow> walRecord" where
  "set_record key val ttlNano = empty_record\<lparr>wr_Type := RecordSet, wr_Key := key, wr_Value := val, wr_TTLNano := ttlNano\<rparr>"

definition cmd_GET :: "env \<Rightarrow> 'v executor \<Rightarrow> command \<Rightarrow> 'v dres" where
  "cmd_GET ev ex cmd =
     (if NumArgs cmd < 1 then wrong_args ex ''GET''
      else on_res ex (Str_Get (ev_now ev) (ex_kv ex) (Arg cmd 0)) WriteBulkString)"

definition cmd_SET :: "env \<Rightarrow> 'v executor \<Rightarrow> command \<Rightarrow> 'v dres" where
  "cmd_SET ev ex cmd =
     (if NumArgs cmd < 2 then wrong_args ex ''SET''
      else case (if NumArgs cmd = 2 then Ok (ArgBytes cmd 1, 0, False, False) else ParseSetArgs (tl (cmd_Args cmd))) of
             Err e \<Rightarrow> err_reply ex (err_text e)
           | Panic \<Rightarrow> (ex, [], DPanic)
           | Ok (val, ttl, nx, xx) \<Rightarrow>
               (case Str_Set (ev_now ev) (ex_kv ex) (Arg cmd 0) val ttl nx xx of
                  (kv, ok) \<Rightarrow>
                    let ex' = ex\<lparr>ex_kv := kv\<rparr>
                    in if \<not> ok then reply ex' WriteNull
                       else then_log ev ex' [set_record (Arg cmd 0) val (i64 (ttl * 1000000))] WriteOK))"

definition cmd_SETEX :: "env \<Rightarrow> 'v executor \<Rightarrow> command \<Rightarrow> 'v dres" where
  "cmd_SETEX ev ex cmd =
     (if NumArgs cmd < 3 then wrong_args ex ''SETEX''
      else case ParseInt (Arg cmd 1) of (seconds, e) \<Rightarrow>
             if e \<noteq> None \<or> seconds \<le> 0
             then err_reply ex (''ERR invalid expire time in '' @ [CHR 0x27] @ ''setex'' @ [CHR 0x27] @ '' command'')
             else let val = ArgBytes cmd 2;
                      ex' = ex\<lparr>ex_kv := fst (Str_Set (ev_now ev) (ex_kv ex) (Arg cmd 0) val seconds False False)\<rparr>
                  in then_log ev ex' [set_record (Arg cmd 0) val (i64 (seconds * 1000000))] WriteOK)"

fun pair_args :: "(string, slice) gomap \<Rightarrow> slice list \<Rightarrow> (string, slice) gomap" where
  "pair_args m (k # v # r) = pair_args (AList.update (sl k) v m) r"
| "pair_args m _ = m"

definition cmd_MSET :: "env \<Rightarrow> 'v executor \<Rightarrow> command \<Rightarrow> 'v dres" where
  "cmd_MSET ev ex cmd =
     (if NumArgs cmd < 2 \<or> odd (NumArgs cmd) then wrong_args ex ''MSET''
      else let pairs = pair_args [] (cmd_Args cmd); ex' = ex\<lparr>ex_kv := Str_MSet (ev_now ev) (ex_kv ex) pairs\<rparr>
           in then_log ev ex' (map (\<lambda>(k, v). set_record k v 0) pairs) WriteOK)"

definition cmd_INCR :: "env \<Rightarrow> 'v executor \<Rightarrow> command \<Rightarrow> int \<Rightarrow> 'v dres" where
  "cmd_INCR ev ex cmd by = on_kv ex (Str_Incr (ev_now ev) (ex_kv ex) (Arg cmd 0) by) WriteInteger"

definition cmd_INCRBY :: "env \<Rightarrow> 'v executor \<Rightarrow> command \<Rightarrow> bool \<Rightarrow> 'v dres" where
  "cmd_INCRBY ev ex cmd neg =
     (if NumArgs cmd < 2 then wrong_args ex (if neg then ''DECRBY'' else ''INCRBY'')
      else case ParseInt (Arg cmd 1) of
             (_, Some _) \<Rightarrow> err_reply ex ErrNotInteger
           | (by, None) \<Rightarrow> cmd_INCR ev ex cmd (if neg then i64 (- by) else by))"

definition cmd_APPEND :: "env \<Rightarrow> 'v executor \<Rightarrow> command \<Rightarrow> 'v dres" where
  "cmd_APPEND ev ex cmd =
     (if NumArgs cmd < 2 then wrong_args ex ''APPEND''
      else on_kv ex (Str_Append (ev_now ev) (ex_kv ex) (Arg cmd 0) (ArgBytes cmd 1)) WriteInteger)"

definition cmd_GETRANGE :: "env \<Rightarrow> 'v executor \<Rightarrow> command \<Rightarrow> 'v dres" where
  "cmd_GETRANGE ev ex cmd =
     (if NumArgs cmd < 3 then wrong_args ex ''GETRANGE''
      else on_res ex (Str_GetRange (ev_now ev) (ex_kv ex) (Arg cmd 0) (int_arg cmd 1) (int_arg cmd 2)) WriteBulkString)"

definition cmd_SETNX :: "env \<Rightarrow> 'v executor \<Rightarrow> command \<Rightarrow> 'v dres" where
  "cmd_SETNX ev ex cmd =
     (if NumArgs cmd < 2 then wrong_args ex ''SETNX''
      else case Str_Set (ev_now ev) (ex_kv ex) (Arg cmd 0) (ArgBytes cmd 1) 0 True False of
             (kv, ok) \<Rightarrow> reply (ex\<lparr>ex_kv := kv\<rparr>) (write_bool ok))"

definition cmd_GETSET :: "env \<Rightarrow> 'v executor \<Rightarrow> command \<Rightarrow> 'v dres" where
  "cmd_GETSET ev ex cmd =
     on_kv ex (Str_GetSet (ev_now ev) (ex_kv ex) (Arg cmd 0) (ArgBytes cmd 1)) WriteBulkString"

definition dispatch_strings :: "env \<Rightarrow> 'v executor \<Rightarrow> command \<Rightarrow> 'v dres option" where
  "dispatch_strings ev ex cmd =
     (let name = Normalized cmd
      in if name = ''GET'' then Some (cmd_GET ev ex cmd)
         else if name = ''SET'' then Some (cmd_SET ev ex cmd)
         else if name = ''SETEX'' then Some (cmd_SETEX ev ex cmd)
         else if name = ''MGET'' then
           Some (reply ex (WriteBytes (Str_MGet (ev_now ev) (ex_kv ex) (args_from 0 cmd))))
         else if name = ''MSET'' then Some (cmd_MSET ev ex cmd)
         else if name = ''INCR'' then Some (cmd_INCR ev ex cmd 1)
         else if name = ''DECR'' then Some (cmd_INCR ev ex cmd (-1))
         else if name = ''INCRBY'' then Some (cmd_INCRBY ev ex cmd False)
         else if name = ''DECRBY'' then Some (cmd_INCRBY ev ex cmd True)
         else if name = ''APPEND'' then Some (cmd_APPEND ev ex cmd)
         else if name = ''STRLEN'' then Some (on_res ex (Str_Strlen (ev_now ev) (ex_kv ex) (Arg cmd 0)) WriteInteger)
         else if name = ''GETRANGE'' then Some (cmd_GETRANGE ev ex cmd)
         else if name = ''SETNX'' then Some (cmd_SETNX ev ex cmd)
         else if name = ''GETSET'' then Some (cmd_GETSET ev ex cmd)
         else None)"

section \<open>Hashes\<close>

definition cmd_HSET :: "env \<Rightarrow> 'v executor \<Rightarrow> command \<Rightarrow> 'v dres" where
  "cmd_HSET ev ex cmd =
     (if NumArgs cmd < 3 then wrong_args ex (Normalized cmd)
      else if odd (NumArgs cmd - 1) then err_reply ex ErrSyntaxMsg
      else on_kv ex (HSet (ev_now ev) (ex_kv ex) (Arg cmd 0) (pair_args [] (tl (cmd_Args cmd))))
             (\<lambda>n. if Normalized cmd = ''HMSET'' then WriteOK else WriteInteger n))"

definition cmd_HGETALL :: "env \<Rightarrow> 'v executor \<Rightarrow> command \<Rightarrow> 'v dres" where
  "cmd_HGETALL ev ex cmd =
     on_res ex (HGetAll (ev_now ev) (ex_kv ex) (Arg cmd 0)) (\<lambda>m.
       let fs = (case m of None \<Rightarrow> [] | Some fs \<Rightarrow> fs)
       in WriteArray (int (length fs) * 2) @ concat (map (\<lambda>(k, v). WriteBulkStringStr k @ WriteBulkString v) fs))"

definition dispatch_hash :: "env \<Rightarrow> 'v executor \<Rightarrow> command \<Rightarrow> 'v dres option" where
  "dispatch_hash ev ex cmd =
     (let name = Normalized cmd; now = ev_now ev; kv = ex_kv ex; key = Arg cmd 0
      in if name = ''HSET'' \<or> name = ''HMSET'' then Some (cmd_HSET ev ex cmd)
         else if name = ''HGET'' then
           Some (if NumArgs cmd < 2 then wrong_args ex ''HGET'' else on_res ex (HGet now kv key (Arg cmd 1)) WriteBulkString)
         else if name = ''HMGET'' then
           Some (if NumArgs cmd < 2 then wrong_args ex ''HMGET'' else on_res ex (HMGet now kv key (args_from 1 cmd)) WriteBytes)
         else if name = ''HDEL'' then
           Some (if NumArgs cmd < 2 then wrong_args ex ''HDEL'' else on_kv ex (HDel now kv key (args_from 1 cmd)) WriteInteger)
         else if name = ''HGETALL'' then Some (cmd_HGETALL ev ex cmd)
         else if name = ''HKEYS'' then Some (on_res ex (HKeys now kv key) WriteStrings)
         else if name = ''HVALS'' then Some (on_res ex (HVals now kv key) WriteBytes)
         else if name = ''HLEN'' then Some (on_res ex (HLen now kv key) WriteInteger)
         else if name = ''HEXISTS'' then Some (on_res ex (HExists now kv key (Arg cmd 1)) write_bool)
         else if name = ''HINCRBY'' then
           Some (if NumArgs cmd < 3 then wrong_args ex ''HINCRBY''
                 else on_kv ex (HIncrBy now kv key (Arg cmd 1) (fst (ParseInt (Arg cmd 2)))) WriteInteger)
         else None)"

section \<open>Lists and sets\<close>

definition write_first :: "slice list \<Rightarrow> bytes" where
  "write_first vals = (case vals of [] \<Rightarrow> WriteNull | v # _ \<Rightarrow> WriteBulkString v)"

definition dispatch_list :: "env \<Rightarrow> 'v executor \<Rightarrow> command \<Rightarrow> 'v dres option" where
  "dispatch_list ev ex cmd =
     (let name = Normalized cmd; now = ev_now ev; kv = ex_kv ex; key = Arg cmd 0;
          items = (\<lambda>v. case v of None \<Rightarrow> [] | Some xs \<Rightarrow> xs)
      in if name = ''LPUSH'' then
           Some (if NumArgs cmd < 2 then wrong_args ex ''LPUSH'' else on_kv ex (LPush now kv key (tl (cmd_Args cmd))) WriteInteger)
         else if name = ''RPUSH'' then
           Some (if NumArgs cmd < 2 then wrong_args ex ''RPUSH'' else on_kv ex (RPush now kv key (tl (cmd_Args cmd))) WriteInteger)
         else if name = ''LPOP'' then Some (on_kv ex (LPop now kv key 1) (\<lambda>v. write_first (items v)))
         else if name = ''RPOP'' then Some (on_kv ex (RPop now kv key 1) (\<lambda>v. write_first (items v)))
         else if name = ''LRANGE'' then
           Some (if NumArgs cmd < 3 then wrong_args ex ''LRANGE''
                 else on_res ex (LRange now kv key (int_arg cmd 1) (int_arg cmd 2)) (\<lambda>v. WriteBytes (items v)))
         else if name = ''LLEN'' then Some (on_res ex (LLen now kv key) WriteInteger)
         else if name = ''LINDEX'' then
           Some (if NumArgs cmd < 2 then wrong_args ex ''LINDEX'' else on_res ex (LIndex now kv key (int_arg cmd 1)) WriteBulkString)
         else None)"

definition dispatch_set :: "env \<Rightarrow> 'v executor \<Rightarrow> command \<Rightarrow> 'v dres option" where
  "dispatch_set ev ex cmd =
     (let name = Normalized cmd; now = ev_now ev; kv = ex_kv ex; key = Arg cmd 0
      in if name = ''SADD'' then
           Some (if NumArgs cmd < 2 then wrong_args ex ''SADD'' else on_kv ex (SAdd now kv key (args_from 1 cmd)) WriteInteger)
         else if name = ''SREM'' then
           Some (if NumArgs cmd < 2 then wrong_args ex ''SREM'' else on_kv ex (SRem now kv key (args_from 1 cmd)) WriteInteger)
         else if name = ''SMEMBERS'' then Some (on_res ex (SMembers now kv key) (\<lambda>ms. WriteBytes (map Some ms)))
         else if name = ''SISMEMBER'' then Some (on_res ex (SIsMember now kv key (sl (ArgBytes cmd 1))) write_bool)
         else if name = ''SCARD'' then Some (on_res ex (SCard now kv key) WriteInteger)
         else if name = ''SPOP'' then
           Some (on_kv ex (SPop (ev_shuffle ev) now kv key 1) (\<lambda>ms. write_first (map Some ms)))
         else None)"

section \<open>Sorted sets and bitmaps\<close>

fun score_args :: "(string \<Rightarrow> f64) \<Rightarrow> (string, f64) gomap \<Rightarrow> string list \<Rightarrow> (string, f64) gomap" where
  "score_args pf m (score # member # r) = score_args pf (AList.update member (pf score) m) r"
| "score_args pf m _ = m"

definition cmd_ZRANGE :: "env \<Rightarrow> 'v executor \<Rightarrow> command \<Rightarrow> 'v dres" where
  "cmd_ZRANGE ev ex cmd =
     (if NumArgs cmd < 3 then wrong_args ex ''ZRANGE''
      else let withScores = (NumArgs cmd > 3 \<and> ToUpper (Arg cmd 3) = ''WITHSCORES'')
           in on_res ex (ZRange (ev_now ev) (ex_kv ex) (Arg cmd 0) (int_arg cmd 1) (int_arg cmd 2)) (\<lambda>ms.
                if withScores
                then WriteArray (int (length ms) * 2)
                       @ concat (map (\<lambda>m. WriteBulkStringStr (zm_Member m) @ WriteFloat ev (zm_Score m)) ms)
                else WriteArray (int (length ms)) @ concat (map (\<lambda>m. WriteBulkStringStr (zm_Member m)) ms)))"

definition dispatch_zset :: "env \<Rightarrow> 'v executor \<Rightarrow> command \<Rightarrow> 'v dres option" where
  "dispatch_zset ev ex cmd =
     (let name = Normalized cmd; now = ev_now ev; kv = ex_kv ex; key = Arg cmd 0
      in if name = ''ZADD'' then
           Some (if NumArgs cmd < 3 then wrong_args ex ''ZADD''
                 else on_kv ex (ZAdd now kv key (score_args (ev_parseFloat ev) [] (args_from 1 cmd))) WriteInteger)
         else if name = ''ZREM'' then
           Some (if NumArgs cmd < 2 then wrong_args ex ''ZREM'' else on_kv ex (ZRem now kv key (args_from 1 cmd)) WriteInteger)
         else if name = ''ZSCORE'' then
           Some (on_res ex (ZScore now kv key (Arg cmd 1)) (\<lambda>(score, ok). if ok then WriteFloat ev score else WriteNull))
         else if name = ''ZRANK'' then
           Some (on_res ex (ZRank now kv key (Arg cmd 1)) (\<lambda>(rank, ok). if ok then WriteInteger rank else WriteNull))
         else if name = ''ZCARD'' then Some (on_res ex (ZCard now kv key) WriteInteger)
         else if name = ''ZINCRBY'' then
           Some (if NumArgs cmd < 3 then wrong_args ex ''ZINCRBY''
                 else on_kv ex (ZIncrBy now kv key (Arg cmd 2) (ev_parseFloat ev (Arg cmd 1))) (WriteFloat ev))
         else if name = ''ZRANGE'' then Some (cmd_ZRANGE ev ex cmd)
         else None)"

definition dispatch_bitmap :: "env \<Rightarrow> 'v executor \<Rightarrow> command \<Rightarrow> 'v dres option" where
  "dispatch_bitmap ev ex cmd =
     (let name = Normalized cmd; now = ev_now ev; kv = ex_kv ex; key = Arg cmd 0
      in if name = ''SETBIT'' then
           Some (if NumArgs cmd < 3 then wrong_args ex ''SETBIT''
                 else on_kv ex (SetBit now kv key (int_arg cmd 1) (int_arg cmd 2)) WriteInteger)
         else if name = ''GETBIT'' then
           Some (if NumArgs cmd < 2 then wrong_args ex ''GETBIT'' else on_res ex (GetBit now kv key (int_arg cmd 1)) WriteInteger)
         else if name = ''BITCOUNT'' then Some (on_res ex (BitCount now kv key 0 (-1) False) WriteInteger)
         else if name = ''BITPOS'' then
           Some (if NumArgs cmd < 2 then wrong_args ex ''BITPOS'' else on_res ex (BitPos now kv key (int_arg cmd 1)) WriteInteger)
         else None)"

section \<open>Streams, publish and subscribe\<close>

definition cmd_XADD :: "env \<Rightarrow> 'v executor \<Rightarrow> command \<Rightarrow> 'v dres" where
  "cmd_XADD ev ex cmd =
     (if NumArgs cmd < 4 then wrong_args ex ''XADD''
      else case ParseXAddArgs (cmd_Args cmd) of
             Err e \<Rightarrow> err_reply ex (err_text e)
           | Panic \<Rightarrow> (ex, [], DPanic)
           | Ok (_, i, flds, maxLen) \<Rightarrow>
               on_kv ex (XAdd (ev_now ev) (ex_kv ex) (Arg cmd 0) i flds maxLen) WriteBulkStringStr)"

definition write_entries :: "streamEntry list \<Rightarrow> bytes" where
  "write_entries es =
     WriteArray (int (length es)) @ concat (map (\<lambda>e.
       WriteArray 2 @ WriteBulkStringStr (se_ID e) @ WriteArray (int (length (se_Fields e)) * 2)
       @ concat (map (\<lambda>(k, v). WriteBulkStringStr k @ WriteBulkStringStr v) (se_Fields e))) es)"

definition dispatch_stream :: "env \<Rightarrow> 'v executor \<Rightarrow> command \<Rightarrow> 'v dres option" where
  "dispatch_stream ev ex cmd =
     (let name = Normalized cmd; now = ev_now ev; kv = ex_kv ex; key = Arg cmd 0
      in if name = ''XADD'' then Some (cmd_XADD ev ex cmd)
         else if name = ''XLEN'' then Some (on_res ex (XLen now kv key) WriteInteger)
         else if name = ''XRANGE'' then
           Some (if NumArgs cmd < 3 then wrong_args ex ''XRANGE''
                 else on_res ex (XRange now kv key (Arg cmd 1) (Arg cmd 2) 0) write_entries)
         else if name = ''XREVRANGE'' then
           Some (if NumArgs cmd < 3 then wrong_args ex ''XREVRANGE''
                 else on_res ex (XRange now kv key (Arg cmd 2) (Arg cmd 1) 0) (\<lambda>es. write_entries (rev es)))
         else None)"

fun write_subscribed :: "int \<Rightarrow> string list \<Rightarrow> bytes" where
  "write_subscribed i [] = []"
| "write_subscribed i (ch # chs) =
     WriteArray 3 @ WriteBulkStringStr ''subscribe'' @ WriteBulkStringStr ch @ WriteInteger (i + 1)
     @ write_subscribed (i + 1) chs"

definition dispatch_pubsub :: "'v executor \<Rightarrow> command \<Rightarrow> 'v dres option" where
  "dispatch_pubsub ex cmd =
     (let name = Normalized cmd
      in if name = ''PUBLISH'' then
           Some (if NumArgs cmd < 2 then wrong_args ex ''PUBLISH''
                 else case Publish (ex_pubsub ex) (Arg cmd 0) (ArgBytes cmd 1) of
                        None \<Rightarrow> (ex, [], DPanic)
                      | Some (p, n) \<Rightarrow> reply (ex\<lparr>ex_pubsub := p\<rparr>) (WriteInteger n))
         else if name = ''SUBSCRIBE'' then
           Some (if NumArgs cmd < 1 then wrong_args ex ''SUBSCRIBE''
                 else reply (ex\<lparr>ex_pubsub := fst (Subscribe (ex_pubsub ex) (args_from 0 cmd))\<rparr>)
                        (write_subscribed 0 (args_from 0 cmd)))
         else if name = ''UNSUBSCRIBE'' then Some (reply ex WriteOK)
         else None)"

section \<open>Introspection\<close>

definition encoding_name :: "dataType \<Rightarrow> string" where
  "encoding_name t =
     (if t = TypeString then ''embstr''
      else if t = TypeHash \<or> t = TypeList \<or> t = TypeSet then ''listpack''
      else if t = TypeZSet then ''skiplist'' else ''raw'')"

definition cmd_OBJECT :: "env \<Rightarrow> 'v executor \<Rightarrow> command \<Rightarrow> 'v dres" where
  "cmd_OBJECT ev ex cmd =
     (if NumArgs cmd < 2 then wrong_args ex ''OBJECT''
      else let sub = ToUpper (Arg cmd 0)
           in if sub = ''ENCODING'' then reply ex (WriteBulkStringStr (encoding_name (kv_Type (ev_now ev) (ex_kv ex) (Arg cmd 1))))
              else if sub = ''IDLETIME'' then reply ex (WriteInteger 0)
              else if sub = ''REFCOUNT'' then reply ex (WriteInteger 1)
              else err_reply ex ''ERR unknown OBJECT subcommand'')"

definition cmd_MVCC :: "'v executor \<Rightarrow> command \<Rightarrow> 'v dres" where
  "cmd_MVCC ex cmd =
     (if NumArgs cmd < 1 then wrong_args ex ''DBX.MVCC''
      else let sub = ToUpper (Arg cmd 0); v = CurrentVersion (ex_mvcc ex)
           in if sub = ''VERSION'' then reply ex (WriteInteger (sint v))
              else if sub = ''SNAPSHOT'' then reply ex (WriteBulkStringStr (''snapshot:'' @ FormatInt (uint v)))
              else err_reply ex ''ERR unknown DBX.MVCC subcommand'')"

definition cmd_SNAPSHOT :: "'v executor \<Rightarrow> command \<Rightarrow> 'v dres" where
  "cmd_SNAPSHOT ex cmd =
     (if NumArgs cmd < 1 then wrong_args ex ''DBX.SNAPSHOT''
      else let sub = ToUpper (Arg cmd 0)
           in if sub = ''NOW'' then reply ex (WriteBulkStringStr ''Background snapshot initiated'')
              else if sub = ''STATUS'' then reply ex (WriteBulkStringStr ''idle'')
              else err_reply ex ''ERR unknown DBX.SNAPSHOT subcommand'')"

definition cmd_KEYSPACE :: "env \<Rightarrow> 'v executor \<Rightarrow> 'v dres" where
  "cmd_KEYSPACE ev ex =
     reply ex (WriteBulkStringStr (''# DBX Keyspace'' @ crlf
       @ concat (map (\<lambda>(t, n). t @ '':'' @ FormatInt n @ crlf) (kv_KeyspaceStats (ev_now ev) (ex_kv ex)))))"

definition dispatch_info :: "env \<Rightarrow> 'v executor \<Rightarrow> command \<Rightarrow> 'v dres option" where
  "dispatch_info ev ex cmd =
     (let name = Normalized cmd
      in if name = ''OBJECT'' then Some (cmd_OBJECT ev ex cmd)
         else if name = ''DBX.MVCC'' then Some (cmd_MVCC ex cmd)
         else if name = ''DBX.SNAPSHOT'' then Some (cmd_SNAPSHOT ex cmd)
         else if name = ''DBX.KEYSPACE'' then Some (cmd_KEYSPACE ev ex)
         else None)"

end
