(* ===== verification/VectorCommands.thy ===== *)
theory VectorCommands
  imports Commands
begin

text \<open>
  The vector commands that change state (\<^verbatim>\<open>VADD\<close>, \<^verbatim>\<open>VADD_BATCH\<close>, \<^verbatim>\<open>VADDBIN\<close>, \<^verbatim>\<open>VMIGRATE\<close>, \<^verbatim>\<open>VDEL\<close>,
  \<^verbatim>\<open>VCOMPACT\<close>) with their argument parsers, from \<^verbatim>\<open>src/internal/query/executor.go\<close>,
  \<^verbatim>\<open>src/internal/query/vector_query.go\<close> and \<^verbatim>\<open>src/internal/engine/vector_space.go\<close>. Each validates, writes
  its record to the log and then applies it to the vector store, whose operations are the argument \<open>v\<close>.
\<close>

section \<open>Spaces and encodings\<close>

definition vectorSpaceMark :: string where "vectorSpaceMark = [CHR 0x00] @ ''spc:''"
definition vectorSpaceSep :: string where "vectorSpaceSep = [CHR 0x1F]"

definition space_char :: "char \<Rightarrow> bool" where
  "space_char c \<longleftrightarrow>
     (let n = of_char c :: nat
      in 97 \<le> n \<and> n \<le> 122 \<or> 65 \<le> n \<and> n \<le> 90 \<or> 48 \<le> n \<and> n \<le> 57 \<or> c = CHR ''_'' \<or> c = CHR ''-'' \<or> c = CHR ''.'')"

definition ValidateSpaceName :: "string \<Rightarrow> string option" where
  "ValidateSpaceName name =
     (if name = [] then Some ''space name must not be empty''
      else if length name > 64 then Some ''space name must be at most 64 bytes''
      else if \<not> list_all space_char name
      then Some (''space name may contain letters, digits, '' @ [CHR 0x27] @ ''_'' @ [CHR 0x27] @ '', '' @ [CHR 0x27] @ ''-''
                 @ [CHR 0x27] @ '', and '' @ [CHR 0x27] @ ''.'' @ [CHR 0x27] @ '' only'')
      else None)"

definition VectorSpaceKey :: "string \<Rightarrow> string \<Rightarrow> string" where
  "VectorSpaceKey index space = (if space = [] then index else vectorSpaceMark @ index @ vectorSpaceSep @ space)"

text \<open>Two different index names and spaces can share a storage key when an index name looks like a
  storage key.\<close>

lemma VectorSpaceKey_not_injective:
  "VectorSpaceKey (vectorSpaceMark @ ''a'' @ vectorSpaceSep @ ''s'') [] = VectorSpaceKey ''a'' ''s''"
  by (simp add: VectorSpaceKey_def)

text \<open>The error text quotes the value with \<^verbatim>\<open>%q\<close>, here for a printable value.\<close>

definition NormalizeVectorEncoding :: "string \<Rightarrow> string + string" where
  "NormalizeVectorEncoding value =
     (let s = ToLower (TrimSpace value)
      in if s \<in> {[], ''sq8'', ''int8''} then Inr ''sq8''
         else if s \<in> {''float32'', ''fp32''} then Inr ''float32''
         else Inl (''vector encoding '' @ [CHR 0x22] @ value @ [CHR 0x22] @ '' is not supported; use sq8 or float32''))"

section \<open>Arguments\<close>

definition parseOptionalSpace :: "command \<Rightarrow> nat \<Rightarrow> string + string \<times> nat" where
  "parseOptionalSpace cmd pos =
     (if pos + 1 \<ge> NumArgs cmd \<or> ToUpper (Arg cmd pos) \<noteq> ''SPACE'' then Inr ([], pos)
      else let name = Arg cmd (pos + 1)
           in case ValidateSpaceName name of Some e \<Rightarrow> Inl e | None \<Rightarrow> Inr (name, pos + 2))"

definition bad_float :: "string \<Rightarrow> string" where
  "bad_float s = ''value is not a valid float: '' @ [CHR 0x27] @ s @ [CHR 0x27]"

fun parse_floats :: "(string \<Rightarrow> f32 option) \<Rightarrow> string list \<Rightarrow> string + f32 list" where
  "parse_floats pf [] = Inr []"
| "parse_floats pf (s # ss) =
     (case pf s of
        None \<Rightarrow> Inl (bad_float s)
      | Some x \<Rightarrow> (case parse_floats pf ss of Inl e \<Rightarrow> Inl e | Inr xs \<Rightarrow> Inr (x # xs)))"

definition parseFloatArgs :: "(string \<Rightarrow> f32 option) \<Rightarrow> command \<Rightarrow> nat \<Rightarrow> nat \<Rightarrow> string + f32 list" where
  "parseFloatArgs pf cmd start stop =
     (if stop < start then Inl ''invalid vector argument range''
      else parse_floats pf (map (Arg cmd) [start..<stop]))"

text \<open>The loops of \<^verbatim>\<open>VADD_BATCH\<close> and \<^verbatim>\<open>VADDBIN\<close>.\<close>

fun parse_batch :: "(string \<Rightarrow> f32 option) \<Rightarrow> nat \<Rightarrow> nat \<Rightarrow> string list \<Rightarrow> string + string list \<times> f32 list list" where
  "parse_batch pf d 0 args = Inr ([], [])"
| "parse_batch pf d (Suc n) args =
     (case parse_floats pf (take d (tl args)) of
        Inl e \<Rightarrow> Inl (''ERR '' @ e)
      | Inr x \<Rightarrow> (case parse_batch pf d n (drop d (tl args)) of
                   Inl e \<Rightarrow> Inl e
                 | Inr (ids, vs) \<Rightarrow> Inr ((case args of [] \<Rightarrow> [] | a # _ \<Rightarrow> a) # ids, x # vs)))"

definition le_floats :: "nat \<Rightarrow> bytes \<Rightarrow> f32 list" where
  "le_floats d b = map (\<lambda>j. of_nat (le_val (take 4 (drop (4 * j) b)))) [0..<d]"

function parse_bin :: "int \<Rightarrow> int \<Rightarrow> bytes \<Rightarrow> string + (string list \<times> f32 list list) option" where
  "parse_bin d off [] = Inr (Some ([], []))"
| "parse_bin d off (c # b) =
     (let n = of_char c :: nat
      in if n > length b then Inl ''ERR malformed binary payload (id bounds)''
         else let b1 = drop n b; vbs = i64 (d * 4); off1 = off + 1 + int n; stop = i64 (off1 + vbs)
              in if stop > off1 + int (length b1) then Inl ''ERR malformed binary payload (vector bounds)''
                 else if vbs \<le> 0 \<or> stop < off1 then Inr None
                 else case parse_bin d stop (drop (nat vbs) b1) of
                        Inl e \<Rightarrow> Inl e
                      | Inr None \<Rightarrow> Inr None
                      | Inr (Some (ids, vs)) \<Rightarrow>
                          Inr (Some (take n b # ids, le_floats (nat d) (take (nat vbs) b1) # vs)))"
  by pat_completeness auto
termination by (relation "measure (\<lambda>(d, off, b). length b)") auto

section \<open>Commands\<close>

text \<open>Log, then apply; a failure to apply what is already logged takes the tenant out of service.\<close>

definition log_and_apply ::
  "env \<Rightarrow> 'v executor \<Rightarrow> walRecord \<Rightarrow> ('v est \<Rightarrow> 'v est \<times> (string + 'r)) \<Rightarrow> string \<Rightarrow> ('v executor \<Rightarrow> 'r \<Rightarrow> 'v dres) \<Rightarrow> 'v dres" where
  "log_and_apply ev ex rec op failed k =
     (case writeWAL ev ex rec of
        (ex1, False) \<Rightarrow> wal_failed ev ex1
      | (ex1, True) \<Rightarrow>
          (case op (est ex1) of
             (st, Inl e) \<Rightarrow> err_reply ((set_est ex1 st)\<lparr>ex_ready := False\<rparr>) (failed @ e)
           | (st, Inr r) \<Rightarrow> k (set_est ex1 st) r))"

definition vec_record :: "nat \<Rightarrow> string \<Rightarrow> slice \<Rightarrow> walRecord" where
  "vec_record ty key val = empty_record\<lparr>wr_Type := ty, wr_Key := key, wr_Value := val\<rparr>"

definition cmd_VADD :: "'v vecops \<Rightarrow> env \<Rightarrow> 'v executor \<Rightarrow> command \<Rightarrow> 'v dres" where
  "cmd_VADD v ev ex cmd =
     (if NumArgs cmd < 3 then wrong_args ex ''VADD''
      else case parseOptionalSpace cmd 2 of
             Inl e \<Rightarrow> err_reply ex e
           | Inr (space, start) \<Rightarrow>
               if start \<ge> NumArgs cmd then wrong_args ex ''VADD''
               else case parseFloatArgs (ev_parseFloat32 ev) cmd start (NumArgs cmd) of
                      Inl e \<Rightarrow> err_reply ex e
                    | Inr vec \<Rightarrow>
                        let key = VectorSpaceKey (Arg cmd 0) space; i = Arg cmd 1
                        in case vo_ValidateAdd v key i vec (est ex) of
                             Some e \<Rightarrow> err_reply ex e
                           | None \<Rightarrow>
                               log_and_apply ev ex (vec_record RecordVAdd key (Some (EncodeVAddPayload i vec)))
                                 (vo_VAdd v key i vec) ''ERR vector apply failed after WAL append: ''
                                 (\<lambda>ex _. reply ex (WriteInteger 1)))"

definition add_batch ::
  "'v vecops \<Rightarrow> env \<Rightarrow> 'v executor \<Rightarrow> string \<Rightarrow> nat \<Rightarrow> string list \<Rightarrow> f32 list list \<Rightarrow> 'v dres" where
  "add_batch v ev ex key d ids vecs =
     (case vo_ValidateAddBatch v key d ids vecs (est ex) of
        Some e \<Rightarrow> err_reply ex e
      | None \<Rightarrow>
          (case EncodeVAddBatchPayload d ids vecs of
             Ok payload \<Rightarrow>
               log_and_apply ev ex (vec_record RecordVAddBatch key (Some payload))
                 (vo_VAddBatch v key d ids vecs) ''ERR vector apply failed after WAL append: ''
                 (\<lambda>ex _. reply ex (WriteInteger (int (length ids))))
           | _ \<Rightarrow> (ex, [], DPanic)))"

definition cmd_VADD_BATCH :: "'v vecops \<Rightarrow> env \<Rightarrow> 'v executor \<Rightarrow> command \<Rightarrow> 'v dres" where
  "cmd_VADD_BATCH v ev ex cmd =
     (if NumArgs cmd < 4 then wrong_args ex ''VADD_BATCH''
      else case Atoi (Arg cmd 1) of (d, e) \<Rightarrow>
             if e \<noteq> None \<or> d \<le> 0 then err_reply ex ''ERR dim is not a valid positive integer''
             else case parseOptionalSpace cmd 2 of
                    Inl e \<Rightarrow> err_reply ex e
                  | Inr (space, argIdx) \<Rightarrow>
                      let remaining = int (NumArgs cmd - argIdx); step = i64 (d + 1); n = go_div remaining step
                      in if remaining - n * step \<noteq> 0
                         then err_reply ex ''ERR incorrect number of arguments for the given dimension''
                         else if n > 1000 then err_reply ex ''ERR batch size too large, maximum is 1000 vectors per command''
                         else case parse_batch (ev_parseFloat32 ev) (nat d) (nat n) (args_from argIdx cmd) of
                                Inl e \<Rightarrow> err_reply ex e
                              | Inr (ids, vecs) \<Rightarrow> add_batch v ev ex (VectorSpaceKey (Arg cmd 0) space) (nat d) ids vecs)"

definition cmd_VADDBIN :: "'v vecops \<Rightarrow> env \<Rightarrow> 'v executor \<Rightarrow> command \<Rightarrow> 'v dres" where
  "cmd_VADDBIN v ev ex cmd =
     (if NumArgs cmd \<noteq> 3 then wrong_args ex ''VADDBIN''
      else case Atoi (Arg cmd 1) of (d, e) \<Rightarrow>
             if e \<noteq> None \<or> d \<le> 0 then err_reply ex ''ERR invalid dimension''
             else case parse_bin d 0 (Arg cmd 2) of
                    Inl e \<Rightarrow> err_reply ex e
                  | Inr None \<Rightarrow> (ex, [], DPanic)
                  | Inr (Some (ids, vecs)) \<Rightarrow> add_batch v ev ex (Arg cmd 0) (nat d) ids vecs)"

definition cmd_VMIGRATE_START :: "'v vecops \<Rightarrow> env \<Rightarrow> 'v executor \<Rightarrow> command \<Rightarrow> 'v dres" where
  "cmd_VMIGRATE_START v ev ex cmd =
     (if NumArgs cmd < 3 then err_reply ex ''ERR wrong number of arguments for VMIGRATE START''
      else case Atoi (Arg cmd 2) of (d, e) \<Rightarrow>
             if e \<noteq> None \<or> d \<le> 0 then err_reply ex ''ERR invalid dimension''
             else case NormalizeVectorEncoding (if NumArgs cmd \<ge> 4 then Arg cmd 3 else ''sq8'') of
                    Inl e \<Rightarrow> err_reply ex e
                  | Inr enc \<Rightarrow>
                      log_and_apply ev ex
                        (vec_record RecordVMigrateStart (Arg cmd 1) (Some (EncodeVMigrateStartPayload d enc)))
                        (vo_StartMigration v (Arg cmd 1) d enc) ''ERR migrate start failed after WAL append: ''
                        (\<lambda>ex _. reply ex (WriteSimpleString ''OK'')))"

definition cmd_VMIGRATE_ADD :: "'v vecops \<Rightarrow> env \<Rightarrow> 'v executor \<Rightarrow> command \<Rightarrow> 'v dres" where
  "cmd_VMIGRATE_ADD v ev ex cmd =
     (if NumArgs cmd < 4 then err_reply ex ''ERR wrong number of arguments for VMIGRATE ADD''
      else case parseFloatArgs (ev_parseFloat32 ev) cmd 3 (NumArgs cmd) of
             Inl e \<Rightarrow> err_reply ex e
           | Inr vec \<Rightarrow>
               if \<not> vo_MigrationActive v (Arg cmd 1) (est ex) then err_reply ex ''ERR no migration in progress''
               else log_and_apply ev ex
                      (vec_record RecordVMigrateAdd (Arg cmd 1) (Some (EncodeVAddPayload (Arg cmd 2) vec)))
                      (vo_InsertShadowVector v (Arg cmd 1) (Arg cmd 2) vec) ''ERR migrate add failed after WAL append: ''
                      (\<lambda>ex _. reply ex (WriteInteger 1)))"

definition cmd_VMIGRATE :: "'v vecops \<Rightarrow> env \<Rightarrow> 'v executor \<Rightarrow> command \<Rightarrow> 'v dres" where
  "cmd_VMIGRATE v ev ex cmd =
     (if NumArgs cmd < 2 then wrong_args ex ''VMIGRATE''
      else let sub = ToUpper (Arg cmd 0); key = Arg cmd 1
           in if sub = ''START'' then cmd_VMIGRATE_START v ev ex cmd
              else if sub = ''ADD'' then cmd_VMIGRATE_ADD v ev ex cmd
              else if sub = ''SWAP'' then
                (case vo_ValidateSwapMigration v key (est ex) of
                   Some e \<Rightarrow> err_reply ex e
                 | None \<Rightarrow>
                     log_and_apply ev ex (vec_record RecordVMigrateSwap key None) (vo_SwapMigration v key)
                       ''ERR migrate swap failed after WAL append: '' (\<lambda>ex _. reply ex (WriteSimpleString ''OK'')))
              else if sub = ''CANCEL'' then
                log_and_apply ev ex (vec_record RecordVMigrateCancel key None) (vo_CancelMigration v key)
                  ''ERR migrate cancel failed after WAL append: '' (\<lambda>ex _. reply ex (WriteSimpleString ''OK''))
              else err_reply ex ''ERR unknown VMIGRATE subcommand'')"

text \<open>After a deletion an index with more than a fifth of its rows deleted is compacted.\<close>

definition after_vdel :: "'v vecops \<Rightarrow> string \<Rightarrow> 'v executor \<Rightarrow> bool \<Rightarrow> 'v dres" where
  "after_vdel v key ex deleted =
     (let compact = (case vo_TombstoneRatio v key (est ex) of
                       Inl _ \<Rightarrow> False | Inr r \<Rightarrow> f_lt (round_f64 (1 / 5)) r)
      in if compact
         then case vo_VCompact v key (est ex) of
                (st, Inl e) \<Rightarrow> err_reply ((set_est ex st)\<lparr>ex_ready := False\<rparr>) (''ERR vector compaction failed: '' @ e)
              | (st, Inr _) \<Rightarrow> reply (set_est ex st) (write_bool deleted)
         else reply ex (write_bool deleted))"

definition cmd_VDEL :: "'v vecops \<Rightarrow> env \<Rightarrow> 'v executor \<Rightarrow> command \<Rightarrow> 'v dres" where
  "cmd_VDEL v ev ex cmd =
     (if NumArgs cmd < 2 then wrong_args ex ''VDEL''
      else case parseOptionalSpace cmd 2 of
             Inl e \<Rightarrow> err_reply ex e
           | Inr (space, nxt) \<Rightarrow>
               if nxt \<noteq> NumArgs cmd then wrong_args ex ''VDEL''
               else let key = VectorSpaceKey (Arg cmd 0) space; i = Arg cmd 1
                    in case vo_HasLiveVector v key i (est ex) of
                         Inl e \<Rightarrow> err_reply ex e
                       | Inr False \<Rightarrow> reply ex (WriteInteger 0)
                       | Inr True \<Rightarrow>
                           log_and_apply ev ex (vec_record RecordVTombstone key (Some i)) (vo_VDel v key i)
                             ''ERR vector tombstone apply failed after WAL append: '' (after_vdel v key))"

definition cmd_VCOMPACT :: "'v vecops \<Rightarrow> 'v executor \<Rightarrow> command \<Rightarrow> 'v dres" where
  "cmd_VCOMPACT v ex cmd =
     (if NumArgs cmd < 1 then wrong_args ex ''VCOMPACT''
      else case parseOptionalSpace cmd 1 of
             Inl e \<Rightarrow> err_reply ex e
           | Inr (space, nxt) \<Rightarrow>
               if nxt \<noteq> NumArgs cmd then wrong_args ex ''VCOMPACT''
               else case vo_VCompact v (VectorSpaceKey (Arg cmd 0) space) (est ex) of
                      (st, Inl e) \<Rightarrow> err_reply (set_est ex st) e
                    | (st, Inr removed) \<Rightarrow> reply (set_est ex st) (WriteInteger removed))"

definition dispatch_vector :: "'v vecops \<Rightarrow> env \<Rightarrow> 'v executor \<Rightarrow> command \<Rightarrow> 'v dres option" where
  "dispatch_vector v ev ex cmd =
     (let name = Normalized cmd
      in if name = ''VADD'' then Some (cmd_VADD v ev ex cmd)
         else if name = ''VADD_BATCH'' then Some (cmd_VADD_BATCH v ev ex cmd)
         else if name = ''VADDBIN'' then Some (cmd_VADDBIN v ev ex cmd)
         else if name = ''VMIGRATE'' then Some (cmd_VMIGRATE v ev ex cmd)
         else if name = ''VDEL'' then Some (cmd_VDEL v ev ex cmd)
         else if name = ''VCOMPACT'' then Some (cmd_VCOMPACT v ex cmd)
         else None)"

end
