(* ===== verification/Dispatch.thy ===== *)
theory Dispatch
  imports VectorCommands
begin

text \<open>
  \<^verbatim>\<open>Executor.Dispatch\<close> and \<^verbatim>\<open>Executor.Execute\<close> of \<^verbatim>\<open>src/internal/query/executor.go\<close>, and the Raft state
  machine of \<^verbatim>\<open>src/internal/query/fsm.go\<close> as far as it dispatches. The commands that need the metrics, the
  JSON package, the geo functions or a vector search are the argument \<open>rest\<close>. \<^verbatim>\<open>EXEC\<close> dispatches the queued
  commands, so \<open>Dispatch\<close> counts the depth of that recursion; a queue never holds another \<^verbatim>\<open>EXEC\<close>, so the
  depth 1 that \<open>Execute\<close> uses is never exhausted.
\<close>

section \<open>Transactions\<close>

fun run_queue :: "('v executor \<Rightarrow> command \<Rightarrow> 'v dres) \<Rightarrow> 'v executor \<Rightarrow> command list \<Rightarrow> 'v dres" where
  "run_queue d ex [] = (ex, [], DOk)"
| "run_queue d ex (c # cs) =
     (case d ex c of
        (ex1, out1, DPanic) \<Rightarrow> (ex1, out1, DPanic)
      | (ex1, out1, _) \<Rightarrow> (case run_queue d ex1 cs of (ex2, out2, e) \<Rightarrow> (ex2, out1 @ out2, e)))"

definition cmd_EXEC :: "('v executor \<Rightarrow> command \<Rightarrow> 'v dres) \<Rightarrow> 64 word \<Rightarrow> 'v executor \<Rightarrow> 'v dres" where
  "cmd_EXEC d clientID ex =
     (if IsDirty (ex_watch ex) clientID (ex_mvcc ex)
      then reply (ex\<lparr>ex_multi := fst (Discard (ex_multi ex) clientID), ex_watch := Unwatch (ex_watch ex) clientID\<rparr>) WriteNull
      else case tx_Exec (ex_multi ex) clientID of (m, r) \<Rightarrow>
             let ex' = ex\<lparr>ex_multi := m, ex_watch := Unwatch (ex_watch ex) clientID\<rparr>
             in case r of
                  Inl e \<Rightarrow> err_reply ex' e
                | Inr cmds \<Rightarrow>
                    (case run_queue d ex' cmds of
                       (ex2, out, e) \<Rightarrow> (ex2, WriteArray (int (length cmds)) @ out, if e = DPanic then DPanic else DOk)))"

definition dispatch_tx ::
  "('v executor \<Rightarrow> command \<Rightarrow> 'v dres) \<Rightarrow> 64 word \<Rightarrow> 'v executor \<Rightarrow> command \<Rightarrow> 'v dres option" where
  "dispatch_tx d clientID ex cmd =
     (let name = Normalized cmd
      in if name = ''MULTI'' then
           Some (case tx_Begin (ex_multi ex) clientID of
                   (_, Some e) \<Rightarrow> err_reply ex e
                 | (m, None) \<Rightarrow> reply (ex\<lparr>ex_multi := m\<rparr>) WriteOK)
         else if name = ''EXEC'' then Some (cmd_EXEC d clientID ex)
         else if name = ''DISCARD'' then
           Some (case Discard (ex_multi ex) clientID of
                   (_, Some e) \<Rightarrow> err_reply ex e
                 | (m, None) \<Rightarrow> reply (ex\<lparr>ex_multi := m, ex_watch := Unwatch (ex_watch ex) clientID\<rparr>) WriteOK)
         else if name = ''WATCH'' then
           Some (if NumArgs cmd < 1 then wrong_args ex ''WATCH''
                 else reply (ex\<lparr>ex_watch := Watch (ex_watch ex) clientID (args_from 0 cmd) (CurrentVersion (ex_mvcc ex))\<rparr>) WriteOK)
         else if name = ''UNWATCH'' then Some (reply (ex\<lparr>ex_watch := Unwatch (ex_watch ex) clientID\<rparr>) WriteOK)
         else None)"

section \<open>Dispatch\<close>

type_synonym 'v rest = "env \<Rightarrow> 'v executor \<Rightarrow> command \<Rightarrow> 'v dres option"

fun first_of :: "'a option list \<Rightarrow> 'a \<Rightarrow> 'a" where
  "first_of [] d = d"
| "first_of (Some x # _) d = x"
| "first_of (None # os) d = first_of os d"

definition unknown_text :: "command \<Rightarrow> string" where
  "unknown_text cmd = ''ERR unknown command '' @ [CHR 0x27] @ cmd_Name cmd @ [CHR 0x27]"

definition dispatch_step ::
  "('v executor \<Rightarrow> command \<Rightarrow> 'v dres) \<Rightarrow> 'v vecops \<Rightarrow> 'v rest \<Rightarrow> env \<Rightarrow> 64 word \<Rightarrow> 'v executor \<Rightarrow> command \<Rightarrow> 'v dres" where
  "dispatch_step d v rest ev clientID ex cmd =
     first_of
       [dispatch_server ev clientID ex cmd, dispatch_keys ev ex cmd, dispatch_strings ev ex cmd,
        dispatch_hash ev ex cmd, dispatch_list ev ex cmd, dispatch_set ev ex cmd, dispatch_zset ev ex cmd,
        dispatch_bitmap ev ex cmd, dispatch_pubsub ex cmd, dispatch_tx d clientID ex cmd,
        dispatch_stream ev ex cmd, dispatch_info ev ex cmd, dispatch_vector v ev ex cmd, rest ev ex cmd]
       (reply ex (WriteErrorRaw (unknown_text cmd)))"

fun Dispatch :: "nat \<Rightarrow> 'v vecops \<Rightarrow> 'v rest \<Rightarrow> env \<Rightarrow> 64 word \<Rightarrow> 'v executor \<Rightarrow> command \<Rightarrow> 'v dres" where
  "Dispatch 0 v rest ev clientID ex cmd =
     dispatch_step (\<lambda>ex c. (ex, [], DPanic)) v rest ev clientID ex cmd"
| "Dispatch (Suc n) v rest ev clientID ex cmd =
     dispatch_step (\<lambda>ex c. Dispatch n v rest ev clientID ex c) v rest ev clientID ex cmd"

text \<open>\<^verbatim>\<open>EngineFSM.Apply\<close> on a committed command: dispatched for client 0, its output is the answer.\<close>

definition fsm_Apply :: "'v vecops \<Rightarrow> 'v rest \<Rightarrow> env \<Rightarrow> 'v executor \<Rightarrow> command \<Rightarrow> 'v executor \<times> bytes" where
  "fsm_Apply v rest ev ex cmd =
     (case Dispatch 1 v rest ev 0 ex cmd of
        (ex', _, DPanic) \<Rightarrow> (ex', ''-ERR internal server error'' @ crlf)
      | (ex', out, DErr) \<Rightarrow> (ex', if out = [] then WriteErrorRaw ''quit'' else out)
      | (ex', out, DOk) \<Rightarrow> (ex', out))"

section \<open>Execute\<close>

definition run_command ::
  "'v vecops \<Rightarrow> 'v rest \<Rightarrow> env \<Rightarrow> 64 word \<Rightarrow> 'v executor \<Rightarrow> command \<Rightarrow> bool \<Rightarrow> bool \<Rightarrow> int \<Rightarrow> 'v dres" where
  "run_command v rest ev clientID ex cmd durable prepared projected =
     (case Dispatch 1 v rest ev clientID ex cmd of
        (ex', out, DPanic) \<Rightarrow> (ex', out @ WriteError ''ERR internal server error'', DOk)
      | (ex', out, DErr) \<Rightarrow> (ex', out, DErr)
      | (ex', out, DOk) \<Rightarrow>
          (if durable
           then ex'\<lparr>ex_accounted := if prepared then projected else measureMemoryUsage v (ev_now ev) ex'\<rparr>
           else ex', out, DOk))"

definition through_raft ::
  "'v vecops \<Rightarrow> 'v rest \<Rightarrow> env \<Rightarrow> 64 word \<Rightarrow> 'v executor \<Rightarrow> command \<Rightarrow> bool \<Rightarrow> bool \<Rightarrow> bool \<Rightarrow> int \<Rightarrow> 'v dres" where
  "through_raft v rest ev clientID ex cmd readOnly durable prepared projected =
     (if readOnly then run_command v rest ev clientID ex cmd durable prepared projected
      else case ev_raft ev of
             RaftLocal \<Rightarrow> run_command v rest ev clientID ex cmd durable prepared projected
           | RaftNotLeader \<Rightarrow> err_reply ex ''ERR node is not the Raft leader''
           | RaftFailed e \<Rightarrow> err_reply ex (''ERR Raft apply failed: '' @ e)
           | RaftCommitted \<Rightarrow> (case fsm_Apply v rest ev ex cmd of (ex', out) \<Rightarrow> reply ex' out))"

definition unsuppress :: "'v dres \<Rightarrow> 'v dres" where
  "unsuppress r = (case r of (ex, out, e) \<Rightarrow> (ex\<lparr>ex_suppressWAL := False\<rparr>, out, e))"

definition durable_write :: "'v vecops \<Rightarrow> 'v rest \<Rightarrow> env \<Rightarrow> 64 word \<Rightarrow> 'v executor \<Rightarrow> wal \<Rightarrow> command \<Rightarrow> 'v dres" where
  "durable_write v rest ev clientID ex w cmd =
     (case prepareDurableEffects (ev_now ev) (ex_kv ex) cmd of (effects, prepared) \<Rightarrow>
        if prepared \<and> effects \<noteq> []
        then case effectsFitQuota (ev_now ev) ex effects of
               (False, _) \<Rightarrow> err_reply ex ''OOM tenant quota exceeded''
             | (True, projected) \<Rightarrow>
                 (case w_WriteTransaction (ev_seal ev) (ev_nonce ev (w_seq w + 1)) (ev_io ev) (ev_now ev) w effects of
                    (w', _, False) \<Rightarrow> wal_failed ev (ex\<lparr>ex_wal := Some w'\<rparr>)
                  | (w', _, True) \<Rightarrow>
                      unsuppress (through_raft v rest ev clientID (ex\<lparr>ex_wal := Some w', ex_suppressWAL := True\<rparr>) cmd
                        False True prepared projected))
        else through_raft v rest ev clientID ex cmd False True prepared (ex_accounted ex))"

definition Execute :: "'v vecops \<Rightarrow> 'v rest \<Rightarrow> env \<Rightarrow> 64 word \<Rightarrow> 'v executor \<Rightarrow> command \<Rightarrow> 'v dres" where
  "Execute v rest ev clientID ex cmd =
     (let name = Normalized cmd
      in if IsActive (ex_multi ex) clientID \<and> name \<notin> {''EXEC'', ''DISCARD'', ''WATCH'', ''MULTI''}
         then reply (ex\<lparr>ex_multi := tx_Enqueue (ex_multi ex) clientID cmd\<rparr>) (WriteSimpleString ''QUEUED'')
         else case Lookup name of
                None \<Rightarrow> err_reply ex (unknown_text cmd)
              | Some info \<Rightarrow>
                  if ex_wal ex \<noteq> None \<and> \<not> SupportedInDurableV1 name
                  then err_reply ex (''ERR command '' @ [CHR 0x27] @ cmd_Name cmd @ [CHR 0x27]
                         @ '' is not supported by the durable DBX v1 profile'')
                  else if ex_readOnly ex \<and> \<not> ci_ReadOnly info
                  then err_reply ex ''READONLY replica does not accept writes''
                  else case ex_wal ex of
                         Some w \<Rightarrow>
                           if ci_DurableV1 info \<and> \<not> ci_ReadOnly info then durable_write v rest ev clientID ex w cmd
                           else through_raft v rest ev clientID ex cmd (ci_ReadOnly info) False False (ex_accounted ex)
                       | None \<Rightarrow> through_raft v rest ev clientID ex cmd (ci_ReadOnly info) False False (ex_accounted ex))"

end
