(* ===== verification/Durability.thy ===== *)
theory Durability
  imports Dispatch
begin

text \<open>
  The durability contract of the executor on string keys: after any sequence of commands and a crash, the
  store rebuilt from the log answers every key as the store that was lost. The proof composes the command
  pipeline, the write-ahead log and the replay through one abstract machine, the map a list of logged
  effects denotes.
\<close>

section \<open>What a client sees of a string store\<close>

type_synonym scell = "bytes \<times> int"

text \<open>A cell whose deadline has come is hidden. \<^verbatim>\<open>IsExpired\<close> still shows it at the very instant of the
  deadline, the replay does not.\<close>

definition vis :: "int \<Rightarrow> scell option \<Rightarrow> scell option" where
  "vis t c = (case c of None \<Rightarrow> None | Some (b, d) \<Rightarrow> if d \<noteq> 0 \<and> d \<le> t then None else Some (b, d))"

definition str_cell :: "entry \<Rightarrow> scell" where
  "str_cell e = (case as_bytes (e_value e) of Some b \<Rightarrow> sl b | None \<Rightarrow> [], e_expires e)"

definition str_view :: "int \<Rightarrow> kvstore \<Rightarrow> string \<Rightarrow> scell option" where
  "str_view t kv k = vis t (map_option str_cell (kv_find kv k))"

definition str_entry :: "entry \<Rightarrow> bool" where
  "str_entry e \<longleftrightarrow> e_type e = TypeString \<and> as_bytes (e_value e) \<noteq> None \<and> 0 \<le> e_expires e \<and> in_i64 (e_expires e)"

definition string_store :: "kvstore \<Rightarrow> bool" where
  "string_store kv \<longleftrightarrow> kv_inv kv \<and> kv_deadlines kv \<and> (\<forall>k e. kv_find kv k = Some e \<longrightarrow> str_entry e)"

text \<open>The map that a list of logged effects denotes.\<close>

definition log_eff :: "walEffect \<Rightarrow> (string \<Rightarrow> scell option) \<Rightarrow> string \<Rightarrow> scell option" where
  "log_eff e A =
     (if we_Type e = RecordSet then A(we_Key e \<mapsto> (sl (we_Value e), we_ExpiresAt e)) else A(we_Key e := None))"

definition plain_eff :: "walEffect \<Rightarrow> bool" where
  "plain_eff e \<longleftrightarrow> (we_Type e = RecordSet \<or> we_Type e = RecordDelete) \<and> 0 \<le> we_ExpiresAt e \<and> in_i64 (we_ExpiresAt e)"

definition mirrors :: "int \<Rightarrow> kvstore \<Rightarrow> walEffect list \<Rightarrow> kvstore \<Rightarrow> bool" where
  "mirrors t kv es kv' \<longleftrightarrow>
     string_store kv' \<and> (\<forall>k. str_view t kv' k = vis t (fold log_eff es (str_view t kv) k)) \<and> (\<forall>e \<in> set es. plain_eff e)"

lemma vis_vis: "t \<le> t' \<Longrightarrow> vis t' (vis t c) = vis t' c"
  by (auto simp: vis_def split: option.splits)

lemma vis_view [simp]: "vis t (str_view t kv k) = str_view t kv k"
  by (simp add: str_view_def vis_vis)

lemma vis_later: "t \<le> t' \<Longrightarrow> str_view t' kv k = vis t' (str_view t kv k)"
  by (simp add: str_view_def vis_vis)

lemma vis_None [simp]: "vis t None = None"
  by (simp add: vis_def)

lemma vis_fold_cong:
  "(\<And>k. vis t (A k) = vis t (B k)) \<Longrightarrow> vis t (fold log_eff es A k) = vis t (fold log_eff es B k)"
proof (induction es arbitrary: A B)
  case (Cons e es)
  then have "vis t (log_eff e A x) = vis t (log_eff e B x)" for x by (simp add: log_eff_def)
  then show ?case using Cons.IH [of "log_eff e A" "log_eff e B"] by simp
qed simp

lemma mirrors_trans:
  assumes "mirrors t kv es kv1" and "mirrors t kv1 es' kv2"
  shows "mirrors t kv (es @ es') kv2"
proof -
  have "vis t (fold log_eff es' (str_view t kv1) k) = vis t (fold log_eff es' (fold log_eff es (str_view t kv)) k)" for k
    using assms(1) by (intro vis_fold_cong) (simp add: mirrors_def vis_vis)
  then show ?thesis using assms by (auto simp: mirrors_def)
qed

lemma mirrors_refl: "string_store kv \<Longrightarrow> mirrors t kv [] kv"
  by (simp add: mirrors_def)

section \<open>Single updates\<close>

lemma string_storeI:
  "kv_inv kv' \<Longrightarrow> kv_deadlines kv' \<Longrightarrow> string_store kv \<Longrightarrow>
     (\<And>k. kv_find kv' k = kv_find kv k \<or> kv_find kv' k = None \<or> (\<exists>e. kv_find kv' k = Some e \<and> str_entry e)) \<Longrightarrow>
     string_store kv'"
  unfolding string_store_def by (metis option.inject option.distinct(1))

lemma mirrors_upd:
  assumes "string_store kv" and "kv_inv kv'" and "kv_deadlines kv'" and "kv_find kv' = (kv_find kv)(k := x)"
    and "\<And>e. x = Some e \<Longrightarrow> str_entry e" and "plain_eff eff" and "we_Key eff = k"
    and "vis t (map_option str_cell x) =
      vis t (if we_Type eff = RecordSet then Some (sl (we_Value eff), we_ExpiresAt eff) else None)"
  shows "mirrors t kv [eff] kv'"
proof -
  have "string_store kv'" using assms(1-5) by (intro string_storeI [OF assms(2,3,1)]) (cases x; auto)
  then show ?thesis using assms(4,6-8) by (auto simp: mirrors_def str_view_def log_eff_def vis_vis)
qed

lemma str_cell_set [simp]:
  "str_cell (kv_set_entry now old (VBytes v) TypeString d ver) = (sl v, d)"
  by (simp add: str_cell_def)

lemma mirrors_Set:
  assumes "string_store kv" and "0 \<le> d" and "in_i64 d" and "set_deadline now ttl = d" and "sl v = sl v'"
  shows "mirrors t kv [put_effect k v' d] (kv_Set now kv k (VBytes v) TypeString ttl)"
  using assms kv_Set_find [of kv now k "VBytes v" TypeString ttl] kv_Set_inv [of kv] kv_deadlines_Set [of kv]
  by (intro mirrors_upd [where k = k]) (auto simp: string_store_def str_entry_def put_effect_def plain_eff_def)

lemma mirrors_Delete:
  assumes "string_store kv"
  shows "mirrors t kv [del_effect k] (fst (kv_Delete kv [k]))"
  using assms kv_Delete_find [of kv "[k]"] kv_Delete_inv [of kv "[k]"] kv_deadlines_Delete [of kv "[k]"]
  by (intro mirrors_upd [where k = k and x = None])
    (auto simp: string_store_def del_effect_def plain_eff_def restrict_map_def fun_eq_iff RecordSet_def RecordDelete_def
      in_i64_def min_int64_def max_int64_def simp del: kv_Delete.simps)

section \<open>Replay\<close>

lemma plain_deadline:
  assumes "plain_eff e" and "0 \<le> T" and "in_i64 T"
  shows "i64 (we_ExpiresAt e - T) = we_ExpiresAt e - T" and "i64 (T + (we_ExpiresAt e - T)) = we_ExpiresAt e"
  using assms by (auto simp: plain_eff_def in_i64_def min_int64_def max_int64_def intro!: i64_id)

lemma mirrors_replay:
  assumes s: "string_store kv" and e: "plain_eff e" and T: "0 \<le> T" "in_i64 T"
  shows "\<exists>kv'. apply_kv_effect T e kv = Some kv' \<and> mirrors T kv [e] kv'"
proof -
  note d = plain_deadline [OF e T]
  have x: "0 \<le> we_ExpiresAt e" "in_i64 (we_ExpiresAt e)" using e by (simp_all add: plain_eff_def)
  have set_eq: "we_Type e = RecordSet \<Longrightarrow> e = put_effect (we_Key e) (we_Value e) (we_ExpiresAt e)"
    by (simp add: put_effect_def)
  have del: "mirrors T kv [e] (fst (kv_Delete kv [we_Key e]))"
    if "we_Type e = RecordSet \<Longrightarrow> 0 < we_ExpiresAt e \<and> we_ExpiresAt e \<le> T"
    using that mirrors_Delete [OF s, of T "we_Key e"] e
    by (auto simp: mirrors_def log_eff_def del_effect_def RecordSet_def RecordDelete_def vis_def
        split: if_splits simp del: kv_Delete.simps)
  show ?thesis
  proof (cases "we_Type e = RecordSet")
    case True
    have st: "mirrors T kv [e] (kv_Set T kv (we_Key e) (VBytes (we_Value e)) TypeString
        (if we_ExpiresAt e > 0 then we_ExpiresAt e - T else 0))" if "we_ExpiresAt e > 0 \<Longrightarrow> T < we_ExpiresAt e"
      using mirrors_Set [OF s x, of T "if we_ExpiresAt e > 0 then we_ExpiresAt e - T else 0" "we_Value e" "we_Value e"
          T "we_Key e"] that x(1) d(2) unfolding set_eq [OF True, symmetric] by (auto simp: set_deadline_def)
    show ?thesis using True del st by (auto simp: apply_kv_effect_def Let_def d)
  next
    case False
    then have "we_Type e = RecordDelete" using e by (simp add: plain_eff_def)
    then show ?thesis using del False by (simp add: apply_kv_effect_def Let_def del: kv_Delete.simps)
  qed
qed

lemma mirrors_replay_all:
  assumes "string_store kv" and "\<forall>e \<in> set es. plain_eff e" and "0 \<le> T" and "in_i64 T"
  shows "\<exists>kv'. replay_effects vops T es (kv, v) = ((kv', v), None) \<and> mirrors T kv es kv'"
  using assms(1,2)
proof (induction es arbitrary: kv)
  case Nil
  then show ?case by (simp add: mirrors_refl)
next
  case (Cons e es)
  then obtain kv1 where kv1: "apply_kv_effect T e kv = Some kv1" "mirrors T kv [e] kv1"
    using mirrors_replay [OF _ _ assms(3,4)] by fastforce
  then have "string_store kv1" by (simp add: mirrors_def)
  then obtain kv2 where kv2: "replay_effects vops T es (kv1, v) = ((kv2, v), None)" "mirrors T kv1 es kv2"
    using Cons.IH Cons.prems by force
  then show ?case using kv1 mirrors_trans [OF kv1(2) kv2(2)] by (simp add: applyRecoveredEffect_def)
qed

section \<open>Commands mirror their effects\<close>

lemma then_log_kv [simp]: "ex_kv (fst (then_log ev ex rs out)) = ex_kv ex"
proof -
  have "ex_kv (fst (log_all ev ex rs)) = ex_kv ex"
    by (induction ev ex rs rule: log_all.induct) (auto simp: writeWAL_def split: option.splits prod.splits bool.splits)
  then show ?thesis
    by (cases "log_all ev ex rs") (auto simp: then_log_def reply_def wal_failed_def err_reply_def split: bool.splits)
qed

lemmas reply_defs = reply_def err_reply_def wrong_args_def on_kv_def on_res_def

lemma store_Get:
  assumes "string_store kv" and "kv_Get t kv k = Some e"
  shows "str_entry e" and "kv_find kv k = Some e"
  using assms by (auto simp: string_store_def kv_Get_Some_iff)

lemma stringState_store:
  assumes "string_store kv"
  shows "stringState t kv k =
    (case kv_Get t kv k of
       None \<Rightarrow> (None, 0, False, True)
     | Some e \<Rightarrow> (nil_append (fst (str_cell e)), e_expires e, True, True))"
proof (cases "kv_Get t kv k")
  case (Some e)
  then show ?thesis using store_Get(1) [OF assms Some] by (auto simp: stringState_def str_entry_def str_cell_def)
qed (simp add: stringState_def)

lemma parse_set_opts_ttl: "0 \<le> ttl \<Longrightarrow> parse_set_opts as ttl nx xx = Ok (ttl', nx', xx') \<Longrightarrow> 0 \<le> ttl'"
proof (induction "length as" arbitrary: as ttl nx xx rule: less_induct)
  case less
  have div: "0 \<le> go_div n 1000" if "0 < n" for n
    using that by (simp add: go_div_nonneg pos_imp_zdiv_nonneg_iff)
  have IH: "0 \<le> ttl1 \<Longrightarrow> parse_set_opts as1 ttl1 nx1 xx1 = Ok (ttl', nx', xx') \<Longrightarrow> length as1 < length as \<Longrightarrow> 0 \<le> ttl'"
    for as1 ttl1 nx1 xx1 using less.hyps by blast
  show ?case
  proof (cases as)
    case (Cons a rest)
    show ?thesis
    proof (cases "ToUpper a = ''EX'' \<or> ToUpper a = ''PX''")
      case True
      then obtain b rest' n where b: "rest = b # rest'" "ParseInt b = (n, None)" "0 < n"
        using less.prems(2) Cons by (auto split: if_split_asm list.split_asm prod.split_asm option.split_asm)
      then consider "parse_set_opts rest' n nx xx = Ok (ttl', nx', xx')"
        | "parse_set_opts rest' (go_div n 1000) nx xx = Ok (ttl', nx', xx')"
        using less.prems(2) Cons True by (auto split: if_split_asm)
      then show ?thesis using b IH [of n rest'] IH [OF div, of n rest'] Cons by cases simp_all
    next
      case False
      then have "\<exists>nx1 xx1. parse_set_opts rest ttl nx1 xx1 = Ok (ttl', nx', xx')"
        using less.prems(2) Cons by (simp split: if_split_asm) blast+
      then show ?thesis using IH [OF less.prems(1)] Cons by auto
    qed
  qed (use less.prems in simp)
qed

lemma ParseSetArgs_ttl: "ParseSetArgs args = Ok (v, ttl, nx, xx) \<Longrightarrow> 0 \<le> ttl"
proof (cases args)
  case (Cons a opts)
  then show "ParseSetArgs args = Ok (v, ttl, nx, xx) \<Longrightarrow> 0 \<le> ttl"
    using parse_set_opts_ttl [of 0 "map sl opts"]
    by (cases "parse_set_opts (map sl opts) 0 False False") (auto simp: ParseSetArgs_def)
qed (simp add: ParseSetArgs_def)

definition ttl_ok :: "int \<Rightarrow> int \<Rightarrow> bool" where
  "ttl_ok t s \<longleftrightarrow> t + s * second \<le> max_int64"

lemma set_deadline_ttl:
  assumes "0 \<le> t" and "0 \<le> s" and "ttl_ok t s"
  shows "set_deadline t (i64 (s * second)) = (if s > 0 then t + s * second else 0)"
    and "i64 (t + i64 (s * second)) = t + s * second" and "in_i64 (t + s * second)"
  using assms
  by (auto simp: set_deadline_def ttl_ok_def second_def i64_id in_i64_def min_int64_def max_int64_def)

lemma mirror_StrSet:
  assumes "string_store kv" and "0 \<le> t" and "0 \<le> s" and "ttl_ok t s"
  shows "mirrors t kv
    (if nx \<and> kv_Exists t kv k \<or> xx \<and> \<not> kv_Exists t kv k then []
     else [put_effect k (copy v) (if s > 0 then i64 (t + i64 (s * second)) else 0)])
    (fst (Str_Set t kv k v s nx xx))"
  using assms set_deadline_ttl [OF assms(2-4)]
  by (auto simp: Str_Set_def mirrors_refl copy_def second_def in_i64_def min_int64_def max_int64_def
      intro!: mirrors_Set)

lemma mirror_SET:
  assumes s: "string_store (ex_kv ex)" and t: "0 \<le> ev_now ev"
    and ok: "\<And>v ttl nx xx. ParseSetArgs (tl (cmd_Args cmd)) = Ok (v, ttl, nx, xx) \<Longrightarrow> ttl_ok (ev_now ev) ttl"
  shows "mirrors (ev_now ev) (ex_kv ex) (eff_SET (ev_now ev) (ex_kv ex) cmd) (ex_kv (fst (cmd_SET ev ex cmd)))"
proof (cases "NumArgs cmd < 2")
  case True
  then show ?thesis using s by (simp add: eff_SET_def cmd_SET_def reply_defs mirrors_refl)
next
  case False
  have same: "NumArgs cmd = 2 \<Longrightarrow> ParseSetArgs (tl (cmd_Args cmd)) = Ok (ArgBytes cmd 1, 0, False, False)"
    by (auto simp: NumArgs_def ArgBytes_def ParseSetArgs_def length_Suc_conv numeral_2_eq_2)
  show ?thesis
  proof (cases "ParseSetArgs (tl (cmd_Args cmd))")
    case (Ok r)
    obtain v ttl nx xx where r: "r = (v, ttl, nx, xx)" by (cases r)
    have P: "(if NumArgs cmd = 2 then Ok (ArgBytes cmd 1, 0, False, False) else ParseSetArgs (tl (cmd_Args cmd)))
        = Ok (v, ttl, nx, xx)" using same Ok r by auto
    have m: "mirrors (ev_now ev) (ex_kv ex)
        (if nx \<and> kv_Exists (ev_now ev) (ex_kv ex) (Arg cmd 0) \<or> xx \<and> \<not> kv_Exists (ev_now ev) (ex_kv ex) (Arg cmd 0) then []
         else [put_effect (Arg cmd 0) (copy v) (if ttl > 0 then i64 (ev_now ev + i64 (ttl * second)) else 0)])
        (fst (Str_Set (ev_now ev) (ex_kv ex) (Arg cmd 0) v ttl nx xx))"
      using ok ParseSetArgs_ttl Ok r by (intro mirror_StrSet [OF s t]) auto
    have e: "eff_SET (ev_now ev) (ex_kv ex) cmd =
        (if nx \<and> kv_Exists (ev_now ev) (ex_kv ex) (Arg cmd 0) \<or> xx \<and> \<not> kv_Exists (ev_now ev) (ex_kv ex) (Arg cmd 0) then []
         else [put_effect (Arg cmd 0) (copy v) (if ttl > 0 then i64 (ev_now ev + i64 (ttl * second)) else 0)])"
      using False Ok r by (auto simp: eff_SET_def stringState_store [OF s] kv_Exists_def split: option.splits)
    have "ex_kv (fst (cmd_SET ev ex cmd)) = fst (Str_Set (ev_now ev) (ex_kv ex) (Arg cmd 0) v ttl nx xx)"
      using False by (simp add: cmd_SET_def P reply_defs Let_def split: prod.splits)
    then show ?thesis using m e by simp
  qed (use False s same in \<open>auto simp: eff_SET_def cmd_SET_def reply_defs mirrors_refl\<close>)
qed

lemma mirror_SETEX:
  assumes s: "string_store (ex_kv ex)" and t: "0 \<le> ev_now ev"
    and ok: "\<And>n. ParseInt (Arg cmd 1) = (n, None) \<Longrightarrow> ttl_ok (ev_now ev) n"
  shows "mirrors (ev_now ev) (ex_kv ex) (eff_SETEX (ev_now ev) cmd) (ex_kv (fst (cmd_SETEX ev ex cmd)))"
proof (cases "NumArgs cmd < 3 \<or> snd (ParseInt (Arg cmd 1)) \<noteq> None \<or> fst (ParseInt (Arg cmd 1)) \<le> 0")
  case True
  then show ?thesis
    using s by (auto simp: eff_SETEX_def cmd_SETEX_def reply_defs mirrors_refl split: prod.splits option.splits)
next
  case False
  then obtain n where n: "ParseInt (Arg cmd 1) = (n, None)" "0 < n" by (cases "ParseInt (Arg cmd 1)") auto
  show ?thesis
    using mirror_StrSet [OF s t, of n False "Arg cmd 0" False "ArgBytes cmd 2"] ok [OF n(1)] n False
    by (simp add: eff_SETEX_def cmd_SETEX_def Let_def)
qed

lemma ttl_ok_0: "in_i64 t \<Longrightarrow> ttl_ok t 0"
  by (simp add: ttl_ok_def in_i64_def)

lemma mirror_SETNX:
  assumes s: "string_store (ex_kv ex)" and t: "0 \<le> ev_now ev" "in_i64 (ev_now ev)"
  shows "mirrors (ev_now ev) (ex_kv ex) (eff_SETNX (ev_now ev) (ex_kv ex) cmd) (ex_kv (fst (cmd_SETNX ev ex cmd)))"
  using s mirror_StrSet [OF s t(1) _ ttl_ok_0 [OF t(2)], of True "Arg cmd 0" False "ArgBytes cmd 1"]
  by (auto simp: eff_SETNX_def cmd_SETNX_def stringState_store [OF s] reply_defs mirrors_refl kv_Exists_def
      split: option.splits prod.splits)

lemma Str_Get_store: "string_store kv \<Longrightarrow> \<exists>v. Str_Get t kv k = Ok v"
  using store_Get(1) [of kv t k] by (cases "kv_Get t kv k") (auto simp: Str_Get_def str_entry_def)

lemma mirror_GETSET:
  assumes s: "string_store (ex_kv ex)" and "2 \<le> NumArgs cmd"
  shows "mirrors (ev_now ev) (ex_kv ex) (eff_GETSET (ev_now ev) (ex_kv ex) cmd) (ex_kv (fst (cmd_GETSET ev ex cmd)))"
proof -
  obtain v where v: "Str_Get (ev_now ev) (ex_kv ex) (Arg cmd 0) = Ok v" using Str_Get_store [OF s] by blast
  have "eff_GETSET (ev_now ev) (ex_kv ex) cmd = [put_effect (Arg cmd 0) (copy (ArgBytes cmd 1)) 0]"
    using assms(2) by (auto simp: eff_GETSET_def stringState_store [OF s] split: option.splits)
  moreover have "ex_kv (fst (cmd_GETSET ev ex cmd)) =
      kv_Set (ev_now ev) (ex_kv ex) (Arg cmd 0) (VBytes (ArgBytes cmd 1)) TypeString 0"
    by (simp add: cmd_GETSET_def reply_defs Str_GetSet_def v)
  ultimately show ?thesis
    using mirrors_Set [OF s, of 0 "ev_now ev" 0 "ArgBytes cmd 1" "copy (ArgBytes cmd 1)"]
    by (simp add: set_deadline_def copy_def in_i64_def min_int64_def max_int64_def)
qed

text \<open>\<^verbatim>\<open>MSET\<close> collects its pairs in a map, the log lists them in order; on a repeated key the last one wins both
  ways.\<close>

definition pair_effects :: "(string, slice) gomap \<Rightarrow> walEffect list" where
  "pair_effects m = map (\<lambda>(k, v). put_effect k (copy v) 0) m"

lemma plain_put_0 [simp]: "plain_eff (put_effect k v 0)"
  by (simp add: plain_eff_def put_effect_def in_i64_def min_int64_def max_int64_def)

lemma log_eff_put [simp]: "log_eff (put_effect k v d) A = A(k \<mapsto> (sl v, d))"
  by (simp add: log_eff_def put_effect_def)

lemma log_eff_del [simp]: "log_eff (del_effect k) A = A(k := None)"
  by (simp add: log_eff_def del_effect_def RecordSet_def RecordDelete_def)

lemma plain_del [simp]: "plain_eff (del_effect k)"
  by (simp add: plain_eff_def del_effect_def in_i64_def min_int64_def max_int64_def)

lemma fold_pair_effects:
  "wf_map m \<Longrightarrow> fold log_eff (pair_effects m) A k = (case map_of m k of Some v \<Rightarrow> Some (sl v, 0) | None \<Rightarrow> A k)"
proof (induction m arbitrary: A)
  case (Cons p m)
  obtain k1 v1 where p: "p = (k1, v1)" by (cases p)
  have "map_of m k1 = None" using Cons.prems p by (simp add: wf_map_def map_of_eq_None_iff)
  then show ?case using Cons p by (auto simp: pair_effects_def wf_map_def copy_def split: option.splits)
qed (simp add: pair_effects_def)

lemma fold_mset_effects:
  "wf_map m \<Longrightarrow> fold log_eff (mset_effects args) (fold log_eff (pair_effects m) A)
     = fold log_eff (pair_effects (pair_args m args)) A \<and> wf_map (pair_args m args)"
proof (induction m args rule: pair_args.induct)
  case (1 m k v r)
  have w: "wf_map (AList.update (sl k) v m)" using 1 by (simp add: wf_map_update)
  have "fold log_eff (pair_effects (AList.update (sl k) v m)) A = (fold log_eff (pair_effects m) A)(sl k \<mapsto> (sl v, 0))"
    using fold_pair_effects [OF w] fold_pair_effects [OF 1(2)] by (auto simp: fun_eq_iff)
  then show ?case using 1(1) [OF w] by (simp only: pair_args.simps mset_effects.simps fold_Cons o_apply log_eff_put copy_def sl_nil_append)
qed simp_all

lemma mirrors_MSet: "string_store kv \<Longrightarrow> mirrors t kv (pair_effects m) (Str_MSet now kv m)"
proof (induction m arbitrary: kv)
  case Nil
  then show ?case by (simp add: pair_effects_def Str_MSet_def mirrors_refl)
next
  case (Cons p m)
  obtain k v where p: "p = (k, v)" by (cases p)
  have m1: "mirrors t kv [put_effect k (copy v) 0] (kv_Set now kv k (VBytes v) TypeString 0)"
    using mirrors_Set [OF Cons.prems, of 0 now 0 v "copy v"]
    by (simp add: set_deadline_def copy_def in_i64_def min_int64_def max_int64_def)
  then have "string_store (kv_Set now kv k (VBytes v) TypeString 0)" by (simp add: mirrors_def)
  from mirrors_trans [OF m1 Cons.IH [OF this]] show ?case by (simp add: pair_effects_def Str_MSet_def p)
qed

lemma mirror_MSET:
  assumes s: "string_store (ex_kv ex)"
  shows "mirrors (ev_now ev) (ex_kv ex) (eff_MSET cmd) (ex_kv (fst (cmd_MSET ev ex cmd)))"
proof (cases "NumArgs cmd < 2 \<or> odd (NumArgs cmd)")
  case True
  then show ?thesis using s by (auto simp: eff_MSET_def cmd_MSET_def reply_defs mirrors_refl)
next
  case False
  have f: "fold log_eff (mset_effects (cmd_Args cmd)) A = fold log_eff (pair_effects (pair_args [] (cmd_Args cmd))) A" for A
    using fold_mset_effects [of "[]" "cmd_Args cmd" A] by (simp add: wf_map_def pair_effects_def)
  have "plain_eff e" if "e \<in> set (mset_effects as)" for e as
    using that by (induction as rule: mset_effects.induct) auto
  then show ?thesis
    using False mirrors_MSet [OF s, of "ev_now ev" "pair_args [] (cmd_Args cmd)" "ev_now ev"]
    by (simp add: eff_MSET_def cmd_MSET_def Let_def mirrors_def f)
qed

lemma Get_None_view: "kv_Get t kv k = None \<Longrightarrow> str_view t kv k = None"
  by (cases "kv_find kv k") (auto simp: str_view_def kv_Get_None_iff isExpired_def vis_def str_cell_def split: if_splits)

lemma fold_del_effects: "fold log_eff (map del_effect ks) A = A |` (- set ks)"
  by (induction ks arbitrary: A) (auto simp: restrict_map_def fun_eq_iff)

text \<open>Deleting keys, and logging the deletion of those among them that are visible.\<close>

lemma mirrors_Delete_keys:
  assumes s: "string_store kv" and "set ks' \<subseteq> set ks" and "\<And>k. k \<in> set ks \<Longrightarrow> k \<notin> set ks' \<Longrightarrow> str_view t kv k = None"
  shows "mirrors t kv (map del_effect ks') (fst (kv_Delete kv ks))"
proof -
  have i: "kv_inv kv" using s by (simp add: string_store_def)
  have f: "kv_find (fst (kv_Delete kv ks)) k = (if k \<in> set ks then None else kv_find kv k)" for k
    using kv_Delete_find [OF i, of ks] by (simp add: restrict_map_def)
  have "string_store (fst (kv_Delete kv ks))"
  proof (rule string_storeI [OF _ _ s])
    show "kv_inv (fst (kv_Delete kv ks))" using i by (rule kv_Delete_inv)
    show "kv_deadlines (fst (kv_Delete kv ks))" using s by (simp add: string_store_def kv_deadlines_Delete)
  qed (simp add: f)
  moreover have "str_view t (fst (kv_Delete kv ks)) k = (if k \<in> set ks then None else str_view t kv k)" for k
    by (simp add: str_view_def f)
  moreover have "(if k \<in> set ks then None else str_view t kv k) = vis t ((str_view t kv |` (- set ks')) k)" for k
    using assms(2,3) by (cases "k \<in> set ks"; cases "k \<in> set ks'") (auto simp: restrict_map_def)
  ultimately show ?thesis by (simp add: mirrors_def fold_del_effects)
qed

lemma mirror_DEL:
  assumes s: "string_store (ex_kv ex)"
  shows "mirrors (ev_now ev) (ex_kv ex) (eff_DEL (ev_now ev) (ex_kv ex) cmd) (ex_kv (fst (cmd_DEL ev ex cmd)))"
    and "eff_DEL (ev_now ev) (ex_kv ex) cmd = [] \<Longrightarrow>
      mirrors (ev_now ev) (ex_kv ex) (map del_effect (args_from 0 cmd)) (ex_kv (fst (cmd_DEL ev ex cmd)))"
proof -
  let ?t = "ev_now ev" and ?kv = "ex_kv ex" and ?ks = "args_from 0 cmd"
  have k: "ex_kv (fst (cmd_DEL ev ex cmd)) = fst (kv_Delete ?kv ?ks)"
    by (simp add: cmd_DEL_def NumArgs_def args_from_def reply_defs Let_def split: prod.splits)
  have v: "\<not> kv_Exists ?t ?kv k \<Longrightarrow> str_view ?t ?kv k = None" for k
    by (simp add: kv_Exists_def Get_None_view)
  show "mirrors ?t ?kv (eff_DEL ?t ?kv cmd) (ex_kv (fst (cmd_DEL ev ex cmd)))"
    unfolding k eff_DEL_def using v by (intro mirrors_Delete_keys [OF s]) (auto simp: args_from_def)
  show "mirrors ?t ?kv (map del_effect ?ks) (ex_kv (fst (cmd_DEL ev ex cmd)))"
    unfolding k by (intro mirrors_Delete_keys [OF s]) auto
qed

text \<open>\<^verbatim>\<open>RENAME\<close> deletes and then sets; the log has the two effects in the other order, which is the same on
  different keys.\<close>

lemma mirrors_Rename:
  assumes s: "string_store kv" and g: "kv_Get t kv a = Some e" and ab: "a \<noteq> b"
    and t: "0 \<le> t" "in_i64 t" and d: "e_expires e \<noteq> t"
  shows "mirrors t kv [put_effect b (nil_append (fst (str_cell e))) (e_expires e), del_effect a] (fst (kv_Rename t t t kv a b))"
proof -
  have e: "str_entry e" using store_Get(1) [OF s g] .
  then obtain v where v: "e_value e = VBytes v" "fst (str_cell e) = sl v" and ty: "e_type e = TypeString"
    and x: "0 \<le> e_expires e" "in_i64 (e_expires e)"
    by (cases "e_value e") (auto simp: str_entry_def str_cell_def)
  have m1: "mirrors t kv [del_effect a] (fst (kv_Delete kv [a]))" using mirrors_Delete [OF s] .
  then have s1: "string_store (fst (kv_Delete kv [a]))" by (simp add: mirrors_def)
  let ?ttl = "if e_expires e > 0 then i64 (e_expires e - t) else 0"
  have i: "i64 (e_expires e - t) = e_expires e - t" "i64 (t + (e_expires e - t)) = e_expires e"
    using x t by (auto intro!: i64_id simp: in_i64_def min_int64_def max_int64_def)
  have live: "e_expires e > 0 \<Longrightarrow> t < e_expires e"
    using g d by (auto simp: kv_Get_Some_iff isExpired_def split: if_splits)
  have "set_deadline t ?ttl = e_expires e" using x(1) i live by (auto simp: set_deadline_def)
  then have m2: "mirrors t (fst (kv_Delete kv [a])) [put_effect b (nil_append (fst (str_cell e))) (e_expires e)]
      (kv_Set t (fst (kv_Delete kv [a])) b (VBytes v) TypeString ?ttl)"
    using v by (intro mirrors_Set [OF s1 x]) auto
  have r: "fst (kv_Rename t t t kv a b) = kv_Set t (fst (kv_Delete kv [a])) b (VBytes v) TypeString ?ttl"
    using g i live v ty by (auto simp: kv_Rename_def Let_def closeVectorEntry_def simp del: kv_Delete.simps)
  have c: "fold log_eff [del_effect a, put_effect b w y] A = fold log_eff [put_effect b w y, del_effect a] A" for w y A
    using ab by (auto simp: fun_eq_iff)
  show ?thesis using mirrors_trans [OF m1 m2] unfolding r mirrors_def append_Cons append_Nil c by simp
qed

lemma mirror_RENAME:
  assumes s: "string_store (ex_kv ex)" and t: "0 \<le> ev_now ev" "in_i64 (ev_now ev)"
    and ok: "\<And>e. 2 \<le> NumArgs cmd \<Longrightarrow> kv_Get (ev_now ev) (ex_kv ex) (Arg cmd 0) = Some e \<Longrightarrow>
      e_expires e \<noteq> ev_now ev \<and> Arg cmd 0 \<noteq> Arg cmd 1"
  shows "mirrors (ev_now ev) (ex_kv ex) (eff_RENAME (ev_now ev) (ex_kv ex) cmd) (ex_kv (fst (cmd_RENAME ev ex cmd)))"
proof (cases "NumArgs cmd < 2")
  case True
  then show ?thesis using s by (simp add: eff_RENAME_def cmd_RENAME_def reply_defs mirrors_refl)
next
  case False
  show ?thesis
  proof (cases "kv_Get (ev_now ev) (ex_kv ex) (Arg cmd 0)")
    case None
    then show ?thesis
      using s False by (simp add: eff_RENAME_def cmd_RENAME_def reply_defs mirrors_refl stringState_store kv_Rename_def)
  next
    case (Some e)
    have "ex_kv (fst (on_kv ex p f)) = fst p" for p :: "kvstore \<times> unit res" and f
      by (cases "snd p") (simp_all add: reply_defs)
    then show ?thesis
      using mirrors_Rename [OF s Some _ t, of "Arg cmd 1"] ok Some False
      by (simp add: eff_RENAME_def cmd_RENAME_def stringState_store [OF s])
  qed
qed

text \<open>Commands that rewrite the value in place.\<close>

lemma mirrors_in_place:
  assumes s: "string_store kv" and i: "kv_inv kv'" "kv_deadlines kv'"
    and x: "\<And>x. x \<noteq> k \<Longrightarrow> kv_find kv' x = kv_find kv x"
    and e': "kv_find kv' k = Some e'" and v: "e_value e' = VBytes v" and ty: "e_type e' = TypeString"
    and d: "e_expires e' = d" "0 \<le> d" "in_i64 d" and sl: "sl v = sl v'"
  shows "mirrors t kv [put_effect k v' d] kv'"
proof (rule mirrors_upd [OF s i])
  show "kv_find kv' = (kv_find kv)(k := Some e')" using x e' by (auto simp: fun_eq_iff)
qed (use v ty d sl in \<open>auto simp: str_entry_def plain_eff_def put_effect_def str_cell_def\<close>)

lemma kv_Get_deadline_0:
  "kv_Get t kv k = None \<Longrightarrow> stringState t kv k = (None, 0, False, True)"
  by (simp add: stringState_def)

lemma mirrors_Incr:
  assumes s: "string_store kv" and n: "in_i64 d"
  shows "mirrors t kv
    (case stringState t kv k of (val, expiresAt, exists, valid) \<Rightarrow>
       case (if exists then ParseInt (sl val) else (0, None)) of
         (_, Some _) \<Rightarrow> []
       | (current, None) \<Rightarrow> [put_effect k (Some (FormatInt (i64 (current + d)))) expiresAt])
    (fst (Str_Incr t kv k d))"
proof (cases "kv_Get t kv k")
  case None
  have inv: "kv_inv kv" and dl: "kv_deadlines kv" using s by (simp_all add: string_store_def)
  note g = kv_GetForWrite_spec [OF inv, where now = t and k = k]
  let ?e = "(mkEntry (VBytes (Some (FormatInt d))) TypeString)\<lparr>e_version := kv_version kv + 1\<rparr>"
  let ?kv' = "fst (Str_Incr t kv k d)"
  have eq: "?kv' = kv_put (snd (nextVersion (fst (kv_GetForWrite t kv k)))) k ?e"
    using g(2,6) None by (auto simp: Str_Incr_def nextVersion_def Let_def split: prod.splits option.splits)
  have "mirrors t kv [put_effect k (Some (FormatInt d)) 0] ?kv'"
    using g(1,5) kv_deadlines_GetForWrite [OF inv dl, of t k]
    by (intro mirrors_in_place [OF s, where e' = ?e and v = "Some (FormatInt d)"])
      (simp_all add: eq nextVersion_def kv_inv_put kv_deadlines_put kv_find_put mkEntry_def in_i64_def min_int64_def max_int64_def)
  then show ?thesis using None n by (simp add: kv_Get_deadline_0 i64_id)
next
  case (Some e)
  have e: "str_entry e" using store_Get(1) [OF s Some] .
  then obtain v where v: "e_value e = VBytes v" "fst (str_cell e) = sl v" and ty: "e_type e = TypeString"
    and x: "0 \<le> e_expires e" "in_i64 (e_expires e)"
    by (cases "e_value e") (auto simp: str_entry_def str_cell_def)
  have inv: "kv_inv kv" and dl: "kv_deadlines kv" using s by (simp_all add: string_store_def)
  have gw: "kv_GetForWrite t kv k = (kv, Some e)" using Some by (auto simp: kv_GetForWrite_def kv_Get_Some_iff)
  show ?thesis
  proof (cases "ParseInt (sl v)")
    case (Pair n err)
    show ?thesis
    proof (cases err)
      case None
      note l = Str_Incr_live [OF inv Some ty v(1), of n d]
      have "kv_deadlines (fst (Str_Incr t kv k d))"
        using inv dl Pair None ty v by (simp add: Str_Incr_def gw nextVersion_def Let_def kv_deadlines_put)
      then have "mirrors t kv [put_effect k (Some (FormatInt (i64 (n + d)))) (e_expires e)] (fst (Str_Incr t kv k d))"
        using l Pair None x ty
        by (intro mirrors_in_place [OF s, where v = "Some (FormatInt (i64 (n + d)))" and
              e' = "e\<lparr>e_value := VBytes (Some (FormatInt (i64 (n + d)))), e_version := kv_version kv + 1\<rparr>"]) auto
      then show ?thesis using Some Pair None v by (simp add: stringState_store [OF s])
    next
      case (Some y)
      then show ?thesis
        using \<open>kv_Get t kv k = Some e\<close> Pair v ty s by (simp add: stringState_store [OF s] Str_Incr_def gw mirrors_refl)
    qed
  qed
qed

lemma on_kv_kv [simp]: "ex_kv (fst (on_kv ex p f)) = fst p"
  by (cases "snd p") (simp_all add: reply_defs)

lemma mirror_INCR:
  assumes s: "string_store (ex_kv ex)"
  shows "Normalized cmd = ''INCR'' \<Longrightarrow>
      mirrors (ev_now ev) (ex_kv ex) (eff_INCR (ev_now ev) (ex_kv ex) cmd) (ex_kv (fst (cmd_INCR ev ex cmd 1)))"
    and "Normalized cmd = ''DECR'' \<Longrightarrow>
      mirrors (ev_now ev) (ex_kv ex) (eff_INCR (ev_now ev) (ex_kv ex) cmd) (ex_kv (fst (cmd_INCR ev ex cmd (- 1))))"
    and "Normalized cmd = ''INCRBY'' \<Longrightarrow>
      mirrors (ev_now ev) (ex_kv ex) (eff_INCR (ev_now ev) (ex_kv ex) cmd) (ex_kv (fst (cmd_INCRBY ev ex cmd False)))"
    and "Normalized cmd = ''DECRBY'' \<Longrightarrow>
      mirrors (ev_now ev) (ex_kv ex) (eff_INCR (ev_now ev) (ex_kv ex) cmd) (ex_kv (fst (cmd_INCRBY ev ex cmd True)))"
proof -
  let ?t = "ev_now ev" and ?kv = "ex_kv ex" and ?k = "Arg cmd 0"
  let ?eff = "\<lambda>d. case stringState ?t ?kv ?k of (val, expiresAt, exists, valid) \<Rightarrow>
       case (if exists then ParseInt (sl val) else (0, None)) of
         (_, Some _) \<Rightarrow> []
       | (current, None) \<Rightarrow> [put_effect ?k (Some (FormatInt (i64 (current + d)))) expiresAt]"
  have m: "in_i64 d \<Longrightarrow> mirrors ?t ?kv (?eff d) (fst (Str_Incr ?t ?kv ?k d))" for d
    by (rule mirrors_Incr [OF s])
  have r: "mirrors ?t ?kv [] ?kv" using s by (rule mirrors_refl)
  have one: "in_i64 1" "in_i64 (- 1)" by (simp_all add: in_i64_def min_int64_def max_int64_def)
  show "Normalized cmd = ''INCR'' \<Longrightarrow> mirrors ?t ?kv (eff_INCR ?t ?kv cmd) (ex_kv (fst (cmd_INCR ev ex cmd 1)))"
    using m [OF one(1)] by (auto simp: eff_INCR_def cmd_INCR_def stringState_store [OF s] split: option.splits prod.splits)
  show "Normalized cmd = ''DECR'' \<Longrightarrow> mirrors ?t ?kv (eff_INCR ?t ?kv cmd) (ex_kv (fst (cmd_INCR ev ex cmd (- 1))))"
    using m [OF one(2)] by (auto simp: eff_INCR_def cmd_INCR_def stringState_store [OF s] split: option.splits prod.splits)
  have byn: "mirrors ?t ?kv (eff_INCR ?t ?kv cmd) (ex_kv (fst (cmd_INCRBY ev ex cmd neg)))"
    if n: "Normalized cmd = (if neg then ''DECRBY'' else ''INCRBY'')" for neg
  proof (cases "ParseInt (Arg cmd 1)")
    case (Pair b err)
    have few: "NumArgs cmd < 2 \<Longrightarrow> Arg cmd 1 = []" by (simp add: Arg_def NumArgs_def)
    have "ParseInt [] = (0, Some NumSyntax)" by (simp add: ParseInt_def ParseUint_def)
    then have two: "err = None \<Longrightarrow> \<not> NumArgs cmd < 2" using few Pair by auto
    show ?thesis
    proof (cases err)
      case None
      have d: "in_i64 (if neg then i64 (- b) else b)" using ParseInt_range [of "Arg cmd 1"] Pair by (simp add: i64_range)
      show ?thesis
        using m [OF d] n Pair None two
        by (cases neg) (auto simp: eff_INCR_def cmd_INCRBY_def cmd_INCR_def stringState_store [OF s] split: option.splits prod.splits)
    next
      case (Some y)
      then show ?thesis
        using r n Pair
        by (cases neg) (auto simp: eff_INCR_def cmd_INCRBY_def reply_defs stringState_store [OF s] split: option.splits prod.splits)
    qed
  qed
  show "Normalized cmd = ''INCRBY'' \<Longrightarrow> mirrors ?t ?kv (eff_INCR ?t ?kv cmd) (ex_kv (fst (cmd_INCRBY ev ex cmd False)))"
    using byn [of False] by simp
  show "Normalized cmd = ''DECRBY'' \<Longrightarrow> mirrors ?t ?kv (eff_INCR ?t ?kv cmd) (ex_kv (fst (cmd_INCRBY ev ex cmd True)))"
    using byn [of True] by simp
qed

lemma mirror_APPEND:
  assumes s: "string_store (ex_kv ex)"
  shows "mirrors (ev_now ev) (ex_kv ex) (eff_APPEND (ev_now ev) (ex_kv ex) cmd) (ex_kv (fst (cmd_APPEND ev ex cmd)))"
proof (cases "NumArgs cmd < 2")
  case True
  then show ?thesis using s by (simp add: eff_APPEND_def cmd_APPEND_def reply_defs mirrors_refl)
next
  case False
  let ?t = "ev_now ev" and ?kv = "ex_kv ex" and ?k = "Arg cmd 0" and ?v = "ArgBytes cmd 1"
  have inv: "kv_inv ?kv" and dl: "kv_deadlines ?kv" using s by (simp_all add: string_store_def)
  note g = kv_GetForWrite_spec [OF inv, where now = ?t and k = ?k]
  note gd = kv_deadlines_GetForWrite [OF inv dl, of ?t ?k]
  show ?thesis
  proof (cases "kv_Get ?t ?kv ?k")
    case None
    have eq: "fst (Str_Append ?t ?kv ?k ?v) = kv_put (fst (kv_GetForWrite ?t ?kv ?k)) ?k (mkEntry (VBytes ?v) TypeString)"
      using g(2) None by (auto simp: Str_Append_def split: prod.splits option.splits)
    have "mirrors ?t ?kv [put_effect ?k (go_append None ?v) 0] (fst (Str_Append ?t ?kv ?k ?v))"
      unfolding eq
      using g(1,5) gd by (intro mirrors_in_place [OF s, where e' = "mkEntry (VBytes ?v) TypeString" and v = ?v])
        (simp_all add: kv_inv_put kv_deadlines_put kv_find_put mkEntry_def go_append_def in_i64_def min_int64_def max_int64_def)
    then show ?thesis using False None by (simp add: eff_APPEND_def cmd_APPEND_def kv_Get_deadline_0)
  next
    case (Some e)
    have "str_entry e" using store_Get(1) [OF s Some] .
    then obtain v where v: "e_value e = VBytes v" "fst (str_cell e) = sl v" and ty: "e_type e = TypeString"
      and x: "0 \<le> e_expires e" "in_i64 (e_expires e)"
      by (cases "e_value e") (auto simp: str_entry_def str_cell_def)
    have gw: "kv_GetForWrite ?t ?kv ?k = (?kv, Some e)" using Some by (auto simp: kv_GetForWrite_def kv_Get_Some_iff)
    have eq: "fst (Str_Append ?t ?kv ?k ?v) = kv_put ?kv ?k (e\<lparr>e_value := VBytes (go_append v ?v)\<rparr>)"
      using v ty by (simp add: Str_Append_def gw Let_def)
    have "mirrors ?t ?kv [put_effect ?k (go_append (nil_append (sl v)) ?v) (e_expires e)] (fst (Str_Append ?t ?kv ?k ?v))"
      unfolding eq using inv dl x ty
      by (intro mirrors_in_place [OF s, where e' = "e\<lparr>e_value := VBytes (go_append v ?v)\<rparr>" and v = "go_append v ?v"])
        (auto simp: kv_inv_put kv_deadlines_put kv_find_put go_append_def nil_append_def split: if_splits)
    then show ?thesis using False Some v by (simp add: eff_APPEND_def cmd_APPEND_def stringState_store [OF s])
  qed
qed

end
