(* ===== verification/DurableSystem.thy ===== *)
theory DurableSystem
  imports Durability
begin

text \<open>
  Durability of a whole tenant: a trace of commands, reaper runs and checkpoints on the executor, a crash,
  and recovery from the snapshot directory and the log. One invariant ties the four together: what the
  store shows is what the last checkpoint and the effects logged since then denote.
\<close>

section \<open>Which commands\<close>

definition string_writes :: "string list" where
  "string_writes = [''SET'', ''SETEX'', ''SETNX'', ''GETSET'', ''MSET'', ''DEL'', ''RENAME'', ''INCR'', ''INCRBY'',
     ''DECR'', ''DECRBY'', ''APPEND'']"

definition string_reads :: "string list" where
  "string_reads = [''GET'', ''MGET'', ''STRLEN'', ''GETRANGE'', ''EXISTS'', ''TTL'', ''TYPE'', ''KEYS'', ''SCAN'', ''DBSIZE'',
     ''PING'', ''ECHO'', ''HELLO'', ''COMMAND'']"

text \<open>The commands the guarantee covers. \<^verbatim>\<open>EXPIRE\<close>, \<^verbatim>\<open>PERSIST\<close> and the vector commands are excluded, and of the
  others: a time to live that overflows the clock, \<^verbatim>\<open>GETSET\<close> without a value, and \<^verbatim>\<open>RENAME\<close> of a key onto
  itself or at the very instant of its deadline. A command that the durable profile refuses is harmless.\<close>

definition durable_cmd :: "int \<Rightarrow> kvstore \<Rightarrow> command \<Rightarrow> bool" where
  "durable_cmd t kv cmd =
     (let name = Normalized cmd
      in if name = ''SET'' then
           (case ParseSetArgs (tl (cmd_Args cmd)) of Ok (_, ttl, _, _) \<Rightarrow> ttl_ok t ttl | _ \<Rightarrow> True)
         else if name = ''SETEX'' then (case ParseInt (Arg cmd 1) of (n, None) \<Rightarrow> ttl_ok t n | _ \<Rightarrow> True)
         else if name = ''GETSET'' then 2 \<le> NumArgs cmd
         else if name = ''RENAME'' then
           (case kv_Get t kv (Arg cmd 0) of
              None \<Rightarrow> True
            | Some e \<Rightarrow> NumArgs cmd < 2 \<or> e_expires e \<noteq> t \<and> Arg cmd 0 \<noteq> Arg cmd 1)
         else name \<in> set string_writes \<or> name \<in> set string_reads \<or> \<not> SupportedInDurableV1 name)"

text \<open>The records a command may log stay within the limits of the log format.\<close>

definition tx_record :: "walEffect list \<Rightarrow> walRecord" where
  "tx_record es = empty_record\<lparr>wr_Effects := map norm_effect es\<rparr>"

definition del_record :: "string \<Rightarrow> walRecord" where
  "del_record k = empty_record\<lparr>wr_Type := RecordDelete, wr_Key := k\<rparr>"

definition cmd_fits :: "int \<Rightarrow> kvstore \<Rightarrow> command \<Rightarrow> bool" where
  "cmd_fits t kv cmd \<longleftrightarrow>
     (let es = fst (prepareDurableEffects t kv cmd)
      in if es \<noteq> [] then rec_fits t (tx_record es)
         else list_all (\<lambda>k. rec_fits t (del_record k)) (args_from 0 cmd))"

text \<open>The surroundings of a command: the clock is a non-negative 64-bit number, no I/O error, nonces of the
  right length, the cipher of the log, and commits on this node.\<close>

definition env_ok :: "gcm_seal \<Rightarrow> env \<Rightarrow> bool" where
  "env_ok gcm_seal ev \<longleftrightarrow> 0 \<le> ev_now ev \<and> in_i64 (ev_now ev) \<and> ev_io ev = None \<and> ev_seal ev = gcm_seal
     \<and> ev_raft ev = RaftLocal \<and> (\<forall>s. length (ev_nonce ev s) = 12)"

section \<open>Commands reach their handlers\<close>

lemma writes_registered:
  "name \<in> set string_writes \<Longrightarrow> \<exists>info. Lookup name = Some info \<and> ci_DurableV1 info \<and> \<not> ci_ReadOnly info"
proof -
  have "list_all (\<lambda>n. case Lookup n of None \<Rightarrow> False | Some i \<Rightarrow> ci_DurableV1 i \<and> \<not> ci_ReadOnly i) string_writes"
    by code_simp
  then show "name \<in> set string_writes \<Longrightarrow> \<exists>info. Lookup name = Some info \<and> ci_DurableV1 info \<and> \<not> ci_ReadOnly info"
    by (fastforce simp: list_all_iff split: option.splits)
qed

lemma reads_registered:
  "name \<in> set string_reads \<Longrightarrow> \<exists>info. Lookup name = Some info \<and> ci_ReadOnly info"
proof -
  have "list_all (\<lambda>n. case Lookup n of None \<Rightarrow> False | Some i \<Rightarrow> ci_ReadOnly i) string_reads"
    by code_simp
  then show "name \<in> set string_reads \<Longrightarrow> \<exists>info. Lookup name = Some info \<and> ci_ReadOnly info"
    by (fastforce simp: list_all_iff split: option.splits)
qed

definition handler :: "env \<Rightarrow> 'v executor \<Rightarrow> command \<Rightarrow> 'v dres" where
  "handler ev ex cmd =
     (let name = Normalized cmd
      in if name = ''SET'' then cmd_SET ev ex cmd
         else if name = ''SETEX'' then cmd_SETEX ev ex cmd
         else if name = ''SETNX'' then cmd_SETNX ev ex cmd
         else if name = ''GETSET'' then cmd_GETSET ev ex cmd
         else if name = ''MSET'' then cmd_MSET ev ex cmd
         else if name = ''DEL'' then cmd_DEL ev ex cmd
         else if name = ''RENAME'' then cmd_RENAME ev ex cmd
         else if name = ''INCR'' then cmd_INCR ev ex cmd 1
         else if name = ''DECR'' then cmd_INCR ev ex cmd (- 1)
         else if name = ''INCRBY'' then cmd_INCRBY ev ex cmd False
         else if name = ''DECRBY'' then cmd_INCRBY ev ex cmd True
         else cmd_APPEND ev ex cmd)"

lemma dispatch_writes:
  assumes "Normalized cmd \<in> set string_writes"
  shows "Dispatch 1 v rest ev c ex cmd = handler ev ex cmd"
  using assms unfolding string_writes_def
  by (auto simp: handler_def dispatch_step_def dispatch_server_def dispatch_keys_def dispatch_strings_def)

lemma dispatch_reads:
  assumes "Normalized cmd \<in> set string_reads"
  shows "fst (Dispatch 1 v rest ev c ex cmd) = ex"
proof -
  have on: "fst (on_res ex r f) = ex" for r :: "'b res" and f by (cases r) (simp_all add: reply_defs)
  show ?thesis
    using assms unfolding string_reads_def
    by (auto simp: dispatch_step_def dispatch_server_def dispatch_keys_def dispatch_strings_def cmd_PING_def cmd_ECHO_def
        cmd_HELLO_def cmd_EXISTS_def cmd_SCAN_def cmd_GET_def cmd_GETRANGE_def wrong_args_def err_reply_def reply_def
        intro: on) (simp_all add: Let_def)
qed

lemma mirror_write:
  assumes s: "string_store (ex_kv ex)" and t: "0 \<le> ev_now ev" "in_i64 (ev_now ev)"
    and w: "Normalized cmd \<in> set string_writes" and d: "durable_cmd (ev_now ev) (ex_kv ex) cmd"
  shows "mirrors (ev_now ev) (ex_kv ex) (fst (prepareDurableEffects (ev_now ev) (ex_kv ex) cmd))
    (ex_kv (fst (handler ev ex cmd)))"
proof -
  consider "Normalized cmd = ''SET''" | "Normalized cmd = ''SETEX''" | "Normalized cmd = ''SETNX''"
    | "Normalized cmd = ''GETSET''" | "Normalized cmd = ''MSET''" | "Normalized cmd = ''DEL''"
    | "Normalized cmd = ''RENAME''"
    | "Normalized cmd = ''INCR''" | "Normalized cmd = ''DECR''" | "Normalized cmd = ''INCRBY''"
    | "Normalized cmd = ''DECRBY''" | "Normalized cmd = ''APPEND''"
    using w by (auto simp: string_writes_def)
  then show ?thesis
  proof cases
    case 1
    then have "ParseSetArgs (tl (cmd_Args cmd)) = Ok (v, ttl, nx, xx) \<Longrightarrow> ttl_ok (ev_now ev) ttl" for v ttl nx xx
      using d by (simp add: durable_cmd_def)
    from mirror_SET [OF s t(1) this] 1 show ?thesis by (simp add: prepareDurableEffects_def handler_def)
  next
    case 2
    then have "ParseInt (Arg cmd 1) = (n, None) \<Longrightarrow> ttl_ok (ev_now ev) n" for n
      using d by (simp add: durable_cmd_def)
    from mirror_SETEX [OF s t(1) this] 2 show ?thesis by (simp add: prepareDurableEffects_def handler_def)
  next
    case 4
    then show ?thesis
      using d mirror_GETSET [OF s] by (simp add: prepareDurableEffects_def handler_def durable_cmd_def)
  next
    case 7
    then have "2 \<le> NumArgs cmd \<Longrightarrow> kv_Get (ev_now ev) (ex_kv ex) (Arg cmd 0) = Some e \<Longrightarrow>
        e_expires e \<noteq> ev_now ev \<and> Arg cmd 0 \<noteq> Arg cmd 1" for e
      using d by (simp add: durable_cmd_def)
    from mirror_RENAME [OF s t this] 7 show ?thesis by (simp add: prepareDurableEffects_def handler_def)
  qed (use mirror_SETNX [OF s t] mirror_MSET [OF s] mirror_DEL(1) [OF s] mirror_INCR [OF s] mirror_APPEND [OF s] in
    \<open>simp_all add: prepareDurableEffects_def handler_def\<close>)
qed

section \<open>Commands log only what they announce\<close>

lemma log_all_suppressed [simp]: "ex_suppressWAL ex \<Longrightarrow> log_all ev ex rs = (ex, True)"
  by (induction rs) (auto simp: writeWAL_def split: option.splits)

lemma then_log_suppressed [simp]: "ex_suppressWAL ex \<Longrightarrow> then_log ev ex rs out = (ex, out, DOk)"
  by (simp add: then_log_def reply_def)

lemma then_log_nothing [simp]: "then_log ev ex [] out = (ex, out, DOk)"
  by (simp add: then_log_def reply_def)

definition only_kv :: "'v executor \<Rightarrow> 'v executor \<Rightarrow> bool" where
  "only_kv ex ex' \<longleftrightarrow> ex' = ex\<lparr>ex_kv := ex_kv ex'\<rparr>"

lemma only_kv_refl [simp]: "only_kv ex ex"
  by (simp add: only_kv_def)

lemma only_kv_upd [simp]: "only_kv ex (ex\<lparr>ex_kv := kv\<rparr>)"
  by (simp add: only_kv_def)

lemma only_kv_on_kv [simp]: "only_kv ex (fst (on_kv ex p f))"
  by (cases "snd p") (simp_all add: reply_defs)

lemmas only_kv_simps = reply_def err_reply_def wrong_args_def Let_def

lemma suppressed_write:
  assumes "ex_suppressWAL ex"
  shows "only_kv ex (fst (handler ev ex cmd))"
proof -
  note cs = only_kv_simps assms
  have a: "only_kv ex (fst (cmd_SET ev ex cmd))"
    using assms by (auto simp: cmd_SET_def cs split: res.splits prod.splits)
  have b: "only_kv ex (fst (cmd_SETEX ev ex cmd))" using assms by (auto simp: cmd_SETEX_def cs split: prod.splits)
  have c: "only_kv ex (fst (cmd_SETNX ev ex cmd))" by (auto simp: cmd_SETNX_def cs split: prod.splits)
  have d: "only_kv ex (fst (cmd_GETSET ev ex cmd))" by (simp add: cmd_GETSET_def)
  have e: "only_kv ex (fst (cmd_MSET ev ex cmd))" using assms by (auto simp: cmd_MSET_def cs)
  have f: "only_kv ex (fst (cmd_DEL ev ex cmd))" using assms by (auto simp: cmd_DEL_def cs split: prod.splits)
  have g: "only_kv ex (fst (cmd_RENAME ev ex cmd))" by (simp add: cmd_RENAME_def wrong_args_def err_reply_def)
  have h: "only_kv ex (fst (cmd_INCR ev ex cmd n))" for n by (simp add: cmd_INCR_def)
  have i: "only_kv ex (fst (cmd_INCRBY ev ex cmd neg))" for neg
    using h by (auto simp: cmd_INCRBY_def cs split: prod.splits option.splits)
  have j: "only_kv ex (fst (cmd_APPEND ev ex cmd))" by (simp add: cmd_APPEND_def wrong_args_def err_reply_def)
  show ?thesis unfolding handler_def Let_def by (simp add: a b c d e f g h i j)
qed

text \<open>Without effects nothing is written to the log, except by \<^verbatim>\<open>DEL\<close> of keys that are there but expired.\<close>

lemma silent_write:
  assumes s: "string_store (ex_kv ex)" and "Normalized cmd \<in> set string_writes" and "Normalized cmd \<noteq> ''DEL''"
    and none: "fst (prepareDurableEffects (ev_now ev) (ex_kv ex) cmd) = []"
  shows "only_kv ex (fst (handler ev ex cmd))"
proof -
  note cs = only_kv_simps
  have a: "only_kv ex (fst (cmd_SET ev ex cmd))" if e: "eff_SET (ev_now ev) (ex_kv ex) cmd = []"
  proof (cases "NumArgs cmd < 2")
    case False
    have same: "NumArgs cmd = 2 \<Longrightarrow> ParseSetArgs (tl (cmd_Args cmd)) = Ok (ArgBytes cmd 1, 0, False, False)"
      by (auto simp: NumArgs_def ArgBytes_def ParseSetArgs_def length_Suc_conv numeral_2_eq_2)
    have "(if NumArgs cmd = 2 then Ok (ArgBytes cmd 1, 0, False, False) else ParseSetArgs (tl (cmd_Args cmd)))
        = ParseSetArgs (tl (cmd_Args cmd))" using same by simp
    then show ?thesis
      using e False stringState_store [OF s]
      by (auto simp: cmd_SET_def eff_SET_def cs Str_Set_def kv_Exists_def split: res.splits prod.splits option.splits if_splits)
  qed (simp add: cmd_SET_def cs)
  have b: "only_kv ex (fst (cmd_SETEX ev ex cmd))" if "eff_SETEX (ev_now ev) cmd = []"
    using that by (auto simp: cmd_SETEX_def eff_SETEX_def cs split: prod.splits option.splits if_splits)
  have c: "only_kv ex (fst (cmd_SETNX ev ex cmd))" by (auto simp: cmd_SETNX_def cs split: prod.splits)
  have e: "only_kv ex (fst (cmd_MSET ev ex cmd))" if "eff_MSET cmd = []"
  proof (cases "NumArgs cmd < 2 \<or> odd (NumArgs cmd)")
    case False
    then obtain k v r where "cmd_Args cmd = k # v # r"
      by (cases "cmd_Args cmd" rule: mset_effects.cases) (auto simp: NumArgs_def)
    then show ?thesis using that False by (simp add: eff_MSET_def)
  qed (auto simp: cmd_MSET_def cs)
  have h: "only_kv ex (fst (cmd_INCR ev ex cmd n))" for n by (simp add: cmd_INCR_def)
  have i: "only_kv ex (fst (cmd_INCRBY ev ex cmd neg))" for neg
    using h by (auto simp: cmd_INCRBY_def cs split: prod.splits option.splits)
  show ?thesis
    using assms(2-4) a b c e h i unfolding string_writes_def
    by (auto simp: handler_def prepareDurableEffects_def cmd_GETSET_def cmd_RENAME_def cmd_APPEND_def wrong_args_def err_reply_def)
qed

section \<open>The log follows the store\<close>

lemma fold_norm_effects [simp]: "fold log_eff (map norm_effect es) A = fold log_eff es A"
proof -
  have "log_eff (norm_effect e) = log_eff e" for e by (simp add: log_eff_def norm_effect_def fun_eq_iff)
  then show ?thesis by (induction es arbitrary: A) simp_all
qed

lemma plain_norm [simp]: "plain_eff (norm_effect e) = plain_eff e"
  by (simp add: plain_eff_def norm_effect_def)

lemma norm_norm: "norm_effect (norm_effect e) = norm_effect e"
  by (simp add: norm_effect_def)

lemma expand_tx:
  "es \<noteq> [] \<Longrightarrow> expandEffects (norm_record (stamp t s (tx_record es))) = map norm_effect es"
  by (simp add: comp_def norm_norm expandEffects_def norm_record_def stamp_def Let_def fill_effects_def tx_record_def record_effects_def
      empty_record_def)

lemma expand_del: "expandEffects (norm_record (stamp t s (del_record k))) = [del_effect k]"
  by (simp add: expandEffects_def norm_record_def stamp_def Let_def fill_effects_def del_record_def record_effects_def
      empty_record_def norm_effect_def del_effect_def RecordDelete_def RecordExpire_def nil_append_def)

definition log_state :: "gcm_open \<Rightarrow> encryptor option \<Rightarrow> wal \<Rightarrow> alog \<Rightarrow> bool" where
  "log_state gcm_open enc w a \<longleftrightarrow>
     log_rel gcm_open w a \<and> w_syncMode w = ''always'' \<and> w_buf w = [] \<and> w_enc w = enc"

lemma w_Write_enc: "w_enc (fst (w_Write gcm_seal nonce io now w rec)) = w_enc w"
  by (auto simp: w_Write_def Let_def flush_record_def w_Sync_def split: option.splits prod.splits)

lemma unat_succ: "unat s + 1 < 2 ^ 64 \<Longrightarrow> unat (s + 1 :: 64 word) = unat s + 1"
  by (simp add: unat_word_ariths)

lemma log_one:
  assumes gcm: "gcm_spec gcm_seal gcm_open" and n: "length nonce = 12" and fits: "rec_fits t rec"
    and l: "log_state gcm_open enc w a" and b: "unat (al_seq a) + 1 < 2 ^ 64" and c: "c \<le> al_seq a"
  shows "\<exists>w' rec' a'. w_Write gcm_seal nonce None t w rec = (w', rec', True) \<and> log_state gcm_open enc w' a'
    \<and> unat (al_seq a') = unat (al_seq a) + 1 \<and> c \<le> al_seq a'
    \<and> after_checkpoint c (al_records a') = after_checkpoint c (al_records a)
        @ expandEffects (norm_record (stamp t (al_seq a + 1) rec))"
proof -
  have rel: "log_rel gcm_open w a" and sy: "w_syncMode w = ''always''" and e: "w_enc w = enc" and q: "w_seq w = al_seq a"
    using l by (auto simp: log_state_def log_rel_def)
  have o: "w_seq w \<noteq> - 1" using b q by (intro word_small_not_max) simp
  obtain w' where w': "w_Write gcm_seal nonce None t w rec = (w', stamp t (w_seq w + 1) rec, True)"
    and r: "log_rel gcm_open w' (al_write t rec a)" and m: "w_syncMode w' = w_syncMode w"
    and bf: "w_buf w' = []"
    by (rule log_rel_Write [OF gcm n fits o rel]) (simp add: sy)
  have "w_enc w' = enc" using w_Write_enc [of gcm_seal nonce None t w rec] w' e by simp
  then have st: "log_state gcm_open enc w' (al_write t rec a)" using r m bf sy by (simp add: log_state_def)
  have u: "unat (al_seq a + 1) = unat (al_seq a) + 1" using b by (rule unat_succ)
  then have gt: "\<not> al_seq a + 1 \<le> c" and le: "c \<le> al_seq a + 1" using c by (auto simp: word_le_nat_alt)
  have "after_checkpoint c (al_records (al_write t rec a)) = after_checkpoint c (al_records a)
        @ expandEffects (norm_record (stamp t (al_seq a + 1) rec))"
    using gt by (simp add: after_checkpoint_def al_records_def al_write_def)
  moreover have "al_seq (al_write t rec a) = al_seq a + 1" by (simp add: al_write_def)
  ultimately show ?thesis using w' st u le by auto
qed

text \<open>\<open>S\<close> is the image of the last checkpoint, \<open>c\<close> its sequence number.\<close>

definition shows_log :: "int \<Rightarrow> kvstore \<Rightarrow> (string \<Rightarrow> scell option) \<Rightarrow> walEffect list \<Rightarrow> bool" where
  "shows_log t kv S es \<longleftrightarrow>
     string_store kv \<and> (\<forall>e \<in> set es. plain_eff e) \<and> (\<forall>k. str_view t kv k = vis t (fold log_eff es S k))"

lemma shows_log_step:
  assumes "shows_log t kv S es" and "mirrors t kv es' kv'" and "\<And>A. fold log_eff es'' A = fold log_eff es' A"
    and "\<forall>e \<in> set es''. plain_eff e"
  shows "shows_log t kv' S (es @ es'')"
proof -
  have "vis t (fold log_eff es' (str_view t kv) k) = vis t (fold log_eff es' (fold log_eff es S) k)" for k
    using assms(1) by (intro vis_fold_cong) (simp add: shows_log_def vis_vis)
  then show ?thesis using assms by (auto simp: shows_log_def mirrors_def)
qed

lemma shows_log_later: "shows_log t kv S es \<Longrightarrow> t \<le> t' \<Longrightarrow> shows_log t' kv S es"
  unfolding shows_log_def by (metis vis_later vis_vis)

lemma shows_log_same: "shows_log t kv S es \<Longrightarrow> mirrors t kv [] kv' \<Longrightarrow> shows_log t kv' S es"
  using shows_log_step [of t kv S es "[]" kv' "[]"] by simp

definition tenant ::
  "gcm_open \<Rightarrow> encryptor option \<Rightarrow> (string \<Rightarrow> scell option) \<Rightarrow> 64 word \<Rightarrow> int \<Rightarrow> nat \<Rightarrow> 'v executor \<Rightarrow> bool" where
  "tenant gcm_open enc S c t n ex \<longleftrightarrow>
     (\<exists>w a. ex_wal ex = Some w \<and> log_state gcm_open enc w a \<and> \<not> ex_suppressWAL ex
        \<and> shows_log t (ex_kv ex) S (after_checkpoint c (al_records a)) \<and> c \<le> al_seq a \<and> unat (al_seq a) \<le> n)"

lemma tenant_later: "tenant gcm_open enc S c t n ex \<Longrightarrow> t \<le> t' \<Longrightarrow> n \<le> n' \<Longrightarrow> tenant gcm_open enc S c t' n' ex"
  unfolding tenant_def using shows_log_later le_trans by blast

lemma log_deletes:
  assumes gcm: "gcm_spec gcm_seal gcm_open" and ev: "env_ok gcm_seal ev"
  shows "ex_wal ex = Some w \<Longrightarrow> log_state gcm_open enc w a \<Longrightarrow> \<not> ex_suppressWAL ex \<Longrightarrow> c \<le> al_seq a \<Longrightarrow>
    list_all (\<lambda>k. rec_fits (ev_now ev) (del_record k)) ks \<Longrightarrow> unat (al_seq a) + length ks < 2 ^ 64 \<Longrightarrow>
    \<exists>w' a'. log_all ev ex (map del_record ks) = (ex\<lparr>ex_wal := Some w'\<rparr>, True) \<and> log_state gcm_open enc w' a'
      \<and> unat (al_seq a') = unat (al_seq a) + length ks \<and> c \<le> al_seq a'
      \<and> after_checkpoint c (al_records a') = after_checkpoint c (al_records a) @ map del_effect ks"
proof (induction ks arbitrary: ex w a)
  case Nil
  then show ?case by (auto intro!: exI [of _ w] exI [of _ a])
next
  case (Cons k ks)
  have nonce: "length (ev_nonce ev (w_seq w + 1)) = 12" using ev by (simp add: env_ok_def)
  obtain w1 rec1 a1 where w1: "w_Write gcm_seal (ev_nonce ev (w_seq w + 1)) None (ev_now ev) w (del_record k) = (w1, rec1, True)"
    and l1: "log_state gcm_open enc w1 a1" and u1: "unat (al_seq a1) = unat (al_seq a) + 1" and c1: "c \<le> al_seq a1"
    and r1: "after_checkpoint c (al_records a1) = after_checkpoint c (al_records a) @ [del_effect k]"
    using log_one [OF gcm nonce, of "ev_now ev" "del_record k" enc w a c] Cons.prems by (auto simp: expand_del)
  have "writeWAL ev ex (del_record k) = (ex\<lparr>ex_wal := Some w1\<rparr>, True)"
    using Cons.prems ev w1 by (simp add: writeWAL_def env_ok_def)
  then show ?case
    using Cons.IH [of "ex\<lparr>ex_wal := Some w1\<rparr>" w1 a1] Cons.prems l1 c1 u1 r1 by force
qed

section \<open>One command\<close>

lemma run_command_state:
  "ex_kv (fst (run_command v rest ev cid ex cmd d p q)) = ex_kv (fst (Dispatch 1 v rest ev cid ex cmd))"
  "ex_wal (fst (run_command v rest ev cid ex cmd d p q)) = ex_wal (fst (Dispatch 1 v rest ev cid ex cmd))"
  "ex_suppressWAL (fst (run_command v rest ev cid ex cmd d p q)) = ex_suppressWAL (fst (Dispatch 1 v rest ev cid ex cmd))"
  by (auto simp: run_command_def split: prod.splits dend.splits)

lemma unsuppress_state [simp]:
  "ex_kv (fst (unsuppress r)) = ex_kv (fst r)" "ex_wal (fst (unsuppress r)) = ex_wal (fst r)"
  "\<not> ex_suppressWAL (fst (unsuppress r))"
  by (simp_all add: unsuppress_def split: prod.splits)

lemma only_kv_state:
  assumes "only_kv ex ex'"
  shows "ex_wal ex' = ex_wal ex" and "ex_suppressWAL ex' = ex_suppressWAL ex"
  using arg_cong [OF assms [unfolded only_kv_def], of ex_wal] arg_cong [OF assms [unfolded only_kv_def], of ex_suppressWAL]
  by simp_all

lemma tenant_wal_only:
  "tenant gcm_open enc S c t n ex \<Longrightarrow> ex_kv ex' = ex_kv ex \<Longrightarrow> ex_wal ex' = ex_wal ex \<Longrightarrow>
     ex_suppressWAL ex' = ex_suppressWAL ex \<Longrightarrow> tenant gcm_open enc S c t n ex'"
  by (simp add: tenant_def)

lemma durable_write_logged:
  assumes gcm: "gcm_spec gcm_seal gcm_open" and ev: "env_ok gcm_seal ev"
    and ten: "tenant gcm_open enc S c (ev_now ev) n ex" and n: "n + 1 < 2 ^ 64"
    and w: "Normalized cmd \<in> set string_writes" and d: "durable_cmd (ev_now ev) (ex_kv ex) cmd"
    and fits: "cmd_fits (ev_now ev) (ex_kv ex) cmd" and wal: "ex_wal ex = Some wl"
    and es: "prepareDurableEffects (ev_now ev) (ex_kv ex) cmd = (es, p)" "p" "es \<noteq> []"
  shows "tenant gcm_open enc S c (ev_now ev) (n + 1) (fst (durable_write v rest ev cid ex wl cmd))"
proof (cases "fst (effectsFitQuota (ev_now ev) ex es)")
  case False
  then have "fst (durable_write v rest ev cid ex wl cmd) = ex"
    using es by (auto simp: durable_write_def err_reply_def split: prod.splits bool.splits)
  then show ?thesis using tenant_later [OF ten] by simp
next
  case True
  obtain a where l: "log_state gcm_open enc wl a" and sup: "\<not> ex_suppressWAL ex"
    and sh: "shows_log (ev_now ev) (ex_kv ex) S (after_checkpoint c (al_records a))" and c: "c \<le> al_seq a"
    and u: "unat (al_seq a) \<le> n" using ten wal by (auto simp: tenant_def)
  have t: "0 \<le> ev_now ev" "in_i64 (ev_now ev)" and loc: "ev_raft ev = RaftLocal" "ev_io ev = None" "ev_seal ev = gcm_seal"
    and nonce: "length (ev_nonce ev (w_seq wl + 1)) = 12" using ev by (auto simp: env_ok_def)
  have fit: "rec_fits (ev_now ev) (tx_record es)" using fits es by (simp add: cmd_fits_def)
  obtain w' rec' a' where w': "w_Write gcm_seal (ev_nonce ev (w_seq wl + 1)) None (ev_now ev) wl (tx_record es) = (w', rec', True)"
    and l': "log_state gcm_open enc w' a'" and u': "unat (al_seq a') = unat (al_seq a) + 1" and c': "c \<le> al_seq a'"
    and r': "after_checkpoint c (al_records a') = after_checkpoint c (al_records a) @ map norm_effect es"
    using log_one [OF gcm nonce fit l _ c] u n expand_tx [OF es(3)] by auto
  define ex1 where "ex1 = ex\<lparr>ex_wal := Some w', ex_suppressWAL := True\<rparr>"
  let ?r = "handler ev ex1 cmd"
  have kv1: "ex_kv ex1 = ex_kv ex" by (simp add: ex1_def)
  have "ex_suppressWAL ex1" "ex_wal ex1 = Some w'" by (simp_all add: ex1_def)
  then have st: "ex_wal (fst ?r) = Some w'" using only_kv_state(1) [OF suppressed_write, of ex1 ev cmd] by simp
  have "string_store (ex_kv ex)" using sh by (simp add: shows_log_def)
  then have m: "mirrors (ev_now ev) (ex_kv ex) es (ex_kv (fst ?r))"
    using mirror_write [of ex1 ev cmd] t w d es by (simp add: kv1)
  then have "\<forall>e \<in> set es. plain_eff e" by (simp add: mirrors_def)
  then have sh': "shows_log (ev_now ev) (ex_kv (fst ?r)) S (after_checkpoint c (al_records a'))"
    unfolding r' by (intro shows_log_step [OF sh m]) auto
  define res where "res = durable_write v rest ev cid ex wl cmd"
  obtain q where "effectsFitQuota (ev_now ev) ex es = (True, q)" using True by (cases "effectsFitQuota (ev_now ev) ex es") auto
  then have "res = unsuppress (run_command v rest ev cid ex1 cmd True p q)"
    using es w' loc by (simp add: res_def durable_write_def w_WriteTransaction_def through_raft_def ex1_def tx_record_def)
  then have "ex_kv (fst res) = ex_kv (fst ?r)" "ex_wal (fst res) = Some w'" "\<not> ex_suppressWAL (fst res)"
    using st by (simp_all add: run_command_state dispatch_writes [OF w] del: One_nat_def)
  then show ?thesis using l' sh' c' u' u unfolding tenant_def res_def [symmetric] by (intro exI [of _ w'] exI [of _ a']) simp
qed

lemma tenant_only_kv:
  assumes ten: "tenant gcm_open enc S c t n ex" and o: "only_kv ex ex'" and m: "mirrors t (ex_kv ex) [] (ex_kv ex')"
  shows "tenant gcm_open enc S c t n ex'"
proof -
  obtain w a where w: "ex_wal ex = Some w" "log_state gcm_open enc w a" "\<not> ex_suppressWAL ex"
    "shows_log t (ex_kv ex) S (after_checkpoint c (al_records a))" "c \<le> al_seq a" "unat (al_seq a) \<le> n"
    using ten by (auto simp: tenant_def)
  then show ?thesis
    unfolding tenant_def using only_kv_state [OF o] shows_log_same [OF _ m] by (intro exI [of _ w] exI [of _ a]) simp
qed

lemma DEL_logged:
  assumes gcm: "gcm_spec gcm_seal gcm_open" and ev: "env_ok gcm_seal ev"
    and ten: "tenant gcm_open enc S c (ev_now ev) n ex" and n: "n + NumArgs cmd < 2 ^ 64"
    and none: "eff_DEL (ev_now ev) (ex_kv ex) cmd = []"
    and fits: "list_all (\<lambda>k. rec_fits (ev_now ev) (del_record k)) (args_from 0 cmd)"
  shows "tenant gcm_open enc S c (ev_now ev) (n + NumArgs cmd) (fst (cmd_DEL ev ex cmd))"
proof -
  obtain w a where wal: "ex_wal ex = Some w" and l: "log_state gcm_open enc w a" and sup: "\<not> ex_suppressWAL ex"
    and sh: "shows_log (ev_now ev) (ex_kv ex) S (after_checkpoint c (al_records a))" and c: "c \<le> al_seq a"
    and u: "unat (al_seq a) \<le> n" using ten by (auto simp: tenant_def)
  have s: "string_store (ex_kv ex)" using sh by (simp add: shows_log_def)
  have len: "length (args_from 0 cmd) = NumArgs cmd" by (simp add: args_from_def NumArgs_def)
  define kv' where "kv' = fst (kv_Delete (ex_kv ex) (args_from 0 cmd))"
  then obtain del where dl: "kv_Delete (ex_kv ex) (args_from 0 cmd) = (kv', del)" by (metis prod.collapse)
  let ?ex = "ex\<lparr>ex_kv := kv'\<rparr>"
  obtain w' a' where w': "log_all ev ?ex (map del_record (args_from 0 cmd)) = (?ex\<lparr>ex_wal := Some w'\<rparr>, True)"
    and l': "log_state gcm_open enc w' a'" and u': "unat (al_seq a') = unat (al_seq a) + NumArgs cmd" and c': "c \<le> al_seq a'"
    and r': "after_checkpoint c (al_records a') = after_checkpoint c (al_records a) @ map del_effect (args_from 0 cmd)"
    using log_deletes [OF gcm ev, of ?ex w enc a c "args_from 0 cmd"] wal l sup c fits u n len by auto
  have rec: "map (\<lambda>k. empty_record\<lparr>wr_Type := RecordDelete, wr_Key := k\<rparr>) ks = map del_record ks" for ks
    by (simp add: del_record_def)
  show ?thesis
  proof (cases "NumArgs cmd < 1 \<or> \<not> 0 < snd (kv_Delete (ex_kv ex) (args_from 0 cmd))")
    case True
    then have "only_kv ex (fst (cmd_DEL ev ex cmd))" by (auto simp: cmd_DEL_def only_kv_simps split: prod.splits)
    then show ?thesis using tenant_later [OF tenant_only_kv [OF ten]] mirror_DEL(1) [OF s, of ev cmd] none by simp
  next
    case False
    then have e: "fst (cmd_DEL ev ex cmd) = ?ex\<lparr>ex_wal := Some w'\<rparr>"
      using w' dl by (simp add: cmd_DEL_def rec then_log_def reply_def Let_def)
    have m: "mirrors (ev_now ev) (ex_kv ex) (map del_effect (args_from 0 cmd)) kv'"
      using mirror_DEL(2) [OF s none] e by simp
    have "shows_log (ev_now ev) kv' S (after_checkpoint c (al_records a'))"
      unfolding r' by (rule shows_log_step [OF sh m]) auto
    then show ?thesis
      using sup l' c' u' u unfolding tenant_def e by (intro exI [of _ w'] exI [of _ a']) simp
  qed
qed

lemma durable_write_tenant:
  assumes gcm: "gcm_spec gcm_seal gcm_open" and ev: "env_ok gcm_seal ev"
    and ten: "tenant gcm_open enc S c (ev_now ev) n ex" and n: "n + 1 + NumArgs cmd < 2 ^ 64"
    and w: "Normalized cmd \<in> set string_writes" and d: "durable_cmd (ev_now ev) (ex_kv ex) cmd"
    and fits: "cmd_fits (ev_now ev) (ex_kv ex) cmd" and wal: "ex_wal ex = Some wl"
  shows "tenant gcm_open enc S c (ev_now ev) (n + 1 + NumArgs cmd) (fst (durable_write v rest ev cid ex wl cmd))"
proof -
  obtain es p where es: "prepareDurableEffects (ev_now ev) (ex_kv ex) cmd = (es, p)" by force
  have p: "p" using w es by (auto simp: string_writes_def prepareDurableEffects_def)
  show ?thesis
  proof (cases "es = []")
    case False
    from tenant_later [OF durable_write_logged [OF gcm ev ten _ w d fits wal es p False]] n show ?thesis by simp
  next
    case True
    have s: "string_store (ex_kv ex)" using ten by (auto simp: tenant_def shows_log_def)
    have t: "0 \<le> ev_now ev" "in_i64 (ev_now ev)" and loc: "ev_raft ev = RaftLocal" using ev by (auto simp: env_ok_def)
    have "tenant gcm_open enc S c (ev_now ev) (n + NumArgs cmd) (fst (handler ev ex cmd))"
    proof (cases "Normalized cmd = ''DEL''")
      case True
      have "list_all (\<lambda>k. rec_fits (ev_now ev) (del_record k)) (args_from 0 cmd)"
        using fits es \<open>es = []\<close> by (simp add: cmd_fits_def)
      then show ?thesis
        using DEL_logged [OF gcm ev ten, of cmd] n es \<open>es = []\<close> True by (simp add: prepareDurableEffects_def handler_def)
    next
      case False
      have o: "only_kv ex (fst (handler ev ex cmd))" using silent_write [OF s w False] es True by simp
      have "mirrors (ev_now ev) (ex_kv ex) [] (ex_kv (fst (handler ev ex cmd)))"
        using mirror_write [OF s t w d] es True by simp
      from tenant_later [OF tenant_only_kv [OF ten o this]] show ?thesis by simp
    qed
    then have "tenant gcm_open enc S c (ev_now ev) (n + 1 + NumArgs cmd) (fst (handler ev ex cmd))"
      by (rule tenant_later) simp_all
    moreover have "durable_write v rest ev cid ex wl cmd = run_command v rest ev cid ex cmd True p (ex_accounted ex)"
      using es True loc by (simp add: durable_write_def through_raft_def)
    ultimately show ?thesis
      by (auto simp del: One_nat_def intro: tenant_wal_only simp: run_command_state dispatch_writes [OF w])
  qed
qed

text \<open>The ways through \<^verbatim>\<open>Execute\<close> in durable mode.\<close>

lemma Execute_ways:
  assumes wal: "ex_wal ex = Some wl" and loc: "ev_raft ev = RaftLocal"
    and q: "\<not> (IsActive (ex_multi ex) cid \<and> Normalized cmd \<notin> {''EXEC'', ''DISCARD'', ''WATCH'', ''MULTI''})"
  shows "Normalized cmd \<in> set string_writes \<Longrightarrow> ex_readOnly ex \<Longrightarrow> fst (Execute v rest ev cid ex cmd) = ex"
    and "Normalized cmd \<in> set string_writes \<Longrightarrow> \<not> ex_readOnly ex \<Longrightarrow>
      Execute v rest ev cid ex cmd = durable_write v rest ev cid ex wl cmd"
    and "Normalized cmd \<in> set string_reads \<Longrightarrow>
      Execute v rest ev cid ex cmd = run_command v rest ev cid ex cmd False False (ex_accounted ex)"
    and "\<not> SupportedInDurableV1 (Normalized cmd) \<Longrightarrow> fst (Execute v rest ev cid ex cmd) = ex"
proof -
  note ex_def = Execute_def Let_def if_not_P [OF q] err_reply_def SupportedInDurableV1_def through_raft_def
  show "Normalized cmd \<in> set string_writes \<Longrightarrow> ex_readOnly ex \<Longrightarrow> fst (Execute v rest ev cid ex cmd) = ex"
    and "Normalized cmd \<in> set string_writes \<Longrightarrow> \<not> ex_readOnly ex \<Longrightarrow>
      Execute v rest ev cid ex cmd = durable_write v rest ev cid ex wl cmd"
    using writes_registered [of "Normalized cmd"] wal unfolding ex_def by auto
  show "Normalized cmd \<in> set string_reads \<Longrightarrow>
      Execute v rest ev cid ex cmd = run_command v rest ev cid ex cmd False False (ex_accounted ex)"
    using reads_registered [of "Normalized cmd"] wal unfolding ex_def by auto
  show "\<not> SupportedInDurableV1 (Normalized cmd) \<Longrightarrow> fst (Execute v rest ev cid ex cmd) = ex"
    using wal unfolding ex_def by (auto split: option.splits)
qed

lemma Execute_tenant:
  assumes gcm: "gcm_spec gcm_seal gcm_open" and ev: "env_ok gcm_seal ev"
    and ten: "tenant gcm_open enc S c (ev_now ev) n ex" and n: "n + 1 + NumArgs cmd < 2 ^ 64"
    and d: "durable_cmd (ev_now ev) (ex_kv ex) cmd" and fits: "cmd_fits (ev_now ev) (ex_kv ex) cmd"
  shows "tenant gcm_open enc S c (ev_now ev) (n + 1 + NumArgs cmd) (fst (Execute v rest ev cid ex cmd))"
proof -
  let ?name = "Normalized cmd"
  obtain wl where wal: "ex_wal ex = Some wl" using ten by (auto simp: tenant_def)
  have ten': "tenant gcm_open enc S c (ev_now ev) (n + 1 + NumArgs cmd) ex" using ten by (rule tenant_later) simp_all
  have loc: "ev_raft ev = RaftLocal" using ev by (simp add: env_ok_def)
  have kinds: "?name \<in> set string_writes \<or> ?name \<in> set string_reads \<or> \<not> SupportedInDurableV1 ?name"
    using d unfolding durable_cmd_def Let_def by (auto simp: string_writes_def split: if_splits)
  show ?thesis
  proof (cases "IsActive (ex_multi ex) cid \<and> ?name \<notin> {''EXEC'', ''DISCARD'', ''WATCH'', ''MULTI''}")
    case True
    then have "fst (Execute v rest ev cid ex cmd) = ex\<lparr>ex_multi := tx_Enqueue (ex_multi ex) cid cmd\<rparr>"
      unfolding Execute_def Let_def by (simp add: reply_def)
    then show ?thesis using ten' by (auto intro: tenant_wal_only)
  next
    case False
    note ways = Execute_ways [where v = v and rest = rest, OF wal loc False]
    show ?thesis
      using kinds
    proof (elim disjE)
      assume w: "?name \<in> set string_writes"
      then show ?thesis
        using ways(1,2) ten' durable_write_tenant [OF gcm ev ten n w d fits wal] by (cases "ex_readOnly ex") simp_all
    next
      assume r: "?name \<in> set string_reads"
      show ?thesis unfolding ways(3) [OF r]
        by (rule tenant_wal_only [OF ten']) (simp_all only: run_command_state dispatch_reads [OF r])
    next
      assume "\<not> SupportedInDurableV1 ?name"
      then show ?thesis using ways(4) ten' by simp
    qed
  qed
qed

end
