(* ===== verification/CrashRecovery.thy ===== *)
theory CrashRecovery
  imports DurableSystem "HOL-Library.Countable"
begin

text \<open>
  Checkpoints and crash recovery of a tenant, on top of the command invariant of \<open>DurableSystem\<close>. The
  encoder \<^verbatim>\<open>encoding/gob\<close> is assumed to give back what it encoded, up to the order of a map and the
  difference between an empty and a nil slice; the vector store is assumed to hold no index.
\<close>

section \<open>The reaper\<close>

lemma mirrors_reap:
  assumes s: "string_store kv"
  shows "mirrors t kv [] (fst (kv_DeleteExpiredLimit t kv limit))"
proof -
  let ?kv = "fst (kv_DeleteExpiredLimit t kv limit)"
  have inv: "kv_inv kv" and dl: "kv_deadlines kv" using s by (simp_all add: string_store_def)
  have f: "kv_find ?kv k = kv_find kv k \<or> kv_find ?kv k = None \<and> str_view t kv k = None" for k
  proof (cases "kv_find ?kv k = kv_find kv k")
    case False
    with kv_reap_find [OF inv, of t limit k] obtain e where n: "kv_find ?kv k = None" and e: "kv_find kv k = Some e"
      and r: "reapable t (sh_expiries (kv_shard kv k)) e" by auto
    have "e_expires e \<noteq> 0" "e_expires e \<le> t"
      using dl r kv_shard_in [OF inv, of k] by (auto simp: kv_deadlines_def deadlines_set_def reapable_def)
    then show ?thesis using n e by (simp add: str_view_def vis_def str_cell_def)
  qed simp
  have "string_store ?kv"
    using f by (intro string_storeI [OF kv_reap_inv [OF inv] kv_reap_deadlines [OF dl] s]) blast
  moreover have "str_view t ?kv k = str_view t kv k" for k
    using f [of k] by (auto simp: str_view_def)
  ultimately show ?thesis by (simp add: mirrors_def)
qed

lemma reap_tenant:
  assumes "tenant gcm_open enc S c t n ex"
  shows "tenant gcm_open enc S c t n (ex\<lparr>ex_kv := fst (kv_DeleteExpiredLimit t (ex_kv ex) limit)\<rparr>)"
proof (rule tenant_only_kv [OF assms])
  have "string_store (ex_kv ex)" using assms by (auto simp: tenant_def shows_log_def)
  then show "mirrors t (ex_kv ex) [] (ex_kv (ex\<lparr>ex_kv := fst (kv_DeleteExpiredLimit t (ex_kv ex) limit)\<rparr>))"
    using mirrors_reap by simp
qed simp

section \<open>Snapshot images\<close>

definition wire_cell :: "wireEntry \<Rightarrow> scell" where
  "wire_cell we = (case as_bytes (we_value we) of Some b \<Rightarrow> sl b | None \<Rightarrow> [], we_expires we)"

definition string_wire :: "(string, wireEntry) gomap \<Rightarrow> bool" where
  "string_wire wire \<longleftrightarrow> wf_map wire \<and> (\<forall>(k, we) \<in> set wire. we_type we = TypeString \<and> as_bytes (we_value we) \<noteq> None
     \<and> 0 \<le> we_expires we \<and> in_i64 (we_expires we))"

text \<open>What is assumed of \<^verbatim>\<open>encoding/gob\<close> on images of string stores.\<close>

definition gob_faithful :: "gob_enc \<Rightarrow> gob_dec \<Rightarrow> bool" where
  "gob_faithful gob_enc gob_dec \<longleftrightarrow>
     (\<forall>hdr wire. string_wire wire \<longrightarrow>
        (\<exists>b wire'. gob_enc (hdr, wire) = Some b \<and> gob_dec b = Some (hdr, wire') \<and> string_wire wire'
           \<and> (\<forall>k. map_option wire_cell (map_of wire' k) = map_option wire_cell (map_of wire k))))"

text \<open>What is assumed of a vector store without indexes.\<close>

definition vec_idle :: "'v vecops \<Rightarrow> bool" where
  "vec_idle v \<longleftrightarrow> (\<forall>st. vo_FlushDurable v st = (st, Inr ()) \<and> vo_IndexSeals v st = []
     \<and> vo_ReopenPersisted v st = (st, Inr ()) \<and> vo_VerifySeals v [] st)"

definition wire_effects :: "(string, wireEntry) gomap \<Rightarrow> walEffect list" where
  "wire_effects wire = map (\<lambda>(k, we). put_effect k (nil_append (fst (wire_cell we))) (we_expires we)) wire"

lemma fold_wire_effects:
  "wf_map wire \<Longrightarrow> fold log_eff (wire_effects wire) A k =
     (case map_of wire k of Some we \<Rightarrow> Some (wire_cell we) | None \<Rightarrow> A k)"
proof (induction wire arbitrary: A)
  case (Cons p wire)
  obtain k1 we where p: "p = (k1, we)" by (cases p)
  have "map_of wire k1 = None" using Cons.prems p by (simp add: wf_map_def map_of_eq_None_iff)
  moreover have "(fst (wire_cell we), we_expires we) = wire_cell we" by (simp add: wire_cell_def)
  ultimately show ?case using Cons p by (auto simp: wire_effects_def wf_map_def split: option.splits)
qed (simp add: wire_effects_def)

lemma mirrors_load_entry:
  assumes s: "string_store kv" and T: "0 \<le> T" "in_i64 T" and free: "str_view T kv k = None"
    and we: "we_type we = TypeString" "as_bytes (we_value we) \<noteq> None" "0 \<le> we_expires we" "in_i64 (we_expires we)"
  shows "mirrors T kv [put_effect k (nil_append (fst (wire_cell we))) (we_expires we)] (load_entry T kv (k, we))"
proof -
  obtain v where v: "we_value we = VBytes v" "fst (wire_cell we) = sl v"
    using we(2) by (cases "we_value we") (auto simp: wire_cell_def)
  have pl: "plain_eff (put_effect k (nil_append (fst (wire_cell we))) (we_expires we))"
    using we by (simp add: plain_eff_def put_effect_def)
  note d = plain_deadline [OF pl T, unfolded put_effect_def, simplified]
  show ?thesis
  proof (cases "we_expires we > 0 \<and> we_expires we \<le> T")
    case True
    then have "load_entry T kv (k, we) = kv" by (simp add: load_entry_def Let_def d)
    moreover have "str_view T kv x = vis T (((str_view T kv)(k \<mapsto> (sl v, we_expires we))) x)" for x
      using True free by (cases "x = k") (simp_all add: vis_def [of T "Some (sl v, we_expires we)"])
    ultimately show ?thesis using s pl v by (simp add: mirrors_def)
  next
    case False
    then have "load_entry T kv (k, we) = kv_Set T kv k (VBytes v) TypeString
        (if we_expires we > 0 then we_expires we - T else 0)"
      using we v by (auto simp: load_entry_def Let_def d)
    then show ?thesis
      using False we v d by (auto intro!: mirrors_Set [OF s] simp: set_deadline_def)
  qed
qed

lemma mirrors_load:
  assumes T: "0 \<le> T" "in_i64 T"
  shows "string_wire wire \<Longrightarrow> string_store kv \<Longrightarrow> (\<And>k. k \<in> fst ` set wire \<Longrightarrow> str_view T kv k = None) \<Longrightarrow>
    mirrors T kv (wire_effects wire) (foldl (load_entry T) kv wire)"
proof (induction wire arbitrary: kv)
  case Nil
  then show ?case by (simp add: wire_effects_def mirrors_refl)
next
  case (Cons p wire)
  obtain k we where p: "p = (k, we)" by (cases p)
  have m1: "mirrors T kv [put_effect k (nil_append (fst (wire_cell we))) (we_expires we)] (load_entry T kv (k, we))"
    using Cons.prems p by (intro mirrors_load_entry [OF _ T]) (auto simp: string_wire_def)
  have w: "string_wire wire" "k \<notin> fst ` set wire" using Cons.prems(1) p by (auto simp: string_wire_def wf_map_def)
  have "str_view T (load_entry T kv (k, we)) x = None" if "x \<in> fst ` set wire" for x
    using m1 that w(2) Cons.prems(3) [of x] p by (auto simp: mirrors_def)
  moreover have "string_store (load_entry T kv (k, we))" using m1 by (simp add: mirrors_def)
  ultimately have "mirrors T (load_entry T kv (k, we)) (wire_effects wire) (foldl (load_entry T) (load_entry T kv (k, we)) wire)"
    using Cons.IH [OF w(1)] by blast
  from mirrors_trans [OF m1 this] show ?case by (simp add: wire_effects_def p)
qed

section \<open>The snapshot directory\<close>

definition cells_of :: "(string, wireEntry) gomap \<Rightarrow> string \<Rightarrow> scell option" where
  "cells_of wire k = map_option wire_cell (map_of wire k)"

text \<open>A file that holds a checkpoint image.\<close>

definition image_file ::
  "gob_dec \<Rightarrow> gcm_open \<Rightarrow> encryptor option \<Rightarrow> bytes \<Rightarrow> (string \<Rightarrow> scell option) \<Rightarrow> 64 word \<Rightarrow> bool" where
  "image_file gob_dec gcm_open enc fl S c \<longleftrightarrow>
     (\<exists>data hdr wire. OpenSealed gcm_open enc fl = Some data \<and> gob_dec data = Some (hdr, wire) \<and> sh_Version hdr = 2
        \<and> sh_Sequence hdr = c \<and> sh_VectorSeals hdr = [] \<and> string_wire wire \<and> S = cells_of wire)"

definition snap_holds ::
  "gob_dec \<Rightarrow> gcm_open \<Rightarrow> encryptor option \<Rightarrow> snapdir \<Rightarrow> (string \<Rightarrow> scell option) \<Rightarrow> 64 word \<Rightarrow> bool" where
  "snap_holds gob_dec gcm_open enc dir S c \<longleftrightarrow>
     (if Latest dir = [] then S = Map.empty \<and> c = 0
      else \<exists>fl m. map_of dir (Latest dir) = Some (fl, m) \<and> image_file gob_dec gcm_open enc fl S c)"

text \<open>The directory has never been used, or \<^verbatim>\<open>CURRENT\<close> names one of its snapshots.\<close>

definition snap_dir :: "snapdir \<Rightarrow> bool" where
  "snap_dir dir \<longleftrightarrow> dir = [] \<or> (\<exists>now m. map_of dir currentName = Some (snapshot_name now @ [char_of (10 :: nat)], m)
     \<and> map_of dir (snapshot_name now) \<noteq> None)"

lemma digit_plain: "is_digit d \<Longrightarrow> \<not> is_space d \<and> d \<noteq> CHR ''/'' \<and> d \<noteq> CHR 0x5C"
  unfolding is_digit_def is_space_def by fastforce

lemma snapshot_chars:
  assumes "c \<in> set (snapshot_name now)"
  shows "\<not> is_space c \<and> c \<noteq> CHR ''/'' \<and> c \<noteq> CHR 0x5C"
proof -
  let ?ok = "\<lambda>c. \<not> is_space c \<and> c \<noteq> CHR ''/'' \<and> c \<noteq> CHR 0x5C"
  have lit: "list_all ?ok (''snapshot-.rdb'')" by code_simp
  have fmt: "c \<in> set (FormatInt now) \<Longrightarrow> c = CHR ''-'' \<or> is_digit c"
    using fmt_nat_digits by (auto simp: FormatInt_def split: if_splits)
  have "c \<in> set (''snapshot-.rdb'') \<or> c \<in> set (FormatInt now)" using assms by (auto simp: snapshot_name_def)
  then show ?thesis using lit fmt digit_plain [of c] by (auto simp: list_all_iff)
qed

lemma snapshot_name_ne [simp]: "snapshot_name now \<noteq> []" "snapshot_name now \<noteq> currentName" "currentName \<noteq> snapshot_name now"
  by (simp_all add: snapshot_name_def currentName_def)

lemma TrimSpace_snapshot: "TrimSpace (snapshot_name now @ [char_of (10 :: nat)]) = snapshot_name now"
proof -
  let ?s = "snapshot_name now"
  obtain c cs where c: "?s = c # cs" by (cases ?s) auto
  obtain d ds where d: "rev ?s = d # ds" by (cases "rev ?s") auto
  have "\<not> is_space c" using snapshot_chars [of c now] c by simp
  moreover have "d \<in> set (rev ?s)" using d by simp
  then have "\<not> is_space d" using snapshot_chars [of d now] by simp
  moreover have "is_space (char_of (10 :: nat))" by (simp add: is_space_def)
  ultimately have "dropWhile is_space (?s @ [char_of (10 :: nat)]) = ?s @ [char_of (10 :: nat)]"
    and "dropWhile is_space (rev (?s @ [char_of (10 :: nat)])) = rev ?s" using c d by simp_all
  then show ?thesis by (simp add: TrimSpace_def)
qed

lemma Latest_current:
  assumes "map_of dir currentName = Some (snapshot_name now @ [char_of (10 :: nat)], m)"
    and "map_of dir (snapshot_name now) \<noteq> None"
  shows "Latest dir = snapshot_name now"
proof -
  have "CHR ''/'' \<notin> set (snapshot_name now)" "CHR 0x5C \<notin> set (snapshot_name now)" using snapshot_chars by blast+
  then show ?thesis using assms by (auto simp: Latest_def Let_def TrimSpace_snapshot)
qed

lemma Latest_fresh: "Latest [] = []"
  by (simp add: Latest_def)

text \<open>Of a directory with a single new snapshot and no \<^verbatim>\<open>CURRENT\<close>, recovery takes the snapshot by its date.\<close>

lemma Latest_single: "Latest [(snapshot_name now, (fl, m))] = (if m > 0 then snapshot_name now else [])"
proof -
  have "HasSuffix (snapshot_name now) ''.rdb''" by (simp add: HasSuffix_def HasPrefix_def snapshot_name_def)
  then show ?thesis by (simp add: Latest_def)
qed

section \<open>Recovery\<close>

lemma view_New: "str_view T (New m) k = None"
  by (simp add: str_view_def kv_find_New)

lemma string_store_New: "string_store (New m)"
  by (simp add: string_store_def kv_inv_New kv_deadlines_New kv_find_New)

lemma load_snapshot:
  assumes "snap_holds gob_dec gcm_open enc dir S c" and "0 \<le> T" and "in_i64 T"
  shows "\<exists>kv. (if Latest dir = [] then (New m, Inr (0, []))
      else case LoadWithHeader gob_dec gcm_open enc T dir (New m) (Latest dir) of
             (kv, Inl e) \<Rightarrow> (kv, Inl e)
           | (kv, Inr hdr) \<Rightarrow> (kv, Inr (sh_Sequence hdr, sh_VectorSeals hdr))) = (kv, Inr (c, []))
    \<and> string_store kv \<and> (\<forall>k. str_view T kv k = vis T (S k))"
proof (cases "Latest dir = []")
  case True
  then show ?thesis using assms(1) by (simp add: snap_holds_def string_store_New view_New)
next
  case False
  then obtain fl mt data hdr wire where f: "map_of dir (Latest dir) = Some (fl, mt)" "OpenSealed gcm_open enc fl = Some data"
    "gob_dec data = Some (hdr, wire)" "sh_Version hdr = 2" "sh_Sequence hdr = c" "sh_VectorSeals hdr = []" "string_wire wire"
    and S: "S = cells_of wire"
    using assms(1) by (auto simp: snap_holds_def image_file_def)
  have m: "mirrors T (New m) (wire_effects wire) (foldl (load_entry T) (New m) wire)"
    by (rule mirrors_load [OF assms(2,3) f(7) string_store_New view_New])
  have "fold log_eff (wire_effects wire) (str_view T (New m)) k = S k" for k
    using fold_wire_effects [of wire] f(7) by (simp add: S cells_of_def view_New string_wire_def split: option.split)
  then show ?thesis using m False f by (simp add: LoadWithHeader_def mirrors_def)
qed

lemma recover_view:
  assumes snap: "snap_holds gob_dec gcm_open enc dir S c" and T: "0 \<le> T" "in_i64 T" and v: "vec_idle v"
    and read: "w_ReadAll gcm_open w = Inr records" and sh: "shows_log T kv0 S (after_checkpoint c records)"
  shows "\<exists>kv. Recover gob_dec gcm_open enc (Some v) T dir w (New m, x) = ((kv, x), None)
    \<and> string_store kv \<and> (\<forall>k. str_view T kv k = str_view T kv0 k)"
proof -
  let ?es = "after_checkpoint c records"
  define loaded where "loaded = (if Latest dir = [] then (New m, Inr (0, []))
      else case LoadWithHeader gob_dec gcm_open enc T dir (New m) (Latest dir) of
             (kv, Inl e) \<Rightarrow> (kv, Inl e)
           | (kv, Inr hdr) \<Rightarrow> (kv, Inr (sh_Sequence hdr, sh_VectorSeals hdr)))"
  obtain kv1 where kv1: "loaded = (kv1, Inr (c, []))"
    and s1: "string_store kv1" and v1: "\<And>k. str_view T kv1 k = vis T (S k)"
    using load_snapshot [OF snap T, of m, folded loaded_def] by auto
  have p: "\<forall>e \<in> set ?es. plain_eff e" and sv: "str_view T kv0 k = vis T (fold log_eff ?es S k)" for k
    using sh by (simp_all add: shows_log_def)
  from mirrors_replay_all [OF s1 p T, of "Some v" x] obtain kv2
    where kv2: "replay_effects (Some v) T ?es (kv1, x) = ((kv2, x), None)" and m: "mirrors T kv1 ?es kv2"
    by (elim exE conjE)
  have c: "vis T (fold log_eff ?es (str_view T kv1) k) = vis T (fold log_eff ?es S k)" for k
    by (rule vis_fold_cong) (simp add: v1 vis_vis)
  have s2: "string_store kv2" and m2: "str_view T kv2 k = vis T (fold log_eff ?es (str_view T kv1) k)" for k
    using m by (simp_all add: mirrors_def)
  have eq: "str_view T kv2 k = str_view T kv0 k" for k by (simp only: m2 c sv)
  have "Recover gob_dec gcm_open enc (Some v) T dir w (New m, x) = ((kv2, x), None)"
    using v kv2 unfolding Recover_def Let_def fst_conv snd_conv loaded_def [symmetric] kv1 by (simp add: read vec_idle_def)
  then show ?thesis using s2 eq by (intro exI [of _ kv2]) simp
qed

text \<open>From these files and this snapshot directory, at any later instant, the log opens, recovery succeeds and
  the new store shows what \<open>kv\<close> showed.\<close>

definition recovers ::
  "gob_dec \<Rightarrow> gcm_open \<Rightarrow> encryptor option \<Rightarrow> 'v vecops \<Rightarrow> int \<Rightarrow> kvstore \<Rightarrow> (string, bytes) gomap \<Rightarrow> snapdir \<Rightarrow> bool" where
  "recovers gob_dec gcm_open enc v t kv files dir \<longleftrightarrow>
     (\<forall>T m mode mb x. t \<le> T \<longrightarrow> in_i64 T \<longrightarrow>
        (\<exists>w' kv'. OpenWALEncrypted gcm_open mode mb enc files = Inr w'
           \<and> Recover gob_dec gcm_open enc (Some v) T dir w' (New m, x) = ((kv', x), None)
           \<and> string_store kv' \<and> (\<forall>k. str_view T kv' k = str_view T kv k)))"

lemma open_same:
  assumes "map_of files active = Some b"
  shows "OpenWALEncrypted gcm_open mode mb enc (AList.update active b files) = OpenWALEncrypted gcm_open mode mb enc files"
  using assms by (simp add: OpenWALEncrypted_def Let_def update_conv' split: sum.split)

lemma open_crash_0:
  assumes "w_buf w = []" and "map_of (w_files w) active = Some b"
  shows "OpenWALEncrypted gcm_open mode mb enc (crash n w) = OpenWALEncrypted gcm_open mode mb enc (w_files w)"
  using assms open_same [OF assms(2)] by (simp add: crash_def w_append_def w_file_def)

lemma recoversI:
  assumes l: "log_state gcm_open enc w a" and snap: "snap_holds gob_dec gcm_open enc dir S c"
    and sh: "shows_log t kv S (after_checkpoint c (al_records a))" and t: "0 \<le> t" and v: "vec_idle v"
  shows "recovers gob_dec gcm_open enc v t kv (w_files w) dir"
  unfolding recovers_def
proof (intro allI impI)
  fix T m mode mb x
  assume T: "t \<le> T" "in_i64 T"
  have rel: "log_rel gcm_open w a" and b: "w_buf w = []" and e: "w_enc w = enc" using l by (auto simp: log_state_def)
  obtain f where act: "map_of (w_files w) active = Some f" using rel by (auto simp: log_rel_def log_files_def)
  obtain w' where w': "OpenWALEncrypted gcm_open mode mb enc (w_files w) = Inr w'" "w_ReadAll gcm_open w' = Inr (al_records a)"
    using open_crashed(2) [OF rel, of 0 mode mb] b e open_crash_0 [OF b act] by auto
  have "0 \<le> T" using T t by simp
  from recover_view [OF snap this T(2) v w'(2) shows_log_later [OF sh T(1)], of m x] w'(1)
  show "\<exists>w' kv'. OpenWALEncrypted gcm_open mode mb enc (w_files w) = Inr w'
           \<and> Recover gob_dec gcm_open enc (Some v) T dir w' (New m, x) = ((kv', x), None)
           \<and> string_store kv' \<and> (\<forall>k. str_view T kv' k = str_view T kv k)" by blast
qed

text \<open>A missing or empty active segment opens like one that has just been created.\<close>

lemma open_no_active:
  assumes "map_of files active = None \<or> map_of files active = Some []"
  shows "OpenWALEncrypted gcm_open mode mb enc files =
    OpenWALEncrypted gcm_open mode mb enc (AList.update active (walHeader (wal_dec gcm_open enc)) files)"
proof -
  let ?h = "walHeader (wal_dec gcm_open enc)"
  have "repair_frames (wal_dec gcm_open enc) (length walV2Magic) [] = Inr (length walV2Magic)"
    by (simp add: repair_frames.simps read_full_def)
  then have "repairWALTail (wal_dec gcm_open enc) ?h = Inr ?h"
    using repairWALTail_header [of "wal_dec gcm_open enc" "[]"] by simp
  moreover have "?h \<noteq> []" by (simp add: walHeader_def walV2Magic_def walEncMagic_def split: option.split)
  ultimately show ?thesis using assms by (auto simp: OpenWALEncrypted_def Let_def)
qed

section \<open>Checkpoints\<close>

lemma snapshot_wire:
  assumes s: "string_store kv"
  shows "string_wire (map (\<lambda>(k, e). (k, toWireEntry e)) (kv_Snapshot t kv))"
    and "cells_of (map (\<lambda>(k, e). (k, toWireEntry e)) (kv_Snapshot t kv)) k = map_option str_cell (kv_Get t kv k)"
proof -
  let ?snap = "kv_Snapshot t kv"
  have inv: "kv_inv kv" using s by (simp add: string_store_def)
  have "wf_map m \<Longrightarrow> wf_map (foldl (\<lambda>snap (k, e). AList.update k e snap) m xs)" for m and xs :: "(string \<times> entry) list"
    by (induction xs arbitrary: m) (auto simp: wf_map_update)
  then have wf: "wf_map ?snap" by (simp add: kv_Snapshot_def wf_map_def)
  have se: "str_entry e" if "(k, e) \<in> set ?snap" for k e
  proof -
    have "map_of ?snap k = Some e" using wf that by (simp add: wf_map_def)
    then show ?thesis using store_Get(1) [OF s] kv_Snapshot_lookup [OF inv] by metis
  qed
  have "wf_map (map (\<lambda>(k, e). (k, toWireEntry e)) ?snap)" using wf by (simp add: wf_map_def case_prod_unfold comp_def)
  then show "string_wire (map (\<lambda>(k, e). (k, toWireEntry e)) ?snap)"
    using se by (auto simp: string_wire_def toWireEntry_def str_entry_def)
  have "map_of (map (\<lambda>(k, e). (k, toWireEntry e)) ?snap) k = map_option toWireEntry (kv_Get t kv k)"
    by (simp add: map_of_map kv_Snapshot_lookup [OF inv])
  moreover have "wire_cell (toWireEntry e) = str_cell e" if "kv_Get t kv k = Some e" for e
    using store_Get(1) [OF s that] by (simp add: wire_cell_def toWireEntry_def str_cell_def str_entry_def)
  ultimately show "cells_of (map (\<lambda>(k, e). (k, toWireEntry e)) ?snap) k = map_option str_cell (kv_Get t kv k)"
    by (cases "kv_Get t kv k") (simp_all add: cells_of_def)
qed

text \<open>The sealed image a checkpoint writes.\<close>

lemma checkpoint_file:
  assumes gob: "gob_faithful gob_enc gob_dec" and gcm: "gcm_spec gcm_seal gcm_open" and enc: "enc_ok enc"
    and n: "length nonce = 12" and s: "string_store kv"
  obtains payload fl where "gob_enc (checkpoint_image t kv sequence []) = Some payload"
    and "Seal gcm_seal enc nonce payload = Some fl"
    and "image_file gob_dec gcm_open enc fl (\<lambda>k. map_option str_cell (kv_Get t kv k)) sequence"
proof -
  let ?wire = "map (\<lambda>(k, e). (k, toWireEntry e)) (kv_Snapshot t kv)"
  obtain hdr where im: "checkpoint_image t kv sequence [] = (hdr, ?wire)" and h: "sh_Version hdr = 2" "sh_Sequence hdr = sequence"
    "sh_VectorSeals hdr = []" by (simp add: checkpoint_image_def Let_def)
  obtain payload wire' where p: "gob_enc (hdr, ?wire) = Some payload" "gob_dec payload = Some (hdr, wire')" "string_wire wire'"
    and c: "\<And>k. map_option wire_cell (map_of wire' k) = map_option wire_cell (map_of ?wire k)"
    using gob snapshot_wire(1) [OF s, of t] unfolding gob_faithful_def by blast
  obtain fl where f: "Seal gcm_seal enc nonce payload = Some fl"
    using enc by (cases enc) (auto simp: Seal_def Encrypt_def enc_ok_def)
  have "image_file gob_dec gcm_open enc fl (cells_of wire') sequence"
    using OpenSealed_Seal [OF gcm n f] p h unfolding image_file_def by blast
  moreover have "cells_of wire' = (\<lambda>k. map_option str_cell (kv_Get t kv k))"
    using c snapshot_wire(2) [OF s, of t] by (simp add: cells_of_def fun_eq_iff)
  ultimately show thesis using that [of payload fl] p(1) f im by simp
qed

text \<open>What is on disk at each point of a checkpoint: before it, after the flush, with the snapshot file, with
  \<^verbatim>\<open>CURRENT\<close> renamed, with the active segment renamed, with an empty new segment, with its header, and after
  compaction.\<close>

definition checkpoint_disks ::
  "gob_enc \<Rightarrow> gcm_seal \<Rightarrow> encryptor option \<Rightarrow> bytes \<Rightarrow> int \<Rightarrow> snapdir \<Rightarrow> kvstore \<Rightarrow> wal \<Rightarrow> ((string, bytes) gomap \<times> snapdir) list" where
  "checkpoint_disks gob_enc gcm_seal enc nonce now dir kv w =
     (let w1 = fst (w_Sync None w)
      in case gob_enc (checkpoint_image now kv (w_seq w1) []) of
           None \<Rightarrow> [(w_files w, dir), (w_files w1, dir)]
         | Some payload \<Rightarrow>
             (case Seal gcm_seal enc nonce payload of
                None \<Rightarrow> [(w_files w, dir), (w_files w1, dir)]
              | Some data \<Rightarrow>
                  let dir1 = AList.update (snapshot_name now) (data, now) dir;
                      dir2 = AList.update currentName (snapshot_name now @ [char_of (10 :: nat)], now) dir1;
                      renamed = AList.update (archive_name (w_seq w1)) (w_file w1) (AList.delete active (w_files w1));
                      w2 = fst (w_Rotate w1)
                  in [(w_files w, dir), (w_files w1, dir), (w_files w1, dir1), (w_files w1, dir2), (renamed, dir2),
                      (AList.update active [] renamed, dir2), (w_files w2, dir2),
                      (w_files (w_Compact (w_seq w1) w2), dir2)]))"

lemma snap_stages:
  fixes now :: int
  assumes d: "snap_dir dir" and old: "snap_holds gob_dec gcm_open enc dir S c" and new: "image_file gob_dec gcm_open enc fl S' c'"
  defines "dir1 \<equiv> AList.update (snapshot_name now) (fl, now) dir"
  defines "dir2 \<equiv> AList.update currentName (snapshot_name now @ [char_of (10 :: nat)], now) dir1"
  shows "snap_holds gob_dec gcm_open enc dir1 S c \<or> snap_holds gob_dec gcm_open enc dir1 S' c'"
    and "snap_holds gob_dec gcm_open enc dir2 S' c'" and "snap_dir dir2"
proof -
  have c2: "map_of dir2 currentName = Some (snapshot_name now @ [char_of (10 :: nat)], now)"
    and f2: "map_of dir2 (snapshot_name now) = Some (fl, now)" by (simp_all add: dir2_def dir1_def update_conv')
  have l2: "Latest dir2 = snapshot_name now" using Latest_current [OF c2] f2 by simp
  show "snap_holds gob_dec gcm_open enc dir2 S' c'" using new f2 by (auto simp: snap_holds_def l2)
  show "snap_dir dir2" using c2 f2 by (auto simp: snap_dir_def)
  show "snap_holds gob_dec gcm_open enc dir1 S c \<or> snap_holds gob_dec gcm_open enc dir1 S' c'"
    using d unfolding snap_dir_def
  proof (elim disjE exE conjE)
    assume "dir = []"
    then show ?thesis
      using old new by (auto simp: snap_holds_def dir1_def Latest_single Latest_fresh)
  next
    fix nw m assume cur: "map_of dir currentName = Some (snapshot_name nw @ [char_of (10 :: nat)], m)"
      and nm: "map_of dir (snapshot_name nw) \<noteq> None"
    have l: "Latest dir = snapshot_name nw" using Latest_current [OF cur nm] .
    have "Latest dir1 = snapshot_name nw"
      using cur nm by (intro Latest_current [where m = m]) (simp_all add: dir1_def update_conv')
    then show ?thesis
      using old new by (cases "snapshot_name nw = snapshot_name now")
        (auto simp: snap_holds_def l dir1_def update_conv')
  qed
qed

lemma covered_all: "log_seqs a \<Longrightarrow> after_checkpoint (al_seq a) (al_records a) = []"
  by (auto simp: after_checkpoint_def log_seqs_def filter_empty_conv)

lemma shows_checkpoint:
  assumes s: "string_store kv" and S: "\<And>k. S k = map_option str_cell (kv_Get t kv k)"
  shows "shows_log t kv S []"
proof -
  have "str_view t kv k = vis t (map_option str_cell (kv_Get t kv k))" for k
  proof (cases "kv_Get t kv k")
    case None
    then show ?thesis using Get_None_view [OF None] by simp
  next
    case (Some e)
    then have "kv_find kv k = Some e" by (simp add: kv_Get_Some_iff)
    then show ?thesis using Some by (simp add: str_view_def)
  qed
  then show ?thesis using s by (simp add: shows_log_def S)
qed

lemma update_same: "map_of al k = Some v \<Longrightarrow> AList.update k v al = al"
  by (induction al) (auto split: if_splits)

lemma log_state_ops:
  assumes "log_state gcm_open enc w a"
  shows "log_state gcm_open enc (fst (w_Sync None w)) a"
    and "log_state gcm_open enc (fst (w_Rotate w)) (al_rotate a)" and "snd (w_Rotate w)"
    and "log_state gcm_open enc (w_Compact c w) (al_compact c a)"
proof -
  have rel: "log_rel gcm_open w a" and st: "w_syncMode w = ''always''" "w_buf w = []" "w_enc w = enc"
    using assms by (auto simp: log_state_def)
  show "log_state gcm_open enc (fst (w_Sync None w)) a"
    using log_rel_Sync [OF rel] st by (simp add: log_state_def w_Sync_def)
  have "w_enc (fst (w_Rotate w)) = enc" using st by (simp add: w_Rotate_def w_Sync_def Let_def)
  then show "log_state gcm_open enc (fst (w_Rotate w)) (al_rotate a)" "snd (w_Rotate w)"
    using log_rel_Rotate [OF rel] st by (simp_all add: log_state_def)
  show "log_state gcm_open enc (w_Compact c w) (al_compact c a)"
    using log_rel_Compact [OF rel] st by (simp add: log_state_def w_Compact_def)
qed

lemma al_seq_ops [simp]: "al_seq (al_rotate a) = al_seq a" "al_seq (al_compact c a) = al_seq a"
  by (simp_all add: al_rotate_def al_compact_def)

lemma log_state_seqs: "log_state gcm_open enc w a \<Longrightarrow> log_seqs a \<and> w_seq w = al_seq a"
  by (simp add: log_state_def log_rel_def)

text \<open>Every disk of a checkpoint recovers the store, and the checkpoint keeps the invariant.\<close>

lemma checkpoint_tenant:
  assumes gob: "gob_faithful gob_enc gob_dec" and gcm: "gcm_spec gcm_seal gcm_open" and v: "vec_idle v"
    and enc: "enc_ok enc" and n: "length nonce = 12" and ev: "env_ok gcm_seal ev"
    and ten: "tenant gcm_open enc S c (ev_now ev) b ex" and dir: "snap_dir dir" "snap_holds gob_dec gcm_open enc dir S c"
    and wal: "ex_wal ex = Some w"
  shows "\<exists>S' c' ex' dir' path. Checkpoint gob_enc (Some v) enc ev nonce dir ex = (ex', dir', Some path)
    \<and> ex_kv ex' = ex_kv ex \<and> tenant gcm_open enc S' c' (ev_now ev) b ex' \<and> snap_dir dir'
    \<and> snap_holds gob_dec gcm_open enc dir' S' c'
    \<and> (\<exists>w'. ex_wal ex' = Some w'
        \<and> last (checkpoint_disks gob_enc gcm_seal enc nonce (ev_now ev) dir (ex_kv ex) w) = (w_files w', dir'))
    \<and> (\<forall>(files, d) \<in> set (checkpoint_disks gob_enc gcm_seal enc nonce (ev_now ev) dir (ex_kv ex) w).
         recovers gob_dec gcm_open enc v (ev_now ev) (ex_kv ex) files d)"
proof -
  let ?t = "ev_now ev" and ?kv = "ex_kv ex"
  have t: "0 \<le> ?t" and io: "ev_io ev = None" "ev_seal ev = gcm_seal" using ev by (auto simp: env_ok_def)
  obtain a where l: "log_state gcm_open enc w a" and sup: "\<not> ex_suppressWAL ex"
    and sh: "shows_log ?t ?kv S (after_checkpoint c (al_records a))" and ca: "c \<le> al_seq a" and ub: "unat (al_seq a) \<le> b"
    using ten wal by (auto simp: tenant_def)
  have s: "string_store ?kv" using sh by (simp add: shows_log_def)
  define w1 where "w1 = fst (w_Sync None w)"
  define w2 where "w2 = fst (w_Rotate w1)"
  define w3 where "w3 = w_Compact (w_seq w1) w2"
  have l1: "log_state gcm_open enc w1 a" using log_state_ops(1) [OF l] by (simp add: w1_def)
  have l2: "log_state gcm_open enc w2 (al_rotate a)" and ok2: "snd (w_Rotate w1)"
    using log_state_ops(2,3) [OF l1] by (simp_all add: w2_def)
  have q: "w_seq w1 = al_seq a" using log_state_seqs [OF l1] by simp
  have l3: "log_state gcm_open enc w3 (al_compact (al_seq a) (al_rotate a))"
    using log_state_ops(4) [OF l2] by (simp add: w3_def q)
  define S' where "S' = (\<lambda>k. map_option str_cell (kv_Get ?t ?kv k))"
  obtain payload fl where p: "gob_enc (checkpoint_image ?t ?kv (al_seq a) []) = Some payload"
    and f: "Seal gcm_seal enc nonce payload = Some fl" and im: "image_file gob_dec gcm_open enc fl S' (al_seq a)"
    unfolding S'_def by (rule checkpoint_file [OF gob gcm enc n s, of ?t "al_seq a"])
  have sh': "shows_log ?t ?kv S' []" using shows_checkpoint [OF s] by (simp add: S'_def)
  have none: "after_checkpoint (al_seq a) (al_records a) = []"
    "after_checkpoint (al_seq a) (al_records (al_rotate a)) = []"
    "after_checkpoint (al_seq a) (al_records (al_compact (al_seq a) (al_rotate a))) = []"
    using covered_all [of a] covered_all [of "al_rotate a"] covered_all [of "al_compact (al_seq a) (al_rotate a)"]
      log_state_seqs [OF l] log_state_seqs [OF l2] log_state_seqs [OF l3] by simp_all
  define dir1 where "dir1 = AList.update (snapshot_name ?t) (fl, ?t) dir"
  define dir2 where "dir2 = AList.update currentName (snapshot_name ?t @ [char_of (10 :: nat)], ?t) dir1"
  note st = snap_stages [OF dir im, of ?t, folded dir1_def, folded dir2_def]
  let ?rec = "recovers gob_dec gcm_open enc v ?t ?kv"
  define renamed where "renamed = AList.update (archive_name (w_seq w1)) (w_file w1) (AList.delete active (w_files w1))"
  have r0: "?rec (w_files w) dir" "?rec (w_files w1) dir" using recoversI [OF _ dir(2) sh t v] l l1 by auto
  have r1: "?rec (w_files w1) dir1"
    using st(1) recoversI [OF l1 _ sh t v] recoversI [OF l1 _ _ t v, where S = S' and c = "al_seq a" and kv = ?kv] none sh' by auto
  have r2: "?rec (w_files w1) dir2" "?rec (w_files w2) dir2" "?rec (w_files w3) dir2"
    using recoversI [OF l1 st(2) _ t v, where kv = ?kv] recoversI [OF l2 st(2) _ t v, where kv = ?kv]
      recoversI [OF l3 st(2) _ t v, where kv = ?kv] none sh' by simp_all
  have e1: "w_enc w1 = enc" "\<not> w_failed w1" "w_buf w1 = []" using l1 by (auto simp: log_state_def log_rel_def)
  have act: "map_of renamed active = None" using archive_name_active [of "w_seq w1"] by (auto simp: renamed_def update_conv' delete_conv')
  obtain g where g: "map_of (w_files w1) active = Some g" using l1 by (auto simp: log_state_def log_rel_def log_files_def)
  have w2f: "w_files w2 = AList.update active (walHeader (wal_dec gcm_open enc)) renamed"
    using e1 g by (simp add: w2_def w_Rotate_def w_Sync_def Let_def renamed_def w_append_def w_file_def walHeader_map update_same)
  have "?rec renamed dir2" "?rec (AList.update active [] renamed) dir2"
    using r2(2) open_no_active [of renamed gcm_open _ _ enc] open_no_active [of "AList.update active [] renamed" gcm_open _ _ enc] act
    by (simp_all add: recovers_def w2f update_conv')
  then have disks: "\<forall>(files, d) \<in> set (checkpoint_disks gob_enc gcm_seal enc nonce ?t dir ?kv w). ?rec files d"
    using r0 r1 r2 unfolding checkpoint_disks_def Let_def w1_def [symmetric] q
    by (simp add: p f dir1_def [symmetric] dir2_def [symmetric] renamed_def [unfolded q, symmetric] w2_def [symmetric]
        w3_def [unfolded q, symmetric])
  have lst: "last (checkpoint_disks gob_enc gcm_seal enc nonce ?t dir ?kv w) = (w_files w3, dir2)"
    unfolding checkpoint_disks_def Let_def w1_def [symmetric] q
    by (simp add: p f dir1_def [symmetric] dir2_def [symmetric] w2_def [symmetric] w3_def [unfolded q, symmetric])
  have cp: "Checkpoint gob_enc (Some v) enc ev nonce dir ex = (ex\<lparr>ex_wal := Some w3\<rparr>, dir2, Some (snapshot_name ?t))"
  proof -
    have sync: "w_Sync None w = (w1, True)" by (simp add: w1_def w_Sync_def)
    have rot: "w_Rotate w1 = (w2, True)" using ok2 by (cases "w_Rotate w1") (simp add: w2_def)
    have "SaveCheckpoint gob_enc gcm_seal enc nonce ?t dir ?kv (al_seq a) [] = (dir2, Some (snapshot_name ?t))"
      by (simp add: SaveCheckpoint_def p f dir1_def dir2_def Let_def)
    then show ?thesis
      using v wal io by (simp add: Checkpoint_def saveTenantCheckpoint_def sync rot vec_idle_def q w3_def est_def set_est_def)
  qed
  have "tenant gcm_open enc S' (al_seq a) ?t b (ex\<lparr>ex_wal := Some w3\<rparr>)"
    unfolding tenant_def using l3 sup sh' none ub by (intro exI [of _ w3] exI [of _ "al_compact (al_seq a) (al_rotate a)"]) simp
  then show ?thesis using cp lst disks st(2,3) by auto
qed

section \<open>Runs of a tenant\<close>

datatype tevent = TCmd env "64 word" command | TReap int int | TCheckpoint env bytes

fun event_time :: "tevent \<Rightarrow> int" where
  "event_time (TCmd ev cid cmd) = ev_now ev"
| "event_time (TReap now limit) = now"
| "event_time (TCheckpoint ev nonce) = ev_now ev"

fun event_cost :: "tevent \<Rightarrow> nat" where
  "event_cost (TCmd ev cid cmd) = 1 + NumArgs cmd"
| "event_cost _ = 0"

fun tenant_step ::
  "gob_enc \<Rightarrow> 'v vecops \<Rightarrow> 'v rest \<Rightarrow> encryptor option \<Rightarrow> 'v executor \<times> snapdir \<Rightarrow> tevent \<Rightarrow> 'v executor \<times> snapdir" where
  "tenant_step gob_enc v rest enc (ex, dir) (TCmd ev cid cmd) = (fst (Execute v rest ev cid ex cmd), dir)"
| "tenant_step gob_enc v rest enc (ex, dir) (TReap now limit) =
     (ex\<lparr>ex_kv := fst (kv_DeleteExpiredLimit now (ex_kv ex) limit)\<rparr>, dir)"
| "tenant_step gob_enc v rest enc (ex, dir) (TCheckpoint ev nonce) =
     (case Checkpoint gob_enc (Some v) enc ev nonce dir ex of (ex', dir', _) \<Rightarrow> (ex', dir'))"

fun event_ok :: "gcm_seal \<Rightarrow> 'v executor \<Rightarrow> tevent \<Rightarrow> bool" where
  "event_ok gcm_seal ex (TCmd ev cid cmd) \<longleftrightarrow>
     env_ok gcm_seal ev \<and> durable_cmd (ev_now ev) (ex_kv ex) cmd \<and> cmd_fits (ev_now ev) (ex_kv ex) cmd"
| "event_ok gcm_seal ex (TReap now limit) \<longleftrightarrow> True"
| "event_ok gcm_seal ex (TCheckpoint ev nonce) \<longleftrightarrow> env_ok gcm_seal ev \<and> length nonce = 12"

text \<open>A run: the clock does not go back, and every event is within the guarantee in the state it meets.\<close>

fun run_ok ::
  "gcm_seal \<Rightarrow> gob_enc \<Rightarrow> 'v vecops \<Rightarrow> 'v rest \<Rightarrow> encryptor option \<Rightarrow> int \<Rightarrow> 'v executor \<times> snapdir \<Rightarrow> tevent list \<Rightarrow> bool" where
  "run_ok gcm_seal gob_enc v rest enc t st [] \<longleftrightarrow> True"
| "run_ok gcm_seal gob_enc v rest enc t st (e # es) \<longleftrightarrow>
     t \<le> event_time e \<and> event_ok gcm_seal (fst st) e
     \<and> run_ok gcm_seal gob_enc v rest enc (event_time e) (tenant_step gob_enc v rest enc st e) es"

definition run_time :: "int \<Rightarrow> tevent list \<Rightarrow> int" where
  "run_time t es = last (t # map event_time es)"

definition new_tenant :: "nat \<Rightarrow> int \<Rightarrow> encryptor option \<Rightarrow> 'v executor \<Rightarrow> bool" where
  "new_tenant m mb enc ex \<longleftrightarrow>
     ex_kv ex = New m \<and> ex_wal ex = Some (fresh_wal ''always'' mb enc) \<and> \<not> ex_suppressWAL ex"

definition tenant_inv ::
  "gob_dec \<Rightarrow> gcm_open \<Rightarrow> encryptor option \<Rightarrow> int \<Rightarrow> nat \<Rightarrow> 'v executor \<times> snapdir \<Rightarrow> bool" where
  "tenant_inv gob_dec gcm_open enc t n st \<longleftrightarrow>
     (\<exists>S c. tenant gcm_open enc S c t n (fst st) \<and> snap_dir (snd st) \<and> snap_holds gob_dec gcm_open enc (snd st) S c)"

lemma new_tenant_inv:
  assumes "new_tenant m mb enc ex" and "enc_ok enc"
  shows "tenant_inv gob_dec gcm_open enc t 0 (ex, [])"
proof -
  have "log_state gcm_open enc (fresh_wal ''always'' mb enc) al_empty"
    using fresh_rel [OF assms(2)] by (simp add: log_state_def fresh_wal_def)
  moreover have "shows_log t (New m) Map.empty (after_checkpoint 0 (al_records al_empty))"
    by (simp add: shows_log_def string_store_New view_New after_checkpoint_def al_records_def al_empty_def)
  ultimately have "tenant gcm_open enc Map.empty 0 t 0 ex"
    using assms(1) unfolding tenant_def new_tenant_def
    by (intro exI [of _ "fresh_wal ''always'' mb enc"] exI [of _ al_empty]) (simp add: al_empty_def)
  then show ?thesis by (auto simp: tenant_inv_def snap_dir_def snap_holds_def Latest_fresh)
qed

lemma tenant_step_inv:
  assumes gob: "gob_faithful gob_enc gob_dec" and gcm: "gcm_spec gcm_seal gcm_open" and v: "vec_idle v" and enc: "enc_ok enc"
    and inv: "tenant_inv gob_dec gcm_open enc t n st" and t: "t \<le> event_time e" and ok: "event_ok gcm_seal (fst st) e"
    and n: "n + event_cost e < 2 ^ 64"
  shows "tenant_inv gob_dec gcm_open enc (event_time e) (n + event_cost e) (tenant_step gob_enc v rest enc st e)"
proof -
  obtain ex dir where st: "st = (ex, dir)" by (cases st)
  obtain S c where ten0: "tenant gcm_open enc S c t n ex" and d: "snap_dir dir" "snap_holds gob_dec gcm_open enc dir S c"
    using inv by (auto simp: tenant_inv_def st)
  have ten: "tenant gcm_open enc S c (event_time e) n ex" using tenant_later [OF ten0 t] by simp
  show ?thesis
  proof (cases e)
    case (TCmd ev cid cmd)
    then have "tenant gcm_open enc S c (ev_now ev) (n + 1 + NumArgs cmd) (fst (Execute v rest ev cid ex cmd))"
      using ok n ten by (intro Execute_tenant [OF gcm]) (simp_all add: st)
    then show ?thesis using d TCmd by (auto simp: tenant_inv_def st)
  next
    case (TReap now limit)
    then show ?thesis using reap_tenant [of gcm_open enc S c now n ex limit] ten d by (auto simp: tenant_inv_def st)
  next
    case (TCheckpoint ev nonce)
    obtain w where w: "ex_wal ex = Some w" using ten by (auto simp: tenant_def)
    obtain S' c' ex' dir' path where cp: "Checkpoint gob_enc (Some v) enc ev nonce dir ex = (ex', dir', Some path)"
      and t': "tenant gcm_open enc S' c' (ev_now ev) n ex'" and d': "snap_dir dir'" "snap_holds gob_dec gcm_open enc dir' S' c'"
      using checkpoint_tenant [OF gob gcm v enc, of nonce ev S c n ex dir w] ok ten d w TCheckpoint by (auto simp: st)
    then show ?thesis using TCheckpoint by (auto simp: tenant_inv_def st)
  qed
qed

lemma tenant_run_inv:
  assumes gob: "gob_faithful gob_enc gob_dec" and gcm: "gcm_spec gcm_seal gcm_open" and v: "vec_idle v" and enc: "enc_ok enc"
  shows "tenant_inv gob_dec gcm_open enc t n st \<Longrightarrow> run_ok gcm_seal gob_enc v rest enc t st es \<Longrightarrow>
    n + sum_list (map event_cost es) < 2 ^ 64 \<Longrightarrow>
    tenant_inv gob_dec gcm_open enc (run_time t es) (n + sum_list (map event_cost es))
      (foldl (tenant_step gob_enc v rest enc) st es)"
proof (induction es arbitrary: t n st)
  case Nil
  then show ?case by (simp add: run_time_def)
next
  case (Cons e es)
  have "tenant_inv gob_dec gcm_open enc (event_time e) (n + event_cost e) (tenant_step gob_enc v rest enc st e)"
    using Cons.prems by (intro tenant_step_inv [OF gob gcm v enc, of t n]) simp_all
  from Cons.IH [OF this] Cons.prems show ?case by (simp add: run_time_def add.assoc)
qed

lemma run_time_mono: "run_ok gcm_seal gob_enc v rest enc t st es \<Longrightarrow> t \<le> run_time t es"
proof (induction es arbitrary: t st)
  case (Cons e es)
  have "event_time e \<le> run_time (event_time e) es" using Cons.IH Cons.prems by simp blast
  moreover have "t \<le> event_time e" using Cons.prems by simp
  ultimately show ?case by (simp add: run_time_def)
qed (simp add: run_time_def)



section \<open>Outside the guarantee\<close>

text \<open>After a checkpoint at sequence \<open>c\<close> has emptied the log, a restart begins again at sequence 1; recovery skips
  what is written then, because it carries a number the snapshot already covers.\<close>

lemma restart_skips_acknowledged:
  assumes l: "log_state gcm_open enc w a" and e: "al_records a = []" and c: "1 \<le> c"
  shows "\<exists>w1. OpenWALEncrypted gcm_open ''always'' mb enc (w_files w) = Inr w1 \<and> w_seq w1 = 0
    \<and> after_checkpoint c [norm_record (stamp t (w_seq w1 + 1) rec)] = []"
proof -
  have rel: "log_rel gcm_open w a" and b: "w_buf w = []" and en: "w_enc w = enc" using l by (auto simp: log_state_def)
  obtain f where act: "map_of (w_files w) active = Some f" using rel by (auto simp: log_rel_def log_files_def)
  obtain w1 where "OpenWALEncrypted gcm_open ''always'' mb enc (w_files w) = Inr w1" "w_seq w1 = max_seq []"
    using open_crashed(2) [OF rel, of 0 "''always''" mb] b en e open_crash_0 [OF b act] by auto
  then show ?thesis using c by (auto simp: max_seq_def after_checkpoint_def)
qed

text \<open>\<^verbatim>\<open>SET k v EX n\<close> followed by \<^verbatim>\<open>PERSIST k\<close>: replayed after the first deadline, the key is gone.\<close>

lemma persist_lost_on_replay:
  assumes "string_store kv" and "0 < x" and "x \<le> T" and "in_i64 x" and "in_i64 T" and "kv_find kv k = None"
  shows "\<exists>kv'. replay_effects vops T [put_effect k v x, \<lparr>we_Type = RecordExpire, we_Key = k, we_Value = None, we_ExpiresAt = 0\<rparr>]
      (kv, y) = ((kv', y), None) \<and> kv_find kv' k = None"
proof -
  have i: "i64 (x - T) \<le> 0" using assms by (subst i64_id) (auto simp: in_i64_def min_int64_def max_int64_def)
  have inv: "kv_inv kv" using assms(1) by (simp add: string_store_def)
  let ?kv1 = "fst (kv_Delete kv [k])"
  have n: "kv_find ?kv1 k = None" using kv_Delete_find [OF inv, of "[k]"] by (simp add: restrict_map_def del: kv_Delete.simps)
  have p: "kv_Persist T ?kv1 k = (?kv1, False)" using n by (intro kv_Persist_absent) (simp add: kv_Get_def del: kv_Delete.simps)
  have "apply_kv_effect T (put_effect k v x) kv = Some ?kv1"
    using assms(2) i by (simp add: apply_kv_effect_def put_effect_def Let_def del: kv_Delete.simps)
  moreover have "apply_kv_effect T \<lparr>we_Type = RecordExpire, we_Key = k, we_Value = None, we_ExpiresAt = 0\<rparr> ?kv1 = Some ?kv1"
    by (simp add: apply_kv_effect_def Let_def RecordExpire_def RecordSet_def RecordDelete_def RecordDeleteIndex_def p
        del: kv_Delete.simps)
  ultimately show ?thesis using n by (simp add: applyRecoveredEffect_def del: kv_Delete.simps)
qed

text \<open>\<^verbatim>\<open>RENAME k k\<close> leaves the key in the store and deletes it in the log.\<close>

lemma rename_self_lost:
  assumes s: "string_store kv" and g: "kv_Get t kv k = Some e" and d: "e_expires e = 0"
    and cmd: "cmd_Args cmd = [Some k, Some k]"
  shows "kv_Get t (fst (kv_Rename t t t kv k k)) k \<noteq> None" and "fold log_eff (eff_RENAME t kv cmd) A k = None"
proof -
  have e: "str_entry e" using store_Get(1) [OF s g] .
  have inv: "kv_inv (fst (kv_Delete kv [k]))" using s by (simp add: string_store_def kv_Delete_inv del: kv_Delete.simps)
  have cv: "closeVectorEntry e = e" using e by (simp add: closeVectorEntry_def str_entry_def)
  have "fst (kv_Rename t t t kv k k) = kv_Set t (fst (kv_Delete kv [k])) k (e_value e) (e_type e) 0"
    using g d by (simp add: kv_Rename_def cv Let_def del: kv_Delete.simps)
  then show "kv_Get t (fst (kv_Rename t t t kv k k)) k \<noteq> None"
    by (simp add: kv_Get_def kv_Set_find [OF inv] isExpired_def set_deadline_def del: kv_Delete.simps)
  show "fold log_eff (eff_RENAME t kv cmd) A k = None"
    using g by (simp add: eff_RENAME_def NumArgs_def cmd Arg_def stringState_store [OF s])
qed

section \<open>A run\<close>

text \<open>An encoder with the contract, and a vector store without indexes.\<close>

definition sample_enc :: gob_enc where
  "sample_enc img = (case img of (h, wire) \<Rightarrow>
     Some (replicate (to_nat ((sh_Version h, sh_Timestamp h, sh_KeyCount h, unat (sh_Sequence h)),
       map (\<lambda>s. (is_Key s, is_Dim s, is_Count s, is_MetaHash s)) (sh_VectorSeals h),
       map (\<lambda>(k, we). (k, wire_cell we)) wire)) CHR ''g''))"

definition sample_dec :: gob_dec where
  "sample_dec b = (case from_nat (length b) of ((ver, ts, n, q), seals, wire) \<Rightarrow>
     Some (\<lparr>sh_Version = ver, sh_Timestamp = ts, sh_KeyCount = n, sh_Sequence = of_nat q,
        sh_VectorSeals = map (\<lambda>(k, d, c, m). \<lparr>is_Key = k, is_Dim = d, is_Count = c, is_MetaHash = m\<rparr>) seals\<rparr>,
       map (\<lambda>(k, v, x). (k, \<lparr>we_value = VBytes (Some v), we_type = TypeString, we_expires = x\<rparr>)) wire))"

lemma sample_gob: "gob_faithful sample_enc sample_dec"
  unfolding gob_faithful_def
proof (intro allI impI)
  fix hdr and wire :: "(string, wireEntry) gomap"
  assume w: "string_wire wire"
  let ?mk = "\<lambda>we. \<lparr>we_value = VBytes (Some (fst (wire_cell we))), we_type = TypeString, we_expires = we_expires we\<rparr>"
  let ?wire = "map (\<lambda>(k, we). (k, ?mk we)) wire"
  have seals: "map (\<lambda>(k, d, c, m). \<lparr>is_Key = k, is_Dim = d, is_Count = c, is_MetaHash = m\<rparr>)
      (map (\<lambda>s. (is_Key s, is_Dim s, is_Count s, is_MetaHash s)) ss) = ss" for ss by (induction ss) simp_all
  have wires: "map (\<lambda>(k, v, x). (k, \<lparr>we_value = VBytes (Some v), we_type = TypeString, we_expires = x\<rparr>))
      (map (\<lambda>(k, we). (k, wire_cell we)) ws) = map (\<lambda>(k, we). (k, ?mk we)) ws" for ws
    by (induction ws) (auto simp: wire_cell_def)
  obtain b where b: "sample_enc (hdr, wire) = Some b" "sample_dec b = Some (hdr, ?wire)"
    by (simp add: sample_enc_def sample_dec_def seals wires del: map_map)
  have "wf_map ?wire" using w by (simp add: string_wire_def wf_map_def case_prod_unfold comp_def)
  then have "string_wire ?wire" using w by (auto simp: string_wire_def)
  moreover have "map_option wire_cell (map_of ?wire k) = map_option wire_cell (map_of wire k)" for k
    by (cases "map_of wire k") (simp_all add: map_of_map wire_cell_def)
  ultimately show "\<exists>b wire'. sample_enc (hdr, wire) = Some b \<and> sample_dec b = Some (hdr, wire') \<and> string_wire wire'
      \<and> (\<forall>k. map_option wire_cell (map_of wire' k) = map_option wire_cell (map_of wire k))" using b by blast
qed

definition idle_vec :: "unit vecops" where
  "idle_vec =
     \<lparr>vo_VAdd = \<lambda>_ _ _ st. (st, Inl []), vo_VAddBatch = \<lambda>_ _ _ _ st. (st, Inl []), vo_VDel = \<lambda>_ _ st. (st, Inr False),
      vo_StartMigration = \<lambda>_ _ _ st. (st, Inl []), vo_InsertShadowVector = \<lambda>_ _ _ st. (st, Inl []),
      vo_SwapMigration = \<lambda>_ st. (st, Inl []), vo_CancelMigration = \<lambda>_ st. (st, Inl []),
      vo_ReopenPersisted = \<lambda>st. (st, Inr ()), vo_VerifySeals = \<lambda>ss st. ss = [], vo_ValidateAdd = \<lambda>_ _ _ _. Some [],
      vo_ValidateAddBatch = \<lambda>_ _ _ _ _. Some [], vo_MigrationActive = \<lambda>_ _. False,
      vo_ValidateSwapMigration = \<lambda>_ _. Some [], vo_HasLiveVector = \<lambda>_ _ _. Inr False,
      vo_TombstoneRatio = \<lambda>_ _. Inl [], vo_VCompact = \<lambda>_ st. (st, Inr 0), vo_MemoryUsage = \<lambda>_. 0,
      vo_FlushDurable = \<lambda>st. (st, Inr ()), vo_IndexSeals = \<lambda>_. []\<rparr>"

definition sample_env :: "int \<Rightarrow> env" where
  "sample_env t =
     \<lparr>ev_now = t, ev_io = None, ev_ioText = [], ev_seal = plain_seal, ev_nonce = \<lambda>_. replicate 12 CHR ''n'',
      ev_shuffle = id, ev_parseFloat = \<lambda>_. NaN, ev_formatFloat = \<lambda>_. [], ev_parseFloat32 = \<lambda>_. None, ev_raft = RaftLocal\<rparr>"

definition sample_ex :: "unit executor" where
  "sample_ex =
     \<lparr>ex_kv = New 4, ex_vec = (), ex_wal = Some (fresh_wal ''always'' 64 None), ex_multi = [], ex_watch = [],
      ex_mvcc = NewMVCCStore 10, ex_pubsub = NewPubSub, ex_suppressWAL = False, ex_maxMemory = 0, ex_accounted = 0,
      ex_readOnly = False, ex_ready = True\<rparr>"

definition sample_run :: "tevent list" where
  "sample_run =
     [TCmd (sample_env 5) 1 \<lparr>cmd_Name = ''set'', cmd_Args = [Some ''a'', Some ''1'', Some ''EX'', Some ''9'']\<rparr>,
      TReap 6 100, TCheckpoint (sample_env 7) (replicate 12 CHR ''c'')]"

lemma sample_hyps:
  "vec_idle idle_vec" "enc_ok None" "new_tenant 4 64 None sample_ex" "env_ok plain_seal (sample_env 5)"
  "env_ok plain_seal (sample_env 7)" "env_ok plain_seal (sample_env 8)"
  by (simp_all add: vec_idle_def idle_vec_def enc_ok_def new_tenant_def sample_ex_def env_ok_def sample_env_def in_i64_def
      min_int64_def max_int64_def)

lemma sample_run_ok: "run_ok plain_seal sample_enc idle_vec rest None 0 (sample_ex, []) (sample_run @ [TCheckpoint (sample_env 8) (replicate 12 CHR ''c'')])"
proof -
  let ?cmd = "\<lparr>cmd_Name = ''set'', cmd_Args = [Some ''a'', Some ''1'', Some ''EX'', Some ''9'']\<rparr>"
  have nm: "Normalized ?cmd = ''SET''" by code_simp
  have "FormatInt 9 = ''9''" "ToUpper ''EX'' = ''EX''" by code_simp+
  then have p: "ParseSetArgs (tl (cmd_Args ?cmd)) = Ok (Some ''1'', 9, False, False)"
    using ParseInt_FormatInt [of 9] by (simp add: ParseSetArgs_def in_i64_def min_int64_def max_int64_def)
  have d: "durable_cmd 5 (New 4) ?cmd"
    using nm p by (simp add: durable_cmd_def ttl_ok_def second_def max_int64_def)
  have "eff_SET 5 (New 4) ?cmd = [put_effect ''a'' (Some ''1'') 9000000005]"
    using p by (simp add: eff_SET_def NumArgs_def stringState_def kv_Get_def kv_find_New Arg_def copy_def nil_append_def
        second_def i64_def)
  then have "cmd_fits 5 (New 4) ?cmd"
    using nm by (simp add: cmd_fits_def prepareDurableEffects_def tx_record_def rec_fits_def stamp_def empty_record_def
        record_ok_def record_effects_def effect_ok_def put_effect_def norm_effect_def nil_append_def in_i64_def min_int64_def
        max_int64_def RecordSet_def encode_body_def encode_effect_def maxWALFrameSize_def fill_effects_def)
  then show ?thesis using d sample_hyps(4-6) by (simp add: sample_run_def sample_ex_def sample_env_def)
qed



end
