(* ===== verification/Security.thy ===== *)
theory Security
  imports Float64
begin

text \<open>
  The guards of \<^verbatim>\<open>src/internal/security\<close> around a tenant: the token-bucket rate limiter (\<^verbatim>\<open>rate_limit.go\<close>,
  with the IEEE arithmetic of its \<^verbatim>\<open>float64\<close> tokens), the per-tenant quotas (\<^verbatim>\<open>tenant_quota.go\<close>) and the
  buffered audit log (\<^verbatim>\<open>audit_guard.go\<close>).
\<close>

section \<open>Doubles that hold integers\<close>

definition f_of_int :: "int \<Rightarrow> f64" where
  "f_of_int n = round_f64 (of_int n)"

lemma rat_exp_of_nat:
  assumes "0 < n" and "n < 2 ^ k"
  shows "rat_exp (of_nat n) < int k"
proof -
  have q: "quotient_of (of_nat n) = (int n, 1)"
    using quotient_of_int [of "int n"] by simp
  have "floorlog 2 n \<le> k" using assms by (simp add: floorlog_le_iff)
  moreover have "rat_exp (of_nat n) = (if pow2 (int (floorlog 2 n) - 1) \<le> of_nat n then int (floorlog 2 n) - 1
      else int (floorlog 2 n) - 2)"
    by (simp add: rat_exp_def q floorlog_def)
  ultimately show ?thesis by (simp split: if_splits)
qed

lemma pow2_neg: "e \<le> 0 \<Longrightarrow> pow2 e = 1 / 2 ^ nat (- e)"
  by (cases "e = 0") (simp_all add: pow2_def)

lemma round_abs_of_nat:
  assumes "n < 2 ^ 53"
  shows "round_abs (of_nat n) = Fin (of_nat n)"
proof (cases "n = 0")
  case False
  define e where "e = max (rat_exp (of_nat n) - 52) (- 1074)"
  have "rat_exp (of_nat n) < 53" using rat_exp_of_nat [of n 53] assms False by simp
  then have e: "e \<le> 0" by (simp add: e_def)
  have "(of_nat n :: rat) / pow2 e = of_int (int n * 2 ^ nat (- e))" by (simp add: pow2_neg [OF e])
  then have "round_even (of_nat n / pow2 e) = int n * 2 ^ nat (- e)"
    by (simp only: round_even_of_int)
  then have v: "of_int (round_even (of_nat n / pow2 e)) * pow2 e = (of_nat n :: rat)"
    by (simp add: pow2_neg [OF e])
  have "(of_nat n :: rat) < of_nat (2 ^ 53)" using assms by (simp only: of_nat_less_iff)
  also have "\<dots> \<le> pow2 1024" by (simp add: pow2_def)
  finally show ?thesis using False v
    unfolding round_abs_def Let_def e_def [symmetric] by simp
qed (simp add: round_abs_def)

lemma round_f64_of_int:
  assumes "\<bar>n\<bar> < 2 ^ 53"
  shows "round_f64 (of_int n) = Fin (of_int n)"
proof (cases "n < 0")
  case True
  then have "round_abs (- of_int n) = Fin (- of_int n)"
    using round_abs_of_nat [of "nat (- n)"] assms by simp
  with True show ?thesis by (simp add: round_f64_def)
next
  case False
  then have "round_abs (of_int n) = Fin (of_int n)"
    using round_abs_of_nat [of "nat n"] assms by simp
  with False show ?thesis by (simp add: round_f64_def)
qed

lemma f_of_int_exact: "\<bar>n\<bar> < 2 ^ 53 \<Longrightarrow> f_of_int n = Fin (of_int n)"
  by (simp add: f_of_int_def round_f64_of_int)

section \<open>Rate limiter\<close>

text \<open>\<^verbatim>\<open>Duration.Seconds\<close>.\<close>

definition Seconds :: "int \<Rightarrow> f64" where
  "Seconds d =
     (let sec = go_div d second; nsec = d - sec * second
      in f_add (f_of_int sec) (f_divc (f_of_int nsec) 1000000000))"

record bucket =
  b_tokens :: f64
  b_lastRefill :: int

record rateLimiter =
  rl_buckets :: "(string, bucket) gomap"
  rl_rate :: f64
  rl_capacity :: f64
  rl_enabled :: bool

definition NewRateLimiter :: "int \<Rightarrow> int \<Rightarrow> bool \<Rightarrow> rateLimiter" where
  "NewRateLimiter ratePerSec burst enabled =
     \<lparr>rl_buckets = [], rl_rate = f_of_int ratePerSec, rl_capacity = f_of_int burst, rl_enabled = enabled\<rparr>"

text \<open>The clock is read once when a bucket is created and once for the refill.\<close>

definition Allow :: "int \<Rightarrow> int \<Rightarrow> rateLimiter \<Rightarrow> string \<Rightarrow> rateLimiter \<times> bool" where
  "Allow t0 now r clientID =
     (if \<not> rl_enabled r then (r, True)
      else let b = (case map_of (rl_buckets r) clientID of
                      Some b \<Rightarrow> b
                    | None \<Rightarrow> \<lparr>b_tokens = rl_capacity r, b_lastRefill = t0\<rparr>);
               elapsed = Seconds (now - b_lastRefill b);
               tokens = f_add (b_tokens b) (f_mul elapsed (rl_rate r));
               tokens' = (if f_lt (rl_capacity r) tokens then rl_capacity r else tokens)
           in if f_lt tokens' (Fin 1)
              then (r\<lparr>rl_buckets := AList.update clientID \<lparr>b_tokens = tokens', b_lastRefill = now\<rparr> (rl_buckets r)\<rparr>, False)
              else (r\<lparr>rl_buckets := AList.update clientID \<lparr>b_tokens = f_sub tokens' (Fin 1), b_lastRefill = now\<rparr>
                        (rl_buckets r)\<rparr>, True))"

definition Cleanup :: "int \<Rightarrow> rateLimiter \<Rightarrow> int \<Rightarrow> rateLimiter" where
  "Cleanup now r maxAge = r\<lparr>rl_buckets := filter (\<lambda>(_, b). \<not> b_lastRefill b < now - maxAge) (rl_buckets r)\<rparr>"

fun allow_n :: "int \<Rightarrow> rateLimiter \<Rightarrow> string \<Rightarrow> nat \<Rightarrow> rateLimiter \<times> bool list" where
  "allow_n now r c 0 = (r, [])"
| "allow_n now r c (Suc n) =
     (case Allow now now r c of (r', ok) \<Rightarrow> case allow_n now r' c n of (r'', oks) \<Rightarrow> (r'', ok # oks))"

lemma Seconds_0 [simp]: "Seconds 0 = Fin 0"
  by (simp add: Seconds_def Let_def go_div_def f_of_int_def round_f64_def round_abs_def)

lemma round_0: "round_f64 0 = Fin 0"
  by (simp add: round_f64_def round_abs_def)

text \<open>With the clock standing still, one call takes one token.\<close>

definition bucket_at :: "rateLimiter \<Rightarrow> int \<Rightarrow> string \<Rightarrow> int \<Rightarrow> bool" where
  "bucket_at r now c k \<longleftrightarrow>
     map_of (rl_buckets r) c = Some \<lparr>b_tokens = Fin (of_int k), b_lastRefill = now\<rparr>
     \<or> map_of (rl_buckets r) c = None \<and> rl_capacity r = Fin (of_int k)"

lemma Allow_frozen:
  assumes "rl_enabled r" and "rl_rate r = Fin x" and "rl_capacity r = Fin (of_int b)"
    and "bucket_at r now c k" and "0 \<le> k" "k \<le> b" and "b < 2 ^ 53"
  shows "snd (Allow now now r c) = (1 \<le> k)" and "bucket_at (fst (Allow now now r c)) now c (max 0 (k - 1))"
    and "rl_enabled (fst (Allow now now r c))" and "rl_rate (fst (Allow now now r c)) = Fin x"
    and "rl_capacity (fst (Allow now now r c)) = Fin (of_int b)"
proof -
  let ?b = "\<lparr>b_tokens = Fin (of_int k), b_lastRefill = now\<rparr>"
  have b: "(case map_of (rl_buckets r) c of Some b \<Rightarrow> b
      | None \<Rightarrow> \<lparr>b_tokens = rl_capacity r, b_lastRefill = now\<rparr>) = ?b"
    using assms(4) by (auto simp: bucket_at_def)
  have k: "round_f64 (of_int k) = Fin (of_int k)" "round_f64 (of_int (k - 1)) = Fin (of_int (k - 1))"
    using assms by (auto intro!: round_f64_of_int simp del: of_int_diff)
  have s: "f_add (Fin (of_int k)) (Fin (- 1)) = Fin (of_int (k - 1))" using k(2) by simp
  have a: "Allow now now r c =
     (if k < 1 then (r\<lparr>rl_buckets := AList.update c ?b (rl_buckets r)\<rparr>, False)
      else (r\<lparr>rl_buckets := AList.update c \<lparr>b_tokens = Fin (of_int (k - 1)), b_lastRefill = now\<rparr> (rl_buckets r)\<rparr>, True))"
    using assms(1-3,6) k(1) s unfolding Allow_def Let_def b by (simp add: round_0 f_sub_def)
  show "snd (Allow now now r c) = (1 \<le> k)" by (simp add: a)
  show "bucket_at (fst (Allow now now r c)) now c (max 0 (k - 1))"
    using assms(5) by (auto simp: a bucket_at_def max_def)
  show "rl_enabled (fst (Allow now now r c))" "rl_rate (fst (Allow now now r c)) = Fin x"
    "rl_capacity (fst (Allow now now r c)) = Fin (of_int b)" using assms by (simp_all add: a)
qed

lemma allow_n_frozen:
  assumes "rl_enabled r" and "rl_rate r = Fin x" and "rl_capacity r = Fin (of_int b)"
    and "bucket_at r now c k" and "0 \<le> k" "k \<le> b" and "b < 2 ^ 53"
  shows "snd (allow_n now r c n) = map (\<lambda>i. int i < k) [0..<n]"
  using assms
proof (induction n arbitrary: r k)
  case (Suc n)
  obtain r' ok where A: "Allow now now r c = (r', ok)" by fastforce
  note af = Allow_frozen [OF Suc.prems, unfolded A fst_conv snd_conv]
  have "snd (allow_n now r' c n) = map (\<lambda>i. int i < max 0 (k - 1)) [0..<n]"
    using Suc.prems by (intro Suc.IH [OF af(3) af(4) af(5) af(2)]) auto
  moreover have "map (\<lambda>i. int i < k) [0..<Suc n] = (1 \<le> k) # map (\<lambda>i. int i < max 0 (k - 1)) [0..<n]"
    by (auto simp: upt_conv_Cons map_Suc_upt [symmetric] simp del: upt_Suc)
  ultimately show ?case using af(1) by (simp add: A case_prod_beta del: upt_Suc)
qed simp

text \<open>C36. A client that arrives at a fresh, enabled rate limiter with burst \<open>b\<close> and sends \<open>n\<close> requests without
  the clock moving is allowed exactly the first \<open>b\<close> of them, whatever the refill rate.\<close>

theorem rate_limit_burst:
  assumes "\<bar>rate\<bar> < 2 ^ 53" and "0 \<le> burst" and "burst < 2 ^ 53"
  shows "snd (allow_n now (NewRateLimiter rate burst True) c n) = map (\<lambda>i. int i < burst) [0..<n]"
  using assms
  by (intro allow_n_frozen [where x = "of_int rate" and b = burst])
    (auto simp: NewRateLimiter_def bucket_at_def f_of_int_exact)

theorem rate_limit_burst_witness:
  "snd (allow_n 7 (NewRateLimiter 100 2 True) ''c'' 3) = [True, True, False]"
  using rate_limit_burst [of 100 2 7 "''c''" 3] by (simp add: upt_rec)

section \<open>Tenant quotas\<close>

record tenantQuota =
  tq_TenantID :: string
  tq_MaxMemBytes :: int
  tq_MaxOpsPerSec :: int
  tq_MaxKeys :: int

record tenantUsage =
  tu_MemBytes :: int
  tu_OpsCount :: int
  tu_KeyCount :: int

record quotaManager =
  qm_quotas :: "(string, tenantQuota) gomap"
  qm_usage :: "(string, tenantUsage) gomap"

definition NewTenantQuotaManager :: quotaManager where
  "NewTenantQuotaManager = \<lparr>qm_quotas = [], qm_usage = []\<rparr>"

definition zero_usage :: tenantUsage where
  "zero_usage = \<lparr>tu_MemBytes = 0, tu_OpsCount = 0, tu_KeyCount = 0\<rparr>"

definition SetQuota :: "quotaManager \<Rightarrow> tenantQuota \<Rightarrow> quotaManager" where
  "SetQuota m q =
     m\<lparr>qm_quotas := AList.update (tq_TenantID q) q (qm_quotas m),
       qm_usage := (case map_of (qm_usage m) (tq_TenantID q) of
                      Some _ \<Rightarrow> qm_usage m
                    | None \<Rightarrow> AList.update (tq_TenantID q) zero_usage (qm_usage m))\<rparr>"

definition CheckMemory :: "quotaManager \<Rightarrow> string \<Rightarrow> int \<Rightarrow> string option" where
  "CheckMemory m tenantID bytes =
     (case (map_of (qm_quotas m) tenantID, map_of (qm_usage m) tenantID) of
        (Some q, Some u) \<Rightarrow>
          if tq_MaxMemBytes q > 0 \<and> i64 (tu_MemBytes u + bytes) > tq_MaxMemBytes q
          then Some (''OOM quota exceeded for tenant '' @ tenantID) else None
      | _ \<Rightarrow> None)"

definition TrackWrite :: "quotaManager \<Rightarrow> string \<Rightarrow> int \<Rightarrow> bool \<Rightarrow> quotaManager" where
  "TrackWrite m tenantID bytes newKey =
     (case map_of (qm_usage m) tenantID of
        None \<Rightarrow> m
      | Some u \<Rightarrow> m\<lparr>qm_usage := AList.update tenantID
          \<lparr>tu_MemBytes = i64 (tu_MemBytes u + bytes), tu_OpsCount = i64 (tu_OpsCount u + 1),
           tu_KeyCount = (if newKey then i64 (tu_KeyCount u + 1) else tu_KeyCount u)\<rparr> (qm_usage m)\<rparr>)"

definition Usage :: "quotaManager \<Rightarrow> string \<Rightarrow> tenantUsage" where
  "Usage m tenantID = (case map_of (qm_usage m) tenantID of None \<Rightarrow> zero_usage | Some u \<Rightarrow> u)"

text \<open>Writes admitted by the check keep the tenant within its quota, and leave other tenants alone.\<close>

lemma quota_kept:
  assumes "map_of (qm_quotas m) t = Some q" and "0 < tq_MaxMemBytes q"
    and "CheckMemory m t n = None" and "map_of (qm_usage m) t = Some u"
  shows "tu_MemBytes (Usage (TrackWrite m t n nk) t) \<le> tq_MaxMemBytes q"
    and "s \<noteq> t \<Longrightarrow> Usage (TrackWrite m t n nk) s = Usage m s"
  using assms by (auto simp: CheckMemory_def TrackWrite_def Usage_def split: if_splits)

section \<open>Audit log\<close>

record auditEvent =
  ae_Timestamp :: int
  ae_ClientID :: "64 word"
  ae_UserName :: string
  ae_TenantID :: string
  ae_Command :: string
  ae_Key :: string
  ae_Result :: string
  ae_Reason :: string
  ae_RemoteAddr :: string

text \<open>\<open>ag_file\<close> is the file's content when one is open; \<open>marshal\<close> is the JSON encoder.\<close>

record auditGuard =
  ag_file :: "bytes option"
  ag_enabled :: bool
  ag_buf :: "auditEvent list"
  ag_bufSize :: nat

definition NewAuditGuard :: "bytes option \<Rightarrow> bool \<Rightarrow> auditGuard option" where
  "NewAuditGuard opened enabled =
     (if \<not> enabled then Some \<lparr>ag_file = None, ag_enabled = False, ag_buf = [], ag_bufSize = 0\<rparr>
      else case opened of
             None \<Rightarrow> None
           | Some f \<Rightarrow> Some \<lparr>ag_file = Some f, ag_enabled = True, ag_buf = [], ag_bufSize = 100\<rparr>)"

definition audit_line :: "(auditEvent \<Rightarrow> bytes) \<Rightarrow> auditEvent \<Rightarrow> bytes" where
  "audit_line marshal e = marshal e @ [char_of (10 :: nat)]"

definition ag_flush :: "(auditEvent \<Rightarrow> bytes) \<Rightarrow> auditGuard \<Rightarrow> auditGuard" where
  "ag_flush marshal g =
     g\<lparr>ag_file := map_option (\<lambda>f. f @ concat (map (audit_line marshal) (ag_buf g))) (ag_file g), ag_buf := []\<rparr>"

definition ag_Log :: "(auditEvent \<Rightarrow> bytes) \<Rightarrow> int \<Rightarrow> auditGuard \<Rightarrow> auditEvent \<Rightarrow> auditGuard" where
  "ag_Log marshal now g event =
     (if \<not> ag_enabled g then g
      else let g' = g\<lparr>ag_buf := ag_buf g @ [event\<lparr>ae_Timestamp := now\<rparr>]\<rparr>
           in if length (ag_buf g') \<ge> ag_bufSize g then ag_flush marshal g' else g')"

definition ag_Flush :: "(auditEvent \<Rightarrow> bytes) \<Rightarrow> auditGuard \<Rightarrow> auditGuard" where
  "ag_Flush marshal g = (if \<not> ag_enabled g then g else ag_flush marshal g)"

definition ag_Close :: "(auditEvent \<Rightarrow> bytes) \<Rightarrow> auditGuard \<Rightarrow> auditGuard" where
  "ag_Close marshal g = (case ag_file g of None \<Rightarrow> g | Some _ \<Rightarrow> ag_Flush marshal g)"

text \<open>What the file holds once the buffer is written out.\<close>

definition audit_trail :: "(auditEvent \<Rightarrow> bytes) \<Rightarrow> auditGuard \<Rightarrow> bytes" where
  "audit_trail marshal g = (case ag_file g of None \<Rightarrow> [] | Some f \<Rightarrow> f) @ concat (map (audit_line marshal) (ag_buf g))"

lemma audit_trail_flush: "ag_file g \<noteq> None \<Longrightarrow> audit_trail mj (ag_flush mj g) = audit_trail mj g"
  by (auto simp: audit_trail_def ag_flush_def)

lemma audit_trail_Log:
  assumes "ag_enabled g" and "ag_file g \<noteq> None"
  shows "audit_trail mj (ag_Log mj now g e) = audit_trail mj g @ audit_line mj (e\<lparr>ae_Timestamp := now\<rparr>)"
proof -
  have "audit_trail mj (g\<lparr>ag_buf := ag_buf g @ [e\<lparr>ae_Timestamp := now\<rparr>]\<rparr>)
      = audit_trail mj g @ audit_line mj (e\<lparr>ae_Timestamp := now\<rparr>)"
    by (simp add: audit_trail_def)
  then show ?thesis using assms by (simp add: ag_Log_def Let_def audit_trail_flush)
qed

end
