(* ===== verification/Sha256.thy ===== *)
theory Sha256
  imports ByteCodec
begin

text \<open>
  The SHA-256 digest, its hexadecimal form and HMAC-SHA256, as the standard library packages
  \<^verbatim>\<open>crypto/sha256\<close>, \<^verbatim>\<open>encoding/hex\<close> and \<^verbatim>\<open>crypto/hmac\<close> compute them (FIPS 180-4, RFC 2104). Password hashes,
  the replication handshake, backup manifests and hash rings of the server are built from them.
\<close>

section \<open>The compression function\<close>

text \<open>The constants are the first 32 bits of the fractional parts of the cube roots of the first 64 primes, the
  initial state those of the square roots of the first 8. An integer root is found bit by bit.\<close>

fun root_bits :: "nat \<Rightarrow> nat \<Rightarrow> int \<Rightarrow> int \<Rightarrow> int" where
  "root_bits k 0 n r = r"
| "root_bits k (Suc b) n r = root_bits k b n (if (r + 2 ^ b) ^ k \<le> n then r + 2 ^ b else r)"

definition frac_root :: "nat \<Rightarrow> int \<Rightarrow> 32 word" where
  "frac_root k p = word_of_int (root_bits k 35 (p * 2 ^ (32 * k)) 0)"

definition small_primes :: "int list" where
  "small_primes = filter (\<lambda>n. list_all (\<lambda>d. n mod d \<noteq> 0 \<or> n \<le> d) [2..17]) [2..311]"

definition sha_k :: "32 word list" where
  "sha_k = map (frac_root 3) small_primes"

definition sha_init :: "32 word list" where
  "sha_init = map (frac_root 2) (take 8 small_primes)"

text \<open>The bits found are those of the root.\<close>

lemma root_bits_root:
  assumes "0 \<le> r" and "r ^ k \<le> n" and "n < (r + 2 ^ b) ^ k"
  shows "root_bits k b n r ^ k \<le> n \<and> n < (root_bits k b n r + 1) ^ k"
  using assms by (induction k b n r rule: root_bits.induct) (auto simp: algebra_simps)

lemma length_sha_init: "length sha_init = 8"
  by code_simp

definition small_sigma0 :: "32 word \<Rightarrow> 32 word" where
  "small_sigma0 x = word_rotr 7 x XOR word_rotr 18 x XOR drop_bit 3 x"

definition small_sigma1 :: "32 word \<Rightarrow> 32 word" where
  "small_sigma1 x = word_rotr 17 x XOR word_rotr 19 x XOR drop_bit 10 x"

definition big_sigma0 :: "32 word \<Rightarrow> 32 word" where
  "big_sigma0 x = word_rotr 2 x XOR word_rotr 13 x XOR word_rotr 22 x"

definition big_sigma1 :: "32 word \<Rightarrow> 32 word" where
  "big_sigma1 x = word_rotr 6 x XOR word_rotr 11 x XOR word_rotr 25 x"

text \<open>The message schedule, newest word first.\<close>

fun schedule :: "nat \<Rightarrow> 32 word list \<Rightarrow> 32 word list" where
  "schedule 0 w = w"
| "schedule (Suc n) w =
     schedule n ((small_sigma1 (w ! 1) + w ! 6 + small_sigma0 (w ! 14) + w ! 15) # w)"

definition temp1 :: "32 word \<Rightarrow> 32 word \<Rightarrow> 32 word \<Rightarrow> 32 word \<Rightarrow> 32 word \<Rightarrow> 32 word \<Rightarrow> 32 word" where
  "temp1 k w e f g h = h + big_sigma1 e + ((e AND f) XOR (NOT e AND g)) + k + w"

definition temp2 :: "32 word \<Rightarrow> 32 word \<Rightarrow> 32 word \<Rightarrow> 32 word" where
  "temp2 a b c = big_sigma0 a + ((a AND b) XOR (a AND c) XOR (b AND c))"

fun rounds :: "(32 word \<times> 32 word) list \<Rightarrow> 32 word list \<Rightarrow> 32 word list" where
  "rounds ((k, w) # kws) [a, b, c, d, e, f, g, h] =
     rounds kws [temp1 k w e f g h + temp2 a b c, a, b, c, d + temp1 k w e f g h, e, f, g]"
| "rounds _ s = s"

fun be_words :: "bytes \<Rightarrow> 32 word list" where
  "be_words (a # b # c # d # r) =
     (push_bit 24 (byte_word a) OR push_bit 16 (byte_word b) OR push_bit 8 (byte_word c) OR byte_word d) # be_words r"
| "be_words _ = []"

definition compress :: "32 word list \<Rightarrow> bytes \<Rightarrow> 32 word list" where
  "compress s blk = map2 (+) s (rounds (zip sha_k (rev (schedule 48 (rev (be_words blk))))) s)"

section \<open>Padding and the digest\<close>

text \<open>The bytes of a word, most significant first.\<close>

definition word_bytes :: "nat \<Rightarrow> 'a::len word \<Rightarrow> bytes" where
  "word_bytes k w = map (\<lambda>i. char_of (unat (take_bit 8 (drop_bit (8 * i) w)))) (rev [0..<k])"

definition sha_pad :: "bytes \<Rightarrow> bytes" where
  "sha_pad m =
     (let n = length m; z = (119 - n mod 64) mod 64
      in m @ [char_of (128 :: nat)] @ replicate z (char_of (0 :: nat)) @ word_bytes 8 (8 * of_nat n :: 64 word))"

fun blocks :: "nat \<Rightarrow> bytes \<Rightarrow> bytes list" where
  "blocks 0 m = []"
| "blocks (Suc n) m = take 64 m # blocks n (drop 64 m)"

definition Sum256 :: "bytes \<Rightarrow> bytes" where
  "Sum256 m =
     (let p = sha_pad m
      in concat (map (word_bytes 4) (foldl compress sha_init (blocks (length p div 64) p))))"

definition hex_digit :: "nat \<Rightarrow> char" where
  "hex_digit d = (if d < 10 then char_of (48 + d) else char_of (87 + d))"

definition hex_EncodeToString :: "bytes \<Rightarrow> string" where
  "hex_EncodeToString b = concat (map (\<lambda>c. [hex_digit (of_char c div 16), hex_digit (of_char c mod 16)]) b)"

text \<open>\<^verbatim>\<open>hmac.New(sha256.New, key)\<close>, \<^verbatim>\<open>Write\<close> of the message and \<^verbatim>\<open>Sum(nil)\<close>.\<close>

definition xor_pad :: "nat \<Rightarrow> bytes \<Rightarrow> bytes" where
  "xor_pad p k = map (\<lambda>c. char_of (of_char c XOR p)) k"

definition HMAC :: "bytes \<Rightarrow> bytes \<Rightarrow> bytes" where
  "HMAC key m =
     (let k0 = (if length key > 64 then Sum256 key else key);
          k = k0 @ replicate (64 - length k0) (char_of (0 :: nat))
      in Sum256 (xor_pad 92 k @ Sum256 (xor_pad 54 k @ m)))"

section \<open>Lengths and the encoding\<close>

lemma length_word_bytes [simp]: "length (word_bytes k w) = k"
  by (simp add: word_bytes_def)

lemma pad_mod:
  fixes r :: nat
  assumes "r < 64"
  shows "(119 - r) mod 64 = (if r \<le> 55 then 55 - r else 119 - r)"
proof (cases "r \<le> 55")
  case True
  then have "119 - r = 55 - r + 64" by linarith
  then have "(119 - r) mod 64 = (55 - r) mod 64" by (simp only: mod_add_self2)
  also have "\<dots> = 55 - r" by (rule mod_less) linarith
  finally show ?thesis using True by (simp only: if_True)
next
  case False
  then have "(119 - r) mod 64 = 119 - r" by (intro mod_less) linarith
  then show ?thesis using False by (simp only: if_False)
qed

lemma pad_blocks:
  fixes q r :: nat
  assumes "r < 64"
  shows "64 dvd 64 * q + r + (9 + (119 - r) mod 64)"
proof -
  have "64 * q + r + (9 + (if r \<le> 55 then 55 - r else 119 - r)) = 64 * (q + (if r \<le> 55 then 1 else 2))"
    using assms by simp
  then show ?thesis unfolding pad_mod [OF assms] by (metis dvd_triv_left)
qed

lemma length_sha_pad: "length (sha_pad m) = length m + (9 + (119 - length m mod 64) mod 64)"
  unfolding sha_pad_def Let_def length_append length_replicate length_word_bytes by (simp only: list.size)

lemma sha_pad_blocks: "64 dvd length (sha_pad m)"
proof -
  have "length m mod 64 < 64" by (rule mod_less_divisor) (rule zero_less_numeral)
  from pad_blocks [OF this, of "length m div 64"] show ?thesis
    unfolding length_sha_pad mult_div_mod_eq .
qed

lemma length_rounds: "length s = 8 \<Longrightarrow> length (rounds kws s) = 8"
  by (induction kws s rule: rounds.induct) (auto simp: Let_def)

lemma length_compress: "length s = 8 \<Longrightarrow> length (compress s blk) = 8"
  by (simp add: compress_def length_rounds)

lemma length_foldl_compress: "length s = 8 \<Longrightarrow> length (foldl compress s bs) = 8"
  by (induction bs arbitrary: s) (simp_all add: length_compress)

lemma length_concat_const: "(\<And>x. length (f x) = n) \<Longrightarrow> length (concat (map f xs)) = n * length xs"
  by (induction xs) simp_all

lemma length_Sum256 [simp]: "length (Sum256 m) = 32"
  by (simp add: Sum256_def Let_def length_concat_const length_foldl_compress length_sha_init)

lemma length_HMAC [simp]: "length (HMAC k m) = 32"
  by (simp add: HMAC_def Let_def)

lemma length_hex [simp]: "length (hex_EncodeToString b) = 2 * length b"
  by (simp add: hex_EncodeToString_def length_concat_const)

text \<open>The hexadecimal form determines the bytes.\<close>

lemma of_hex_digit: "d < 16 \<Longrightarrow> (of_char (hex_digit d) :: nat) = (if d < 10 then 48 + d else 87 + d)"
  by (simp add: hex_digit_def)

lemma hex_digit_inj:
  assumes "hex_digit a = hex_digit b" and "a < 16" and "b < 16"
  shows "a = b"
proof -
  have "(of_char (hex_digit a) :: nat) = of_char (hex_digit b)" by (simp only: assms(1))
  then show ?thesis unfolding of_hex_digit [OF assms(2)] of_hex_digit [OF assms(3)]
    using assms(2, 3) by (simp split: if_splits)
qed

lemma hex_inj: "hex_EncodeToString a = hex_EncodeToString b \<Longrightarrow> a = b"
proof (induction a arbitrary: b)
  case Nil
  then show ?case by (cases b) (simp_all add: hex_EncodeToString_def)
next
  case (Cons x a)
  then obtain y b' where b: "b = y # b'" by (cases b) (auto simp: hex_EncodeToString_def)
  have lt: "(of_char c :: nat) div 16 < 16" for c
    using of_char_mod_256 [of c, where ?'a = nat] by (simp add: div_less_iff_less_mult)
  have "(of_char x :: nat) div 16 = of_char y div 16" "(of_char x :: nat) mod 16 = of_char y mod 16"
    using Cons.prems b by (auto simp: hex_EncodeToString_def intro: hex_digit_inj lt)
  then have "(of_char x :: nat) = of_char y" by (metis div_mult_mod_eq)
  moreover have "a = b'" using Cons b by (simp add: hex_EncodeToString_def)
  ultimately show ?case by (simp add: b of_char_eq_iff)
qed

end
