(* ===== verification/Auth.thy ===== *)
theory Auth
  imports Sha256 Protocol
begin

text \<open>
  Access control: users, roles and the ACL store of \<^verbatim>\<open>src/internal/auth\<close> (\<^verbatim>\<open>acl.go\<close>, \<^verbatim>\<open>user.go\<close>,
  \<^verbatim>\<open>role.go\<close>, \<^verbatim>\<open>channel_policy.go\<close>) and the enforcer of \<^verbatim>\<open>src/internal/security/acl_enforcer.go\<close> that every
  command passes. The ACL file is JSON; its decoder is an argument of \<open>LoadFile\<close>.
\<close>

section \<open>Users\<close>

definition PermRead :: int where "PermRead = 1"
definition PermWrite :: int where "PermWrite = 2"
definition PermAdmin :: int where "PermAdmin = 4"
definition PermPubSub :: int where "PermPubSub = 8"
definition PermAll :: int where "PermAll = 15"

record user =
  u_Name :: string
  u_PasswordHash :: string
  u_Enabled :: bool
  u_Permissions :: int
  u_AllowedKeys :: "string list"
  u_AllowedChannels :: "string list"
  u_NoPass :: bool

definition HashPassword :: "string \<Rightarrow> string" where
  "HashPassword password = hex_EncodeToString (Sum256 password)"

definition CreateUser :: "string \<Rightarrow> string \<Rightarrow> int \<Rightarrow> user" where
  "CreateUser name password perms =
     \<lparr>u_Name = name, u_PasswordHash = (if password = [] then [] else HashPassword password), u_Enabled = True,
      u_Permissions = perms, u_AllowedKeys = [''*''], u_AllowedChannels = [''*''], u_NoPass = (password = [])\<rparr>"

definition Authenticate :: "user \<Rightarrow> string \<Rightarrow> string option" where
  "Authenticate u password =
     (if \<not> u_Enabled u then Some ''NOAUTH user is disabled''
      else if u_NoPass u then None
      else if HashPassword password \<noteq> u_PasswordHash u then Some ''WRONGPASS invalid username-password pair''
      else None)"

definition has_perm :: "user \<Rightarrow> int \<Rightarrow> bool" where
  "has_perm u p \<longleftrightarrow> u_Permissions u AND p \<noteq> 0"

section \<open>Roles\<close>

record role =
  r_Name :: string
  r_Permissions :: int
  r_AllowedKeys :: "string list"
  r_AllowedChannels :: "string list"

definition BuiltinRoles :: "(string, role) gomap" where
  "BuiltinRoles = [
     (''admin'', \<lparr>r_Name = ''admin'', r_Permissions = PermAll, r_AllowedKeys = [''*''], r_AllowedChannels = [''*'']\<rparr>),
     (''reader'', \<lparr>r_Name = ''reader'', r_Permissions = PermRead, r_AllowedKeys = [''*''], r_AllowedChannels = [''*'']\<rparr>),
     (''writer'', \<lparr>r_Name = ''writer'', r_Permissions = PermRead OR PermWrite, r_AllowedKeys = [''*''],
        r_AllowedChannels = [''*'']\<rparr>),
     (''pubsub'', \<lparr>r_Name = ''pubsub'', r_Permissions = PermRead OR PermPubSub, r_AllowedKeys = [],
        r_AllowedChannels = [''*'']\<rparr>)]"

definition ApplyRole :: "user \<Rightarrow> role \<Rightarrow> user" where
  "ApplyRole u r = u\<lparr>u_Permissions := r_Permissions r, u_AllowedKeys := r_AllowedKeys r,
     u_AllowedChannels := r_AllowedChannels r\<rparr>"

section \<open>The ACL store\<close>

type_synonym aclStore = "(string, user) gomap"

definition NewACLStore :: aclStore where
  "NewACLStore = [(''default'', \<lparr>u_Name = ''default'', u_PasswordHash = [], u_Enabled = True, u_Permissions = PermAll,
     u_AllowedKeys = [''*''], u_AllowedChannels = [''*''], u_NoPass = True\<rparr>)]"

definition DisableDefault :: "aclStore \<Rightarrow> aclStore" where
  "DisableDefault a = AList.delete ''default'' a"

definition GetUser :: "aclStore \<Rightarrow> string \<Rightarrow> user option" where
  "GetUser a name = map_of a name"

definition AddUser :: "aclStore \<Rightarrow> user \<Rightarrow> aclStore" where
  "AddUser a u = AList.update (u_Name u) u a"

definition SetDefaultPassword :: "aclStore \<Rightarrow> string \<Rightarrow> string \<Rightarrow> aclStore" where
  "SetDefaultPassword a name password = AddUser a (CreateUser name password PermAll)"

definition DeleteUser :: "aclStore \<Rightarrow> string \<Rightarrow> aclStore \<times> bool" where
  "DeleteUser a name = (case map_of a name of Some _ \<Rightarrow> (AList.delete name a, True) | None \<Rightarrow> (a, False))"

definition ListUsers :: "aclStore \<Rightarrow> string list" where
  "ListUsers a = map fst a"

definition adminCommands :: "string list" where
  "adminCommands = [''CONFIG'', ''DEBUG'', ''FLUSHALL'', ''FLUSHDB'', ''SAVE'', ''BGSAVE'', ''CLUSTER'', ''ACL'',
     ''REPLICAOF'', ''SLAVEOF'', ''SHUTDOWN'', ''VCOMPACT'']"

definition writeCommands :: "string list" where
  "writeCommands = [''SET'', ''SETEX'', ''DEL'', ''EXPIRE'', ''RENAME'', ''INCR'',
     ''DECR'', ''INCRBY'', ''DECRBY'', ''APPEND'', ''SETRANGE'',
     ''MSET'', ''SETNX'', ''GETSET'', ''HSET'', ''HDEL'',
     ''HMSET'', ''HINCRBY'', ''LPUSH'', ''RPUSH'', ''LPOP'',
     ''RPOP'', ''LSET'', ''LREM'', ''LTRIM'', ''SADD'',
     ''SREM'', ''SPOP'', ''ZADD'', ''ZREM'', ''ZINCRBY'',
     ''XADD'', ''XGROUP'', ''XACK'', ''SETBIT'',
     ''GEOADD'', ''PERSIST'', ''MULTI'', ''EXEC'', ''DISCARD'',
     ''PUBLISH'',
     ''VADD'', ''VADD_BATCH'', ''VADDBIN'', ''VDEL'']"

definition isAdminCommand :: "string \<Rightarrow> bool" where
  "isAdminCommand c \<longleftrightarrow> c \<in> set adminCommands"

definition isWriteCommand :: "string \<Rightarrow> bool" where
  "isWriteCommand c \<longleftrightarrow> c \<in> set writeCommands"

definition CanExecute :: "user \<Rightarrow> string \<Rightarrow> bool" where
  "CanExecute u cmdName =
     (let name = ToUpper cmdName
      in if \<not> u_Enabled u then False
         else if isAdminCommand name then has_perm u PermAdmin
         else if isWriteCommand name then has_perm u PermWrite
         else has_perm u PermRead)"

text \<open>\<^verbatim>\<open>strings.TrimSuffix(pattern, "*")\<close>.\<close>

definition trim_star :: "string \<Rightarrow> string" where
  "trim_star p = (if p \<noteq> [] \<and> last p = CHR ''*'' then butlast p else p)"

definition matchKeyPattern :: "string \<Rightarrow> string \<Rightarrow> bool" where
  "matchKeyPattern pattern key = (if pattern = ''*'' then True else HasPrefix key (trim_star pattern))"

definition CanAccessKey :: "user \<Rightarrow> string \<Rightarrow> bool" where
  "CanAccessKey u key =
     (if \<not> u_Enabled u then False
      else list_ex (\<lambda>pattern. pattern = ''*'' \<or> matchKeyPattern pattern key) (u_AllowedKeys u))"

definition CanAccessChannel :: "user \<Rightarrow> string \<Rightarrow> bool" where
  "CanAccessChannel u channel =
     list_ex (\<lambda>pattern. pattern = ''*'' \<or> matchKeyPattern pattern channel) (u_AllowedChannels u)"

definition SnapshotUsers :: "aclStore \<Rightarrow> user list" where
  "SnapshotUsers a = map snd a"

text \<open>The entries of the list are pointers; \<open>None\<close> is nil.\<close>

definition replace_one :: "aclStore \<Rightarrow> user option \<Rightarrow> aclStore" where
  "replace_one a p =
     (case p of Some u \<Rightarrow> if u_Name u \<noteq> [] then AList.update (u_Name u) u a else a | None \<Rightarrow> a)"

definition ReplaceUsers :: "user option list \<Rightarrow> aclStore" where
  "ReplaceUsers users = foldl replace_one [] users"

text \<open>The file is absent (\<open>None\<close>), or has contents that the JSON decoder turns into users or refuses.\<close>

definition LoadFile :: "(bytes \<Rightarrow> string + user option list) \<Rightarrow> bytes option \<Rightarrow> aclStore \<Rightarrow> aclStore \<times> string option" where
  "LoadFile unmarshal f a =
     (case f of
        None \<Rightarrow> (a, None)
      | Some data \<Rightarrow> (case unmarshal data of Inl e \<Rightarrow> (a, Some e) | Inr users \<Rightarrow> (ReplaceUsers users, None)))"

definition WriteFile :: "(user list \<Rightarrow> bytes) \<Rightarrow> aclStore \<Rightarrow> bytes" where
  "WriteFile marshal a = marshal (SnapshotUsers a)"

section \<open>Channel policy and enforcement\<close>

definition CanSubscribe :: "user \<Rightarrow> string \<Rightarrow> bool" where
  "CanSubscribe u channel =
     (if \<not> has_perm u PermPubSub \<and> \<not> has_perm u PermRead then False else CanAccessChannel u channel)"

definition CanPublish :: "user \<Rightarrow> string \<Rightarrow> bool" where
  "CanPublish u channel = (if \<not> has_perm u PermWrite then False else CanAccessChannel u channel)"

definition quoted :: "string \<Rightarrow> string" where
  "quoted s = [CHR 0x27] @ s @ [CHR 0x27]"

fun check_keys :: "user \<Rightarrow> string list \<Rightarrow> string option" where
  "check_keys u [] = None"
| "check_keys u (k # ks) =
     (if k \<noteq> [] \<and> \<not> CanAccessKey u k then Some (''NOPERM no permissions to access key '' @ quoted k) else check_keys u ks)"

definition Enforce :: "user option \<Rightarrow> command \<Rightarrow> string option" where
  "Enforce usr cmd =
     (case usr of
        None \<Rightarrow> Some ''NOAUTH authentication required''
      | Some u \<Rightarrow>
          if \<not> CanExecute u (Normalized cmd)
          then Some (''NOPERM this user has no permissions to run the '' @ quoted (cmd_Name cmd) @ '' command'')
          else check_keys u (case AffectedKeys cmd of None \<Rightarrow> [] | Some ks \<Rightarrow> ks))"

section \<open>The store's invariant\<close>

text \<open>Every user is filed under its own name, once.\<close>

definition acl_ok :: "aclStore \<Rightarrow> bool" where
  "acl_ok a \<longleftrightarrow> wf_map a \<and> (\<forall>(n, u) \<in> set a. u_Name u = n)"

lemma acl_ok_iff: "acl_ok a \<longleftrightarrow> wf_map a \<and> (\<forall>n u. map_of a n = Some u \<longrightarrow> u_Name u = n)"
  by (auto simp: acl_ok_def map_of_iff_mem)

lemma acl_ok_New: "acl_ok NewACLStore"
  by (simp add: acl_ok_def NewACLStore_def wf_map_def)

lemma acl_ok_AddUser: "acl_ok a \<Longrightarrow> acl_ok (AddUser a u)"
  by (simp add: acl_ok_iff AddUser_def)

lemma acl_ok_delete: "acl_ok a \<Longrightarrow> acl_ok (AList.delete n a)"
  by (simp add: acl_ok_iff)

lemma acl_ok_DeleteUser: "acl_ok a \<Longrightarrow> acl_ok (fst (DeleteUser a n))"
  by (simp add: DeleteUser_def acl_ok_delete split: option.split)

lemma acl_ok_replace_one: "acl_ok a \<Longrightarrow> acl_ok (replace_one a p)"
  using acl_ok_AddUser [unfolded AddUser_def] by (simp add: replace_one_def split: option.split)

lemma acl_ok_ReplaceUsers: "acl_ok (ReplaceUsers us)"
proof -
  have "acl_ok a \<Longrightarrow> acl_ok (foldl replace_one a us)" for a
    by (induction us arbitrary: a) (simp_all add: acl_ok_replace_one)
  moreover have "acl_ok []" by (simp add: acl_ok_def)
  ultimately show ?thesis unfolding ReplaceUsers_def by blast
qed

lemma acl_ok_LoadFile: "acl_ok a \<Longrightarrow> acl_ok (fst (LoadFile um f a))"
  by (simp add: LoadFile_def acl_ok_ReplaceUsers split: option.split sum.split)

lemma GetUser_name: "acl_ok a \<Longrightarrow> GetUser a n = Some u \<Longrightarrow> u_Name u = n"
  by (simp add: acl_ok_iff GetUser_def)

lemma GetUser_after:
  "GetUser (AddUser a u) n = (if n = u_Name u then Some u else GetUser a n)"
  "GetUser (fst (DeleteUser a m)) n = (if n = m then None else GetUser a n)"
  "GetUser (DisableDefault a) n = (if n = ''default'' then None else GetUser a n)"
  by (auto simp: GetUser_def AddUser_def DeleteUser_def DisableDefault_def split: option.split)

section \<open>What the checks mean\<close>

lemma check_keys_None: "check_keys u ks = None \<longleftrightarrow> (\<forall>k \<in> set ks. k = [] \<or> CanAccessKey u k)"
  by (induction ks) auto

lemma trim_star_snoc: "trim_star (p @ [CHR ''*'']) = p"
  by (simp add: trim_star_def)

lemma CanAccessKey_iff:
  "CanAccessKey u key \<longleftrightarrow> u_Enabled u \<and> (\<exists>p \<in> set (u_AllowedKeys u). \<exists>r. key = trim_star p @ r)"
proof -
  have "p = ''*'' \<or> matchKeyPattern p key \<longleftrightarrow> (\<exists>r. key = trim_star p @ r)" for p
    using trim_star_snoc [of "[]"] by (auto simp: matchKeyPattern_def HasPrefix_iff)
  then show ?thesis by (auto simp: CanAccessKey_def list_ex_iff)
qed

lemma Enforce_None_iff:
  "Enforce usr cmd = None \<longleftrightarrow>
     (\<exists>u. usr = Some u \<and> u_Enabled u
       \<and> has_perm u (if isAdminCommand (Normalized cmd) then PermAdmin
            else if isWriteCommand (Normalized cmd) then PermWrite else PermRead)
       \<and> (\<forall>k \<in> set (case AffectedKeys cmd of None \<Rightarrow> [] | Some ks \<Rightarrow> ks). k = [] \<or> CanAccessKey u k))"
proof -
  have "ToUpper (Normalized cmd) = Normalized cmd" by (simp add: Normalized_def ToUpper_def)
  then show ?thesis
    by (cases usr) (auto simp: Enforce_def CanExecute_def Let_def check_keys_None)
qed

text \<open>A pattern without a trailing star matches every key it is a prefix of, although \<^verbatim>\<open>AllowedKeys\<close> is
  documented as a list of glob patterns.\<close>

lemma pattern_is_prefix:
  "CanAccessKey \<lparr>u_Name = ''a'', u_PasswordHash = [], u_Enabled = True, u_Permissions = 1,
     u_AllowedKeys = [''user:1''], u_AllowedChannels = [], u_NoPass = False\<rparr> ''user:10''"
  by (simp add: CanAccessKey_def matchKeyPattern_def HasPrefix_def trim_star_def)

text \<open>The registry gives \<^verbatim>\<open>SINTER\<close> one key index, so only its first key is checked: a user confined to
  \<^verbatim>\<open>mine:\<close> may intersect with any other set of the tenant.\<close>

lemma second_key_unchecked:
  fixes u :: user
  assumes "u_Enabled u" and "has_perm u PermRead" and "CanAccessKey u k"
  shows "Enforce (Some u) \<lparr>cmd_Name = ''SINTER'', cmd_Args = [Some k, Some other]\<rparr> = None"
proof -
  have n: "Normalized \<lparr>cmd_Name = ''SINTER'', cmd_Args = [Some k, Some other]\<rparr> = ''SINTER''"
    by (simp add: Normalized_def ToUpper_def) code_simp
  have l: "Lookup ''SINTER'' = Some (mk_info ''SINTER'' (- 2) True False 1 False)" by code_simp
  have k: "AffectedKeys \<lparr>cmd_Name = ''SINTER'', cmd_Args = [Some k, Some other]\<rparr> = Some [k]"
    unfolding AffectedKeys_def Let_def n l by (simp add: mk_info_def Arg_def)
  show ?thesis unfolding Enforce_None_iff n k using assms
    by (auto simp: isAdminCommand_def isWriteCommand_def adminCommands_def writeCommands_def)
qed

text \<open>\<^verbatim>\<open>XREADGROUP\<close> and \<^verbatim>\<open>VMIGRATE\<close> change data and are in neither table, so the permission to read suffices.\<close>

lemma writes_allowed_to_readers:
  "\<not> isWriteCommand ''XREADGROUP'' \<and> \<not> isAdminCommand ''XREADGROUP'' \<and> \<not> LookupMustReadOnly ''XREADGROUP''
   \<and> \<not> isWriteCommand ''VMIGRATE'' \<and> \<not> isAdminCommand ''VMIGRATE'' \<and> \<not> LookupMustReadOnly ''VMIGRATE''"
  by code_simp

text \<open>Channel access does not look at \<^verbatim>\<open>Enabled\<close>.\<close>

lemma disabled_user_subscribes:
  "\<not> u_Enabled u \<Longrightarrow> u_AllowedChannels u = [''*''] \<Longrightarrow> has_perm u PermRead \<Longrightarrow> CanSubscribe u ch"
  by (simp add: CanSubscribe_def CanAccessChannel_def)

lemma authenticate_created:
  "Authenticate (CreateUser name p perms) q = None \<longleftrightarrow> p = [] \<or> Sum256 q = Sum256 p"
  using hex_inj by (auto simp: Authenticate_def CreateUser_def HashPassword_def)

end
