(* ===== verification/Session.thy ===== *)
theory Session
  imports Security Auth Dispatch
begin

text \<open>
  The RESP server of \<^verbatim>\<open>src/internal/api/server.go\<close>: how a connection is admitted, how it authenticates, and
  how each of its commands passes the rate limiter, the ACL enforcer and the audit log before the executor
  runs it. The connections of a server interleave with one another and with changes of the ACL, so a run
  is a list of events. Sockets, TLS and deadlines are outside the model; a connection delivers bytes.
\<close>

section \<open>State\<close>

record client =
  cl_ID :: "64 word"
  cl_RemoteAddr :: string
  cl_User :: "user option"

text \<open>\<open>rs_sem\<close> counts the tokens in \<^verbatim>\<open>connSem\<close>, \<open>rs_active\<close> is the metric \<^verbatim>\<open>ActiveConns\<close>.\<close>

record 'v respServer =
  rs_ex :: "'v executor"
  rs_acl :: aclStore
  rs_rate :: rateLimiter
  rs_audit :: auditGuard
  rs_clients :: "(64 word, client) gomap"
  rs_nextID :: "64 word"
  rs_max :: int
  rs_sem :: nat
  rs_active :: int

definition NewRESPServer :: "int \<Rightarrow> 'v executor \<Rightarrow> aclStore \<Rightarrow> rateLimiter \<Rightarrow> auditGuard \<Rightarrow> 'v respServer" where
  "NewRESPServer maxConns ex acl rate audit =
     \<lparr>rs_ex = ex, rs_acl = acl, rs_rate = rate, rs_audit = audit, rs_clients = [], rs_nextID = 0,
      rs_max = maxConns, rs_sem = 0, rs_active = 0\<rparr>"

text \<open>What the environment decides about one command: the clock readings of the rate limiter and of the
  audit log, and the environment of the executor.\<close>

record cmd_env =
  ce_t0 :: int
  ce_t1 :: int
  ce_audit :: int
  ce_env :: env

section \<open>One connection\<close>

definition open_conn :: "'v respServer \<Rightarrow> string \<Rightarrow> 'v respServer \<times> (bytes + client)" where
  "open_conn s addr =
     (if rs_max s > 0 \<and> int (rs_sem s) \<ge> rs_max s
      then (s, Inl (''-ERR max number of clients reached'' @ crlf))
      else let i = rs_nextID s + 1;
               c = \<lparr>cl_ID = i, cl_RemoteAddr = addr, cl_User = GetUser (rs_acl s) ''default''\<rparr>
           in (s\<lparr>rs_sem := (if rs_max s > 0 then rs_sem s + 1 else rs_sem s), rs_nextID := i,
                rs_clients := AList.update i c (rs_clients s), rs_active := i64 (rs_active s + 1)\<rparr>, Inr c))"

definition close_conn :: "'v respServer \<Rightarrow> 64 word \<Rightarrow> 'v respServer" where
  "close_conn s i =
     s\<lparr>rs_clients := AList.delete i (rs_clients s), rs_active := i64 (rs_active s - 1),
       rs_sem := (if rs_max s > 0 then rs_sem s - 1 else rs_sem s)\<rparr>"

definition ActiveConnections :: "'v respServer \<Rightarrow> nat" where
  "ActiveConnections s = length (rs_clients s)"

definition userNameOrEmpty :: "user option \<Rightarrow> string" where
  "userNameOrEmpty u = (case u of None \<Rightarrow> ''anonymous'' | Some u \<Rightarrow> u_Name u)"

definition handleAuth :: "aclStore \<Rightarrow> client \<Rightarrow> command \<Rightarrow> client \<times> bytes" where
  "handleAuth acl c cmd =
     (if NumArgs cmd < 1 then (c, WriteError (WrongNumArgsError ''AUTH''))
      else let (username, password) =
                 (if NumArgs cmd = 1 then (''default'', Arg cmd 0) else (Arg cmd 0, Arg cmd 1))
           in case GetUser acl username of
                None \<Rightarrow> (c, WriteErrorRaw ''WRONGPASS invalid username-password pair'')
              | Some u \<Rightarrow> (case Authenticate u password of
                            Some e \<Rightarrow> (c, WriteErrorRaw e)
                          | None \<Rightarrow> (c\<lparr>cl_User := Some u\<rparr>, WriteOK)))"

definition audit_event :: "client \<Rightarrow> command \<Rightarrow> string \<Rightarrow> string \<Rightarrow> auditEvent" where
  "audit_event c cmd result reason =
     \<lparr>ae_Timestamp = 0, ae_ClientID = cl_ID c, ae_UserName = userNameOrEmpty (cl_User c), ae_TenantID = [],
      ae_Command = cmd_Name cmd, ae_Key = [], ae_Result = result, ae_Reason = reason,
      ae_RemoteAddr = cl_RemoteAddr c\<rparr>"

text \<open>The user is looked up again for every command, so that a revocation applies to connections that are
  already authenticated.\<close>

definition refresh :: "aclStore \<Rightarrow> client \<Rightarrow> client" where
  "refresh acl c = (case cl_User c of None \<Rightarrow> c | Some u \<Rightarrow> c\<lparr>cl_User := GetUser acl (u_Name u)\<rparr>)"

definition deny ::
  "(auditEvent \<Rightarrow> bytes) \<Rightarrow> cmd_env \<Rightarrow> 'v respServer \<Rightarrow> client \<Rightarrow> command \<Rightarrow> string \<Rightarrow> 'v respServer \<times> client \<times> bytes \<times> bool" where
  "deny mj ce s c cmd e =
     (s\<lparr>rs_audit := ag_Log mj (ce_audit ce) (rs_audit s) (audit_event c cmd ''denied'' e)\<rparr>, c, WriteErrorRaw e, False)"

definition audit_ok :: "(auditEvent \<Rightarrow> bytes) \<Rightarrow> cmd_env \<Rightarrow> 'v respServer \<Rightarrow> client \<Rightarrow> command \<Rightarrow> 'v respServer" where
  "audit_ok mj ce s c cmd =
     (if \<not> LookupMustReadOnly (Normalized cmd) \<and> ShouldAudit (Normalized cmd)
      then s\<lparr>rs_audit := ag_Log mj (ce_audit ce) (rs_audit s) (audit_event c cmd ''ok'' [])\<rparr> else s)"

definition run_allowed ::
  "'v vecops \<Rightarrow> 'v rest \<Rightarrow> (auditEvent \<Rightarrow> bytes) \<Rightarrow> cmd_env \<Rightarrow> 'v respServer \<Rightarrow> client \<Rightarrow> command
     \<Rightarrow> 'v respServer \<times> client \<times> bytes \<times> bool" where
  "run_allowed v rest mj ce s c cmd =
     (let s2 = audit_ok mj ce s c cmd
      in case Execute v rest (ce_env ce) (cl_ID c) (rs_ex s2) cmd of (ex', out, e) \<Rightarrow> (s2\<lparr>rs_ex := ex'\<rparr>, c, out, e = DErr))"

text \<open>The body of the loop of \<^verbatim>\<open>handleConn\<close>: the server, the client, what is written to the connection, and
  whether the connection ends.\<close>

definition serve ::
  "'v vecops \<Rightarrow> 'v rest \<Rightarrow> (auditEvent \<Rightarrow> bytes) \<Rightarrow> cmd_env \<Rightarrow> 'v respServer \<Rightarrow> client \<Rightarrow> command
     \<Rightarrow> 'v respServer \<times> client \<times> bytes \<times> bool" where
  "serve v rest mj ce s c cmd =
     (case Allow (ce_t0 ce) (ce_t1 ce) (rs_rate s) (cl_RemoteAddr c) of (rate, allowed) \<Rightarrow>
        let s1 = s\<lparr>rs_rate := rate\<rparr>; c1 = refresh (rs_acl s) c
        in if \<not> allowed then (s1, c, WriteErrorRaw ''ERR rate limit exceeded'', False)
           else if Normalized cmd = ''AUTH''
           then (case handleAuth (rs_acl s) c cmd of (c', out) \<Rightarrow> (s1, c', out, False))
           else case Enforce (cl_User c1) cmd of
                  Some e \<Rightarrow> deny mj ce s1 c1 cmd e
                | None \<Rightarrow> run_allowed v rest mj ce s1 c1 cmd)"

section \<open>The loop of a connection\<close>

lemma readLine_shorter: "readLine b = Inr (l, r) \<Longrightarrow> length r < length b"
  by (auto simp: readLine_def Let_def split: if_splits)

lemma readInt_shorter: "readInt b = Inr (n, r) \<Longrightarrow> length r < length b"
  by (auto simp: readInt_def split: sum.splits prod.splits option.splits dest: readLine_shorter)

lemma readBulkString_shorter: "readBulkString b = Inr (x, r) \<Longrightarrow> length r < length b"
  by (auto simp: readBulkString_def Let_def split: list.splits if_splits sum.splits dest!: readInt_shorter)

lemma readBulks_shorter: "readBulks n b = Inr (xs, r) \<Longrightarrow> length r \<le> length b"
  by (induction n arbitrary: b xs) (fastforce split: sum.splits prod.splits dest: readBulkString_shorter)+

lemma ReadCommand_shorter: "ReadCommand b = Inr (cmd, r) \<Longrightarrow> length r < length b"
  by (auto simp: ReadCommand_def readArray_def readInline_def
      split: list.splits if_splits sum.splits prod.splits
      dest!: readInt_shorter readBulks_shorter readLine_shorter)

text \<open>The loop of \<^verbatim>\<open>handleConn\<close> on the bytes the connection delivers, when nothing else happens on the server;
  \<open>ces k\<close> is the environment of the \<open>k\<close>-th command. It ends when the input does, at a protocol error, or
  at \<^verbatim>\<open>QUIT\<close>; the number of commands served is returned as well.\<close>

function serve_loop ::
  "'v vecops \<Rightarrow> 'v rest \<Rightarrow> (auditEvent \<Rightarrow> bytes) \<Rightarrow> (nat \<Rightarrow> cmd_env) \<Rightarrow> nat \<Rightarrow> 'v respServer \<Rightarrow> client \<Rightarrow> bytes
     \<Rightarrow> 'v respServer \<times> client \<times> bytes \<times> nat" where
  "serve_loop v rest mj ces k s c b =
     (case ReadCommand b of
        Inl _ \<Rightarrow> (s, c, [], k)
      | Inr (cmd, r) \<Rightarrow>
          (case serve v rest mj (ces k) s c cmd of
             (s', c', out, True) \<Rightarrow> (s', c', out, Suc k)
           | (s', c', out, False) \<Rightarrow>
               (case serve_loop v rest mj ces (Suc k) s' c' r of (s2, c2, out2, n) \<Rightarrow> (s2, c2, out @ out2, n))))"
  by pat_completeness auto
termination
  by (relation "measure (\<lambda>(v, rest, mj, ces, k, s, c, b). length b)") (auto dest: ReadCommand_shorter)

declare serve_loop.simps [simp del]

text \<open>Serving a list of commands one after the other.\<close>

fun serve_all ::
  "'v vecops \<Rightarrow> 'v rest \<Rightarrow> (auditEvent \<Rightarrow> bytes) \<Rightarrow> (nat \<Rightarrow> cmd_env) \<Rightarrow> nat \<Rightarrow> 'v respServer \<Rightarrow> client \<Rightarrow> command list
     \<Rightarrow> 'v respServer \<times> client \<times> bytes \<times> nat" where
  "serve_all v rest mj ces k s c [] = (s, c, [], k)"
| "serve_all v rest mj ces k s c (cmd # cmds) =
     (case serve v rest mj (ces k) s c cmd of
        (s', c', out, True) \<Rightarrow> (s', c', out, Suc k)
      | (s', c', out, False) \<Rightarrow>
          (case serve_all v rest mj ces (Suc k) s' c' cmds of (s2, c2, out2, n) \<Rightarrow> (s2, c2, out @ out2, n)))"

section \<open>Many connections\<close>

datatype event =
    Connect string
  | Command "64 word" command cmd_env
  | Hangup "64 word"
  | AclAdd user
  | AclDelete string
  | AclReplace "user option list"

text \<open>A command that reached the executor: who sent it, the ACL at that moment, the command and its
  environment.\<close>

record executed =
  xc_client :: "64 word"
  xc_user :: user
  xc_acl :: aclStore
  xc_cmd :: command
  xc_env :: cmd_env

text \<open>The command runs when the limiter allows it, it is not \<^verbatim>\<open>AUTH\<close>, and the enforcer has no objection.\<close>

definition runs :: "'v respServer \<Rightarrow> client \<Rightarrow> command \<Rightarrow> cmd_env \<Rightarrow> executed option" where
  "runs s c cmd ce =
     (let usr = cl_User (refresh (rs_acl s) c)
      in if snd (Allow (ce_t0 ce) (ce_t1 ce) (rs_rate s) (cl_RemoteAddr c)) \<and> Normalized cmd \<noteq> ''AUTH''
            \<and> Enforce usr cmd = None
         then map_option (\<lambda>u. \<lparr>xc_client = cl_ID c, xc_user = u, xc_acl = rs_acl s, xc_cmd = cmd, xc_env = ce\<rparr>) usr
         else None)"

definition sstep ::
  "'v vecops \<Rightarrow> 'v rest \<Rightarrow> (auditEvent \<Rightarrow> bytes) \<Rightarrow> 'v respServer \<Rightarrow> event \<Rightarrow> 'v respServer \<times> executed list" where
  "sstep v rest mj s e =
     (case e of
        Connect addr \<Rightarrow> (fst (open_conn s addr), [])
      | Command i cmd ce \<Rightarrow>
          (case map_of (rs_clients s) i of
             None \<Rightarrow> (s, [])
           | Some c \<Rightarrow>
               (case serve v rest mj ce s c cmd of (s', c', out, fin) \<Rightarrow>
                  let s2 = s'\<lparr>rs_clients := AList.update i c' (rs_clients s')\<rparr>
                  in (if fin then close_conn s2 i else s2, case runs s c cmd ce of None \<Rightarrow> [] | Some x \<Rightarrow> [x])))
      | Hangup i \<Rightarrow> (case map_of (rs_clients s) i of None \<Rightarrow> (s, []) | Some _ \<Rightarrow> (close_conn s i, []))
      | AclAdd u \<Rightarrow> (s\<lparr>rs_acl := AddUser (rs_acl s) u\<rparr>, [])
      | AclDelete n \<Rightarrow> (s\<lparr>rs_acl := fst (DeleteUser (rs_acl s) n)\<rparr>, [])
      | AclReplace us \<Rightarrow> (s\<lparr>rs_acl := ReplaceUsers us\<rparr>, []))"

fun srun ::
  "'v vecops \<Rightarrow> 'v rest \<Rightarrow> (auditEvent \<Rightarrow> bytes) \<Rightarrow> 'v respServer \<Rightarrow> event list \<Rightarrow> 'v respServer \<times> executed list" where
  "srun v rest mj s [] = (s, [])"
| "srun v rest mj s (e # es) =
     (case sstep v rest mj s e of (s', tr) \<Rightarrow> case srun v rest mj s' es of (s'', tr') \<Rightarrow> (s'', tr @ tr'))"

section \<open>What one command does to the server\<close>

lemma refresh_ID [simp]: "cl_ID (refresh acl c) = cl_ID c"
  by (simp add: refresh_def split: option.split)

lemma refresh_user: "cl_User (refresh acl c) = Some u \<Longrightarrow> \<exists>n. GetUser acl n = Some u"
  by (auto simp: refresh_def split: option.splits)

lemma audit_ok_keeps [simp]:
  "rs_ex (audit_ok mj ce s c cmd) = rs_ex s" "rs_acl (audit_ok mj ce s c cmd) = rs_acl s"
  "rs_clients (audit_ok mj ce s c cmd) = rs_clients s" "rs_nextID (audit_ok mj ce s c cmd) = rs_nextID s"
  "rs_max (audit_ok mj ce s c cmd) = rs_max s" "rs_sem (audit_ok mj ce s c cmd) = rs_sem s"
  "rs_active (audit_ok mj ce s c cmd) = rs_active s"
  by (simp_all add: audit_ok_def)

lemma handleAuth_ID [simp]: "cl_ID (fst (handleAuth acl c cmd)) = cl_ID c"
  by (simp add: handleAuth_def Let_def case_prod_beta split: option.split)

lemma serve_ex:
  "rs_ex (fst (serve v rest mj ce s c cmd)) =
     (case runs s c cmd ce of
        None \<Rightarrow> rs_ex s
      | Some x \<Rightarrow> fst (Execute v rest (ce_env ce) (cl_ID c) (rs_ex s) cmd))"
proof (cases "snd (Allow (ce_t0 ce) (ce_t1 ce) (rs_rate s) (cl_RemoteAddr c)) \<and> Normalized cmd \<noteq> ''AUTH''")
  case False
  then show ?thesis by (auto simp: serve_def runs_def Let_def case_prod_beta)
next
  case True
  show ?thesis
  proof (cases "Enforce (cl_User (refresh (rs_acl s) c)) cmd")
    case None
    then obtain u where "cl_User (refresh (rs_acl s) c) = Some u" by (auto simp: Enforce_None_iff)
    with True None show ?thesis by (simp add: serve_def runs_def run_allowed_def Let_def case_prod_beta)
  next
    case (Some e)
    with True show ?thesis by (simp add: serve_def runs_def deny_def Let_def case_prod_beta)
  qed
qed

lemma serve_keeps:
  "rs_acl (fst (serve v rest mj ce s c cmd)) = rs_acl s"
  "rs_clients (fst (serve v rest mj ce s c cmd)) = rs_clients s"
  "rs_nextID (fst (serve v rest mj ce s c cmd)) = rs_nextID s"
  "rs_max (fst (serve v rest mj ce s c cmd)) = rs_max s"
  "rs_sem (fst (serve v rest mj ce s c cmd)) = rs_sem s"
  "rs_active (fst (serve v rest mj ce s c cmd)) = rs_active s"
  "cl_ID (fst (snd (serve v rest mj ce s c cmd))) = cl_ID c"
  by (simp_all add: serve_def deny_def run_allowed_def Let_def case_prod_beta split: option.split)

lemma open_conn_keeps: "rs_ex (fst (open_conn s a)) = rs_ex s" "rs_acl (fst (open_conn s a)) = rs_acl s"
  by (simp_all add: open_conn_def Let_def)

lemma close_conn_keeps: "rs_ex (close_conn s i) = rs_ex s" "rs_acl (close_conn s i) = rs_acl s"
  by (simp_all add: close_conn_def)

text \<open>The step of a command, without the client's record.\<close>

lemma sstep_Command:
  assumes "map_of (rs_clients s) i = Some c"
  shows "rs_ex (fst (sstep v rest mj s (Command i cmd ce))) = rs_ex (fst (serve v rest mj ce s c cmd))"
    and "rs_acl (fst (sstep v rest mj s (Command i cmd ce))) = rs_acl s"
    and "snd (sstep v rest mj s (Command i cmd ce)) = (case runs s c cmd ce of None \<Rightarrow> [] | Some x \<Rightarrow> [x])"
  using serve_keeps(1) [of v rest mj ce s c cmd] assms
  by (auto simp: sstep_def Let_def close_conn_keeps split: prod.split)

section \<open>Mediation and revocation\<close>

text \<open>The user was the one the ACL gave for its name at that moment, was enabled, had the permission the
  command needs and access to every key the command names.\<close>

definition permitted :: "executed \<Rightarrow> bool" where
  "permitted x \<longleftrightarrow>
     (let u = xc_user x; name = Normalized (xc_cmd x)
      in (\<exists>n. GetUser (xc_acl x) n = Some u) \<and> u_Enabled u
         \<and> has_perm u (if isAdminCommand name then PermAdmin else if isWriteCommand name then PermWrite else PermRead)
         \<and> list_all (\<lambda>k. k = [] \<or> CanAccessKey u k) (case AffectedKeys (xc_cmd x) of None \<Rightarrow> [] | Some ks \<Rightarrow> ks))"

lemma runs_fields:
  "runs s c cmd ce = Some x \<Longrightarrow> xc_client x = cl_ID c \<and> xc_cmd x = cmd \<and> xc_env x = ce \<and> xc_acl x = rs_acl s
     \<and> cl_User (refresh (rs_acl s) c) = Some (xc_user x) \<and> Enforce (Some (xc_user x)) cmd = None"
  by (auto simp: runs_def Let_def split: if_splits)

lemma runs_permitted:
  assumes "runs s c cmd ce = Some x"
  shows "permitted x"
proof -
  note f = runs_fields [OF assms]
  then have "\<exists>n. GetUser (rs_acl s) n = Some (xc_user x)" using refresh_user by blast
  moreover have "Enforce (Some (xc_user x)) (xc_cmd x) = None" using f by simp
  ultimately show ?thesis using f unfolding permitted_def Enforce_None_iff Let_def list_all_iff by simp
qed

definition exec_one :: "'v vecops \<Rightarrow> 'v rest \<Rightarrow> 'v executor \<Rightarrow> executed \<Rightarrow> 'v executor" where
  "exec_one v rest ex x = fst (Execute v rest (ce_env (xc_env x)) (xc_client x) ex (xc_cmd x))"

lemma sstep_mediated:
  "rs_ex (fst (sstep v rest mj s e)) = foldl (exec_one v rest) (rs_ex s) (snd (sstep v rest mj s e))
   \<and> list_all permitted (snd (sstep v rest mj s e))"
proof (cases e)
  case (Command i cmd ce)
  show ?thesis
  proof (cases "map_of (rs_clients s) i")
    case None
    then show ?thesis by (simp add: Command sstep_def)
  next
    case (Some c)
    note st = sstep_Command [OF Some, of v rest mj cmd ce]
    show ?thesis
    proof (cases "runs s c cmd ce")
      case None
      then show ?thesis by (simp add: Command st serve_ex)
    next
      case (Some x)
      then show ?thesis using runs_fields [OF Some] runs_permitted [OF Some]
        by (simp add: Command st serve_ex exec_one_def)
    qed
  qed
qed (auto simp: sstep_def open_conn_keeps close_conn_keeps split: option.split)


fun grants :: "string \<Rightarrow> event \<Rightarrow> bool" where
  "grants n (AclAdd u) = (u_Name u = n)"
| "grants n (AclReplace us) = list_ex (\<lambda>p. case p of Some u \<Rightarrow> u_Name u = n | None \<Rightarrow> False) us"
| "grants n _ = False"

lemma ReplaceUsers_absent:
  assumes "\<not> list_ex (\<lambda>p. case p of Some u \<Rightarrow> u_Name u = n | None \<Rightarrow> False) us"
  shows "GetUser (ReplaceUsers us) n = None"
proof -
  have "map_of (foldl replace_one a us) n = map_of a n" for a
    using assms by (induction us arbitrary: a) (auto simp: replace_one_def split: option.splits)
  then show ?thesis by (simp add: GetUser_def ReplaceUsers_def)
qed

lemma sstep_acl:
  assumes "acl_ok (rs_acl s)"
  shows "acl_ok (rs_acl (fst (sstep v rest mj s e)))"
    and "GetUser (rs_acl s) n = None \<Longrightarrow> \<not> grants n e \<Longrightarrow> GetUser (rs_acl (fst (sstep v rest mj s e))) n = None"
proof -
  have "rs_acl (fst (sstep v rest mj s (Command i cmd ce))) = rs_acl s" for i cmd ce
    by (cases "map_of (rs_clients s) i") (simp_all add: sstep_Command, simp add: sstep_def)
  then show "acl_ok (rs_acl (fst (sstep v rest mj s e)))"
    and "GetUser (rs_acl s) n = None \<Longrightarrow> \<not> grants n e \<Longrightarrow> GetUser (rs_acl (fst (sstep v rest mj s e))) n = None"
    using assms
    by (cases e; simp add: sstep_def open_conn_keeps close_conn_keeps acl_ok_AddUser acl_ok_DeleteUser
        acl_ok_ReplaceUsers ReplaceUsers_absent GetUser_after split: option.split)+
qed

lemma sstep_no_user:
  assumes "acl_ok (rs_acl s)" and "GetUser (rs_acl s) n = None"
  shows "list_all (\<lambda>x. u_Name (xc_user x) \<noteq> n) (snd (sstep v rest mj s e))"
proof (cases e)
  case (Command i cmd ce)
  show ?thesis
  proof (cases "map_of (rs_clients s) i")
    case (Some c)
    have "u_Name (xc_user x) \<noteq> n" if "runs s c cmd ce = Some x" for x
    proof -
      from runs_fields [OF that] obtain m where "GetUser (rs_acl s) m = Some (xc_user x)"
        using refresh_user by blast
      with assms GetUser_name [of "rs_acl s" m "xc_user x"] show ?thesis by auto
    qed
    then show ?thesis by (simp add: Command sstep_Command [OF Some] split: option.split)
  qed (simp add: Command sstep_def)
qed (auto simp: sstep_def split: option.split)

lemma srun_no_user:
  assumes "acl_ok (rs_acl s)" and "GetUser (rs_acl s) n = None" and "\<not> list_ex (grants n) es"
  shows "list_all (\<lambda>x. u_Name (xc_user x) \<noteq> n) (snd (srun v rest mj s es))"
  using assms
proof (induction es arbitrary: s)
  case (Cons e es)
  have "list_all (\<lambda>x. u_Name (xc_user x) \<noteq> n) (snd (srun v rest mj (fst (sstep v rest mj s e)) es))"
    using Cons.prems sstep_acl [OF Cons.prems(1)] by (intro Cons.IH) simp_all
  with sstep_no_user [OF Cons.prems(1,2), of v rest mj e] show ?case by (simp add: case_prod_beta)
qed simp



section \<open>The loop ends and follows the pipeline\<close>

lemma serve_loop_count:
  "k \<le> snd (snd (snd (serve_loop v rest mj ces k s c b)))
   \<and> snd (snd (snd (serve_loop v rest mj ces k s c b))) \<le> k + length b"
proof (induction b arbitrary: k s c rule: length_induct)
  case (1 b)
  show ?case
  proof (cases "ReadCommand b")
    case (Inl e)
    then show ?thesis by (subst (1 2) serve_loop.simps) simp
  next
    case (Inr p)
    obtain cmd r where p: "p = (cmd, r)" by fastforce
    have lt: "length r < length b" using ReadCommand_shorter Inr p by blast
    obtain s' c' out fin where S: "serve v rest mj (ces k) s c cmd = (s', c', out, fin)" by (metis prod_cases4)
    show ?thesis
    proof (cases fin)
      case True
      then show ?thesis using lt by (subst (1 2) serve_loop.simps) (simp add: Inr p S)
    next
      case False
      then have e: "snd (snd (snd (serve_loop v rest mj ces k s c b)))
          = snd (snd (snd (serve_loop v rest mj ces (Suc k) s' c' r)))"
        by (subst serve_loop.simps) (simp add: Inr p S case_prod_beta)
      from 1 [rule_format, OF lt, of "Suc k" s' c'] lt show ?thesis unfolding e by linarith
    qed
  qed
qed

lemma serve_loop_pipeline:
  assumes "list_all command_ok cmds"
  shows "serve_loop v rest mj ces k s c (concat (map write_command cmds)) = serve_all v rest mj ces k s c cmds"
  using assms
proof (induction cmds arbitrary: k s c)
  case Nil
  then show ?case by (subst serve_loop.simps) (simp add: ReadCommand_def)
next
  case (Cons cmd cmds)
  obtain s' c' out fin where S: "serve v rest mj (ces k) s c cmd = (s', c', out, fin)" by (metis prod_cases4)
  from Cons show ?case
    by (subst serve_loop.simps) (cases fin; simp add: ReadCommand_write S)
qed

text \<open>
  C33. The command loop of a connection always ends: it serves at most as many commands as the connection
  delivers bytes. On the RESP encoding of a pipeline of commands, followed by the end of the input, it does
  exactly what serving these commands one after the other does.
\<close>

theorem session_loop:
  "(k \<le> snd (snd (snd (serve_loop v rest mj ces k s c b)))
     \<and> snd (snd (snd (serve_loop v rest mj ces k s c b))) \<le> k + length b)
   \<and> (list_all command_ok cmds \<longrightarrow>
       serve_loop v rest mj ces k s c (concat (map write_command cmds)) = serve_all v rest mj ces k s c cmds)"
  using serve_loop_count serve_loop_pipeline by blast

theorem session_loop_witness:
  "\<forall>v rest mj ces s c. serve_loop v rest mj ces 0 s c (concat (map write_command
       [\<lparr>cmd_Name = ''PING'', cmd_Args = []\<rparr>, \<lparr>cmd_Name = ''GET'', cmd_Args = [Some ''k'']\<rparr>]))
     = serve_all v rest mj ces 0 s c [\<lparr>cmd_Name = ''PING'', cmd_Args = []\<rparr>, \<lparr>cmd_Name = ''GET'', cmd_Args = [Some ''k'']\<rparr>]"
proof -
  have "list_all command_ok [\<lparr>cmd_Name = ''PING'', cmd_Args = []\<rparr>, \<lparr>cmd_Name = ''GET'', cmd_Args = [Some ''k'']\<rparr>]"
    by (simp add: command_ok_def bulk_ok_def maxRESPBulkBytes_def maxRESPArrayItems_def)
  then show ?thesis using session_loop by blast
qed

section \<open>Connections\<close>

text \<open>Every open connection has its own number, handed out once; the semaphore and the metric count the
  connections that are open.\<close>

definition conn_inv :: "'v respServer \<Rightarrow> bool" where
  "conn_inv s \<longleftrightarrow>
     wf_map (rs_clients s)
     \<and> (\<forall>i c. map_of (rs_clients s) i = Some c \<longrightarrow> cl_ID c = i \<and> unat i \<le> unat (rs_nextID s))
     \<and> length (rs_clients s) \<le> unat (rs_nextID s)
     \<and> rs_active s = int (length (rs_clients s))
     \<and> (rs_max s > 0 \<longrightarrow> rs_sem s = length (rs_clients s) \<and> int (rs_sem s) \<le> rs_max s)"

lemma conn_inv_New: "conn_inv (NewRESPServer m ex acl rate audit)"
  by (simp add: conn_inv_def NewRESPServer_def)

lemma unat_inc: "unat (w :: 64 word) < 2 ^ 62 \<Longrightarrow> unat (w + 1) = unat w + 1"
  by (subst unat_add_lem [THEN iffD1]) simp_all

lemma conn_inv_open:
  assumes "conn_inv s" and "unat (rs_nextID s) < 2 ^ 62"
  shows "conn_inv (fst (open_conn s a)) \<and> unat (rs_nextID (fst (open_conn s a))) \<le> unat (rs_nextID s) + 1"
proof -
  have n: "unat (rs_nextID s + 1) = unat (rs_nextID s) + 1" using assms(2) by (rule unat_inc)
  have "map_of (rs_clients s) (rs_nextID s + 1) = None"
    using assms(1) n unfolding conn_inv_def
    by (metis Suc_eq_plus1 Suc_n_not_le_n option.exhaust)
  note len = length_update_new [OF this]
  have "i64 (int (length (rs_clients s)) + 1) = int (length (rs_clients s)) + 1"
    using assms by (intro i64_small) (auto simp: conn_inv_def)
  then show ?thesis using assms(1) n by (auto simp: open_conn_def Let_def conn_inv_def len intro: le_SucI)
qed

lemma conn_inv_close:
  assumes "conn_inv s" and "unat (rs_nextID s) < 2 ^ 62" and "map_of (rs_clients s) i = Some c"
  shows "conn_inv (close_conn s i)"
proof -
  have "Suc (length (AList.delete i (rs_clients s))) = length (rs_clients s)"
    using assms by (intro length_delete_present) (auto simp: conn_inv_def)
  then have len: "length (rs_clients s) = Suc (length (AList.delete i (rs_clients s)))" by simp
  have "i64 (int (length (rs_clients s)) - 1) = int (length (rs_clients s)) - 1"
    using assms by (intro i64_small) (auto simp: conn_inv_def)
  then show ?thesis using assms(1) by (auto simp: conn_inv_def close_conn_def len)
qed

lemma conn_inv_serve:
  assumes "conn_inv s" and "map_of (rs_clients s) i = Some c"
  shows "conn_inv ((fst (serve v rest mj ce s c cmd))\<lparr>rs_clients := AList.update i (fst (snd (serve v rest mj ce s c cmd))) (rs_clients s)\<rparr>)"
  using assms length_update_old [OF assms(2)]
  by (auto simp: conn_inv_def serve_keeps)

lemma sstep_conn:
  assumes "conn_inv s" and "unat (rs_nextID s) < 2 ^ 62"
  shows "conn_inv (fst (sstep v rest mj s e)) \<and> unat (rs_nextID (fst (sstep v rest mj s e))) \<le> unat (rs_nextID s) + 1
    \<and> rs_max (fst (sstep v rest mj s e)) = rs_max s"
proof (cases e)
  case (Connect a)
  then show ?thesis using conn_inv_open [OF assms, of a] by (simp add: sstep_def) (simp add: open_conn_def Let_def)
next
  case (Command i cmd ce)
  show ?thesis
  proof (cases "map_of (rs_clients s) i")
    case (Some c)
    let ?s = "(fst (serve v rest mj ce s c cmd))\<lparr>rs_clients := AList.update i (fst (snd (serve v rest mj ce s c cmd))) (rs_clients s)\<rparr>"
    have st: "fst (sstep v rest mj s e) = (if snd (snd (snd (serve v rest mj ce s c cmd))) then close_conn ?s i else ?s)"
      by (simp add: Command Some sstep_def Let_def case_prod_beta serve_keeps)
    have inv: "conn_inv ?s" using assms(1) Some by (rule conn_inv_serve)
    have "conn_inv (close_conn ?s i)"
      using assms(2) by (intro conn_inv_close [OF inv]) (simp_all add: serve_keeps)
    then show ?thesis unfolding st using inv by (simp add: serve_keeps close_conn_def)
  qed (use assms in \<open>simp add: Command sstep_def\<close>)
next
  case (Hangup i)
  then show ?thesis using assms conn_inv_close [OF assms] by (auto simp: sstep_def close_conn_def split: option.split)
qed (use assms in \<open>auto simp: sstep_def conn_inv_def\<close>)

lemma srun_conn:
  assumes "conn_inv s" and "unat (rs_nextID s) + length es < 2 ^ 62"
  shows "conn_inv (fst (srun v rest mj s es)) \<and> rs_max (fst (srun v rest mj s es)) = rs_max s"
  using assms
proof (induction es arbitrary: s)
  case (Cons e es)
  have "conn_inv (fst (sstep v rest mj s e))" "unat (rs_nextID (fst (sstep v rest mj s e))) \<le> unat (rs_nextID s) + 1"
    "rs_max (fst (sstep v rest mj s e)) = rs_max s"
    using sstep_conn [of s v rest mj e] Cons.prems by simp_all
  moreover from this Cons.prems have "unat (rs_nextID (fst (sstep v rest mj s e))) + length es < 2 ^ 62" by simp
  ultimately show ?case using Cons.IH [of "fst (sstep v rest mj s e)"] by (simp add: case_prod_beta)
qed simp

text \<open>
  C35. In every run of a new server with fewer than \<open>2^62\<close> events the number of open connections never passes a
  positive connection limit, the metric of active connections is that number, and every open connection is
  filed under its own identifier.
\<close>

theorem session_connections:
  assumes "length es < 2 ^ 62"
  shows "let s = fst (srun v rest mj (NewRESPServer m ex acl rate audit) es)
         in (m > 0 \<longrightarrow> int (ActiveConnections s) \<le> m) \<and> rs_active s = int (ActiveConnections s)
            \<and> distinct (map fst (rs_clients s)) \<and> (\<forall>i c. map_of (rs_clients s) i = Some c \<longrightarrow> cl_ID c = i)"
proof -
  have "conn_inv (fst (srun v rest mj (NewRESPServer m ex acl rate audit) es))
      \<and> rs_max (fst (srun v rest mj (NewRESPServer m ex acl rate audit) es)) = m"
    using srun_conn [OF conn_inv_New, of m ex acl rate audit es v rest mj] assms by (simp add: NewRESPServer_def)
  then show ?thesis unfolding Let_def conn_inv_def ActiveConnections_def wf_map_def by auto
qed

theorem session_connections_witness:
  "\<forall>v rest mj ex acl rate audit.
     int (ActiveConnections (fst (srun v rest mj (NewRESPServer 1 ex acl rate audit) [Connect ''a'', Connect ''b'', Hangup 1]))) \<le> 1"
proof (intro allI)
  fix v :: "'v vecops" and rest mj ex acl rate audit
  have "length [Connect ''a'', Connect ''b'', Hangup 1] < 2 ^ 62" by simp
  from session_connections [OF this, of v rest mj 1 ex acl rate audit]
  show "int (ActiveConnections (fst (srun v rest mj (NewRESPServer 1 ex acl rate audit)
      [Connect ''a'', Connect ''b'', Hangup 1]))) \<le> 1"
    unfolding Let_def by (elim conjE) (drule mp, simp, assumption)
qed

end
