(* ===== verification/Cluster.thy ===== *)
theory Cluster
  imports HashUtil SortSearch Sha256
begin

text \<open>
  Where a key lives. \<^verbatim>\<open>src/internal/cluster\<close>: the ring that divides the 16384 hash slots among the nodes
  (\<^verbatim>\<open>ring.go\<close>) and membership, slot allocation and redirects on top of it (\<^verbatim>\<open>membership.go\<close>).
  \<^verbatim>\<open>src/internal/orchestrator/hashring.go\<close>: the consistent-hashing ring that spreads tenants over workers.
  A \<^verbatim>\<open>*Node\<close> is an address of the ring's store, because the slice, the map and the caller share it.
\<close>

section \<open>The slot ring\<close>

definition TotalSlots :: nat where "TotalSlots = 16384"

datatype nodeState = NodeOnline | NodeOffline | NodeFailing

record node =
  nd_ID :: string
  nd_Addr :: string
  nd_Slots :: "(int \<times> int) list"
  nd_State :: nodeState
  nd_Role :: string

record ring =
  rg_store :: "nat \<Rightarrow> node"
  rg_next :: nat
  rg_nodes :: "nat list"
  rg_nodeMap :: "(string, nat) gomap"
  rg_slotMap :: "nat \<Rightarrow> string"

definition NewRing :: ring where
  "NewRing = \<lparr>rg_store = (\<lambda>_. \<lparr>nd_ID = [], nd_Addr = [], nd_Slots = [], nd_State = NodeOnline, nd_Role = []\<rparr>),
     rg_next = 0, rg_nodes = [], rg_nodeMap = [], rg_slotMap = (\<lambda>_. [])\<rparr>"

definition slot_start :: "nat \<Rightarrow> nat \<Rightarrow> nat" where
  "slot_start n i = i * (TotalSlots div n)"

definition slot_end :: "nat \<Rightarrow> nat \<Rightarrow> nat" where
  "slot_end n i = (if i = n - 1 then TotalSlots else slot_start n i + TotalSlots div n)"

definition assign_one :: "nat \<Rightarrow> nat \<Rightarrow> nat \<Rightarrow> ring \<Rightarrow> ring" where
  "assign_one n i p r =
     r\<lparr>rg_store := (rg_store r)(p := (rg_store r p)\<lparr>nd_Slots := [(int (slot_start n i), int (slot_end n i) - 1)]\<rparr>),
       rg_slotMap := (\<lambda>s. if slot_start n i \<le> s \<and> s < slot_end n i then nd_ID (rg_store r p) else rg_slotMap r s)\<rparr>"

fun assign_slots :: "nat \<Rightarrow> nat \<Rightarrow> nat list \<Rightarrow> ring \<Rightarrow> ring" where
  "assign_slots n i [] r = r"
| "assign_slots n i (p # ps) r = assign_slots n (Suc i) ps (assign_one n i p r)"

text \<open>\<^verbatim>\<open>sort.Slice\<close> may order nodes of equal ID either way; the stable order is one of them.\<close>

definition rebalance :: "ring \<Rightarrow> ring" where
  "rebalance r =
     (let n = length (rg_nodes r); ps = sort_key (\<lambda>p. nd_ID (rg_store r p)) (rg_nodes r)
      in if n = 0 then r else assign_slots n 0 ps (r\<lparr>rg_nodes := ps\<rparr>))"

definition AddNode :: "ring \<Rightarrow> node \<Rightarrow> ring" where
  "AddNode r nd =
     (let p = rg_next r
      in rebalance (r\<lparr>rg_store := (rg_store r)(p := nd), rg_next := Suc p, rg_nodes := rg_nodes r @ [p],
           rg_nodeMap := AList.update (nd_ID nd) p (rg_nodeMap r)\<rparr>))"

definition RemoveNode :: "ring \<Rightarrow> string \<Rightarrow> ring" where
  "RemoveNode r nodeID =
     rebalance (r\<lparr>rg_nodes := filter (\<lambda>p. nd_ID (rg_store r p) \<noteq> nodeID) (rg_nodes r),
       rg_nodeMap := AList.delete nodeID (rg_nodeMap r)\<rparr>)"

definition NodeForSlot :: "ring \<Rightarrow> int \<Rightarrow> node option" where
  "NodeForSlot r slot =
     (if slot < 0 \<or> slot \<ge> int TotalSlots then None
      else map_option (rg_store r) (map_of (rg_nodeMap r) (rg_slotMap r (nat slot))))"

definition NodeForKey :: "ring \<Rightarrow> string \<Rightarrow> node option" where
  "NodeForKey r key = NodeForSlot r (int (HashSlot key))"

definition Nodes :: "ring \<Rightarrow> node list" where
  "Nodes r = map (rg_store r) (rg_nodes r)"

definition SlotInfo :: "ring \<Rightarrow> (string, (int \<times> int) list) gomap" where
  "SlotInfo r = foldl (\<lambda>m nd. AList.update (nd_ID nd) (nd_Slots nd) m) [] (Nodes r)"

definition Redirect :: "int \<Rightarrow> node option \<Rightarrow> string" where
  "Redirect slot nd =
     (case nd of
        None \<Rightarrow> ''MOVED '' @ FormatInt slot @ '' (no owner)''
      | Some nd \<Rightarrow> ''MOVED '' @ FormatInt slot @ '' '' @ nd_Addr nd)"

section \<open>Membership\<close>

record membership =
  mb_ring :: ring
  mb_heartbeat :: "(string, int) gomap"
  mb_timeout :: int

definition NewMembership :: "ring \<Rightarrow> int \<Rightarrow> membership" where
  "NewMembership r timeout = \<lparr>mb_ring = r, mb_heartbeat = [], mb_timeout = timeout\<rparr>"

definition Join :: "int \<Rightarrow> membership \<Rightarrow> node \<Rightarrow> membership" where
  "Join now m nd = m\<lparr>mb_ring := AddNode (mb_ring m) nd, mb_heartbeat := AList.update (nd_ID nd) now (mb_heartbeat m)\<rparr>"

definition Leave :: "membership \<Rightarrow> string \<Rightarrow> membership" where
  "Leave m nodeID =
     m\<lparr>mb_ring := RemoveNode (mb_ring m) nodeID, mb_heartbeat := AList.delete nodeID (mb_heartbeat m)\<rparr>"

definition Heartbeat :: "int \<Rightarrow> membership \<Rightarrow> string \<Rightarrow> membership" where
  "Heartbeat now m nodeID = m\<lparr>mb_heartbeat := AList.update nodeID now (mb_heartbeat m)\<rparr>"

definition FailedNodes :: "int \<Rightarrow> membership \<Rightarrow> string list" where
  "FailedNodes now m = map fst (filter (\<lambda>(_, last). last < now - mb_timeout m) (mb_heartbeat m))"

definition Allocate :: "ring \<Rightarrow> ring" where
  "Allocate r = rebalance r"

definition Owner :: "ring \<Rightarrow> int \<Rightarrow> string + string" where
  "Owner r slot =
     (case NodeForSlot r slot of None \<Rightarrow> Inl (''no owner for slot '' @ FormatInt slot) | Some nd \<Rightarrow> Inr (nd_ID nd))"

definition Rebalance :: "ring \<Rightarrow> ring" where
  "Rebalance r = rebalance r"

definition ShouldRedirect :: "ring \<Rightarrow> string \<Rightarrow> string \<Rightarrow> bool \<times> string" where
  "ShouldRedirect r selfID key =
     (case NodeForKey r key of
        None \<Rightarrow> (False, [])
      | Some nd \<Rightarrow> if nd_ID nd = selfID then (False, []) else (True, Redirect 0 (Some nd)))"

section \<open>Slots are divided among the nodes\<close>

text \<open>The index of the node that owns slot \<open>s\<close> when there are \<open>n\<close> nodes.\<close>

definition owner_ix :: "nat \<Rightarrow> nat \<Rightarrow> nat" where
  "owner_ix n s = (let q = TotalSlots div n in if q = 0 then n - 1 else min (s div q) (n - 1))"

lemma assign_one_keeps [simp]:
  "rg_nodes (assign_one n i p r) = rg_nodes r" "rg_nodeMap (assign_one n i p r) = rg_nodeMap r"
  "rg_next (assign_one n i p r) = rg_next r" "nd_ID (rg_store (assign_one n i p r) x) = nd_ID (rg_store r x)"
  by (simp_all add: assign_one_def)

lemma assign_keeps [simp]:
  "rg_nodes (assign_slots n i ps r) = rg_nodes r" "rg_nodeMap (assign_slots n i ps r) = rg_nodeMap r"
  "rg_next (assign_slots n i ps r) = rg_next r" "nd_ID (rg_store (assign_slots n i ps r) x) = nd_ID (rg_store r x)"
  by (induction ps arbitrary: i r) simp_all

lemma assign_store_other: "x \<notin> set ps \<Longrightarrow> rg_store (assign_slots n i ps r) x = rg_store r x"
  by (induction ps arbitrary: i r) (simp_all add: assign_one_def)

lemma assign_below: "s < slot_start n i \<Longrightarrow> rg_slotMap (assign_slots n i ps r) s = rg_slotMap r s"
proof (induction ps arbitrary: i r)
  case (Cons p ps)
  then have "s < slot_start n (Suc i)" by (simp add: slot_start_def)
  with Cons show ?case by (simp add: assign_one_def)
qed simp

lemma owner_ix_last: "slot_start n (n - 1) \<le> s \<Longrightarrow> owner_ix n s = n - 1"
  by (auto simp: owner_ix_def slot_start_def Let_def less_eq_div_iff_mult_less_eq)

lemma owner_ix_in:
  assumes "slot_start n i \<le> s" and "s < slot_start n i + TotalSlots div n" and "i < n"
  shows "owner_ix n s = i"
proof -
  define q where "q = TotalSlots div n"
  have q: "0 < q" and l: "i * q \<le> s" and u: "s < i * q + q" using assms by (auto simp: slot_start_def q_def)
  have "s div q = i" using l u by (intro div_nat_eqI) (simp_all add: mult.commute)
  with q assms(3) show ?thesis by (simp add: owner_ix_def Let_def q_def [symmetric])
qed

lemma assign_slotMap:
  assumes "ps \<noteq> []" and "i + length ps = n" and "slot_start n i \<le> s" and "s < TotalSlots"
  shows "i \<le> owner_ix n s \<and> owner_ix n s < n
    \<and> rg_slotMap (assign_slots n i ps r) s = nd_ID (rg_store r (ps ! (owner_ix n s - i)))"
  using assms
proof (induction ps arbitrary: i r)
  case (Cons p ps)
  show ?case
  proof (cases "ps = []")
    case True
    then have "i = n - 1" using Cons.prems by simp
    then show ?thesis using Cons.prems True owner_ix_last [of n s]
      by (simp add: assign_one_def slot_end_def)
  next
    case False
    then have i: "i < n - 1" using Cons.prems(2) by (cases ps) auto
    show ?thesis
    proof (cases "s < slot_start n (Suc i)")
      case True
      then have "owner_ix n s = i" using Cons.prems i by (intro owner_ix_in) (auto simp: slot_start_def)
      then show ?thesis using True i Cons.prems(3)
        by (simp add: assign_below) (auto simp: assign_one_def slot_end_def slot_start_def)
    next
      case nxt: False
      have "Suc i \<le> owner_ix n s \<and> owner_ix n s < n
          \<and> rg_slotMap (assign_slots n (Suc i) ps (assign_one n i p r)) s
            = nd_ID (rg_store (assign_one n i p r) (ps ! (owner_ix n s - Suc i)))"
        using Cons.prems False nxt by (intro Cons.IH) auto
      then show ?thesis by (auto simp: nth_Cons')
    qed
  qed
qed simp

lemma assign_ranges:
  assumes "distinct ps" and "j < length ps"
  shows "nd_Slots (rg_store (assign_slots n i ps r) (ps ! j)) = [(int (slot_start n (i + j)), int (slot_end n (i + j)) - 1)]"
  using assms
proof (induction ps arbitrary: i j r)
  case (Cons p ps)
  show ?case
  proof (cases j)
    case 0
    then show ?thesis using Cons.prems by (simp add: assign_store_other) (simp add: assign_one_def)
  next
    case (Suc k)
    then show ?thesis using Cons by simp
  qed
qed simp

text \<open>The pointers are distinct, and the map finds each node of the slice under its identifier.\<close>

definition ring_inv :: "ring \<Rightarrow> bool" where
  "ring_inv r \<longleftrightarrow>
     distinct (rg_nodes r) \<and> distinct (map (\<lambda>p. nd_ID (rg_store r p)) (rg_nodes r))
     \<and> (\<forall>p \<in> set (rg_nodes r). p < rg_next r \<and> map_of (rg_nodeMap r) (nd_ID (rg_store r p)) = Some p)"

definition balanced :: "ring \<Rightarrow> bool" where
  "balanced r \<longleftrightarrow>
     (\<forall>s < TotalSlots. rg_nodes r \<noteq> [] \<longrightarrow>
        owner_ix (length (rg_nodes r)) s < length (rg_nodes r)
        \<and> rg_slotMap r s = nd_ID (rg_store r (rg_nodes r ! owner_ix (length (rg_nodes r)) s)))
     \<and> (\<forall>j < length (rg_nodes r). nd_Slots (rg_store r (rg_nodes r ! j))
          = [(int (slot_start (length (rg_nodes r)) j), int (slot_end (length (rg_nodes r)) j) - 1)])"

lemma rebalance_ok:
  assumes "ring_inv r"
  shows "ring_inv (rebalance r) \<and> balanced (rebalance r)"
proof (cases "rg_nodes r = []")
  case True
  then show ?thesis using assms by (simp add: rebalance_def Let_def balanced_def)
next
  case False
  define ps where "ps = sort_key (\<lambda>p. nd_ID (rg_store r p)) (rg_nodes r)"
  define r1 where "r1 = r\<lparr>rg_nodes := ps\<rparr>"
  have ps: "set ps = set (rg_nodes r)" "length ps = length (rg_nodes r)" "ps \<noteq> []" "distinct ps"
    using False assms by (simp_all add: ps_def ring_inv_def) (metis length_0_conv length_sort)
  have "mset (map (\<lambda>p. nd_ID (rg_store r p)) ps) = mset (map (\<lambda>p. nd_ID (rg_store r p)) (rg_nodes r))"
    by (simp add: ps_def)
  then have ids: "distinct (map (\<lambda>p. nd_ID (rg_store r p)) ps)"
    using assms unfolding ring_inv_def by (metis mset_eq_imp_distinct_iff)
  have rb: "rebalance r = assign_slots (length ps) 0 ps r1"
    using False ps(2) by (simp add: rebalance_def Let_def ps_def r1_def)
  have "ring_inv (rebalance r)"
    using assms ps ids by (simp add: ring_inv_def rb r1_def)
  moreover have "balanced (rebalance r)"
    using assign_slotMap [OF ps(3), of 0 "length ps"] assign_ranges [OF ps(4), of _ "length ps" 0]
    by (simp add: balanced_def rb r1_def slot_start_def)
  ultimately show ?thesis ..
qed

lemma AddNode_ok:
  assumes "ring_inv r" and "nd_ID nd \<notin> nd_ID ` set (Nodes r)"
  shows "ring_inv (AddNode r nd) \<and> balanced (AddNode r nd)"
proof -
  let ?r = "r\<lparr>rg_store := (rg_store r)(rg_next r := nd), rg_next := Suc (rg_next r),
      rg_nodes := rg_nodes r @ [rg_next r], rg_nodeMap := AList.update (nd_ID nd) (rg_next r) (rg_nodeMap r)\<rparr>"
  have new: "nd_ID nd \<notin> (\<lambda>p. nd_ID (rg_store r p)) ` set (rg_nodes r)"
    using assms(2) by (simp add: Nodes_def image_image)
  then have fresh: "nd_ID (rg_store r p) \<noteq> nd_ID nd" "p < rg_next r" "p \<noteq> rg_next r" if "p \<in> set (rg_nodes r)" for p
    using that assms(1) unfolding ring_inv_def by (metis image_eqI, blast, blast)
  have ids: "map (\<lambda>p. nd_ID (rg_store ?r p)) (rg_nodes r) = map (\<lambda>p. nd_ID (rg_store r p)) (rg_nodes r)"
    using fresh(3) by (intro map_cong) auto
  have "distinct (rg_nodes ?r)" using assms(1) fresh(3) by (auto simp: ring_inv_def)
  moreover have "distinct (map (\<lambda>p. nd_ID (rg_store ?r p)) (rg_nodes ?r))"
  proof -
    have e: "map (\<lambda>p. nd_ID (rg_store ?r p)) (rg_nodes ?r) = map (\<lambda>p. nd_ID (rg_store r p)) (rg_nodes r) @ [nd_ID nd]"
      using ids by simp
    show ?thesis unfolding e using assms(1) new by (simp add: ring_inv_def)
  qed
  moreover have "p < rg_next ?r \<and> map_of (rg_nodeMap ?r) (nd_ID (rg_store ?r p)) = Some p" if "p \<in> set (rg_nodes ?r)" for p
  proof (cases "p = rg_next r")
    case False
    with that have p: "p \<in> set (rg_nodes r)" by simp
    then show ?thesis using assms(1) fresh [OF p] by (auto simp: ring_inv_def less_SucI)
  qed simp
  ultimately have "ring_inv ?r" unfolding ring_inv_def by blast
  then show ?thesis unfolding AddNode_def Let_def by (rule rebalance_ok)
qed

lemma RemoveNode_ok:
  assumes "ring_inv r"
  shows "ring_inv (RemoveNode r i) \<and> balanced (RemoveNode r i)"
proof -
  have "ring_inv (r\<lparr>rg_nodes := filter (\<lambda>p. nd_ID (rg_store r p) \<noteq> i) (rg_nodes r),
      rg_nodeMap := AList.delete i (rg_nodeMap r)\<rparr>)"
    using assms by (auto simp: ring_inv_def distinct_map intro: inj_on_subset)
  then show ?thesis unfolding RemoveNode_def by (rule rebalance_ok)
qed

text \<open>Histories of joins of new nodes and departures.\<close>

datatype ring_op = RJoin node | RLeave string

fun ring_run :: "ring \<Rightarrow> ring_op list \<Rightarrow> ring" where
  "ring_run r [] = r"
| "ring_run r (RJoin nd # ops) = ring_run (AddNode r nd) ops"
| "ring_run r (RLeave i # ops) = ring_run (RemoveNode r i) ops"

fun joins_new :: "ring \<Rightarrow> ring_op list \<Rightarrow> bool" where
  "joins_new r [] = True"
| "joins_new r (RJoin nd # ops) = (nd_ID nd \<notin> nd_ID ` set (Nodes r) \<and> joins_new (AddNode r nd) ops)"
| "joins_new r (RLeave i # ops) = joins_new (RemoveNode r i) ops"

lemma ring_run_ok:
  "ring_inv r \<Longrightarrow> balanced r \<Longrightarrow> joins_new r ops \<Longrightarrow> ring_inv (ring_run r ops) \<and> balanced (ring_run r ops)"
  by (induction r ops rule: ring_run.induct) (simp_all add: AddNode_ok RemoveNode_ok)

lemma NewRing_ok: "ring_inv NewRing" "balanced NewRing"
  by (simp_all add: NewRing_def ring_inv_def balanced_def)

lemma owner_range:
  assumes "i < n" and "n \<le> TotalSlots" and "s < TotalSlots"
  shows "owner_ix n s = i \<longleftrightarrow> slot_start n i \<le> s \<and> s < slot_end n i"
proof -
  define q where "q = TotalSlots div n"
  have q: "0 < q" using assms by (simp add: q_def div_greater_zero_iff)
  show ?thesis
  proof (cases "i = n - 1")
    case True
    have "n - 1 \<le> s div q \<longleftrightarrow> (n - 1) * q \<le> s" using q by (rule less_eq_div_iff_mult_less_eq)
    moreover have "min (s div q) (n - 1) = n - 1 \<longleftrightarrow> n - 1 \<le> s div q" by linarith
    ultimately show ?thesis using True assms(3) q
      by (simp add: owner_ix_def slot_start_def slot_end_def Let_def q_def [symmetric])
  next
    case False
    have "s div q = i \<longleftrightarrow> i * q \<le> s \<and> s < i * q + q"
    proof
      assume "s div q = i"
      then show "i * q \<le> s \<and> s < i * q + q"
        using div_mult_mod_eq [of s q] mod_less_divisor [OF q, of s] by auto
    next
      assume "i * q \<le> s \<and> s < i * q + q"
      then show "s div q = i" by (intro div_nat_eqI) (simp_all add: mult.commute)
    qed
    with False assms q show ?thesis
      by (auto simp: owner_ix_def slot_start_def slot_end_def Let_def q_def [symmetric] min_def)
  qed
qed

text \<open>
  C38. After any history of joins of new nodes and departures that leaves at least one and at most 16384 nodes,
  every slot has an owner, which is a node of the ring and the only one whose slot range contains the slot; so
  every key has exactly one responsible node.
\<close>

theorem cluster_slots_partitioned:
  assumes "joins_new NewRing ops" and "r = ring_run NewRing ops" and "rg_nodes r \<noteq> []"
    and "length (rg_nodes r) \<le> TotalSlots" and "s < TotalSlots"
  shows "\<exists>p \<in> set (rg_nodes r). NodeForSlot r (int s) = Some (rg_store r p)
    \<and> (\<forall>q \<in> set (rg_nodes r). (\<exists>(a, b) \<in> set (nd_Slots (rg_store r q)). a \<le> int s \<and> int s \<le> b) \<longleftrightarrow> q = p)"
proof -
  let ?n = "length (rg_nodes r)" let ?i = "owner_ix ?n s"
  have inv: "ring_inv r" and bal: "balanced r" using ring_run_ok [OF NewRing_ok assms(1)] assms(2) by simp_all
  have i: "?i < ?n" and m: "rg_slotMap r s = nd_ID (rg_store r (rg_nodes r ! ?i))"
    using bal assms(3,5) by (auto simp: balanced_def)
  have nf: "NodeForSlot r (int s) = Some (rg_store r (rg_nodes r ! ?i))"
    using inv i m assms(5) by (auto simp: NodeForSlot_def ring_inv_def)
  have "(\<exists>(a, b) \<in> set (nd_Slots (rg_store r q)). a \<le> int s \<and> int s \<le> b) \<longleftrightarrow> q = rg_nodes r ! ?i"
    if q: "q \<in> set (rg_nodes r)" for q
  proof -
    obtain j where j: "j < ?n" "q = rg_nodes r ! j" using q by (metis in_set_conv_nth)
    have "nd_Slots (rg_store r q) = [(int (slot_start ?n j), int (slot_end ?n j) - 1)]"
      using bal j by (simp add: balanced_def)
    then have "(\<exists>(a, b) \<in> set (nd_Slots (rg_store r q)). a \<le> int s \<and> int s \<le> b)
        \<longleftrightarrow> slot_start ?n j \<le> s \<and> s < slot_end ?n j" by auto
    also have "\<dots> \<longleftrightarrow> j = ?i" using owner_range [OF j(1) assms(4,5)] by auto
    also have "\<dots> \<longleftrightarrow> q = rg_nodes r ! ?i"
      using inv i j by (simp add: ring_inv_def nth_eq_iff_index_eq)
    finally show ?thesis .
  qed
  with nf i show ?thesis by (intro bexI [of _ "rg_nodes r ! ?i"]) auto
qed

definition sample_node :: "string \<Rightarrow> node" where
  "sample_node i = \<lparr>nd_ID = i, nd_Addr = i, nd_Slots = [], nd_State = NodeOnline, nd_Role = ''primary''\<rparr>"

theorem cluster_slots_partitioned_witness:
  "\<exists>p. NodeForSlot (ring_run NewRing [RJoin (sample_node ''a'')]) 7 = Some (rg_store (ring_run NewRing [RJoin (sample_node ''a'')]) p)"
proof -
  let ?ops = "[RJoin (sample_node ''a'')]"
  have n: "rg_nodes (ring_run NewRing ?ops) = [0]"
    by (simp add: AddNode_def rebalance_def NewRing_def Let_def)
  have "joins_new NewRing ?ops" by (simp add: NewRing_def Nodes_def)
  from cluster_slots_partitioned [OF this refl, of 7] show ?thesis
    unfolding n by (auto simp: TotalSlots_def)
qed

text \<open>A node that joins twice stays in the slice twice, so the range its record shows is only a part of the
  slots that are routed to it.\<close>

lemma rejoin_duplicates:
  "length (rg_nodes (AddNode (AddNode NewRing (sample_node ''a'')) (sample_node ''a''))) = 2"
  by (simp add: AddNode_def rebalance_def NewRing_def Let_def)

section \<open>The consistent-hashing ring\<close>

record hashRing =
  hr_nodes :: "string list"
  hr_ring :: "32 word list"
  hr_nodeMap :: "(32 word, string) gomap"
  hr_virtualNodes :: nat

definition NewHashRing :: "nat \<Rightarrow> hashRing" where
  "NewHashRing virtualNodes = \<lparr>hr_nodes = [], hr_ring = [], hr_nodeMap = [], hr_virtualNodes = virtualNodes\<rparr>"

definition hashKey :: "string \<Rightarrow> 32 word" where
  "hashKey key = of_nat (be_val (take 4 (Sum256 key)))"

definition vnode_hashes :: "nat \<Rightarrow> string \<Rightarrow> 32 word list" where
  "vnode_hashes n nd = map (\<lambda>i. hashKey (nd @ ''-v'' @ FormatInt (int i))) [0..<n]"

definition hr_AddNode :: "hashRing \<Rightarrow> string \<Rightarrow> hashRing" where
  "hr_AddNode h nd =
     (let hs = vnode_hashes (hr_virtualNodes h) nd
      in h\<lparr>hr_nodes := hr_nodes h @ [nd], hr_ring := sort (hr_ring h @ hs),
           hr_nodeMap := foldl (\<lambda>m x. AList.update x nd m) (hr_nodeMap h) hs\<rparr>)"

text \<open>A lookup in a Go map of strings gives the empty string when the key is missing.\<close>

definition str_at :: "('k, string) gomap \<Rightarrow> 'k \<Rightarrow> string" where
  "str_at m k = (case map_of m k of None \<Rightarrow> [] | Some v \<Rightarrow> v)"

definition GetNode :: "hashRing \<Rightarrow> string \<Rightarrow> string" where
  "GetNode h key =
     (if hr_ring h = [] then []
      else let hash = hashKey key;
               idx = go_Search (length (hr_ring h)) (\<lambda>i. hr_ring h ! i \<ge> hash);
               idx' = (if idx = length (hr_ring h) then 0 else idx)
           in str_at (hr_nodeMap h) (hr_ring h ! idx'))"

text \<open>The successor of a hash on the circle.\<close>

definition succ_on :: "32 word set \<Rightarrow> 32 word \<Rightarrow> 32 word" where
  "succ_on S x = (if \<exists>y \<in> S. x \<le> y then Min {y \<in> S. x \<le> y} else Min S)"

definition hr_inv :: "hashRing \<Rightarrow> bool" where
  "hr_inv h \<longleftrightarrow> sorted (hr_ring h)
     \<and> (\<forall>x \<in> set (hr_ring h). \<exists>nd \<in> set (hr_nodes h). map_of (hr_nodeMap h) x = Some nd)"

lemma map_of_foldl_const:
  "map_of (foldl (\<lambda>m x. AList.update x v m) m xs) k = (if k \<in> set xs then Some v else map_of m k)"
  by (induction xs arbitrary: m) simp_all

lemma hr_inv_AddNode: "hr_inv h \<Longrightarrow> hr_inv (hr_AddNode h nd)"
  by (auto simp: hr_inv_def hr_AddNode_def Let_def map_of_foldl_const)

lemma sorted_succ:
  assumes "sorted xs" and "xs \<noteq> []"
  shows "xs ! (let i = go_Search (length xs) (\<lambda>i. xs ! i \<ge> x) in if i = length xs then 0 else i) = succ_on (set xs) x"
proof -
  define i where "i = go_Search (length xs) (\<lambda>i. xs ! i \<ge> x)"
  have mono: "\<forall>a b. a \<le> b \<and> b < length xs \<and> xs ! a \<ge> x \<longrightarrow> xs ! b \<ge> x"
    using assms(1) by (metis order_trans sorted_nth_mono)
  note sp = go_Search_spec [OF mono, folded i_def]
  show ?thesis
  proof (cases "i = length xs")
    case True
    then have "\<not> (\<exists>y \<in> set xs. x \<le> y)" using sp(2) by (auto simp: in_set_conv_nth)
    moreover have "Min (set xs) = xs ! 0"
      using assms sorted_nth_mono [OF assms(1), of 0] by (intro Min_eqI) (auto simp: in_set_conv_nth)
    ultimately show ?thesis using True by (simp add: succ_on_def Let_def i_def)
  next
    case False
    then have lt: "i < length xs" using sp(1) by simp
    then have ge: "x \<le> xs ! i" using sp(3) [of i] by simp
    have "Min {y \<in> set xs. x \<le> y} = xs ! i"
    proof (intro Min_eqI)
      fix y assume "y \<in> {y \<in> set xs. x \<le> y}"
      then obtain k where k: "k < length xs" "y = xs ! k" "x \<le> xs ! k" by (auto simp: in_set_conv_nth)
      then have "\<not> k < i" using sp(2) by blast
      then show "xs ! i \<le> y" using k sorted_nth_mono [OF assms(1), of i k] by simp
    qed (use lt ge in auto)
    moreover have "\<exists>y \<in> set xs. x \<le> y" using lt ge by (metis nth_mem)
    ultimately show ?thesis using False by (simp add: succ_on_def Let_def i_def)
  qed
qed

lemma GetNode_succ:
  "hr_inv h \<Longrightarrow> hr_ring h \<noteq> [] \<Longrightarrow> GetNode h key = str_at (hr_nodeMap h) (succ_on (set (hr_ring h)) (hashKey key))"
  using sorted_succ [of "hr_ring h" "hashKey key"] by (simp add: GetNode_def Let_def hr_inv_def)

lemma succ_on_mem: "finite S \<Longrightarrow> S \<noteq> {} \<Longrightarrow> succ_on S x \<in> S"
proof -
  assume f: "finite S" "S \<noteq> {}"
  show ?thesis
  proof (cases "\<exists>y \<in> S. x \<le> y")
    case True
    then have "Min {y \<in> S. x \<le> y} \<in> {y \<in> S. x \<le> y}" using f by (intro Min_in) auto
    with True show ?thesis by (simp add: succ_on_def)
  qed (use f in \<open>simp add: succ_on_def\<close>)
qed

text \<open>Adding points to the circle moves a hash to a new point or leaves its successor as it was.\<close>

lemma succ_on_Un:
  assumes "finite S" and "finite N" and "succ_on (S \<union> N) x \<notin> N"
  shows "succ_on (S \<union> N) x = succ_on S x"
proof -
  let ?m = "succ_on (S \<union> N) x"
  show ?thesis
  proof (cases "S \<union> N = {}")
    case True
    then have "N = {}" by blast
    then show ?thesis by simp
  next
  case ne: False
  have mS: "?m \<in> S" using assms succ_on_mem [OF _ ne, of x] by auto
  show ?thesis
  proof (cases "\<exists>y \<in> S \<union> N. x \<le> y")
    case True
    then have m: "?m = Min {y \<in> S \<union> N. x \<le> y}" by (simp add: succ_on_def)
    have "?m \<in> {y \<in> S \<union> N. x \<le> y}" unfolding m using True assms by (intro Min_in) auto
    then have ge: "x \<le> ?m" by simp
    have "Min {y \<in> S. x \<le> y} = ?m"
    proof (intro Min_eqI)
      fix y assume "y \<in> {y \<in> S. x \<le> y}"
      then show "?m \<le> y" unfolding m using assms by (intro Min_le) auto
    qed (use assms mS ge in auto)
    moreover have "\<exists>y \<in> S. x \<le> y" using mS ge by blast
    ultimately show ?thesis by (simp add: succ_on_def)
  next
    case False
    then have m: "?m = Min (S \<union> N)" by (simp add: succ_on_def)
    have "Min S = ?m"
      using assms mS unfolding m by (intro Min_eqI) auto
    with False show ?thesis by (auto simp: succ_on_def)
  qed
  qed
qed

fun hr_build :: "nat \<Rightarrow> string list \<Rightarrow> hashRing" where
  "hr_build v [] = NewHashRing v"
| "hr_build v (nd # nds) = hr_AddNode (hr_build v nds) nd"

lemma hr_inv_build: "hr_inv (hr_build v nds)"
  by (induction nds) (simp_all add: hr_inv_AddNode, simp add: hr_inv_def NewHashRing_def)

lemma hr_build_fields: "hr_virtualNodes (hr_build v nds) = v" "set (hr_nodes (hr_build v nds)) = set nds"
  by (induction nds) (simp_all add: hr_AddNode_def NewHashRing_def Let_def)

lemma AddNode_moves:
  assumes "hr_inv h"
  shows "GetNode (hr_AddNode h nd) key \<in> {GetNode h key, nd}"
proof -
  define N where "N = set (vnode_hashes (hr_virtualNodes h) nd)"
  have ring: "set (hr_ring (hr_AddNode h nd)) = set (hr_ring h) \<union> N"
    by (simp add: hr_AddNode_def Let_def N_def)
  have nm: "str_at (hr_nodeMap (hr_AddNode h nd)) k = (if k \<in> N then nd else str_at (hr_nodeMap h) k)" for k
    by (simp add: hr_AddNode_def Let_def map_of_foldl_const str_at_def N_def)
  have inv: "hr_inv (hr_AddNode h nd)" using assms by (rule hr_inv_AddNode)
  show ?thesis
  proof (cases "hr_ring (hr_AddNode h nd) = []")
    case True
    then have "hr_ring h = []" using ring by simp
    with True show ?thesis by (simp add: GetNode_def)
  next
    case ne: False
    note g = GetNode_succ [OF inv ne, of key, unfolded ring nm]
    show ?thesis
    proof (cases "succ_on (set (hr_ring h) \<union> N) (hashKey key) \<in> N")
      case False
      have e: "succ_on (set (hr_ring h) \<union> N) (hashKey key) = succ_on (set (hr_ring h)) (hashKey key)"
        using False by (intro succ_on_Un) (simp_all add: N_def)
      have "set (hr_ring h) \<union> N \<noteq> {}" using ring ne by (metis set_empty)
      then have "succ_on (set (hr_ring h) \<union> N) (hashKey key) \<in> set (hr_ring h)"
        using False succ_on_mem [of "set (hr_ring h) \<union> N" "hashKey key"] by (auto simp: N_def)
      then have "hr_ring h \<noteq> []" by auto
      with False g e show ?thesis by (simp add: GetNode_succ [OF assms])
    qed (use g in simp)
  qed
qed

text \<open>
  C37. The hash ring routes every key to one of its nodes as soon as it has a virtual node, and adding a node
  never moves a key between two old nodes: a key stays where it was or goes to the new node.
\<close>

theorem hashring_stable:
  "GetNode (hr_AddNode (hr_build v nds) nd) key \<in> {GetNode (hr_build v nds) key, nd}
   \<and> (0 < v \<and> nds \<noteq> [] \<longrightarrow> GetNode (hr_build v nds) key \<in> set nds)"
proof -
  have "GetNode (hr_build v nds) key \<in> set nds" if "0 < v" "nds \<noteq> []"
  proof -
    let ?h = "hr_build v nds"
    have ne: "hr_ring ?h \<noteq> []"
      using that hr_build_fields(1) [of v "tl nds"]
      by (cases nds) (auto simp: hr_AddNode_def Let_def vnode_hashes_def dest!: arg_cong [where f = length])
    let ?x = "succ_on (set (hr_ring ?h)) (hashKey key)"
    have "?x \<in> set (hr_ring ?h)" using ne by (intro succ_on_mem) auto
    then obtain n where "n \<in> set (hr_nodes ?h)" "map_of (hr_nodeMap ?h) ?x = Some n"
      using hr_inv_build [of v nds] by (auto simp: hr_inv_def)
    then show ?thesis
      using GetNode_succ [OF hr_inv_build ne, of key] by (simp add: str_at_def hr_build_fields)
  qed
  with AddNode_moves [OF hr_inv_build, of v nds nd key] show ?thesis by blast
qed

theorem hashring_stable_witness:
  "GetNode (hr_build 3 [''w1'']) ''tenant'' = ''w1''
   \<and> GetNode (hr_AddNode (hr_build 3 [''w1'']) ''w2'') ''tenant'' \<in> {''w1'', ''w2''}"
proof -
  have "GetNode (hr_build 3 [''w1'']) ''tenant'' \<in> set [''w1'']"
    by (rule hashring_stable [THEN conjunct2, rule_format]) simp
  then have g: "GetNode (hr_build 3 [''w1'']) ''tenant'' = ''w1''" by (simp only: list.set insert_iff empty_iff simp_thms)
  then show ?thesis using hashring_stable [of 3 "[''w1'']" "''w2''" "''tenant''", THEN conjunct1] by (simp only: g simp_thms)
qed

end
