(* ===== verification/Replication.thy ===== *)
theory Replication
  imports Sha256 Executor
begin

text \<open>
  Replication, \<^verbatim>\<open>src/internal/replication\<close>: the mutual HMAC handshake (\<^verbatim>\<open>handshake.go\<close>) and the cipher of one
  connection (\<^verbatim>\<open>session.go\<close>); the stream of records that runs over it is theory \<open>ReplicaStream\<close>. A connection is the sequence of
  bytes it delivers; what a peer writes is the value of the function. AES-GCM and the random nonces are
  arguments, as in theory \<open>Encryption\<close>; HMAC-SHA256 is written out in theory \<open>Sha256\<close>.
\<close>

section \<open>Frames\<close>

definition sealOverhead :: nat where "sealOverhead = 16"
definition maxReplicationFrameSize :: nat where "maxReplicationFrameSize = 67108864"
definition maxSealedFrameSize :: nat where "maxSealedFrameSize = maxReplicationFrameSize + sealOverhead"

text \<open>\<open>None\<close> is \<^verbatim>\<open>io.ErrShortBuffer\<close>.\<close>

definition writeFrame :: "bytes \<Rightarrow> bytes option" where
  "writeFrame data =
     (if data = [] \<or> length data > maxSealedFrameSize then None else Some (be_bytes 4 (length data) @ data))"

datatype hsErr = HsFailed | HsIO

definition readExactFrame :: "nat \<Rightarrow> bytes \<Rightarrow> hsErr + bytes \<times> bytes" where
  "readExactFrame want b =
     (case read_full 4 b of
        RFull header b1 \<Rightarrow>
          if be_val header \<noteq> want then Inl HsFailed
          else (case read_full want b1 of RFull buf b2 \<Rightarrow> Inr (buf, b2) | _ \<Rightarrow> Inl HsIO)
      | _ \<Rightarrow> Inl HsIO)"

section \<open>The cipher of a connection\<close>

definition handshakeMagic :: bytes where "handshakeMagic = ''DBXREPL1''"
definition handshakeNonce :: nat where "handshakeNonce = 32"
definition labelPrimary :: bytes where "labelPrimary = ''dbx-repl-primary''"
definition labelReplica :: bytes where "labelReplica = ''dbx-repl-replica''"
definition labelSession :: bytes where "labelSession = ''dbx-repl-session''"
definition MinTokenLength :: nat where "MinTokenLength = 32"

definition handshakeMAC :: "bytes \<Rightarrow> bytes \<Rightarrow> bytes \<Rightarrow> bytes \<Rightarrow> bytes" where
  "handshakeMAC token label n1 n2 = HMAC token (label @ n1 @ n2)"

record frameCipher =
  fc_key :: bytes
  fc_counter :: "64 word"

definition sessionCipher :: "bytes \<Rightarrow> bytes \<Rightarrow> bytes \<Rightarrow> hsErr + frameCipher" where
  "sessionCipher token replicaNonce primaryNonce =
     (let key = handshakeMAC token labelSession replicaNonce primaryNonce
      in if NewCipher_ok key then Inr \<lparr>fc_key = key, fc_counter = 0\<rparr> else Inl HsIO)"

definition counter_nonce :: "64 word \<Rightarrow> bytes" where
  "counter_nonce c = replicate 4 (char_of (0 :: nat)) @ be_bytes 8 (unat c)"

definition nextNonce :: "frameCipher \<Rightarrow> frameCipher \<times> bytes" where
  "nextNonce c = (c\<lparr>fc_counter := fc_counter c + 1\<rparr>, counter_nonce (fc_counter c))"

definition fc_seal :: "gcm_seal \<Rightarrow> frameCipher \<Rightarrow> bytes \<Rightarrow> frameCipher \<times> bytes" where
  "fc_seal gcm_seal c plain = (case nextNonce c of (c', nonce) \<Rightarrow> (c', gcm_seal (fc_key c) nonce plain))"

definition fc_open :: "gcm_open \<Rightarrow> frameCipher \<Rightarrow> bytes \<Rightarrow> frameCipher \<times> bytes option" where
  "fc_open gcm_open c sealed = (case nextNonce c of (c', nonce) \<Rightarrow> (c', gcm_open (fc_key c) nonce sealed))"

section \<open>Handshake\<close>

text \<open>\<open>nonce\<close> is what \<^verbatim>\<open>newNonce\<close> returns, \<open>None\<close> when the random source fails; \<open>sent i\<close> tells whether the
  \<open>i\<close>-th write succeeds; \<open>input\<close> is everything the peer sends. The value is what was written and the cipher.\<close>

definition serverHandshake ::
  "(nat \<Rightarrow> bool) \<Rightarrow> bytes option \<Rightarrow> bytes \<Rightarrow> bytes \<Rightarrow> bytes \<times> (hsErr + frameCipher)" where
  "serverHandshake sent nonce token input =
     (if length token < MinTokenLength then ([], Inl HsFailed)
      else case readExactFrame (length handshakeMagic + handshakeNonce) input of
             Inl e \<Rightarrow> ([], Inl e)
           | Inr (hello, r1) \<Rightarrow>
               if take (length handshakeMagic) hello \<noteq> handshakeMagic then ([], Inl HsFailed)
               else (case nonce of
                       None \<Rightarrow> ([], Inl HsIO)
                     | Some primaryNonce \<Rightarrow>
                         let replicaNonce = drop (length handshakeMagic) hello;
                             challenge = primaryNonce @ handshakeMAC token labelPrimary replicaNonce primaryNonce
                         in case writeFrame challenge of
                              None \<Rightarrow> ([], Inl HsIO)
                            | Some out \<Rightarrow>
                                if \<not> sent 0 then (out, Inl HsIO)
                                else (case readExactFrame 32 r1 of
                                        Inl e \<Rightarrow> (out, Inl e)
                                      | Inr (proof_bytes, r2) \<Rightarrow>
                                          if proof_bytes \<noteq> handshakeMAC token labelReplica primaryNonce replicaNonce
                                          then (out, Inl HsFailed)
                                          else (out, sessionCipher token replicaNonce primaryNonce))))"

definition clientHandshake ::
  "(nat \<Rightarrow> bool) \<Rightarrow> bytes option \<Rightarrow> bytes \<Rightarrow> bytes \<Rightarrow> bytes \<times> (hsErr + frameCipher)" where
  "clientHandshake sent nonce token input =
     (if length token < MinTokenLength then ([], Inl HsFailed)
      else case nonce of
             None \<Rightarrow> ([], Inl HsIO)
           | Some replicaNonce \<Rightarrow>
               (case writeFrame (handshakeMagic @ replicaNonce) of
                  None \<Rightarrow> ([], Inl HsIO)
                | Some out \<Rightarrow>
                    if \<not> sent 0 then (out, Inl HsIO)
                    else (case readExactFrame (handshakeNonce + 32) input of
                            Inl e \<Rightarrow> (out, Inl e)
                          | Inr (challenge, r) \<Rightarrow>
                              let primaryNonce = take handshakeNonce challenge
                              in if drop handshakeNonce challenge \<noteq> handshakeMAC token labelPrimary replicaNonce primaryNonce
                                 then (out, Inl HsFailed)
                                 else (case writeFrame (handshakeMAC token labelReplica primaryNonce replicaNonce) of
                                         None \<Rightarrow> (out, Inl HsIO)
                                       | Some out2 \<Rightarrow>
                                           if \<not> sent 1 then (out @ out2, Inl HsIO)
                                           else (out @ out2, sessionCipher token replicaNonce primaryNonce)))))"

lemma length_magic [simp]: "length handshakeMagic = 8" "handshakeMagic \<noteq> []"
  by (simp_all add: handshakeMagic_def)

lemma writeFrame_ok: "data \<noteq> [] \<Longrightarrow> length data \<le> maxSealedFrameSize \<Longrightarrow> writeFrame data = Some (be_bytes 4 (length data) @ data)"
  by (simp add: writeFrame_def)

lemma readExactFrame_frame:
  "length data = want \<Longrightarrow> want < 4294967296 \<Longrightarrow> readExactFrame want (be_bytes 4 (length data) @ data @ r) = Inr (data, r)"
  by (simp add: readExactFrame_def be_4)

text \<open>A process that takes part in the handshake without the token has to produce one of these two values;
  they authenticate different messages, so the value a primary sends is not a proof that a replica can reflect.\<close>

lemma mac_messages_differ:
  assumes "length rn = 32" and "length pn = 32"
  shows "labelPrimary @ rn @ pn \<noteq> labelReplica @ pn' @ rn'"
proof -
  have "take 16 (labelPrimary @ rn @ pn) = labelPrimary" "take 16 (labelReplica @ pn' @ rn') = labelReplica"
    by (simp_all add: labelPrimary_def labelReplica_def)
  moreover have "labelPrimary \<noteq> labelReplica" by (simp add: labelPrimary_def labelReplica_def)
  ultimately show ?thesis by metis
qed

text \<open>What an accepting primary has received: the hello with a nonce, and the proof under the token for that
  nonce and the primary's own.\<close>

lemma server_accepts:
  assumes "serverHandshake sent (Some pn) token input = (out, Inr fc)"
  shows "\<exists>rn r. length token \<ge> 32 \<and> length rn = 32
     \<and> readExactFrame 40 input = Inr (handshakeMagic @ rn, be_bytes 4 32 @ HMAC token (labelReplica @ pn @ rn) @ r)
     \<and> fc = \<lparr>fc_key = HMAC token (labelSession @ rn @ pn), fc_counter = 0\<rparr>"
proof -
  have t: "\<not> length token < 32"
  proof
    assume "length token < 32"
    then show False using assms by (simp add: serverHandshake_def MinTokenLength_def)
  qed
  obtain hello r1 where h: "readExactFrame 40 input = Inr (hello, r1)"
    using assms t by (cases "readExactFrame 40 input") (auto simp: serverHandshake_def handshakeNonce_def MinTokenLength_def)
  define rn where "rn = drop 8 hello"
  note s1 = assms [unfolded serverHandshake_def MinTokenLength_def handshakeNonce_def length_magic, simplified t, simplified,
      unfolded h, simplified, folded rn_def, unfolded Let_def]
  have m: "take 8 hello = handshakeMagic" using s1 by (cases "take 8 hello = handshakeMagic") simp_all
  obtain o1 where o: "writeFrame (pn @ handshakeMAC token labelPrimary rn pn) = Some o1" and "sent 0"
    using s1 m by (cases "writeFrame (pn @ handshakeMAC token labelPrimary rn pn)"; cases "sent 0") simp_all
  obtain p r2 where p: "readExactFrame 32 r1 = Inr (p, r2)"
    using s1 m o \<open>sent 0\<close> by (cases "readExactFrame 32 r1") auto
  have pm: "p = HMAC token (labelReplica @ pn @ rn)" and fc: "sessionCipher token rn pn = Inr fc"
    using s1 m o \<open>sent 0\<close> p
    by (cases "p = handshakeMAC token labelReplica pn rn"; simp add: handshakeMAC_def)+
  have len: "length hello = 40"
    using h by (simp add: readExactFrame_def read_full_def split: if_splits) auto
  have hello: "hello = handshakeMagic @ rn" using m by (metis append_take_drop_id rn_def)
  have l: "4 \<le> length r1" "be_val (take 4 r1) = 32" "p = take 32 (drop 4 r1)" "r2 = drop 32 (drop 4 r1)"
    using p by (simp_all add: readExactFrame_def read_full_def split: if_splits)
  have "take 4 r1 = be_bytes 4 32" using be_bytes_be_val [of "take 4 r1"] l(1,2) by simp
  then have r1: "r1 = be_bytes 4 32 @ p @ r2" using l(3,4) by (metis append_take_drop_id)
  have "fc = \<lparr>fc_key = HMAC token (labelSession @ rn @ pn), fc_counter = 0\<rparr>"
    using fc by (simp add: sessionCipher_def Let_def handshakeMAC_def split: if_splits)
  moreover have "readExactFrame 40 input
      = Inr (handshakeMagic @ rn, be_bytes 4 32 @ HMAC token (labelReplica @ pn @ rn) @ r2)"
    using h hello r1 pm by metis
  moreover have "length rn = 32" using len by (simp add: rn_def)
  moreover have "32 \<le> length token" using t by simp
  ultimately show ?thesis by blast
qed

text \<open>
  C8. Two parties with the same token of at least 32 bytes that exchange each other's messages both accept and
  derive the same session key, whatever their nonces. A primary accepts a peer only if the peer sent the
  HMAC under the token, with the replica's label, over both nonces of this connection; the primary's own
  challenge authenticates a different message, so it cannot be sent back as the proof.
\<close>

theorem handshake_mutual:
  assumes "32 \<le> length token" and "length rn = 32" and "length pn = 32" and "sent 0" and "sent 1"
  shows "(\<exists>toServer toClient key.
      clientHandshake sent (Some rn) token toClient = (toServer, Inr \<lparr>fc_key = key, fc_counter = 0\<rparr>)
      \<and> serverHandshake sent (Some pn) token toServer = (toClient, Inr \<lparr>fc_key = key, fc_counter = 0\<rparr>))
    \<and> (\<forall>sent' input out fc. serverHandshake sent' (Some pn) token input = (out, Inr fc) \<longrightarrow>
      (\<exists>rn' r. readExactFrame 40 input
          = Inr (handshakeMagic @ rn', be_bytes 4 32 @ HMAC token (labelReplica @ pn @ rn') @ r)
        \<and> labelReplica @ pn @ rn' \<noteq> labelPrimary @ rn' @ pn))"
proof -
  let ?mp = "HMAC token (labelPrimary @ rn @ pn)" let ?mr = "HMAC token (labelReplica @ pn @ rn)"
  let ?toClient = "be_bytes 4 64 @ pn @ ?mp"
  let ?toServer = "(be_bytes 4 40 @ handshakeMagic @ rn) @ be_bytes 4 32 @ ?mr"
  have f1: "writeFrame (handshakeMagic @ rn) = Some (be_bytes 4 40 @ handshakeMagic @ rn)"
    using assms(2) by (simp add: writeFrame_def maxSealedFrameSize_def maxReplicationFrameSize_def sealOverhead_def)
  have f2: "writeFrame (pn @ ?mp) = Some ?toClient"
    using assms(3) by (auto simp: writeFrame_def maxSealedFrameSize_def maxReplicationFrameSize_def sealOverhead_def)
  have f3: "writeFrame ?mr = Some (be_bytes 4 32 @ ?mr)"
    using length_HMAC [of token "labelReplica @ pn @ rn"]
    by (auto simp: writeFrame_def maxSealedFrameSize_def maxReplicationFrameSize_def sealOverhead_def simp del: length_HMAC)
  have r1: "readExactFrame 64 ?toClient = Inr (pn @ ?mp, [])"
    using readExactFrame_frame [of "pn @ ?mp" 64 "[]"] assms(3) by simp
  have r2: "readExactFrame 40 ?toServer = Inr (handshakeMagic @ rn, be_bytes 4 32 @ ?mr)"
    using readExactFrame_frame [of "handshakeMagic @ rn" 40 "be_bytes 4 32 @ ?mr"] assms(2) by simp
  have r3: "readExactFrame 32 (be_bytes 4 32 @ ?mr) = Inr (?mr, [])"
    using readExactFrame_frame [of ?mr 32 "[]"] by simp
  have k: "sessionCipher token rn pn = Inr \<lparr>fc_key = HMAC token (labelSession @ rn @ pn), fc_counter = 0\<rparr>"
    by (simp add: sessionCipher_def handshakeMAC_def NewCipher_ok_def)
  have "clientHandshake sent (Some rn) token ?toClient = (?toServer, Inr \<lparr>fc_key = HMAC token (labelSession @ rn @ pn), fc_counter = 0\<rparr>)"
    using assms f1 f3 r1 k by (simp add: clientHandshake_def MinTokenLength_def handshakeNonce_def handshakeMAC_def Let_def)
  moreover have "serverHandshake sent (Some pn) token ?toServer = (?toClient, Inr \<lparr>fc_key = HMAC token (labelSession @ rn @ pn), fc_counter = 0\<rparr>)"
    using assms f2 r2 r3 k
    by (simp add: serverHandshake_def MinTokenLength_def handshakeNonce_def handshakeMAC_def Let_def)
  ultimately have "\<exists>toServer toClient key.
      clientHandshake sent (Some rn) token toClient = (toServer, Inr \<lparr>fc_key = key, fc_counter = 0\<rparr>)
      \<and> serverHandshake sent (Some pn) token toServer = (toClient, Inr \<lparr>fc_key = key, fc_counter = 0\<rparr>)" by blast
  moreover have "\<exists>rn' r. readExactFrame 40 input
        = Inr (handshakeMagic @ rn', be_bytes 4 32 @ HMAC token (labelReplica @ pn @ rn') @ r)
      \<and> labelReplica @ pn @ rn' \<noteq> labelPrimary @ rn' @ pn"
    if acc: "serverHandshake sent' (Some pn) token input = (out, Inr fc)" for sent' input out fc
    using server_accepts [OF acc] mac_messages_differ [of _ pn] assms(3) by metis
  ultimately show ?thesis by blast
qed

theorem handshake_mutual_witness:
  "\<exists>toServer toClient key.
      clientHandshake (\<lambda>_. True) (Some (replicate 32 CHR ''r'')) (replicate 32 CHR ''t'') toClient
        = (toServer, Inr \<lparr>fc_key = key, fc_counter = 0\<rparr>)
      \<and> serverHandshake (\<lambda>_. True) (Some (replicate 32 CHR ''p'')) (replicate 32 CHR ''t'') toServer
        = (toClient, Inr \<lparr>fc_key = key, fc_counter = 0\<rparr>)"
  by (rule handshake_mutual [THEN conjunct1]) simp_all

end
