(* ===== verification/ReplicaStream.thy ===== *)
theory ReplicaStream
  imports Replication
begin

text \<open>
  The stream of records from a primary to its replicas, \<^verbatim>\<open>src/internal/replication/stream.go\<close>, with the
  registry of \<^verbatim>\<open>primary.go\<close> and the lag monitor of \<^verbatim>\<open>lag.go\<close>. A replica applies the frames a connection
  delivers until one does not authenticate, decode or apply. The listener, deadlines and the reconnect loop
  are network I/O and not modelled.
\<close>

section \<open>The replica\<close>

text \<open>The loop of \<^verbatim>\<open>consumeStream\<close> over any state: \<open>ap k s rec\<close> is the effect of the \<open>k\<close>-th record and whether it
  succeeded. The value is the state and the records that were handed to the engine.\<close>

function consume ::
  "gcm_open \<Rightarrow> (nat \<Rightarrow> 's \<Rightarrow> walRecord \<Rightarrow> 's \<times> bool) \<Rightarrow> nat \<Rightarrow> frameCipher \<Rightarrow> 's \<Rightarrow> bytes \<Rightarrow> 's \<times> walRecord list" where
  "consume gcm_open ap k fc s b =
     (case read_full 4 b of
        RFull hdr b1 \<Rightarrow>
          let len = be_val hdr
          in if len \<le> sealOverhead \<or> len > maxSealedFrameSize then (s, [])
             else (case read_full len b1 of
                     RFull sealed b2 \<Rightarrow>
                       (case fc_open gcm_open fc sealed of
                          (_, None) \<Rightarrow> (s, [])
                        | (fc', Some data) \<Rightarrow>
                            (case DecodeRecord data of
                               Inl _ \<Rightarrow> (s, [])
                             | Inr rec \<Rightarrow>
                                 (case ap k s rec of
                                    (s', False) \<Rightarrow> (s', [rec])
                                  | (s', True) \<Rightarrow>
                                      (case consume gcm_open ap (Suc k) fc' s' b2 of (s2, rs) \<Rightarrow> (s2, rec # rs)))))
                   | _ \<Rightarrow> (s, []))
      | _ \<Rightarrow> (s, []))"
  by pat_completeness auto
termination
  by (relation "measure (\<lambda>(g, a, k, f, s, b). length b)") (auto simp: read_full_def split: if_splits)

declare consume.simps [simp del]

definition apply_record :: "'v vecops \<Rightarrow> (nat \<Rightarrow> int) \<Rightarrow> nat \<Rightarrow> 'v executor \<Rightarrow> walRecord \<Rightarrow> 'v executor \<times> bool" where
  "apply_record v clock k ex rec = (case ApplyWALRecord v (clock k) ex (Some rec) of (ex', e) \<Rightarrow> (ex', e = None))"

definition consumeStream ::
  "gcm_open \<Rightarrow> 'v vecops \<Rightarrow> (nat \<Rightarrow> int) \<Rightarrow> frameCipher \<Rightarrow> 'v executor \<Rightarrow> bytes \<Rightarrow> 'v executor \<times> walRecord list" where
  "consumeStream gcm_open v clock fc ex b = consume gcm_open (apply_record v clock) 0 fc ex b"

section \<open>The primary\<close>

text \<open>A registered replica: its cipher, and what has been written to its connection.\<close>

record replicaConn =
  rc_ID :: "64 word"
  rc_cipher :: frameCipher
  rc_out :: bytes

record primaryStream =
  pm_replicas :: "(64 word, replicaConn) gomap"
  pm_nextID :: "64 word"
  pm_token :: bytes
  pm_done :: bool
  pm_live :: "bytes list"

definition liveReplicationBuffer :: nat where "liveReplicationBuffer = 4096"

definition NewPrimaryStream :: "bytes \<Rightarrow> primaryStream" where
  "NewPrimaryStream token = \<lparr>pm_replicas = [], pm_nextID = 0, pm_token = token, pm_done = False, pm_live = []\<rparr>"

definition addReplica :: "primaryStream \<Rightarrow> frameCipher \<Rightarrow> primaryStream \<times> 64 word" where
  "addReplica p fc =
     (let i = pm_nextID p + 1
      in (p\<lparr>pm_nextID := i, pm_replicas := AList.update i \<lparr>rc_ID = i, rc_cipher = fc, rc_out = []\<rparr> (pm_replicas p)\<rparr>, i))"

definition RemoveReplica :: "primaryStream \<Rightarrow> 64 word \<Rightarrow> primaryStream" where
  "RemoveReplica p i = p\<lparr>pm_replicas := AList.delete i (pm_replicas p)\<rparr>"

definition ReplicaCount :: "primaryStream \<Rightarrow> nat" where
  "ReplicaCount p = length (pm_replicas p)"

text \<open>\<^verbatim>\<open>send\<close>: the frame is sealed, which advances the counter, and then written; \<open>ok\<close> tells whether the
  connection takes it.\<close>

definition rc_send :: "gcm_seal \<Rightarrow> bool \<Rightarrow> replicaConn \<Rightarrow> bytes \<Rightarrow> replicaConn \<times> bool" where
  "rc_send gcm_seal ok r data =
     (case fc_seal gcm_seal (rc_cipher r) data of (fc', sealed) \<Rightarrow>
        case writeFrame sealed of
          None \<Rightarrow> (r\<lparr>rc_cipher := fc'\<rparr>, False)
        | Some frame \<Rightarrow> if ok then (r\<lparr>rc_cipher := fc', rc_out := rc_out r @ frame\<rparr>, True) else (r\<lparr>rc_cipher := fc'\<rparr>, False))"

text \<open>One record of \<^verbatim>\<open>bootstrap\<close>: a replica whose connection fails is removed.\<close>

definition bootstrap_one :: "gcm_seal \<Rightarrow> bool \<Rightarrow> primaryStream \<Rightarrow> 64 word \<Rightarrow> walRecord \<Rightarrow> primaryStream \<times> bool" where
  "bootstrap_one gcm_seal ok p i rec =
     (case map_of (pm_replicas p) i of
        None \<Rightarrow> (p, False)
      | Some r \<Rightarrow>
          (case rc_send gcm_seal ok r (EncodeRecord rec) of
             (r', True) \<Rightarrow> (p\<lparr>pm_replicas := AList.update i r' (pm_replicas p)\<rparr>, True)
           | (_, False) \<Rightarrow> (RemoveReplica p i, False)))"

fun bootstrap_all :: "gcm_seal \<Rightarrow> (nat \<Rightarrow> bool) \<Rightarrow> nat \<Rightarrow> primaryStream \<Rightarrow> 64 word \<Rightarrow> walRecord list \<Rightarrow> primaryStream" where
  "bootstrap_all gcm_seal ok k p i [] = p"
| "bootstrap_all gcm_seal ok k p i (rec # recs) =
     (case bootstrap_one gcm_seal (ok k) p i rec of
        (p', True) \<Rightarrow> bootstrap_all gcm_seal ok (Suc k) p' i recs
      | (p', False) \<Rightarrow> p')"

text \<open>\<^verbatim>\<open>bootstrap\<close>: the log is synced and read; \<open>None\<close> for the records is an error of either.\<close>

definition bootstrap :: "gcm_seal \<Rightarrow> (nat \<Rightarrow> bool) \<Rightarrow> primaryStream \<Rightarrow> 64 word \<Rightarrow> walRecord list option \<Rightarrow> primaryStream" where
  "bootstrap gcm_seal ok p i records =
     (case records of None \<Rightarrow> RemoveReplica p i | Some recs \<Rightarrow> bootstrap_all gcm_seal ok 0 p i recs)"

text \<open>A connection is registered only after the handshake.\<close>

definition admit ::
  "gcm_seal \<Rightarrow> (nat \<Rightarrow> bool) \<Rightarrow> (nat \<Rightarrow> bool) \<Rightarrow> bytes option \<Rightarrow> primaryStream \<Rightarrow> bytes \<Rightarrow> walRecord list option \<Rightarrow> primaryStream" where
  "admit gcm_seal sent ok nonce p input records =
     (case snd (serverHandshake sent nonce (pm_token p) input) of
        Inl _ \<Rightarrow> p
      | Inr fc \<Rightarrow>
          if pm_done p then p
          else (case addReplica p fc of (p', i) \<Rightarrow> bootstrap gcm_seal ok p' i records))"

text \<open>\<^verbatim>\<open>select\<close> takes any ready case: once the stream is stopped the record may still enter the channel.\<close>

definition BroadcastRecord :: "bool \<Rightarrow> primaryStream \<Rightarrow> walRecord option \<Rightarrow> primaryStream" where
  "BroadcastRecord pick_done p rec =
     (case rec of
        None \<Rightarrow> p
      | Some rec \<Rightarrow>
          if pm_done p \<and> pick_done then p
          else if length (pm_live p) < liveReplicationBuffer then p\<lparr>pm_live := pm_live p @ [EncodeRecord rec]\<rparr>
          else p)"

definition Broadcast :: "gcm_seal \<Rightarrow> (64 word \<Rightarrow> bool) \<Rightarrow> primaryStream \<Rightarrow> bytes \<Rightarrow> primaryStream" where
  "Broadcast gcm_seal ok p data =
     (if data = [] \<or> length data > maxReplicationFrameSize then p
      else p\<lparr>pm_replicas :=
               map (\<lambda>(i, r). (i, fst (rc_send gcm_seal (ok i) r data)))
                 (filter (\<lambda>(i, r). snd (rc_send gcm_seal (ok i) r data)) (pm_replicas p))\<rparr>)"

definition relay_step :: "gcm_seal \<Rightarrow> (64 word \<Rightarrow> bool) \<Rightarrow> primaryStream \<Rightarrow> primaryStream" where
  "relay_step gcm_seal ok p =
     (if pm_done p then p
      else case pm_live p of
             [] \<Rightarrow> p
           | data # rest \<Rightarrow> Broadcast gcm_seal ok (p\<lparr>pm_live := rest\<rparr>) data)"

definition pm_Stop :: "primaryStream \<Rightarrow> primaryStream" where
  "pm_Stop p = p\<lparr>pm_done := True, pm_replicas := []\<rparr>"

section \<open>Lag and failover\<close>

record replicaLag =
  lg_lag :: int
  lg_lastUpdated :: int
  lg_ackSeq :: "64 word"

record lagMonitor =
  lm_lags :: "(string, replicaLag) gomap"
  lm_threshold :: int

definition UpdateLag :: "int \<Rightarrow> lagMonitor \<Rightarrow> string \<Rightarrow> 64 word \<Rightarrow> 64 word \<Rightarrow> lagMonitor" where
  "UpdateLag now m replicaID seq primarySeq =
     (let lag = i64 (sint primarySeq - sint seq)
      in m\<lparr>lm_lags := AList.update replicaID
             \<lparr>lg_lag = (if lag < 0 then 0 else lag), lg_lastUpdated = now, lg_ackSeq = seq\<rparr> (lm_lags m)\<rparr>)"

definition IsLagging :: "lagMonitor \<Rightarrow> string \<Rightarrow> bool" where
  "IsLagging m replicaID = (case map_of (lm_lags m) replicaID of None \<Rightarrow> False | Some l \<Rightarrow> lg_lag l > lm_threshold m)"

definition LagReport :: "lagMonitor \<Rightarrow> (string, int) gomap" where
  "LagReport m = map (\<lambda>(i, l). (i, lg_lag l)) (lm_lags m)"

definition QuorumACK :: "lagMonitor \<Rightarrow> 64 word \<Rightarrow> int \<Rightarrow> bool" where
  "QuorumACK m seq quorum \<longleftrightarrow> int (length (filter (\<lambda>(_, l). lg_ackSeq l \<ge> seq) (lm_lags m))) \<ge> quorum"

record failover =
  fo_leader :: string
  fo_replicas :: "string list"
  fo_isLeader :: bool

definition ElectLeader :: "failover \<Rightarrow> string list \<Rightarrow> failover \<times> (string + string)" where
  "ElectLeader f available =
     (case available of
        [] \<Rightarrow> (f, Inl ''no available replicas for election'')
      | a # _ \<Rightarrow> (f\<lparr>fo_leader := a, fo_isLeader := True\<rparr>, Inr a))"

text \<open>The plain registry of \<^verbatim>\<open>primary.go\<close>; the record's bytes are formatted with \<^verbatim>\<open>%d\<close> and \<^verbatim>\<open>%s\<close>.\<close>

record managedReplica =
  mr_Addr :: string
  mr_out :: bytes
  mr_LastACK :: int

type_synonym primaryManager = "(string, managedReplica) gomap"

definition AddReplica :: "int \<Rightarrow> primaryManager \<Rightarrow> string \<Rightarrow> string \<Rightarrow> primaryManager" where
  "AddReplica now p i addr = AList.update i \<lparr>mr_Addr = addr, mr_out = [], mr_LastACK = now\<rparr> p"

definition pmgr_RemoveReplica :: "primaryManager \<Rightarrow> string \<Rightarrow> primaryManager" where
  "pmgr_RemoveReplica p i = AList.delete i p"

definition BroadcastWAL :: "primaryManager \<Rightarrow> walRecord \<Rightarrow> primaryManager" where
  "BroadcastWAL p rec =
     (let data = ''*WAL:'' @ FormatInt (int (wr_Type rec)) @ '':'' @ wr_Key rec @ '':'' @ sl (wr_Value rec) @ [char_of (10 :: nat)]
      in map (\<lambda>(i, r). (i, r\<lparr>mr_out := mr_out r @ data\<rparr>)) p)"

section \<open>What a replica applies\<close>

text \<open>The frame that carries the record with counter \<open>i\<close> under a session key.\<close>

definition sealed_frame :: "gcm_seal \<Rightarrow> bytes \<Rightarrow> nat \<Rightarrow> walRecord \<Rightarrow> bytes" where
  "sealed_frame gcm_seal key i rec =
     (let sealed = gcm_seal key (counter_nonce (of_nat i)) (EncodeRecord rec) in be_bytes 4 (length sealed) @ sealed)"

text \<open>An AEAD rejects a text that was sealed under another nonce.\<close>

definition nonce_bound :: "gcm_seal \<Rightarrow> gcm_open \<Rightarrow> bytes \<Rightarrow> bool" where
  "nonce_bound gcm_seal gcm_open key \<longleftrightarrow>
     (\<forall>n n' p. length n = 12 \<longrightarrow> length n' = 12 \<longrightarrow> n \<noteq> n' \<longrightarrow> gcm_open key n (gcm_seal key n' p) = None)"

lemma length_counter_nonce [simp]: "length (counter_nonce c) = 12"
  by (simp add: counter_nonce_def)

lemma counter_nonce_inj:
  assumes "i < 2 ^ 64" and "j < 2 ^ 64" and "counter_nonce (of_nat i) = counter_nonce (of_nat j)"
  shows "i = j"
proof -
  have u: "unat (of_nat n :: 64 word) = n" if "n < 2 ^ 64" for n using that unfolding unat_of_nat by (intro mod_less) simp
  have e: "be_bytes 8 i = be_bytes 8 j"
    using assms(3) unfolding counter_nonce_def u [OF assms(1)] u [OF assms(2)] by (rule append_eq_append_conv [THEN iffD1, THEN conjunct2, rotated]) simp
  have p: "(256 :: nat) ^ 8 = 2 ^ 64" by simp
  have "i = be_val (be_bytes 8 i)" using be_val_be_bytes [of i 8] assms(1) unfolding p by metis
  also have "\<dots> = j" using be_val_be_bytes [of j 8] assms(2) unfolding p e by blast
  finally show ?thesis .
qed

lemma length_EncodeRecord: "record_ok rec \<Longrightarrow> 0 < length (EncodeRecord rec) \<and> length (EncodeRecord rec) \<le> maxReplicationFrameSize"
  by (simp add: EncodeRecord_def encodeRecordPlain_frame length_frame_of record_ok_def maxWALFrameSize_def maxReplicationFrameSize_def)

lemma DecodeRecord_Encode: "record_ok rec \<Longrightarrow> DecodeRecord (EncodeRecord rec) = Inr (norm_record rec)"
proof -
  assume ok: "record_ok rec"
  have "is_frame None (norm_record rec) (EncodeRecord rec)"
    using ok length_body [of rec] decode_frame_of [OF ok]
    by (auto simp: is_frame_def EncodeRecord_def encodeRecordPlain_frame min_frame_def length_frame_of record_ok_def)
  from decodeFrames_one [OF this] show ?thesis by (simp add: DecodeRecord_def)
qed

lemma sealed_size:
  fixes key c
  assumes "gcm_spec gcm_seal gcm_open" and "record_ok rec"
  defines "l \<equiv> length (gcm_seal key (counter_nonce c) (EncodeRecord rec))"
  shows "sealOverhead < l" and "l \<le> maxSealedFrameSize" and "l < 4294967296"
  using assms(1) length_EncodeRecord [OF assms(2)]
  by (auto simp: l_def gcm_spec_def sealOverhead_def maxSealedFrameSize_def maxReplicationFrameSize_def)

lemma consume_frame:
  assumes "gcm_spec gcm_seal gcm_open" and "record_ok rec" and "fc = \<lparr>fc_key = key, fc_counter = of_nat i\<rparr>"
  shows "consume gcm_open ap k fc s (sealed_frame gcm_seal key i rec @ b) =
     (case ap k s (norm_record rec) of
        (s', False) \<Rightarrow> (s', [norm_record rec])
      | (s', True) \<Rightarrow>
          (case consume gcm_open ap (Suc k) \<lparr>fc_key = key, fc_counter = of_nat (Suc i)\<rparr> s' b of
             (s2, rs) \<Rightarrow> (s2, norm_record rec # rs)))"
proof -
  let ?c = "gcm_seal key (counter_nonce (of_nat i)) (EncodeRecord rec)"
  note sz = sealed_size [OF assms(1,2), of key "of_nat i"]
  have op: "fc_open gcm_open fc ?c = (\<lparr>fc_key = key, fc_counter = of_nat (Suc i)\<rparr>, Some (EncodeRecord rec))"
    using assms(1,3) by (simp add: fc_open_def nextNonce_def gcm_spec_def add.commute)
  show ?thesis
    using sz op DecodeRecord_Encode [OF assms(2)]
    by (subst consume.simps) (simp add: sealed_frame_def Let_def be_4)
qed

lemma consume_wrong_counter:
  assumes "gcm_spec gcm_seal gcm_open" and "nonce_bound gcm_seal gcm_open key" and "record_ok rec"
    and "i < 2 ^ 64" and "j < 2 ^ 64" and "i \<noteq> j"
  shows "consume gcm_open ap k \<lparr>fc_key = key, fc_counter = of_nat j\<rparr> s (sealed_frame gcm_seal key i rec @ b) = (s, [])"
proof -
  let ?c = "gcm_seal key (counter_nonce (of_nat i)) (EncodeRecord rec)"
  note sz = sealed_size [OF assms(1,3), of key "of_nat i"]
  have "counter_nonce (of_nat j) \<noteq> counter_nonce (of_nat i)" using counter_nonce_inj assms(4-6) by metis
  then have "gcm_open key (counter_nonce (of_nat j)) ?c = None" using assms(2) by (simp add: nonce_bound_def)
  then show ?thesis
    using sz by (subst consume.simps) (simp add: sealed_frame_def Let_def be_4 fc_open_def nextNonce_def)
qed

lemma consume_short:
  assumes "gcm_spec gcm_seal gcm_open" and "record_ok rec" and "m < length (sealed_frame gcm_seal key i rec)"
  shows "consume gcm_open ap k fc s (take m (sealed_frame gcm_seal key i rec)) = (s, [])"
proof -
  let ?c = "gcm_seal key (counter_nonce (of_nat i)) (EncodeRecord rec)"
  note sz = sealed_size [OF assms(1,2), of key "of_nat i"]
  have len: "length (sealed_frame gcm_seal key i rec) = 4 + length ?c" by (simp add: sealed_frame_def Let_def)
  show ?thesis
  proof (cases "m < 4")
    case True
    then show ?thesis using len by (subst consume.simps) (simp add: read_full_def)
  next
    case False
    then have "take m (sealed_frame gcm_seal key i rec) = be_bytes 4 (length ?c) @ take (m - 4) ?c"
      by (simp add: sealed_frame_def Let_def)
    moreover have "length (take (m - 4) ?c) < length ?c" using assms(3) len sz(1) False by simp
    then have "read_full (length ?c) (take (m - 4) ?c) = REOF \<or> read_full (length ?c) (take (m - 4) ?c) = RShort"
      unfolding read_full_def by (meson linorder_not_less)
    ultimately show ?thesis using sz by (subst consume.simps) (auto simp: Let_def be_4)
  qed
qed

text \<open>Applying a list of records until one fails.\<close>

fun run_until :: "(nat \<Rightarrow> 's \<Rightarrow> walRecord \<Rightarrow> 's \<times> bool) \<Rightarrow> nat \<Rightarrow> 's \<Rightarrow> walRecord list \<Rightarrow> 's \<times> walRecord list" where
  "run_until ap k s [] = (s, [])"
| "run_until ap k s (r # rs) =
     (case ap k s r of
        (s', False) \<Rightarrow> (s', [r])
      | (s', True) \<Rightarrow> (case run_until ap (Suc k) s' rs of (s2, done_recs) \<Rightarrow> (s2, r # done_recs)))"

lemma consume_Nil [simp]: "consume gcm_open ap k fc s [] = (s, [])"
  by (subst consume.simps) (simp add: read_full_def)

lemma consume_delivered:
  assumes gcm: "gcm_spec gcm_seal gcm_open" and nb: "nonce_bound gcm_seal gcm_open key"
    and ok: "\<forall>r \<in> set recs. record_ok r" and n: "length recs < 2 ^ 64"
  defines "fr \<equiv> \<lambda>i. sealed_frame gcm_seal key i (recs ! i)"
  shows "\<forall>i \<in> set is. i < length recs \<Longrightarrow> c \<le> length recs \<Longrightarrow>
    \<exists>j. consume gcm_open ap k \<lparr>fc_key = key, fc_counter = of_nat c\<rparr> s (take m (concat (map fr is)))
          = run_until ap k s (map norm_record (take j (drop c recs)))
      \<and> take j is = [c..<c + j] \<and> c + j \<le> length recs"
proof (induction "is" arbitrary: c k s m)
  case Nil
  then show ?case by (intro exI [of _ 0]) simp
next
  case (Cons i "is")
  have i: "i < length recs" and oki: "record_ok (recs ! i)" using Cons.prems ok by auto
  let ?rest = "take (m - length (fr i)) (concat (map fr is))"
  show ?case
  proof (cases "m < length (fr i)")
    case True
    then have "consume gcm_open ap k \<lparr>fc_key = key, fc_counter = of_nat c\<rparr> s (take m (concat (map fr (i # is)))) = (s, [])"
      using consume_short [OF gcm oki] by (simp add: fr_def)
    with Cons.prems show ?thesis by (intro exI [of _ 0]) simp
  next
    case False
    then have b: "take m (concat (map fr (i # is))) = fr i @ ?rest" by simp
    show ?thesis
    proof (cases "i = c")
      case True
      have dr: "drop c recs = recs ! c # drop (Suc c) recs" using i True by (simp add: Cons_nth_drop_Suc)
      obtain s' r where A: "ap k s (norm_record (recs ! c)) = (s', r)" by fastforce
      have cf: "consume gcm_open ap k \<lparr>fc_key = key, fc_counter = of_nat c\<rparr> s (fr i @ ?rest) =
          (case ap k s (norm_record (recs ! c)) of (s', False) \<Rightarrow> (s', [norm_record (recs ! c)])
           | (s', True) \<Rightarrow> (case consume gcm_open ap (Suc k) \<lparr>fc_key = key, fc_counter = of_nat (Suc c)\<rparr> s' ?rest of
               (s2, rs) \<Rightarrow> (s2, norm_record (recs ! c) # rs)))"
        unfolding fr_def True using oki True by (intro consume_frame [OF gcm]) simp_all
      show ?thesis
      proof (cases r)
        case True
        obtain j where j: "consume gcm_open ap (Suc k) \<lparr>fc_key = key, fc_counter = of_nat (Suc c)\<rparr> s' ?rest
            = run_until ap (Suc k) s' (map norm_record (take j (drop (Suc c) recs)))"
          "take j is = [Suc c..<Suc c + j]" "Suc c + j \<le> length recs"
          using Cons.IH [of "Suc c" "Suc k" s' "m - length (fr i)"] Cons.prems i \<open>i = c\<close> by auto
        show ?thesis
          using True A cf b j dr \<open>i = c\<close> by (intro exI [of _ "Suc j"]) (simp add: upt_conv_Cons del: upt_Suc of_nat_Suc)
      next
        case False
        then show ?thesis
          using A cf b dr \<open>i = c\<close> i by (intro exI [of _ 1]) simp
      qed
    next
      case False
      have "consume gcm_open ap k \<lparr>fc_key = key, fc_counter = of_nat c\<rparr> s (fr i @ ?rest) = (s, [])"
        unfolding fr_def using Cons.prems i n False
        by (intro consume_wrong_counter [OF gcm nb oki]) simp_all
      then show ?thesis using b Cons.prems by (intro exI [of _ 0]) simp
    qed
  qed
qed

lemma consume_in_order:
  assumes gcm: "gcm_spec gcm_seal gcm_open" and ok: "\<forall>r \<in> set recs. record_ok r"
  shows "consume gcm_open ap k \<lparr>fc_key = key, fc_counter = of_nat c\<rparr> s
      (concat (map (\<lambda>(i, r). sealed_frame gcm_seal key i r) (enumerate c recs)))
    = run_until ap k s (map norm_record recs)"
  using ok
proof (induction recs arbitrary: c k s)
  case (Cons r recs)
  have "record_ok r" using Cons.prems by simp
  obtain s' o1 where A: "ap k s (norm_record r) = (s', o1)" by fastforce
  show ?case
    using consume_frame [OF gcm \<open>record_ok r\<close> refl, of ap k key c s] Cons
    by (simp add: A split: bool.split del: of_nat_Suc)
qed simp

text \<open>The bytes a primary writes to one replica for a list of records.\<close>

fun stream_all :: "gcm_seal \<Rightarrow> replicaConn \<Rightarrow> walRecord list \<Rightarrow> replicaConn" where
  "stream_all gcm_seal r [] = r"
| "stream_all gcm_seal r (rec # recs) = stream_all gcm_seal (fst (rc_send gcm_seal True r (EncodeRecord rec))) recs"

lemma rc_send_frame:
  assumes "gcm_spec gcm_seal gcm_open" and "record_ok rec" and "rc_cipher r = \<lparr>fc_key = key, fc_counter = of_nat i\<rparr>"
  shows "rc_send gcm_seal True r (EncodeRecord rec) =
    (r\<lparr>rc_cipher := \<lparr>fc_key = key, fc_counter = of_nat (Suc i)\<rparr>, rc_out := rc_out r @ sealed_frame gcm_seal key i rec\<rparr>, True)"
proof -
  let ?c = "gcm_seal key (counter_nonce (of_nat i)) (EncodeRecord rec)"
  note sz = sealed_size [OF assms(1,2), of key "of_nat i"]
  then have "writeFrame ?c = Some (sealed_frame gcm_seal key i rec)"
    by (auto simp: writeFrame_def sealed_frame_def Let_def)
  then show ?thesis using assms(3) by (simp add: rc_send_def fc_seal_def nextNonce_def add.commute)
qed

lemma stream_all_out:
  assumes "gcm_spec gcm_seal gcm_open" and "\<forall>r \<in> set recs. record_ok r"
    and "rc_cipher r = \<lparr>fc_key = key, fc_counter = of_nat c\<rparr>"
  shows "rc_out (stream_all gcm_seal r recs) =
    rc_out r @ concat (map (\<lambda>(i, r). sealed_frame gcm_seal key i r) (enumerate c recs))"
  using assms(2,3)
proof (induction recs arbitrary: r c)
  case (Cons rec recs)
  then show ?case by (simp add: rc_send_frame [OF assms(1), of rec r key c] del: of_nat_Suc)
qed simp

text \<open>
  C7. Whatever an attacker on the network delivers from the frames a primary sealed on a connection, in any
  order, with omissions and repetitions, cut at any byte, the replica applies exactly the records of an initial
  segment of what was sent, in order: those whose frames arrived whole and in their places. What the primary
  wrote, delivered unchanged, makes the replica apply all records in order, up to the first that its engine
  refuses.
\<close>

theorem replication_stream:
  assumes "gcm_spec gcm_seal gcm_open" and "nonce_bound gcm_seal gcm_open key"
    and "\<forall>r \<in> set recs. record_ok r" and "length recs < 2 ^ 64" and "\<forall>i \<in> set is. i < length recs"
  shows "(\<exists>j. consumeStream gcm_open v clock \<lparr>fc_key = key, fc_counter = 0\<rparr> ex
              (take m (concat (map (\<lambda>i. sealed_frame gcm_seal key i (recs ! i)) is)))
            = run_until (apply_record v clock) 0 ex (map norm_record (take j recs))
          \<and> take j is = [0..<j] \<and> j \<le> length recs)
     \<and> consumeStream gcm_open v clock \<lparr>fc_key = key, fc_counter = 0\<rparr> ex
         (rc_out (stream_all gcm_seal \<lparr>rc_ID = i, rc_cipher = \<lparr>fc_key = key, fc_counter = 0\<rparr>, rc_out = []\<rparr> recs))
       = run_until (apply_record v clock) 0 ex (map norm_record recs)"
proof -
  have "\<exists>j. consumeStream gcm_open v clock \<lparr>fc_key = key, fc_counter = 0\<rparr> ex
              (take m (concat (map (\<lambda>i. sealed_frame gcm_seal key i (recs ! i)) is)))
            = run_until (apply_record v clock) 0 ex (map norm_record (take j recs))
          \<and> take j is = [0..<j] \<and> j \<le> length recs"
    using consume_delivered [OF assms(1-4), of "is" 0 "apply_record v clock" 0 ex m] assms(5)
    by (simp add: consumeStream_def)
  moreover have "rc_out (stream_all gcm_seal \<lparr>rc_ID = i, rc_cipher = \<lparr>fc_key = key, fc_counter = 0\<rparr>, rc_out = []\<rparr> recs)
      = concat (map (\<lambda>(i, r). sealed_frame gcm_seal key i r) (enumerate 0 recs))"
    using stream_all_out [OF assms(1,3), of _ key 0] by simp
  ultimately show ?thesis
    using consume_in_order [OF assms(1,3), of "apply_record v clock" 0 key 0 ex] by (simp add: consumeStream_def)
qed

text \<open>An AEAD with both contracts: the tag repeats the nonce.\<close>

definition tag_seal :: gcm_seal where
  "tag_seal k n p = p @ take 16 (n @ replicate 16 (CHR ''t''))"

definition tag_open :: gcm_open where
  "tag_open k n c = (if drop (length c - 16) c = take 16 (n @ replicate 16 (CHR ''t'')) then Some (take (length c - 16) c) else None)"

lemma tag_gcm: "gcm_spec tag_seal tag_open" "nonce_bound tag_seal tag_open key"
  by (auto simp: gcm_spec_def nonce_bound_def tag_seal_def tag_open_def)

theorem replication_stream_witness:
  "\<forall>v clock ex. \<exists>j. consumeStream tag_open v clock \<lparr>fc_key = ''key'', fc_counter = 0\<rparr> ex
              (take 30 (concat (map (\<lambda>i. sealed_frame tag_seal ''key'' i ([sample_rec, sample_rec] ! i)) [1, 0])))
            = run_until (apply_record v clock) 0 ex (map norm_record (take j [sample_rec, sample_rec]))
          \<and> take j [1, 0] = [0..<j] \<and> j \<le> length [sample_rec, sample_rec]"
  by (intro allI replication_stream [OF tag_gcm, THEN conjunct1]) simp_all

section \<open>A record broadcast during the bootstrap\<close>

text \<open>A replica is registered for live records before its bootstrap is sent. A record that is written meanwhile
  can be sealed between two records of the log, and nothing on the replica looks at sequence numbers.\<close>

lemma bootstrap_race:
  assumes "gcm_spec gcm_seal gcm_open" and "record_ok r1" "record_ok r2" "record_ok r3"
  shows "\<exists>p1 p2 p3 c. bootstrap_one gcm_seal True (fst (addReplica (NewPrimaryStream t) \<lparr>fc_key = key, fc_counter = 0\<rparr>)) 1 r1 = (p1, True)
    \<and> p2 = relay_step gcm_seal (\<lambda>_. True) (BroadcastRecord False p1 (Some r3))
    \<and> bootstrap_one gcm_seal True p2 1 r2 = (p3, True)
    \<and> map_of (pm_replicas p3) 1 = Some c
    \<and> rc_out c = sealed_frame gcm_seal key 0 r1 @ sealed_frame gcm_seal key 1 r3 @ sealed_frame gcm_seal key 2 r2"
proof -
  define c0 where "c0 = \<lparr>rc_ID = 1, rc_cipher = \<lparr>fc_key = key, fc_counter = of_nat 0\<rparr>, rc_out = []\<rparr>"
  define c1 where "c1 = c0\<lparr>rc_cipher := \<lparr>fc_key = key, fc_counter = of_nat (Suc 0)\<rparr>, rc_out := sealed_frame gcm_seal key 0 r1\<rparr>"
  define c2 where "c2 = c1\<lparr>rc_cipher := \<lparr>fc_key = key, fc_counter = of_nat (Suc (Suc 0))\<rparr>, rc_out := rc_out c1 @ sealed_frame gcm_seal key 1 r3\<rparr>"
  have s1: "rc_send gcm_seal True c0 (EncodeRecord r1) = (c1, True)"
    using rc_send_frame [OF assms(1,2), of c0 key 0] by (simp add: c0_def c1_def)
  have s2: "rc_send gcm_seal True c1 (EncodeRecord r3) = (c2, True)"
    using rc_send_frame [OF assms(1,4), of c1 key "Suc 0"] by (simp add: c1_def c2_def)
  define c3 where "c3 = c2\<lparr>rc_cipher := \<lparr>fc_key = key, fc_counter = of_nat (Suc (Suc (Suc 0)))\<rparr>, rc_out := rc_out c2 @ sealed_frame gcm_seal key 2 r2\<rparr>"
  have s3: "rc_send gcm_seal True c2 (EncodeRecord r2) = (c3, True)"
    using rc_send_frame [OF assms(1,3), of c2 key "Suc (Suc 0)"] by (simp add: c2_def c3_def numeral_2_eq_2)
  define p0 where "p0 = NewPrimaryStream t\<lparr>pm_nextID := 1, pm_replicas := [(1, c0)]\<rparr>"
  have a: "fst (addReplica (NewPrimaryStream t) \<lparr>fc_key = key, fc_counter = 0\<rparr>) = p0"
    by (simp add: addReplica_def NewPrimaryStream_def p0_def c0_def Let_def)
  have b1: "bootstrap_one gcm_seal True p0 1 r1 = (p0\<lparr>pm_replicas := [(1, c1)]\<rparr>, True)"
    by (simp add: bootstrap_one_def p0_def s1)
  have l: "EncodeRecord r3 \<noteq> [] \<and> length (EncodeRecord r3) \<le> maxReplicationFrameSize"
    using length_EncodeRecord [OF assms(4)] by auto
  have r: "relay_step gcm_seal (\<lambda>_. True) (BroadcastRecord False (p0\<lparr>pm_replicas := [(1, c1)]\<rparr>) (Some r3)) = p0\<lparr>pm_replicas := [(1, c2)]\<rparr>"
    using l by (auto simp: relay_step_def BroadcastRecord_def p0_def NewPrimaryStream_def liveReplicationBuffer_def Broadcast_def s2)
  have b2: "bootstrap_one gcm_seal True (p0\<lparr>pm_replicas := [(1, c2)]\<rparr>) 1 r2 = (p0\<lparr>pm_replicas := [(1, c3)]\<rparr>, True)"
    by (simp add: bootstrap_one_def p0_def s3)
  show ?thesis
    by (rule exI [of _ "p0\<lparr>pm_replicas := [(1, c1)]\<rparr>"], rule exI [of _ "p0\<lparr>pm_replicas := [(1, c2)]\<rparr>"],
        rule exI [of _ "p0\<lparr>pm_replicas := [(1, c3)]\<rparr>"], rule exI [of _ c3])
      (simp add: a b1 r b2, simp add: c3_def c2_def c1_def)
qed

end
