(* ===== verification/Cache.thy ===== *)
theory Cache
  imports Prelude "HOL-Library.Monad_Syntax"
begin

text \<open>
  The caches of \<^verbatim>\<open>src/internal/cache\<close>: the LRU cache (\<^verbatim>\<open>entry.go\<close>), the eviction manager (\<^verbatim>\<open>eviction.go\<close>),
  the admission gate and the hot/cold tracker (\<^verbatim>\<open>admission.go\<close>), and the TTL table (\<^verbatim>\<open>ttl.go\<close>). The recency list
  of an LRU cache holds the keys of its entries, most recent first. The eviction loop of \<^verbatim>\<open>Set\<close> may run
  forever, so it is a partial function; clock readings and random choices are arguments.
\<close>

section \<open>LRU cache\<close>

record 'a centry =
  ce_Key :: string
  ce_Value :: 'a
  ce_ExpiresAt :: int
  ce_Freq :: int
  ce_Size :: int

definition ce_IsExpired :: "int \<Rightarrow> 'a centry \<Rightarrow> bool" where
  "ce_IsExpired now e \<longleftrightarrow> ce_ExpiresAt e \<noteq> 0 \<and> now > ce_ExpiresAt e"

record 'a lruCache =
  lc_capacity :: int
  lc_items :: "(string, 'a centry) gomap"
  lc_lru :: "string list"

definition NewLRUCache :: "int \<Rightarrow> 'a lruCache" where
  "NewLRUCache capacity = \<lparr>lc_capacity = capacity, lc_items = [], lc_lru = []\<rparr>"

definition lc_drop :: "'a lruCache \<Rightarrow> string \<Rightarrow> 'a lruCache" where
  "lc_drop c key = c\<lparr>lc_lru := remove1 key (lc_lru c), lc_items := AList.delete key (lc_items c)\<rparr>"

definition lc_front :: "'a lruCache \<Rightarrow> string \<Rightarrow> 'a lruCache" where
  "lc_front c key = c\<lparr>lc_lru := key # remove1 key (lc_lru c)\<rparr>"

definition lru_Get :: "int \<Rightarrow> 'a lruCache \<Rightarrow> string \<Rightarrow> 'a lruCache \<times> 'a centry option" where
  "lru_Get now c key =
     (case map_of (lc_items c) key of
        None \<Rightarrow> (c, None)
      | Some e \<Rightarrow> if ce_IsExpired now e then (lc_drop c key, None) else (lc_front c key, Some e))"

definition lru_evict :: "'a lruCache \<Rightarrow> 'a lruCache" where
  "lru_evict c = (if lc_lru c = [] then c else lc_drop c (last (lc_lru c)))"

partial_function (option) evict_loop :: "'a lruCache \<Rightarrow> 'a lruCache option" where
  "evict_loop c = (if int (length (lc_items c)) \<ge> lc_capacity c then evict_loop (lru_evict c) else Some c)"

definition lru_Set :: "int \<Rightarrow> 'a lruCache \<Rightarrow> string \<Rightarrow> 'a \<Rightarrow> int \<Rightarrow> 'a lruCache option" where
  "lru_Set now c key val ttlNano =
     (let ex = (if ttlNano > 0 then i64 (now + ttlNano) else 0)
      in case map_of (lc_items c) key of
           Some e \<Rightarrow>
             Some ((lc_front c key)\<lparr>lc_items := AList.update key (e\<lparr>ce_Value := val, ce_ExpiresAt := ex\<rparr>) (lc_items c)\<rparr>)
         | None \<Rightarrow>
             Option.bind (evict_loop c) (\<lambda>c'.
               Some (c'\<lparr>lc_lru := key # lc_lru c',
                        lc_items := AList.update key \<lparr>ce_Key = key, ce_Value = val, ce_ExpiresAt = ex, ce_Freq = 0, ce_Size = 0\<rparr> (lc_items c')\<rparr>)))"

definition lru_Delete :: "'a lruCache \<Rightarrow> string \<Rightarrow> 'a lruCache" where
  "lru_Delete c key = (case map_of (lc_items c) key of None \<Rightarrow> c | Some _ \<Rightarrow> lc_drop c key)"

definition lru_Len :: "'a lruCache \<Rightarrow> nat" where
  "lru_Len c = length (lc_items c)"

subsection \<open>Invariant and termination of the eviction loop\<close>

text \<open>The recency list holds each cached key once.\<close>

definition lru_inv :: "'a lruCache \<Rightarrow> bool" where
  "lru_inv c \<longleftrightarrow> wf_map (lc_items c) \<and> distinct (lc_lru c) \<and> set (lc_lru c) = fst ` set (lc_items c)"

lemma fst_delete: "fst ` set (AList.delete k m) = fst ` set m - {k}"
  by (metis delete_keys list.set_map set_removeAll)

lemma fst_update: "fst ` set (AList.update k v m) = insert k (fst ` set m)"
  by (simp add: dom_update)

lemma map_of_in_keys: "map_of m k = Some v \<Longrightarrow> k \<in> fst ` set m"
  by (metis map_of_SomeD fst_conv imageI)

lemma lru_inv_New [simp]: "lru_inv (NewLRUCache n)"
  by (simp add: lru_inv_def NewLRUCache_def)

lemma lru_inv_drop: "lru_inv c \<Longrightarrow> lru_inv (lc_drop c k)"
  by (simp add: lru_inv_def lc_drop_def fst_delete set_remove1_eq)

lemma lru_inv_front: "lru_inv c \<Longrightarrow> map_of (lc_items c) k = Some e \<Longrightarrow> lru_inv (lc_front c k)"
  using map_of_in_keys [of "lc_items c" k e] by (auto simp: lru_inv_def lc_front_def set_remove1_eq)

lemma length_lru: "lru_inv c \<Longrightarrow> length (lc_lru c) = length (lc_items c)"
  by (metis distinct_card length_map list.set_map lru_inv_def wf_map_def)

lemma lru_evict_shorter:
  assumes "lru_inv c" and "lc_items c \<noteq> []"
  shows "lc_lru (lru_evict c) = butlast (lc_lru c)" and "length (lc_items c) = Suc (length (lc_items (lru_evict c)))"
    and "lru_inv (lru_evict c)" and "lc_capacity (lru_evict c) = lc_capacity c"
proof -
  have ne: "lc_lru c \<noteq> []" using assms length_lru by fastforce
  then have e: "lru_evict c = lc_drop c (last (lc_lru c))" by (simp add: lru_evict_def)
  have "last (lc_lru c) \<notin> set (butlast (lc_lru c))"
    using assms(1) ne by (metis append_butlast_last_id distinct_append distinct.simps(2) disjoint_iff list.set_intros(1) lru_inv_def)
  then have "remove1 (last (lc_lru c)) (butlast (lc_lru c) @ [last (lc_lru c)]) = butlast (lc_lru c)"
    by (simp add: remove1_append)
  then show b: "lc_lru (lru_evict c) = butlast (lc_lru c)" using ne e by (simp add: lc_drop_def)
  show i: "lru_inv (lru_evict c)" unfolding e using assms(1) by (rule lru_inv_drop)
  show "length (lc_items c) = Suc (length (lc_items (lru_evict c)))"
    using length_lru [OF assms(1)] length_lru [OF i] b ne
    by (metis Suc_pred length_butlast length_greater_0_conv One_nat_def)
  show "lc_capacity (lru_evict c) = lc_capacity c" by (simp add: e lc_drop_def)
qed

text \<open>With a positive capacity the loop ends; it keeps the most recent entries that fit beside a new one.\<close>

lemma map_of_evict: "k \<noteq> last (lc_lru c) \<Longrightarrow> map_of (lc_items (lru_evict c)) k = map_of (lc_items c) k"
  by (simp add: lru_evict_def lc_drop_def)

lemma evict_loop_ends:
  assumes "lru_inv c" and "0 < lc_capacity c"
  shows "\<exists>c'. evict_loop c = Some c' \<and> lru_inv c' \<and> lc_capacity c' = lc_capacity c
    \<and> lc_lru c' = take (nat (lc_capacity c - 1)) (lc_lru c)
    \<and> (\<forall>k \<in> set (lc_lru c'). map_of (lc_items c') k = map_of (lc_items c) k)"
  using assms
proof (induction "length (lc_items c)" arbitrary: c rule: less_induct)
  case less
  show ?case
  proof (cases "int (length (lc_items c)) \<ge> lc_capacity c")
    case False
    then have "length (lc_lru c) \<le> nat (lc_capacity c - 1)" using length_lru [OF less.prems(1)] by linarith
    then show ?thesis using False less.prems by (subst evict_loop.simps) simp
  next
    case True
    then have ne: "lc_items c \<noteq> []" using less.prems(2) by auto
    note ev = lru_evict_shorter [OF less.prems(1) ne]
    obtain c' where c': "evict_loop (lru_evict c) = Some c'" "lru_inv c'" "lc_capacity c' = lc_capacity c"
      "lc_lru c' = take (nat (lc_capacity c - 1)) (butlast (lc_lru c))"
      "\<forall>k \<in> set (lc_lru c'). map_of (lc_items c') k = map_of (lc_items (lru_evict c)) k"
      using less.hyps [of "lru_evict c"] ev less.prems(2) by auto
    have len: "nat (lc_capacity c - 1) \<le> length (butlast (lc_lru c))"
      using True less.prems length_lru [OF less.prems(1)] by simp
    then have t: "lc_lru c' = take (nat (lc_capacity c - 1)) (lc_lru c)" using c'(4)
      by (metis butlast_conv_take length_butlast min.absorb1 take_take)
    have nl: "last (lc_lru c) \<notin> set (lc_lru c')"
    proof -
      have "lc_lru c \<noteq> []" using ne length_lru [OF less.prems(1)] by auto
      then have "last (lc_lru c) \<notin> set (butlast (lc_lru c))"
        using less.prems(1) by (metis append_butlast_last_id distinct_append distinct.simps(2) disjoint_iff list.set_intros(1) lru_inv_def)
      then show ?thesis using c'(4) by (metis in_set_takeD)
    qed
    have "evict_loop c = Some c'" using True c'(1) by (subst evict_loop.simps) simp
    moreover have "\<forall>k \<in> set (lc_lru c'). map_of (lc_items c') k = map_of (lc_items c) k"
      using c'(5) nl map_of_evict [of _ c] by metis
    ultimately show ?thesis using c' t by blast
  qed
qed

text \<open>With capacity 0 or less it never ends, because evicting from an empty cache changes nothing.\<close>

lemma evict_loop_diverges:
  assumes "lc_capacity c \<le> 0"
  shows "evict_loop c = None"
proof (rule ccontr)
  assume "evict_loop c \<noteq> None"
  then obtain y where "evict_loop c = Some y" by blast
  moreover have "lc_capacity c \<le> 0 \<longrightarrow> False" if "evict_loop c = Some y" for c :: "'a lruCache" and y
  proof (rule evict_loop.raw_induct [of "\<lambda>c y. lc_capacity c \<le> 0 \<longrightarrow> False", OF _ that])
    fix rec :: "'a lruCache \<Rightarrow> 'a lruCache option" and c y
    assume "\<And>x y. rec x = Some y \<Longrightarrow> lc_capacity x \<le> 0 \<longrightarrow> False"
      and "(if lc_capacity c \<le> int (length (lc_items c)) then rec (lru_evict c) else Some c) = Some y"
    moreover have "lc_capacity (lru_evict c) = lc_capacity c" by (simp add: lru_evict_def lc_drop_def)
    ultimately show "lc_capacity c \<le> 0 \<longrightarrow> False" by (metis of_nat_0_le_iff order_trans)
  qed
  ultimately show False using assms by blast
qed

text \<open>
  C34. On a consistent cache of positive capacity \<^verbatim>\<open>Set\<close> of a new key always returns; afterwards the cache is
  consistent and within its capacity, holds the new value at the front of the recency list, and behind it
  exactly the most recently used old entries that fit, unchanged. With a capacity of 0 or less \<^verbatim>\<open>Set\<close> of a
  new key never returns.
\<close>

theorem lru_set_terminates:
  assumes "lru_inv c" and "map_of (lc_items c) key = None"
  shows "(0 < lc_capacity c \<longrightarrow>
      (\<exists>c'. lru_Set now c key val ttl = Some c' \<and> lru_inv c' \<and> int (lru_Len c') \<le> lc_capacity c
        \<and> lc_lru c' = key # take (nat (lc_capacity c - 1)) (lc_lru c)
        \<and> map_option ce_Value (map_of (lc_items c') key) = Some val
        \<and> (\<forall>k \<in> set (take (nat (lc_capacity c - 1)) (lc_lru c)). map_of (lc_items c') k = map_of (lc_items c) k)))
    \<and> (lc_capacity c \<le> 0 \<longrightarrow> lru_Set now c key val ttl = None)"
proof -
  have "\<exists>c'. lru_Set now c key val ttl = Some c' \<and> lru_inv c' \<and> int (lru_Len c') \<le> lc_capacity c
        \<and> lc_lru c' = key # take (nat (lc_capacity c - 1)) (lc_lru c)
        \<and> map_option ce_Value (map_of (lc_items c') key) = Some val
        \<and> (\<forall>k \<in> set (take (nat (lc_capacity c - 1)) (lc_lru c)). map_of (lc_items c') k = map_of (lc_items c) k)"
    if pos: "0 < lc_capacity c"
  proof -
    obtain d where d: "evict_loop c = Some d" "lru_inv d" "lc_lru d = take (nat (lc_capacity c - 1)) (lc_lru c)"
      "\<forall>k \<in> set (lc_lru d). map_of (lc_items d) k = map_of (lc_items c) k"
      using evict_loop_ends [OF assms(1) pos] by blast
    have key: "key \<notin> set (lc_lru c)" using assms by (auto simp: lru_inv_def map_of_eq_None_iff)
    then have kd: "key \<notin> set (lc_lru d)" using d(3) by (metis in_set_takeD)
    define c' where "c' = d\<lparr>lc_lru := key # lc_lru d, lc_items := AList.update key
       \<lparr>ce_Key = key, ce_Value = val, ce_ExpiresAt = (if ttl > 0 then i64 (now + ttl) else 0), ce_Freq = 0, ce_Size = 0\<rparr> (lc_items d)\<rparr>"
    have s: "lru_Set now c key val ttl = Some c'" using assms(2) d(1) by (simp add: lru_Set_def Let_def c'_def)
    have inv: "lru_inv c'" using d(2) kd by (simp add: lru_inv_def c'_def fst_update)
    have "int (length (lc_lru d)) \<le> lc_capacity c - 1" using d(3) pos by simp
    then have "int (lru_Len c') \<le> lc_capacity c" using length_lru [OF inv] by (simp add: lru_Len_def c'_def)
    with s inv d kd show ?thesis by (intro exI [of _ c']) (auto simp: c'_def)
  qed
  moreover have "lru_Set now c key val ttl = None" if "lc_capacity c \<le> 0"
    using assms(2) evict_loop_diverges [OF that] by (simp add: lru_Set_def Let_def)
  ultimately show ?thesis by blast
qed

theorem lru_set_terminates_witness:
  "\<exists>c'. lru_Set 5 (NewLRUCache 1 :: nat lruCache) ''k'' 7 0 = Some c' \<and> lc_lru c' = [''k'']"
proof -
  have "lc_capacity (NewLRUCache 1 :: nat lruCache) = 1" "lc_lru (NewLRUCache 1 :: nat lruCache) = []"
    "map_of (lc_items (NewLRUCache 1 :: nat lruCache)) ''k'' = None"
    by (simp_all add: NewLRUCache_def)
  then show ?thesis using lru_set_terminates [of "NewLRUCache 1 :: nat lruCache" "''k''" 5 7 0, OF lru_inv_New] by force
qed

lemma lru_get_keeps: "lru_inv c \<Longrightarrow> lru_inv (fst (lru_Get now c k))" "lru_inv c \<Longrightarrow> lru_inv (lru_Delete c k)"
  by (auto simp: lru_Get_def lru_Delete_def lru_inv_drop lru_inv_front split: option.split)

section \<open>Eviction manager\<close>

type_synonym evictionPolicy = string

definition PolicyLRU :: evictionPolicy where
  "PolicyLRU = ''lru''"

definition PolicyRandom :: evictionPolicy where
  "PolicyRandom = ''random''"

definition PolicyNoEvict :: evictionPolicy where
  "PolicyNoEvict = ''no-eviction''"

record 'a evictionManager =
  em_policy :: evictionPolicy
  em_samples :: int
  em_lru :: "'a lruCache"

definition NewEvictionManager :: "evictionPolicy \<Rightarrow> int \<Rightarrow> int \<Rightarrow> 'a evictionManager" where
  "NewEvictionManager policy samples capacity =
     \<lparr>em_policy = policy, em_samples = samples, em_lru = NewLRUCache capacity\<rparr>"

text \<open>\<open>rnd i\<close> is the index \<^verbatim>\<open>rand.Intn\<close> draws for the \<open>i\<close>-th sample. A negative size panics.\<close>

definition randomEvict :: "(nat \<Rightarrow> nat) \<Rightarrow> 'a evictionManager \<Rightarrow> string list \<Rightarrow> int \<Rightarrow> string list res" where
  "randomEvict rnd e candidates n =
     (if int (length candidates) \<le> n then Ok candidates
      else let sampleSize = (if em_samples e > int (length candidates) then int (length candidates) else em_samples e)
           in if sampleSize < 0 then Panic
              else let sample = map (\<lambda>i. candidates ! (rnd i mod length candidates)) [0..<nat sampleSize]
                   in if int (length sample) > n then (if n < 0 then Panic else Ok (take (nat n) sample)) else Ok sample)"

definition lruEvict :: "string list \<Rightarrow> int \<Rightarrow> string list res" where
  "lruEvict candidates n =
     (if n \<ge> int (length candidates) then Ok candidates else if n < 0 then Panic else Ok (take (nat n) candidates))"

definition Evict :: "(nat \<Rightarrow> nat) \<Rightarrow> 'a evictionManager \<Rightarrow> string list \<Rightarrow> int \<Rightarrow> string list res" where
  "Evict rnd e candidates n =
     (if em_policy e = PolicyNoEvict \<or> candidates = [] then Ok []
      else if em_policy e = PolicyRandom then randomEvict rnd e candidates n
      else if em_policy e = PolicyLRU then lruEvict candidates n
      else randomEvict rnd e candidates n)"

definition Track :: "int \<Rightarrow> 'a evictionManager \<Rightarrow> string \<Rightarrow> 'a \<Rightarrow> 'a evictionManager option" where
  "Track now e key val = map_option (\<lambda>c. e\<lparr>em_lru := c\<rparr>) (lru_Set now (em_lru e) key val 0)"

definition Accessed :: "int \<Rightarrow> 'a evictionManager \<Rightarrow> string \<Rightarrow> 'a evictionManager" where
  "Accessed now m key =
     m\<lparr>em_lru := (case lru_Get now (em_lru m) key of
        (c', Some e) \<Rightarrow> c'\<lparr>lc_items := AList.update key (e\<lparr>ce_Freq := i64 (ce_Freq e + 1)\<rparr>) (lc_items c')\<rparr>
      | (c', None) \<Rightarrow> c')\<rparr>"

text \<open>What is evicted comes from the candidates and is no more than was asked for.\<close>

lemma Evict_bounds:
  assumes "Evict rnd e candidates n = Ok ks" and "0 \<le> n"
  shows "set ks \<subseteq> set candidates \<and> int (length ks) \<le> n"
proof -
  have mem: "candidates \<noteq> [] \<Longrightarrow> candidates ! (i mod length candidates) \<in> set candidates" for i
    by (simp add: nth_mem)
  show ?thesis
  proof (cases "em_policy e = PolicyNoEvict \<or> candidates = []")
    case True
    then show ?thesis using assms by (simp add: Evict_def)
  next
    case False
    have sub: "set (take m (map (\<lambda>i. candidates ! (rnd i mod length candidates)) is)) \<subseteq> set candidates" for m "is"
      using False mem by (auto dest!: in_set_takeD)
    from False assms mem show ?thesis
      by (auto simp: Evict_def lruEvict_def randomEvict_def Let_def dest: in_set_takeD
          dest!: subsetD [OF sub] split: if_splits)
  qed
qed

text \<open>The policy \<^verbatim>\<open>lru\<close> returns the first candidates, without looking at the recency list.\<close>

lemma lru_policy_ignores_recency:
  "em_policy e = PolicyLRU \<Longrightarrow> 0 \<le> n \<Longrightarrow> n < int (length cs) \<Longrightarrow> Evict rnd e cs n = Ok (take (nat n) cs)"
  by (auto simp: Evict_def lruEvict_def PolicyLRU_def PolicyRandom_def PolicyNoEvict_def)

section \<open>Admission gate and hot keys\<close>

record admissionGate =
  ad_counter :: "(string, int) gomap"
  ad_window :: int
  ad_total :: int

definition NewAdmissionGate :: "int \<Rightarrow> admissionGate" where
  "NewAdmissionGate window = \<lparr>ad_counter = [], ad_window = window, ad_total = 0\<rparr>"

definition int_at :: "(string, int) gomap \<Rightarrow> string \<Rightarrow> int" where
  "int_at m k = (case map_of m k of None \<Rightarrow> 0 | Some v \<Rightarrow> v)"

definition Admit :: "admissionGate \<Rightarrow> string \<Rightarrow> string \<Rightarrow> bool" where
  "Admit a incoming victim \<longleftrightarrow> int_at (ad_counter a) incoming \<ge> int_at (ad_counter a) victim"

definition halve :: "(string, int) gomap \<Rightarrow> (string, int) gomap" where
  "halve m = filter (\<lambda>(_, v). v \<noteq> 0) (map (\<lambda>(k, v). (k, go_div v 2)) m)"

definition Increment :: "admissionGate \<Rightarrow> string \<Rightarrow> admissionGate" where
  "Increment a key =
     (let counter = AList.update key (i64 (int_at (ad_counter a) key + 1)) (ad_counter a); total = i64 (ad_total a + 1)
      in if total \<ge> ad_window a then a\<lparr>ad_counter := halve counter, ad_total := 0\<rparr>
         else a\<lparr>ad_counter := counter, ad_total := total\<rparr>)"

record hotColdTracker =
  hc_hotKeys :: "(string, int) gomap"
  hc_hotN :: int

definition NewHotColdTracker :: "int \<Rightarrow> hotColdTracker" where
  "NewHotColdTracker hotN = \<lparr>hc_hotKeys = [], hc_hotN = hotN\<rparr>"

definition Access :: "hotColdTracker \<Rightarrow> string \<Rightarrow> hotColdTracker" where
  "Access h key = h\<lparr>hc_hotKeys := AList.update key (i64 (int_at (hc_hotKeys h) key + 1)) (hc_hotKeys h)\<rparr>"

definition hotThreshold :: "hotColdTracker \<Rightarrow> int" where
  "hotThreshold h =
     (let counts = map snd (hc_hotKeys h)
      in if counts = [] then 1
         else if hc_hotN h \<ge> int (length counts) then 1
         else if int (length counts) > hc_hotN h
         then go_div (foldl (\<lambda>s v. i64 (s + v)) 0 counts) (int (length counts)) else 1)"

definition IsHot :: "hotColdTracker \<Rightarrow> string \<Rightarrow> bool" where
  "IsHot h key \<longleftrightarrow> int_at (hc_hotKeys h) key \<ge> hotThreshold h"

text \<open>The threshold is the mean count and not the count of the \<open>hotN\<close>-th key: two keys can be hot when one is
  asked for.\<close>

lemma more_hot_than_asked:
  "IsHot \<lparr>hc_hotKeys = [(''a'', 5), (''b'', 5), (''c'', 1)], hc_hotN = 1\<rparr> ''a''
   \<and> IsHot \<lparr>hc_hotKeys = [(''a'', 5), (''b'', 5), (''c'', 1)], hc_hotN = 1\<rparr> ''b''"
  by (simp add: IsHot_def int_at_def hotThreshold_def Let_def go_div_def i64_def)

section \<open>TTL table\<close>

type_synonym ttlStore = "(string, int) gomap"

definition NewTTLStore :: ttlStore where
  "NewTTLStore = []"

definition ttl_Set :: "int \<Rightarrow> ttlStore \<Rightarrow> string \<Rightarrow> int \<Rightarrow> ttlStore" where
  "ttl_Set now t key ttlNano = (if ttlNano \<le> 0 then AList.delete key t else AList.update key (i64 (now + ttlNano)) t)"

definition ttl_Get :: "ttlStore \<Rightarrow> string \<Rightarrow> int" where
  "ttl_Get t key = int_at t key"

definition ttl_Delete :: "ttlStore \<Rightarrow> string \<Rightarrow> ttlStore" where
  "ttl_Delete t key = AList.delete key t"

definition ttl_IsExpired :: "int \<Rightarrow> ttlStore \<Rightarrow> string \<Rightarrow> bool" where
  "ttl_IsExpired now t key \<longleftrightarrow> ttl_Get t key \<noteq> 0 \<and> now > ttl_Get t key"

definition ttl_TTL :: "int \<Rightarrow> ttlStore \<Rightarrow> string \<Rightarrow> int" where
  "ttl_TTL now t key =
     (let ex = ttl_Get t key
      in if ex = 0 then - 1
         else let remaining = i64 (ex - now) in if remaining \<le> 0 then - 2 else go_div remaining second)"

definition ttl_Expired :: "int \<Rightarrow> ttlStore \<Rightarrow> string list" where
  "ttl_Expired now t = map fst (filter (\<lambda>(_, ex). ex \<noteq> 0 \<and> now > ex) t)"

lemma ttl_Expired_iff:
  assumes "wf_map t"
  shows "k \<in> set (ttl_Expired now t) \<longleftrightarrow> ttl_IsExpired now t k"
proof -
  have "k \<in> set (ttl_Expired now t) \<longleftrightarrow> (\<exists>ex. (k, ex) \<in> set t \<and> ex \<noteq> 0 \<and> now > ex)"
    by (force simp: ttl_Expired_def)
  also have "\<dots> \<longleftrightarrow> (\<exists>ex. map_of t k = Some ex \<and> ex \<noteq> 0 \<and> now > ex)"
    using assms by (simp add: map_of_iff_mem)
  also have "\<dots> \<longleftrightarrow> ttl_IsExpired now t k"
    by (auto simp: ttl_IsExpired_def ttl_Get_def int_at_def split: option.splits)
  finally show ?thesis .
qed

end
