(* ===== verification/GeoStore.thy ===== *)
theory GeoStore
  imports Typed
begin

text \<open>
  The geo store of \<^verbatim>\<open>src/internal/engine/geo.go\<close>. Arithmetic is that of IEEE doubles; the functions \<^verbatim>\<open>math.Sin\<close>,
  \<^verbatim>\<open>math.Cos\<close>, \<^verbatim>\<open>math.Atan2\<close> and \<^verbatim>\<open>math.Sqrt\<close>, whose last bit Go does not fix across platforms, are the argument \<open>mt\<close>.
  The order \<^verbatim>\<open>sort.Slice\<close> gives points of equal score is not specified; here they keep the order of the map. No
  operation reads the sorted slice.
\<close>

abbreviation geo_modify :: "int \<Rightarrow> kvstore \<Rightarrow> string \<Rightarrow> (dbxGeo \<Rightarrow> dbxGeo \<times> 'r res) \<Rightarrow> kvstore \<times> 'r res" where
  "geo_modify \<equiv> modify TypeGeo VGeo as_geo \<lparr>geo_points = [], geo_sorted = []\<rparr>"

abbreviation geo_read :: "int \<Rightarrow> kvstore \<Rightarrow> string \<Rightarrow> dbxGeo option res" where
  "geo_read \<equiv> getReadOnly TypeGeo as_geo"

abbreviation geo_at :: "int \<Rightarrow> kvstore \<Rightarrow> string \<Rightarrow> dbxGeo option" where
  "geo_at \<equiv> content TypeGeo as_geo \<lparr>geo_points = [], geo_sorted = []\<rparr>"

section \<open>Scores and distances\<close>

text \<open>One round of the loop: the next bit of a coordinate in \<open>[0, 1)\<close> and what remains of it.\<close>

definition geo_bit :: "f64 \<Rightarrow> bool \<times> f64" where
  "geo_bit x =
     (if f_le (Fin (1 / 2)) x then (True, f_mul (f_sub x (Fin (1 / 2))) (Fin 2)) else (False, f_mul x (Fin 2)))"

fun geohash_loop :: "nat \<Rightarrow> rat \<Rightarrow> f64 \<Rightarrow> f64 \<Rightarrow> f64 \<Rightarrow> f64" where
  "geohash_loop 0 _ lonN latN score = score"
| "geohash_loop (Suc n) w lonN latN score =
     (let (b1, lonN') = geo_bit lonN; score1 = (if b1 then f_add score (Fin w) else score);
          (b2, latN') = geo_bit latN; score2 = (if b2 then f_add score1 (Fin (w / 2)) else score1)
      in geohash_loop n (w / 2) lonN' latN' score2)"

definition encodeGeohash :: "f64 \<Rightarrow> f64 \<Rightarrow> f64" where
  "encodeGeohash lon lat =
     geohash_loop 26 (1 / 2) (f_divc (f_add lon (Fin 180)) 360) (f_divc (f_add lat (Fin 90)) 180) (Fin 0)"

record mathlib =
  m_Sin :: "f64 \<Rightarrow> f64"
  m_Cos :: "f64 \<Rightarrow> f64"
  m_Atan2 :: "f64 \<Rightarrow> f64 \<Rightarrow> f64"
  m_Sqrt :: "f64 \<Rightarrow> f64"

text \<open>The double nearest to pi.\<close>

definition math_Pi :: f64 where
  "math_Pi = Fin (884279719003555 / 281474976710656)"

definition radians :: "f64 \<Rightarrow> f64" where
  "radians x = f_divc (f_mul x math_Pi) 180"

definition haversine :: "mathlib \<Rightarrow> f64 \<Rightarrow> f64 \<Rightarrow> f64 \<Rightarrow> f64 \<Rightarrow> f64" where
  "haversine mt lat1 lon1 lat2 lon2 =
     (let dLat = radians (f_sub lat2 lat1); dLon = radians (f_sub lon2 lon1);
          sLat = m_Sin mt (f_divc dLat 2); sLon = m_Sin mt (f_divc dLon 2);
          a = f_add (f_mul sLat sLat)
                (f_mul (f_mul (f_mul (m_Cos mt (radians lat1)) (m_Cos mt (radians lat2))) sLon) sLon)
      in f_mul (f_mul (round_f64 (6372797560856 / 1000000)) (Fin 2))
           (m_Atan2 mt (m_Sqrt mt a) (m_Sqrt mt (f_sub (Fin 1) a))))"

definition fin_val :: "f64 \<Rightarrow> rat" where
  "fin_val x = (case x of Fin r \<Rightarrow> r | _ \<Rightarrow> 0)"

definition mile :: rat where "mile = fin_val (round_f64 (1609344 / 1000))"
definition feet :: rat where "feet = fin_val (round_f64 (328084 / 100000))"

section \<open>Operations\<close>

fun put_points :: "geoPoint list \<Rightarrow> int \<Rightarrow> (string, geoPoint) gomap \<Rightarrow> (string, geoPoint) gomap \<times> int" where
  "put_points [] added m = (m, added)"
| "put_points (p # ps) added m =
     put_points ps (if map_of m (gp_Name p) = None then added + 1 else added)
       (AList.update (gp_Name p)
         \<lparr>gp_Name = gp_Name p, gp_Longitude = gp_Longitude p, gp_Latitude = gp_Latitude p,
          gp_Score = encodeGeohash (gp_Longitude p) (gp_Latitude p)\<rparr> m)"

fun insert_point :: "geoPoint \<Rightarrow> geoPoint list \<Rightarrow> geoPoint list" where
  "insert_point p [] = [p]"
| "insert_point p (q # qs) = (if f_lt (gp_Score q) (gp_Score p) then q # insert_point p qs else p # q # qs)"

definition sort_points :: "geoPoint list \<Rightarrow> geoPoint list" where
  "sort_points ps = foldr insert_point ps []"

definition GeoAdd :: "int \<Rightarrow> kvstore \<Rightarrow> string \<Rightarrow> geoPoint list \<Rightarrow> kvstore \<times> int res" where
  "GeoAdd now kv key points =
     geo_modify now kv key (\<lambda>g.
       let (m, added) = put_points points 0 (geo_points g)
       in (g\<lparr>geo_points := m, geo_sorted := sort_points (map snd m)\<rparr>, Ok added))"

definition GeoPos :: "int \<Rightarrow> kvstore \<Rightarrow> string \<Rightarrow> string list \<Rightarrow> geoPoint option list res" where
  "GeoPos now kv key members =
     bind_res (geo_read now kv key) (\<lambda>g. Ok (case g of None \<Rightarrow> [] | Some g \<Rightarrow> map (map_of (geo_points g)) members))"

definition GeoDist :: "mathlib \<Rightarrow> int \<Rightarrow> kvstore \<Rightarrow> string \<Rightarrow> string \<Rightarrow> string \<Rightarrow> string \<Rightarrow> f64 res" where
  "GeoDist mt now kv key m1 m2 unit =
     bind_res (geo_read now kv key) (\<lambda>g. case g of
        None \<Rightarrow> Ok (Fin 0)
      | Some g \<Rightarrow>
          (case (map_of (geo_points g) m1, map_of (geo_points g) m2) of
             (Some p1, Some p2) \<Rightarrow>
               let dist = haversine mt (gp_Latitude p1) (gp_Longitude p1) (gp_Latitude p2) (gp_Longitude p2);
                   u = ToLower unit
               in Ok (if u = ''km'' then f_divc dist 1000 else if u = ''mi'' then f_divc dist mile
                      else if u = ''ft'' then f_mul dist (Fin feet) else dist)
           | _ \<Rightarrow> Err (ErrMsg ''member not found'')))"

definition radius_meters :: "f64 \<Rightarrow> string \<Rightarrow> f64" where
  "radius_meters radius unit =
     (let u = ToLower unit
      in if u = ''km'' then f_mul radius (Fin 1000) else if u = ''mi'' then f_mul radius (Fin mile)
         else if u = ''ft'' then f_divc radius feet else radius)"

definition GeoRadius ::
  "mathlib \<Rightarrow> int \<Rightarrow> kvstore \<Rightarrow> string \<Rightarrow> f64 \<Rightarrow> f64 \<Rightarrow> f64 \<Rightarrow> string \<Rightarrow> geoPoint list res" where
  "GeoRadius mt now kv key lon lat radius unit =
     bind_res (geo_read now kv key) (\<lambda>g. Ok (case g of
        None \<Rightarrow> []
      | Some g \<Rightarrow>
          filter (\<lambda>p. f_le (haversine mt lat lon (gp_Latitude p) (gp_Longitude p)) (radius_meters radius unit))
            (map snd (geo_points g))))"

section \<open>Properties\<close>

lemma put_points_wf: "wf_map m \<Longrightarrow> wf_map (fst (put_points ps n m))"
  by (induction ps n m rule: put_points.induct) auto

definition named_point :: "geoPoint list \<Rightarrow> string \<Rightarrow> geoPoint option" where
  "named_point ps n = find (\<lambda>p. gp_Name p = n) (rev ps)"

lemma find_append: "find P (xs @ ys) = (case find P xs of None \<Rightarrow> find P ys | Some x \<Rightarrow> Some x)"
  by (induction xs) auto

lemma put_points_lookup:
  "map_option (\<lambda>p. (gp_Longitude p, gp_Latitude p)) (map_of (fst (put_points ps n m)) x) =
     (case named_point ps x of
        Some p \<Rightarrow> Some (gp_Longitude p, gp_Latitude p)
      | None \<Rightarrow> map_option (\<lambda>p. (gp_Longitude p, gp_Latitude p)) (map_of m x))"
proof (induction ps n m rule: put_points.induct)
  case (2 p ps added m)
  then show ?case by (cases "named_point ps x") (auto simp: named_point_def find_append)
qed (simp add: named_point_def)

lemma wf_geo_add: "wf_geo g \<Longrightarrow> wf_geo (g\<lparr>geo_points := fst (put_points ps n (geo_points g)), geo_sorted := s\<rparr>)"
  by (simp add: wf_geo_def put_points_wf)

lemma GeoAdd_run:
  fixes ps :: "geoPoint list"
  assumes "store_inv kv" and "geo_at now kv key = Some g"
  defines "m \<equiv> fst (put_points ps 0 (geo_points g))"
  shows "geo_at now (fst (GeoAdd now kv key ps)) key = Some (g\<lparr>geo_points := m, geo_sorted := sort_points (map snd m)\<rparr>)"
    and "snd (GeoAdd now kv key ps) = Ok (snd (put_points ps 0 (geo_points g)))"
    and "store_inv (fst (GeoAdd now kv key ps))"
  using geo_store.modify_run [OF assms(1,2), of "\<lambda>g. let (m, added) = put_points ps 0 (geo_points g)
       in (g\<lparr>geo_points := m, geo_sorted := sort_points (map snd m)\<rparr>, Ok added)"]
    wf_geo_add [OF geo_store.content_wf [OF assms(1,2)], where ps = ps and n = 0]
  by (simp_all add: GeoAdd_def m_def case_prod_unfold Let_def)

text \<open>After \<^verbatim>\<open>GeoAdd\<close> every member of the batch has the coordinates it was last given there, and every other member
  the ones it had.\<close>

lemma geo_add_pos:
  assumes "store_inv kv" and "geo_at now kv key = Some g" and "kv_Exists now (fst (GeoAdd now kv key ps)) key"
  shows "\<exists>pts. GeoPos now (fst (GeoAdd now kv key ps)) key [x] = Ok [pts]
    \<and> map_option (\<lambda>p. (gp_Longitude p, gp_Latitude p)) pts =
       (case named_point ps x of
          Some p \<Rightarrow> Some (gp_Longitude p, gp_Latitude p)
        | None \<Rightarrow> map_option (\<lambda>p. (gp_Longitude p, gp_Latitude p)) (map_of (geo_points g) x))"
  using assms(3) GeoAdd_run [OF assms(1,2), of ps]
  by (simp add: GeoPos_def geo_store.getReadOnly_content put_points_lookup)

text \<open>\<^verbatim>\<open>GeoRadius\<close> returns exactly the members whose distance is within the radius.\<close>

lemma geo_radius_exact:
  assumes "store_inv kv" and "geo_at now kv key = Some g" and "GeoRadius mt now kv key lon lat r u = Ok ps" and "kv_Exists now kv key"
  shows "p \<in> set ps \<longleftrightarrow> (\<exists>n. map_of (geo_points g) n = Some p)
    \<and> f_le (haversine mt lat lon (gp_Latitude p) (gp_Longitude p)) (radius_meters r u)"
proof -
  have "wf_map (geo_points g)" using geo_store.content_wf [OF assms(1,2)] by (simp add: wf_geo_def)
  then have "p \<in> snd ` set (geo_points g) \<longleftrightarrow> (\<exists>n. map_of (geo_points g) n = Some p)"
    by (force simp: map_of_iff_mem image_iff)
  moreover have "ps = filter (\<lambda>p. f_le (haversine mt lat lon (gp_Latitude p) (gp_Longitude p)) (radius_meters r u)) (map snd (geo_points g))"
    using assms by (simp add: GeoRadius_def geo_store.getReadOnly_content)
  ultimately show ?thesis by auto
qed

text \<open>The weights of the latitude bits are those of the longitude bits one place on, so the score does not
  interleave the two: places a quarter of the globe apart share one.\<close>

lemma round_samples:
  "round_f64 0 = Fin 0" "round_f64 90 = Fin 90" "round_f64 (1 / 2) = Fin (1 / 2)" "round_f64 (1 / 4) = Fin (1 / 4)"
  by code_simp+

lemma geohash_loop_zero: "geohash_loop n w (Fin 0) (Fin 0) s = s"
  by (induction n arbitrary: w) (simp_all add: geo_bit_def f_le_def round_samples)

lemma geohash_collision:
  "encodeGeohash (Fin (- 180)) (Fin 0) = Fin (1 / 4) \<and> encodeGeohash (Fin (- 90)) (Fin (- 90)) = Fin (1 / 4)"
proof -
  have 1: "geohash_loop (Suc n) (1 / 2) (Fin 0) (Fin (1 / 2)) (Fin 0) = Fin (1 / 4)" for n
    by (simp add: geo_bit_def f_le_def f_sub_def round_samples geohash_loop_zero)
  have 2: "geohash_loop (Suc (Suc n)) (1 / 2) (Fin (1 / 4)) (Fin 0) (Fin 0) = Fin (1 / 4)" for n
    by (simp add: geo_bit_def f_le_def f_sub_def round_samples geohash_loop_zero)
  show ?thesis using 1 [of 25] 2 [of 24] by (simp add: encodeGeohash_def round_samples)
qed

end
