(* ===== verification/DocumentStore.thy ===== *)
theory DocumentStore
  imports StringStore
begin

text \<open>
  The JSON document store of \<^verbatim>\<open>src/internal/engine/document.go\<close>. \<^verbatim>\<open>json.Marshal\<close> and \<^verbatim>\<open>json.Unmarshal\<close> are the
  arguments \<open>enc\<close> and \<open>dec\<close>: \<open>enc\<close> fails with \<open>None\<close>, \<open>dec\<close> into a Go map fails with \<open>None\<close> and gives \<open>Some None\<close>
  (the nil map) on a JSON \<^verbatim>\<open>null\<close>. Paths are split rune by rune as \<^verbatim>\<open>range\<close> decodes a string: a byte that starts
  no valid UTF-8 sequence is replaced by the encoding of U+FFFD.
\<close>

datatype jval = JNull | JBool bool | JNum f64 | JStr string | JArr "jval list" | JObj "(string \<times> jval) list"

type_synonym jobj = "(string, jval) gomap"

section \<open>Runes\<close>

definition byte_in :: "nat \<Rightarrow> nat \<Rightarrow> char \<Rightarrow> bool" where
  "byte_in lo hi c \<longleftrightarrow> lo \<le> of_char c \<and> (of_char c :: nat) \<le> hi"

text \<open>The length of the UTF-8 sequence a string starts with, 0 when it starts with none.\<close>

definition rune_length :: "string \<Rightarrow> nat" where
  "rune_length s =
     (case s of
        [] \<Rightarrow> 0
      | a # r \<Rightarrow>
          if byte_in 0x00 0x7F a then 1
          else (case r of
                  [] \<Rightarrow> 0
                | b # r \<Rightarrow>
                    if byte_in 0xC2 0xDF a \<and> byte_in 0x80 0xBF b then 2
                    else (case r of
                            [] \<Rightarrow> 0
                          | c # r \<Rightarrow>
                              if (byte_in 0xE0 0xE0 a \<and> byte_in 0xA0 0xBF b
                                  \<or> (byte_in 0xE1 0xEC a \<or> byte_in 0xEE 0xEF a) \<and> byte_in 0x80 0xBF b
                                  \<or> byte_in 0xED 0xED a \<and> byte_in 0x80 0x9F b) \<and> byte_in 0x80 0xBF c
                              then 3
                              else (case r of
                                      [] \<Rightarrow> 0
                                    | d # _ \<Rightarrow>
                                        if (byte_in 0xF0 0xF0 a \<and> byte_in 0x90 0xBF b
                                            \<or> byte_in 0xF1 0xF3 a \<and> byte_in 0x80 0xBF b
                                            \<or> byte_in 0xF4 0xF4 a \<and> byte_in 0x80 0x8F b)
                                           \<and> byte_in 0x80 0xBF c \<and> byte_in 0x80 0xBF d
                                        then 4 else 0))))"

definition RuneError :: string where
  "RuneError = [CHR 0xEF, CHR 0xBF, CHR 0xBD]"

function runes :: "string \<Rightarrow> string list" where
  "runes [] = []"
| "runes (a # s) =
     (let n = rune_length (a # s)
      in if n = 0 then RuneError # runes s else take n (a # s) # runes (drop n (a # s)))"
  by pat_completeness auto
termination by (relation "measure length") auto

section \<open>Paths\<close>

fun split_loop :: "string list \<Rightarrow> string \<Rightarrow> string list" where
  "split_loop [] cur = (if cur \<noteq> [] then [cur] else [])"
| "split_loop (c # cs) cur =
     (if c = ''.'' then (if cur \<noteq> [] then cur # split_loop cs [] else split_loop cs [])
      else split_loop cs (cur @ c))"

definition splitPath :: "string \<Rightarrow> string list" where
  "splitPath path = split_loop (runes path) []"

definition path_parts :: "string \<Rightarrow> string list" where
  "path_parts path = splitPath (if take 1 path = ''.'' then tl path else path)"

fun get_parts :: "jval \<Rightarrow> string list \<Rightarrow> jval" where
  "get_parts current [] = current"
| "get_parts current (p # ps) =
     (case current of
        JObj m \<Rightarrow> get_parts (case map_of m p of None \<Rightarrow> JNull | Some v \<Rightarrow> v) ps
      | _ \<Rightarrow> JNull)"

definition getJSONPath :: "jobj \<Rightarrow> string \<Rightarrow> jval" where
  "getJSONPath doc path = (if path = ''.'' \<or> path = [] then JObj doc else get_parts (JObj doc) (path_parts path))"

definition child_map :: "jobj \<Rightarrow> string \<Rightarrow> jobj" where
  "child_map m p = (case map_of m p of Some (JObj n) \<Rightarrow> n | _ \<Rightarrow> [])"

text \<open>The last part is indexed with \<^verbatim>\<open>len(parts)-1\<close>, so no part at all panics; so does an assignment to the nil map,
  which \<open>None\<close> stands for.\<close>

fun set_parts :: "jobj \<Rightarrow> string list \<Rightarrow> jval \<Rightarrow> jobj" where
  "set_parts m [] v = m"
| "set_parts m [p] v = AList.update p v m"
| "set_parts m (p # q # ps) v = AList.update p (JObj (set_parts (child_map m p) (q # ps) v)) m"

definition setJSONPath :: "jobj option \<Rightarrow> string \<Rightarrow> jval \<Rightarrow> jobj option res" where
  "setJSONPath doc path v =
     (if path = ''.'' \<or> path = [] then Ok doc
      else case path_parts path of
             [] \<Rightarrow> Panic
           | parts \<Rightarrow> (case doc of None \<Rightarrow> Panic | Some m \<Rightarrow> Ok (Some (set_parts m parts v))))"

section \<open>Operations\<close>

definition nil_obj :: "jobj option \<Rightarrow> jval" where
  "nil_obj d = (case d of None \<Rightarrow> JNull | Some m \<Rightarrow> JObj m)"

definition Doc_Set :: "(jval \<Rightarrow> bytes option) \<Rightarrow> int \<Rightarrow> kvstore \<Rightarrow> string \<Rightarrow> jval \<Rightarrow> kvstore \<times> unit res" where
  "Doc_Set enc now kv key doc =
     (case enc doc of
        None \<Rightarrow> (kv, Err (ErrMsg ''document marshal''))
      | Some data \<Rightarrow> (kv_Set now kv key (VBytes (Some data)) TypeDocument 0, Ok ()))"

definition Doc_Get :: "int \<Rightarrow> kvstore \<Rightarrow> string \<Rightarrow> slice res" where
  "Doc_Get now kv key =
     (case kv_Get now kv key of
        None \<Rightarrow> Ok None
      | Some e \<Rightarrow>
          if e_type e \<noteq> TypeDocument then Err ErrWrongType
          else case as_bytes (e_value e) of Some b \<Rightarrow> Ok b | None \<Rightarrow> Panic)"

text \<open>Every path of the nil map reads as nil.\<close>

definition Doc_GetPath :: "(bytes \<Rightarrow> jobj option option) \<Rightarrow> int \<Rightarrow> kvstore \<Rightarrow> string \<Rightarrow> string \<Rightarrow> jval res" where
  "Doc_GetPath dec now kv key path =
     bind_res (Doc_Get now kv key) (\<lambda>raw. case raw of
        None \<Rightarrow> Ok JNull
      | Some b \<Rightarrow>
          (case dec b of
             None \<Rightarrow> Err (ErrMsg ''document unmarshal'')
           | Some None \<Rightarrow> Ok JNull
           | Some (Some doc) \<Rightarrow> Ok (getJSONPath doc path)))"

definition Doc_SetPath ::
  "(jval \<Rightarrow> bytes option) \<Rightarrow> (bytes \<Rightarrow> jobj option option) \<Rightarrow> int \<Rightarrow> kvstore \<Rightarrow> string \<Rightarrow> string \<Rightarrow> jval \<Rightarrow> kvstore \<times> unit res"
  where
  "Doc_SetPath enc dec now kv key path v =
     (case Doc_Get now kv key of
        Err e \<Rightarrow> (kv, Err e)
      | Panic \<Rightarrow> (kv, Panic)
      | Ok raw \<Rightarrow>
          (case (case raw of None \<Rightarrow> Some (Some []) | Some b \<Rightarrow> dec b) of
             None \<Rightarrow> (kv, Err (ErrMsg ''json''))
           | Some doc \<Rightarrow>
               (case setJSONPath doc path v of
                  Ok doc' \<Rightarrow> Doc_Set enc now kv key (nil_obj doc')
                | Err e \<Rightarrow> (kv, Err e)
                | Panic \<Rightarrow> (kv, Panic))))"

section \<open>Paths behave\<close>

lemma get_set_parts: "ps \<noteq> [] \<Longrightarrow> get_parts (JObj (set_parts m ps v)) ps = v"
  by (induction m ps v rule: set_parts.induct) auto

lemma get_parts_JNull [simp]: "get_parts JNull ps = JNull"
  by (cases ps) auto

text \<open>Two paths that part ways at some component do not affect each other.\<close>

fun diverge :: "string list \<Rightarrow> string list \<Rightarrow> bool" where
  "diverge (p # ps) (q # qs) \<longleftrightarrow> p \<noteq> q \<or> diverge ps qs"
| "diverge _ _ \<longleftrightarrow> False"

lemma get_parts_child:
  "map_of m p = None \<or> (\<exists>n. map_of m p = Some (JObj n)) \<or> ps \<noteq> [] \<Longrightarrow> ps \<noteq> [] \<Longrightarrow>
   get_parts (JObj (child_map m p)) ps = get_parts (JObj m) (p # ps)"
  by (cases ps) (auto simp: child_map_def split: option.splits jval.splits)

lemma get_set_diverge: "diverge ps qs \<Longrightarrow> get_parts (JObj (set_parts m ps v)) qs = get_parts (JObj m) qs"
proof (induction m ps v arbitrary: qs rule: set_parts.induct)
  case (2 m p v)
  then show ?case by (cases qs) auto
next
  case (3 m p q ps v)
  then obtain r rs where qs: "qs = r # rs" by (cases qs) auto
  show ?case
  proof (cases "r = p")
    case True
    with 3 qs have d: "diverge (q # ps) rs" by simp
    then have "rs \<noteq> []" by (cases rs) auto
    with 3(1) [OF d] get_parts_child [of m p rs] True qs show ?thesis by simp
  qed (simp add: qs)
qed simp


definition sample_dec :: "bytes \<Rightarrow> jobj option option" where
  "sample_dec b = (if b = ''{}'' then Some (Some []) else Some (Some [(''a'', JObj [(''b'', JBool True)])]))"


end
