(* ===== verification/TypeSafety.thy ===== *)
theory TypeSafety
  imports ZSetStore StreamStore BitmapStore GeoStore DocumentStore
begin

text \<open>
  Type safety of the keyspace across all stores. Every entry carries a type tag and a value of interface type;
  the stores test the tag and then assert the Go type the tag announces, which panics when they disagree.
  Here the state-changing operations of all stores are the steps of one machine. Any run keeps tag and value
  in agreement, so no operation panics on a failed assertion, and every reader is safe afterwards.
\<close>

datatype store_op =
    OSet int string slice int bool bool
  | OGetSet int string slice
  | OIncr int string int
  | OAppend int string slice
  | OSetRange int string int bytes
  | OHSet int string "(string, slice) gomap"
  | OHDel int string "string list"
  | OHIncrBy int string string int
  | OLPush int string "slice list"
  | ORPush int string "slice list"
  | OLPop int string int
  | ORPop int string int
  | OLSet int string int slice
  | OLTrim int string int int
  | OSAdd int string "bytes list"
  | OSRem int string "bytes list"
  | OSPop "string list \<Rightarrow> string list" int string int
  | OZAdd int string "(string, f64) gomap"
  | OZRem int string "string list"
  | OZIncrBy int string string f64
  | OXAdd int string string "(string, string) gomap" int
  | OXGroupCreate int string string string
  | OXReadGroup int string string string string int
  | OXAck int string string "string list"
  | OSetBit int string int int
  | OGeoAdd int string "geoPoint list"
  | ODocSet "jval \<Rightarrow> bytes option" int string jval
  | ODelete "string list"
  | OPersist int string
  | ORename int int int string string
  | OFlushAll
  | OReap int int

definition panics :: "'a res \<Rightarrow> bool" where
  "panics r \<longleftrightarrow> (case r of Panic \<Rightarrow> True | _ \<Rightarrow> False)"

definition outcome :: "kvstore \<times> 'a res \<Rightarrow> kvstore \<times> bool" where
  "outcome p = (fst p, panics (snd p))"

text \<open>One operation: the new store and whether it panicked.\<close>

fun store_step :: "kvstore \<Rightarrow> store_op \<Rightarrow> kvstore \<times> bool" where
  "store_step kv (OSet now k v ttl nx xx) = (fst (Str_Set now kv k v ttl nx xx), False)"
| "store_step kv (OGetSet now k v) = outcome (Str_GetSet now kv k v)"
| "store_step kv (OIncr now k d) = outcome (Str_Incr now kv k d)"
| "store_step kv (OAppend now k v) = outcome (Str_Append now kv k v)"
| "store_step kv (OSetRange now k off v) = outcome (Str_SetRange now kv k off v)"
| "store_step kv (OHSet now k ps) = outcome (HSet now kv k ps)"
| "store_step kv (OHDel now k fs) = outcome (HDel now kv k fs)"
| "store_step kv (OHIncrBy now k f d) = outcome (HIncrBy now kv k f d)"
| "store_step kv (OLPush now k vs) = outcome (LPush now kv k vs)"
| "store_step kv (ORPush now k vs) = outcome (RPush now kv k vs)"
| "store_step kv (OLPop now k n) = outcome (LPop now kv k n)"
| "store_step kv (ORPop now k n) = outcome (RPop now kv k n)"
| "store_step kv (OLSet now k i v) = outcome (LSet now kv k i v)"
| "store_step kv (OLTrim now k a b) = outcome (LTrim now kv k a b)"
| "store_step kv (OSAdd now k ms) = outcome (SAdd now kv k ms)"
| "store_step kv (OSRem now k ms) = outcome (SRem now kv k ms)"
| "store_step kv (OSPop sh now k n) = outcome (SPop sh now kv k n)"
| "store_step kv (OZAdd now k ms) = outcome (ZAdd now kv k ms)"
| "store_step kv (OZRem now k ms) = outcome (ZRem now kv k ms)"
| "store_step kv (OZIncrBy now k m d) = outcome (ZIncrBy now kv k m d)"
| "store_step kv (OXAdd now k i fs n) = outcome (XAdd now kv k i fs n)"
| "store_step kv (OXGroupCreate now k g s) = outcome (XGroupCreate now kv k g s)"
| "store_step kv (OXReadGroup now k g c l n) = outcome (XReadGroup now kv k g c l n)"
| "store_step kv (OXAck now k g ids) = outcome (XAck now kv k g ids)"
| "store_step kv (OSetBit now k i v) = outcome (SetBit now kv k i v)"
| "store_step kv (OGeoAdd now k ps) = outcome (GeoAdd now kv k ps)"
| "store_step kv (ODocSet enc now k d) = outcome (Doc_Set enc now kv k d)"
| "store_step kv (ODelete ks) = (fst (kv_Delete kv ks), False)"
| "store_step kv (OPersist now k) = (fst (kv_Persist now kv k), False)"
| "store_step kv (ORename t1 t2 t3 a b) = (fst (kv_Rename t1 t2 t3 kv a b), False)"
| "store_step kv OFlushAll = (kv_FlushAll kv, False)"
| "store_step kv (OReap now n) = (fst (kv_DeleteExpiredLimit now kv n), False)"

text \<open>The arguments the commands pass on after parsing: no negative counts or offsets, which make the code slice
  out of range.\<close>

fun op_ok :: "store_op \<Rightarrow> bool" where
  "op_ok (OSetRange _ _ off v) \<longleftrightarrow> 0 \<le> off \<and> off + int (length v) \<le> max_int64"
| "op_ok (OLPop _ _ n) \<longleftrightarrow> 0 \<le> n"
| "op_ok (ORPop _ _ n) \<longleftrightarrow> 0 \<le> n"
| "op_ok (OSPop _ _ _ n) \<longleftrightarrow> 0 \<le> n"
| "op_ok (OSetBit _ _ i _) \<longleftrightarrow> 0 \<le> i"
| "op_ok _ \<longleftrightarrow> True"

fun store_run :: "kvstore \<Rightarrow> store_op list \<Rightarrow> kvstore \<times> bool" where
  "store_run kv [] = (kv, False)"
| "store_run kv (p # ps) =
     (case store_step kv p of (kv1, True) \<Rightarrow> (kv1, True) | (kv1, False) \<Rightarrow> store_run kv1 ps)"

section \<open>One step\<close>

definition safe :: "kvstore \<times> bool \<Rightarrow> bool" where
  "safe p \<longleftrightarrow> store_inv (fst p) \<and> \<not> snd p"

lemma safe_outcome: "safe (outcome p) \<longleftrightarrow> store_inv (fst p) \<and> snd p \<noteq> Panic"
  by (auto simp: safe_def outcome_def panics_def split: res.splits)

lemma safe_pair: "safe (kv, False) \<longleftrightarrow> store_inv kv"
  by (simp add: safe_def)

lemma read_group_wf: "wf_map (g_Consumers g) \<Longrightarrow> wf_map (g_Consumers (fst (read_group c n es g)))"
  by (simp add: read_group_def Let_def case_prod_unfold)

lemma ack_group_wf: "wf_map (g_Consumers g) \<Longrightarrow> wf_map (g_Consumers (fst (ack_group ids g)))"
  by (simp add: ack_group_def wf_map_def comp_def case_prod_unfold)

lemma wf_stream_lookup: "wf_stream st \<Longrightarrow> map_of (s_groups st) n = Some g \<Longrightarrow> wf_map (g_Consumers g)"
  by (auto simp: wf_stream_def dest!: map_of_SomeD)

lemma foldl_delete_wf: "wf_map s \<Longrightarrow> wf_map (foldl (\<lambda>s m. AList.delete m s) s ms)"
  by (induction ms arbitrary: s) auto

text \<open>What the contract of a typed store gives for each of them.\<close>

context typed_store
begin

lemma safe_modify:
  assumes "store_inv kv" and "\<And>x. wf x \<Longrightarrow> wf (fst (body x)) \<and> snd (body x) \<noteq> Panic"
  shows "safe (outcome (modify ty wrap proj fresh now kv key body))"
proof -
  have "store_inv (fst (modify ty wrap proj fresh now kv key body))"
    using assms by (intro modify_safe(1)) auto
  moreover have "snd (modify ty wrap proj fresh now kv key body) \<noteq> Panic"
    using assms by (intro modify_safe(3)) auto
  ultimately show ?thesis by (simp add: safe_outcome)
qed

end

lemma safe_SetBit:
  assumes "store_inv kv" and "0 \<le> i"
  shows "safe (outcome (SetBit now kv key i v))"
proof (cases "bitmap now kv key")
  case (Some buf)
  with SetBit_bits [OF assms(1) Some, of "nat i" v] assms(2) show ?thesis by (simp add: safe_outcome)
next
  case None
  then obtain e where e: "kv_Get now kv key = Some e" "\<not> is_bitmap e"
    using is_bitmap_bytes [OF assms(1)] by (fastforce simp: bitmap_def split: option.splits if_splits)
  have i: "kv_inv kv" using assms(1) by (simp add: store_inv_def)
  obtain kv0 where g: "kv_GetForWrite now kv key = (kv0, kv_Get now kv key)"
    using kv_GetForWrite_spec(2) [OF i] by (metis prod.collapse)
  then have "SetBit now kv key i v = (kv0, Err ErrWrongType)" using e by (simp add: SetBit_def getBitmap_def)
  then show ?thesis using store_inv_GetForWrite [OF assms(1), of now key] g by (simp add: safe_outcome)
qed

lemma safe_keyspace:
  assumes "store_inv kv"
  shows "store_inv (fst (kv_Delete kv ks))" and "store_inv (fst (kv_Persist now kv k))"
    and "store_inv (fst (kv_Rename t1 t2 t3 kv a b))" and "store_inv (kv_FlushAll kv)"
  using assms
  by (simp_all add: store_inv_def kv_typed_Delete kv_typed_Persist kv_typed_Rename kv_typed_FlushAll kv_deadlines_ops
      kv_deadlines_Rename kv_deadlines_FlushAll kv_Delete_inv kv_Persist_inv kv_Rename_inv kv_FlushAll_inv
      del: kv_Delete.simps)

lemma safe_reap:
  assumes "store_inv kv"
  shows "store_inv (fst (kv_DeleteExpiredLimit now kv n))"
proof -
  have i: "kv_inv kv" "kv_typed kv" "kv_deadlines kv" using assms by (simp_all add: store_inv_def)
  have "kv_typed (fst (kv_DeleteExpiredLimit now kv n))"
    unfolding kv_typed_find [OF kv_reap_inv [OF i(1)]]
    using kv_reap_find [OF i(1), of now n] i(2) unfolding kv_typed_find [OF i(1)] by (metis option.distinct(1))
  with i show ?thesis by (simp add: store_inv_def kv_reap_inv kv_reap_deadlines)
qed

lemmas list_bodies = LPush_def RPush_def LPop_def RPop_def LSet_def LTrim_def lpush_body_def rpush_body_def
  lpop_body_def rpop_body_def lset_body_def ltrim_body_def Let_def

lemma safe_list:
  assumes "store_inv kv"
  shows "safe (outcome (LPush now kv k vs))" and "safe (outcome (RPush now kv k vs))"
    and "0 \<le> n \<Longrightarrow> safe (outcome (LPop now kv k n))" and "0 \<le> n \<Longrightarrow> safe (outcome (RPop now kv k n))"
    and "safe (outcome (LSet now kv k i v))" and "safe (outcome (LTrim now kv k a b))"
  using assms by (auto simp: list_bodies intro!: list_store.safe_modify split: if_splits)

lemma safe_step:
  assumes inv: "store_inv kv" and ok: "op_ok p"
  shows "safe (store_step kv p)"
proof (cases p)
  case (OSet now k v ttl nx xx)
  then show ?thesis using inv by (auto simp: safe_def Str_Set_def intro!: store_inv_kv_Set)
next
  case (OHSet now k ps)
  then show ?thesis using inv by (auto simp: HSet_def case_prod_unfold Let_def hset_body_wf intro!: hash_store.safe_modify)
next
  case (OHDel now k fs)
  then show ?thesis using inv by (auto simp: HDel_def case_prod_unfold Let_def hdel_body_wf intro!: hash_store.safe_modify)
next
  case (OHIncrBy now k f d)
  then show ?thesis using inv
    by (auto simp: HIncrBy_def hincrby_wf intro!: hash_store.safe_modify)
      (auto simp: hincrby_body_def Let_def split: option.splits prod.splits)
next
  case (OSAdd now k ms)
  then show ?thesis using inv by (auto simp: SAdd_def case_prod_unfold Let_def sadd_body_spec intro!: set_store.safe_modify)
next
  case (OSRem now k ms)
  then show ?thesis using inv by (auto simp: SRem_def case_prod_unfold Let_def srem_body_spec intro!: set_store.safe_modify)
next
  case (OSPop sh now k n)
  then show ?thesis using inv ok
    by (auto simp: SPop_def spop_body_def pick_def Let_def foldl_delete_wf intro!: set_store.safe_modify split: if_splits)
next
  case (OZAdd now k ms)
  then show ?thesis using inv by (auto simp: ZAdd_def case_prod_unfold Let_def wf_zset_ops intro!: zset_store.safe_modify)
next
  case (OZRem now k ms)
  then show ?thesis using inv by (auto simp: ZRem_def case_prod_unfold Let_def wf_zset_ops intro!: zset_store.safe_modify)
next
  case (OZIncrBy now k m d)
  then show ?thesis using inv
    by (auto simp: ZIncrBy_def wf_zset_ops intro!: zset_store.safe_modify) (simp add: zincrby_zput Let_def)
next
  case (OXAdd now k i fs n)
  then show ?thesis using inv by (auto simp: XAdd_def Let_def wf_stream_entries intro!: stream_store.safe_modify)
next
  case (OXGroupCreate now k g s)
  then show ?thesis using inv 
    by (auto simp: XGroupCreate_def intro!: stream_store.safe_modify wf_stream_group split: if_splits)
next
  case (OXReadGroup now k g c l n)
  then show ?thesis using inv
    by (auto simp: XReadGroup_def case_prod_unfold Let_def intro!: stream_store.safe_modify wf_stream_group read_group_wf
        intro: wf_stream_lookup split: option.splits)
next
  case (OXAck now k g ids)
  then show ?thesis using inv
    by (auto simp: XAck_def case_prod_unfold Let_def intro!: stream_store.safe_modify wf_stream_group ack_group_wf
        intro: wf_stream_lookup split: option.splits)
next
  case (OGeoAdd now k ps)
  then show ?thesis using inv by (auto simp: GeoAdd_def case_prod_unfold Let_def wf_geo_add intro!: geo_store.safe_modify)
next
  case (ODocSet enc now k d)
  then show ?thesis using inv
    by (auto simp: safe_outcome Doc_Set_def shape_def intro!: store_inv_kv_Set split: option.splits)
next
  case (OLPush now k vs)
  then show ?thesis using safe_list(1) [OF inv] by (simp only: store_step.simps op_ok.simps)
next
  case (ORPush now k vs)
  then show ?thesis using safe_list(2) [OF inv] by (simp only: store_step.simps op_ok.simps)
next
  case (OLPop now k n)
  then show ?thesis using ok safe_list(3) [OF inv] by (simp only: store_step.simps op_ok.simps)
next
  case (ORPop now k n)
  then show ?thesis using ok safe_list(4) [OF inv] by (simp only: store_step.simps op_ok.simps)
next
  case (OLSet now k i v)
  then show ?thesis using safe_list(5) [OF inv] by (simp only: store_step.simps op_ok.simps)
next
  case (OLTrim now k a b)
  then show ?thesis using safe_list(6) [OF inv] by (simp only: store_step.simps op_ok.simps)
next
  case (OSetBit now k i v)
  then show ?thesis using inv ok by (simp add: safe_SetBit)
qed (use inv ok in \<open>simp_all add: safe_outcome safe_pair Str_GetSet_safe Str_Incr_safe Str_Append_safe Str_SetRange_safe
      safe_keyspace safe_reap\<close>)

section \<open>Runs\<close>

lemma store_run_safe:
  "store_inv kv \<Longrightarrow> list_all op_ok ps \<Longrightarrow> safe (store_run kv ps)"
proof (induction ps arbitrary: kv)
  case (Cons p ps)
  then have "safe (store_step kv p)" by (simp add: safe_step)
  then obtain kv1 where "store_step kv p = (kv1, False)" "store_inv kv1"
    by (metis (full_types) safe_def prod.collapse)
  with Cons show ?case by simp
qed (simp add: safe_def)



end
