(* ===== verification/Spec2Isabelle.thy ===== *)
theory Spec2Isabelle
  imports HashUtil KVTrace KVScan StringStore HashStore ListStore SetStore ZSetStore WALPayload WALLog Protocol Envelope Recovery Locks CrashRecovery Session Cluster ReplicaStream Cache TypeSafety
begin

text \<open>
  A verification development of DBX, a multi-tenant database server written in Go (the sources are under
  \<^verbatim>\<open>src/\<close>, the server under \<^verbatim>\<open>src/internal\<close>).

  \<^bold>\<open>The program.\<close> A tenant is a keyspace held in memory by a sharded store (\<^verbatim>\<open>engine\<close>), with strings, hashes, lists,
  sets, sorted sets, bitmaps, streams, geo points, JSON documents and vector indexes as values. A client speaks
  RESP over a connection (\<^verbatim>\<open>api\<close>, \<^verbatim>\<open>protocol\<close>); each command passes the rate limiter, the access control list and
  the audit log (\<^verbatim>\<open>security\<close>, \<^verbatim>\<open>auth\<close>) and reaches the executor (\<^verbatim>\<open>query\<close>), which writes its effects to the
  write-ahead log (\<^verbatim>\<open>persistence\<close>) before it applies them. Checkpoints write a snapshot and compact the log;
  recovery loads the snapshot and replays the rest. A primary streams its records to replicas
  (\<^verbatim>\<open>replication\<close>); a cluster divides hash slots among nodes (\<^verbatim>\<open>cluster\<close>).

  \<^bold>\<open>Conventions.\<close> A byte string is a \<open>string\<close>, a slice that may be nil an \<open>option\<close> of it; \<^verbatim>\<open>int\<close> and \<^verbatim>\<open>int64\<close> are
  integers wrapped by \<open>i64\<close> where the code can overflow, unsigned integers are words of their width; a Go map is an
  association list with distinct keys (\<open>wf_map\<close>); \<^verbatim>\<open>float64\<close> is the datatype \<open>f64\<close> with IEEE rounding. A result is
  \<open>Ok\<close>, \<open>Err\<close> or \<open>Panic\<close>. Every clock reading, random draw and callback is an argument. A section under one mutex is
  one step, and concurrency is a sequence of such steps. Code outside the repository is an argument too: AES-GCM
  (\<open>gcm_seal\<close>, \<open>gcm_open\<close> under \<open>gcm_spec\<close>), \<^verbatim>\<open>encoding/gob\<close> (\<open>gob_enc\<close>, \<open>gob_dec\<close> under \<open>gob_faithful\<close>), the JSON coder.

  \<^bold>\<open>Theories and sources.\<close>
  \<^item> \<open>Prelude\<close>, \<open>Float64\<close>, \<open>SortSearch\<close>, \<open>ByteCodec\<close>, \<open>Sha256\<close>: shared types and lemmas, doubles, \<^verbatim>\<open>sort.Search\<close>, fixed-width
    codecs and CRC-32 (\<^verbatim>\<open>util/codec.go\<close>, \<^verbatim>\<open>persistence/checksum.go\<close>; locale \<open>codec\<close>), SHA-256 and HMAC.
  \<^item> \<open>HashUtil\<close>: \<^verbatim>\<open>util/hash.go\<close>; slot numbers against the Redis rule, and the rows of the CRC table that are wrong.
  \<^item> \<open>ExpiryHeap\<close> (locale \<open>deadline_queue\<close>), \<open>Values\<close>, \<open>KV\<close>, \<open>KVExpiry\<close>, \<open>KVTrace\<close>, \<open>Glob\<close>, \<open>KVScan\<close>: \<^verbatim>\<open>engine/kv.go\<close>. The store refines
    a flat map for every sequence of operations (locale \<open>keyspace\<close>); the reaper deletes only what is due, and with no
    limit all of it; scans see each live key once; the matcher agrees with the reading of a glob pattern.
  \<^item> \<open>Typed\<close> (locale \<open>typed_store\<close>), \<open>StringStore\<close>, \<open>HashStore\<close>, \<open>ListStore\<close>, \<open>SetStore\<close>, \<open>ZSetStore\<close>, \<open>BitmapStore\<close>, \<open>StreamStore\<close>,
    \<open>GeoStore\<close>, \<open>DocumentStore\<close>: the file of \<^verbatim>\<open>engine\<close> with that name. Operations have the effect of their body on the
    value and on nothing else. \<open>TypeSafety\<close>: no sequence of operations of these stores separates a value from its tag.
  \<^item> \<open>Encryption\<close>, \<open>Envelope\<close>: \<^verbatim>\<open>security/encryption.go\<close>, \<^verbatim>\<open>isolation/envelope.go\<close>; the data key of a tenant is stable, and
    without it nothing opens.
  \<^item> \<open>WAL\<close>, \<open>WALPayload\<close>, \<open>WALStore\<close>, \<open>WALLog\<close>: \<^verbatim>\<open>persistence/wal.go\<close>, \<^verbatim>\<open>compaction.go\<close>. Round trips of segments and
    payloads, torn tails, detected corruption; the running log refines a segmented list of records, and a crash
    leaves a prefix.
  \<^item> \<open>Recovery\<close>: \<^verbatim>\<open>persistence/snapshot.go\<close>, \<^verbatim>\<open>recovery.go\<close>. \<open>Locks\<close>, \<open>Transaction\<close>: \<^verbatim>\<open>transaction\<close>; ordered acquisition is free
    of deadlock, snapshots and watched keys. \<open>PubSub\<close>: \<^verbatim>\<open>events/pubsub.go\<close>.
  \<^item> \<open>Protocol\<close>: \<^verbatim>\<open>protocol\<close>; what the parser reads back from an encoded command.
  \<^item> \<open>Executor\<close>, \<open>Commands\<close>, \<open>VectorCommands\<close>, \<open>Dispatch\<close>: \<^verbatim>\<open>query/executor.go\<close>, \<^verbatim>\<open>vector_query.go\<close>, \<^verbatim>\<open>fsm.go\<close>.
  \<^item> \<open>Durability\<close>, \<open>DurableSystem\<close>, \<open>CrashRecovery\<close>: commands, reaper, checkpoints, crash and recovery together. What is
    recovered is what was lost; the last section shows the cases outside the guarantee.
  \<^item> \<open>Auth\<close>, \<open>Security\<close>, \<open>Session\<close>: \<^verbatim>\<open>auth\<close>, \<^verbatim>\<open>security\<close>, \<^verbatim>\<open>api/server.go\<close>. Every executed command was allowed to the user the
    connection then had; a removed user loses access with its next command; the loop ends; connections are counted.
  \<^item> \<open>Cluster\<close>: \<^verbatim>\<open>cluster\<close>, \<^verbatim>\<open>orchestrator/hashring.go\<close>; slots are partitioned, and a new worker takes keys only for itself.
  \<^item> \<open>Replication\<close>, \<open>ReplicaStream\<close>: \<^verbatim>\<open>replication\<close>; the handshake authenticates both sides, and a replica applies a prefix
    of the stream whatever the network does to it.
  \<^item> \<open>Cache\<close>: \<^verbatim>\<open>cache\<close>; eviction ends exactly for positive capacities and drops the least recently used entries.

  \<^bold>\<open>Loops and bounds.\<close> All functions are total except \<open>evict_loop\<close>, whose loop can run forever and which is a
  \<open>partial_function\<close>; \<open>lru_set_terminates\<close> says when it returns. \<open>EXEC\<close> dispatches queued commands, which cannot be
  \<open>EXEC\<close> again, so one level of nesting is enough. No fuel is used. The hypotheses that bound inputs are the limits of
  the formats: record and key sizes in the log, fewer than \<open>2^64\<close> records, clocks that do not overflow.

  \<^bold>\<open>Not modelled.\<close> The vector store (\<^verbatim>\<open>engine/vector.go\<close>, \<^verbatim>\<open>vector_migration.go\<close>, \<^verbatim>\<open>hnsw*.go\<close>): memory-mapped rows and
  approximate search in single precision; the executor takes it as the record \<open>vecops\<close>, and the durability properties
  assume it holds no index (\<open>vec_idle\<close>). The commands that only report (\<^verbatim>\<open>INFO\<close>, vector search, geo and JSON commands)
  are the argument \<open>rest\<close> of the dispatcher. Sockets, TLS, listeners, deadlines and reconnect loops; processes,
  cgroups, Landlock and seccomp (\<^verbatim>\<open>isolation\<close>); the orchestrator's supervision, HTTP interfaces, proxies and backup
  archives; Raft itself; configuration loading, logging and metrics; \<^verbatim>\<open>workflow\<close> and the unused helpers of \<^verbatim>\<open>util\<close>; programs,
  scripts and the dashboard: these act through the operating system or libraries outside the repository, or hold
  no state the other parts rely on.
\<close>

end
